(* ===== verification/Prelude.thy ===== *)
theory Prelude
  imports Main "HOL-Library.AList" "HOL-Library.Word"
begin

text \<open>
  Shared vocabulary of the development. Python exceptions are the values of \<open>py_error\<close>, a
  fallible operation returns \<open>'a res\<close> (\<open>Inl\<close> the exception), and a Python \<open>dict\<close>, whose
  iteration order is its insertion order, is an association list updated with
  \<open>AList.update\<close> (which overwrites in place and appends new keys at the end, as
  Python does). The lemmas below are the facts on results, dictionaries, lists and
  two's-complement integers that several components share.
\<close>

unbundle bit_operations_syntax

named_theorems dict_simps \<open>rewriting of dictionary look-ups, updates and key lists\<close>
named_theorems res_simps \<open>evaluation of fallible operations\<close>

subsection \<open>Exceptions and fallible results\<close>

datatype py_error =
    IndexError
  | KeyError
  | ValueError
  | TypeError
  | OverflowError
  | ZeroDivisionError
  | AssertionError
  | AttributeError
  | StopIteration
  | UnboundLocalError
  | UnicornError
  | RuntimeError
  | IOError
  | TimeoutError
  | NameError
  | FileNotFoundError
  | StructError
  | NotSupportedException
  | GeneratorException
  | AsmParserException nat
  | ConfigException
  | Gem5Crash
  | PyException
  | SystemExit

type_synonym 'a res = "py_error + 'a"

definition res_bind :: "'a res \<Rightarrow> ('a \<Rightarrow> 'b res) \<Rightarrow> 'b res" where
  "res_bind r f = (case r of Inl e \<Rightarrow> Inl e | Inr x \<Rightarrow> f x)"

definition py_assert :: "bool \<Rightarrow> unit res" where
  "py_assert b = (if b then Inr () else Inl AssertionError)"

text \<open>\<open>res_fold f xs s\<close> runs \<open>for x in xs\<close> with a body that may raise.\<close>

fun res_fold :: "('a \<Rightarrow> 's \<Rightarrow> 's res) \<Rightarrow> 'a list \<Rightarrow> 's \<Rightarrow> 's res" where
  "res_fold f [] s = Inr s"
| "res_fold f (x # xs) s = res_bind (f x s) (res_fold f xs)"

text \<open>\<open>res_map f xs\<close> is the list comprehension \<open>[f(x) for x in xs]\<close>.\<close>

fun res_map :: "('a \<Rightarrow> 'b res) \<Rightarrow> 'a list \<Rightarrow> 'b list res" where
  "res_map f [] = Inr []"
| "res_map f (x # xs) = res_bind (f x) (\<lambda>y. res_bind (res_map f xs) (\<lambda>ys. Inr (y # ys)))"

lemma res_bind_simps [simp, res_simps]:
  "res_bind (Inl e) f = Inl e"
  "res_bind (Inr x) f = f x"
  by (simp_all add: res_bind_def)

lemma res_bind_Inr_iff [res_simps]:
  "res_bind r f = Inr y \<longleftrightarrow> (\<exists>x. r = Inr x \<and> f x = Inr y)"
  by (cases r) auto

lemma res_bind_Inl_iff:
  "res_bind r f = Inl e \<longleftrightarrow> r = Inl e \<or> (\<exists>x. r = Inr x \<and> f x = Inl e)"
  by (cases r) auto

lemma res_bind_assoc:
  "res_bind (res_bind r f) g = res_bind r (\<lambda>x. res_bind (f x) g)"
  by (cases r) auto

lemma py_assert_Inr [simp]: "py_assert b = Inr u \<longleftrightarrow> b"
  by (simp add: py_assert_def)

lemma list_all2_preimage: "list_all2 P xs ys \<Longrightarrow> y \<in> set ys \<Longrightarrow> \<exists>x \<in> set xs. P x y"
  by (induction rule: list_all2_induct) auto

lemma res_fold_append:
  "res_fold f (xs @ ys) s = res_bind (res_fold f xs s) (res_fold f ys)"
proof (induction xs arbitrary: s)
  case (Cons x xs)
  then show ?case by (cases "f x s") simp_all
qed simp

lemma res_fold_single [simp]: "res_fold f [x] = f x"
proof
  show "res_fold f [x] s = f x s" for s by (cases "f x s") simp_all
qed

lemma res_fold_total:
  assumes "\<And>x s. x \<in> set xs \<Longrightarrow> f x s = Inr (g x s)"
  shows "res_fold f xs s = Inr (fold g xs s)"
  using assms by (induction xs arbitrary: s) auto

lemma res_fold_invariant:
  assumes "res_fold f xs s = Inr t" and "P s"
    and "\<And>x s s'. x \<in> set xs \<Longrightarrow> P s \<Longrightarrow> f x s = Inr s' \<Longrightarrow> P s'"
  shows "P t"
  using assms by (induction xs arbitrary: s) (auto simp: res_bind_Inr_iff)

lemma res_map_total:
  "(\<And>x. x \<in> set xs \<Longrightarrow> f x = Inr (g x)) \<Longrightarrow> res_map f xs = Inr (map g xs)"
  by (induction xs) auto

lemma res_map_Inr_iff:
  "res_map f xs = Inr ys \<longleftrightarrow> list_all2 (\<lambda>x y. f x = Inr y) xs ys"
proof (induction xs arbitrary: ys)
  case Nil
  then show ?case by auto
next
  case (Cons x xs)
  then show ?case by (cases ys) (auto simp: res_bind_Inr_iff)
qed

lemma res_map_cong [fundef_cong]:
  "xs = ys \<Longrightarrow> (\<And>x. x \<in> set ys \<Longrightarrow> f x = g x) \<Longrightarrow> res_map f xs = res_map g ys"
  by (induction ys arbitrary: xs) auto

lemma res_bind_cong [fundef_cong]:
  "r = r' \<Longrightarrow> (\<And>x. r' = Inr x \<Longrightarrow> f x = g x) \<Longrightarrow> res_bind r f = res_bind r' g"
  by (cases r') auto

lemma res_map_length: "res_map f xs = Inr ys \<Longrightarrow> length ys = length xs"
  by (auto simp: res_map_Inr_iff dest: list_all2_lengthD)

subsection \<open>Sequences: Python indexing\<close>

text \<open>\<open>xs[i]\<close> for a non-negative index, and \<open>xs[i]\<close> for any integer index.\<close>

definition py_nth :: "'a list \<Rightarrow> nat \<Rightarrow> 'a res" where
  "py_nth xs i = (if i < length xs then Inr (xs ! i) else Inl IndexError)"

definition py_index :: "'a list \<Rightarrow> int \<Rightarrow> 'a res" where
  "py_index xs i =
     (let j = (if i < 0 then int (length xs) + i else i)
      in if 0 \<le> j \<and> j < int (length xs) then Inr (xs ! nat j) else Inl IndexError)"

text \<open>\<open>max(xs, key=f)\<close>: the first element with the greatest key.\<close>

fun py_max_from :: "('a \<Rightarrow> int) \<Rightarrow> 'a \<Rightarrow> 'a list \<Rightarrow> 'a" where
  "py_max_from f m [] = m"
| "py_max_from f m (x # xs) = py_max_from f (if f m < f x then x else m) xs"

definition py_max_key :: "('a \<Rightarrow> int) \<Rightarrow> 'a list \<Rightarrow> 'a res" where
  "py_max_key f xs = (case xs of [] \<Rightarrow> Inl ValueError | x # ys \<Rightarrow> Inr (py_max_from f x ys))"

lemma py_nth_in [simp]: "i < length xs \<Longrightarrow> py_nth xs i = Inr (xs ! i)"
  by (simp add: py_nth_def)

lemma py_nth_out [simp]: "length xs \<le> i \<Longrightarrow> py_nth xs i = Inl IndexError"
  by (simp add: py_nth_def)

lemma py_max_from_in: "py_max_from f m xs \<in> insert m (set xs)"
proof (induction xs arbitrary: m)
  case (Cons x xs)
  from Cons [of "if f m < f x then x else m"] show ?case by (auto split: if_splits)
qed simp

lemma py_max_from_ge: "y \<in> insert m (set xs) \<Longrightarrow> f y \<le> f (py_max_from f m xs)"
proof (induction xs arbitrary: m y)
  case (Cons x xs)
  have "f (if f m < f x then x else m) \<le> f (py_max_from f (if f m < f x then x else m) xs)"
    by (rule Cons.IH) simp
  moreover have "y \<in> set xs \<Longrightarrow> f y \<le> f (py_max_from f (if f m < f x then x else m) xs)"
    by (rule Cons.IH) simp
  ultimately show ?case using Cons.prems by (auto split: if_splits)
qed simp

lemma py_max_key_correct:
  assumes "xs \<noteq> []"
  obtains m where "py_max_key f xs = Inr m" and "m \<in> set xs"
    and "\<And>y. y \<in> set xs \<Longrightarrow> f y \<le> f m"
proof (cases xs)
  case Nil
  with assms show ?thesis by simp
next
  case (Cons x ys)
  then show ?thesis
    using py_max_from_in [of f x ys] py_max_from_ge [of _ x ys f]
    by (intro that [of "py_max_from f x ys"]) (auto simp: py_max_key_def)
qed

subsection \<open>Dictionaries in insertion order\<close>

type_synonym ('k, 'v) dict = "('k \<times> 'v) list"

definition dict_get :: "('k, 'v) dict \<Rightarrow> 'k \<Rightarrow> 'v res" where
  "dict_get d k = (case map_of d k of None \<Rightarrow> Inl KeyError | Some v \<Rightarrow> Inr v)"

definition dict_default :: "('k, 'v) dict \<Rightarrow> 'v \<Rightarrow> 'k \<Rightarrow> 'v" where
  "dict_default d v k = (case map_of d k of None \<Rightarrow> v | Some w \<Rightarrow> w)"

lemma map_of_AList_update [simp, dict_simps]:
  "map_of (AList.update k v d) = (map_of d)(k \<mapsto> v)"
  by (rule AList.update_conv')

lemma set_keys_AList_update [simp, dict_simps]:
  "fst ` set (AList.update k v d) = insert k (fst ` set d)"
  by (metis dom_fun_upd dom_map_of_conv_image_fst map_of_AList_update option.distinct(1))

lemma distinct_keys_AList_update [simp, dict_simps]:
  "distinct (map fst d) \<Longrightarrow> distinct (map fst (AList.update k v d))"
  by (rule AList.distinct_update)

lemma dict_default_update [simp, dict_simps]:
  "dict_default (AList.update k v d) w k' = (if k' = k then v else dict_default d w k')"
  by (simp add: dict_default_def)

text \<open>
  A loop \<open>for x in xs: d[key(x)] = f(d.get(key(x)), x)\<close>: what a key holds afterwards depends
  only on the elements with that key, in their order.
\<close>

lemma map_of_fold_update:
  "map_of (fold (\<lambda>x d. AList.update (key x) (f (map_of d (key x)) x) d) xs d) k =
   fold (\<lambda>x v. Some (f v x)) (filter (\<lambda>x. key x = k) xs) (map_of d k)"
  by (induction xs arbitrary: d) auto

lemma keys_fold_update:
  "fst ` set (fold (\<lambda>x d. AList.update (key x) (f (map_of d (key x)) x) d) xs d) =
   fst ` set d \<union> key ` set xs"
  by (induction xs arbitrary: d) auto

lemma distinct_fold_update:
  "distinct (map fst d) \<Longrightarrow>
   distinct (map fst (fold (\<lambda>x d. AList.update (key x) (f (map_of d (key x)) x) d) xs d))"
  by (induction xs arbitrary: d) auto

subsection \<open>Lists\<close>

lemma filter_enumerate_length:
  "length (filter P (map f [0..<n])) = card {i. i < n \<and> P (f i)}"
proof -
  have "length (filter P (map f [0..<n])) = length (filter (P \<circ> f) [0..<n])"
    by (simp add: filter_map)
  also have "\<dots> = card (set (filter (P \<circ> f) [0..<n]))"
    by (rule distinct_card [symmetric]) simp
  also have "set (filter (P \<circ> f) [0..<n]) = {i. i < n \<and> P (f i)}"
    by auto
  finally show ?thesis .
qed

lemma two_distinct_positions:
  "1 < card {i. i < n \<and> P i} \<longleftrightarrow> (\<exists>i j. i < j \<and> j < (n::nat) \<and> P i \<and> P j)"
proof
  assume "1 < card {i. i < n \<and> P i}"
  then have "\<not> card {i. i < n \<and> P i} \<le> Suc 0" by simp
  then obtain i j where "i \<in> {i. i < n \<and> P i}" "j \<in> {i. i < n \<and> P i}" "i \<noteq> j"
    using card_le_Suc0_iff_eq [of "{i. i < n \<and> P i}"] by auto
  then show "\<exists>i j. i < j \<and> j < n \<and> P i \<and> P j"
    by (metis (mono_tags, lifting) linorder_neqE_nat mem_Collect_eq)
next
  assume "\<exists>i j. i < j \<and> j < n \<and> P i \<and> P j"
  then obtain i j where ij: "i < j" "j < n" "P i" "P j" by blast
  then have "{i, j} \<subseteq> {i. i < n \<and> P i}" by auto
  then have "card {i, j} \<le> card {i. i < n \<and> P i}" by (intro card_mono) auto
  with ij show "1 < card {i. i < n \<and> P i}" by simp
qed

subsection \<open>Bitwise operations on Python integers\<close>

text \<open>Python's \<open>&\<close> works on the infinite two's complement of an integer, as \<open>AND\<close> on \<open>int\<close> does.\<close>

lemma int_and_le: "0 \<le> (b::int) \<Longrightarrow> a AND b \<le> b"
  by (simp add: AND_upper2)

lemma int_subset_le: "0 \<le> (b::int) \<Longrightarrow> a AND b = a \<Longrightarrow> a \<le> b"
  using int_and_le [of b a] by simp

lemma nat_and_le: "(a::nat) AND b \<le> b"
proof -
  have "int (a AND b) \<le> int b" by (simp add: of_nat_and_eq AND_upper2)
  then show ?thesis by simp
qed

end
