(* ===== verification/Service.thy ===== *)
theory Service
  imports Prelude
begin

text \<open>
  \<^verbatim>\<open>src/src/service.py\<close>: the counters of \<open>StatisticsCls\<close> that the analyser and the fuzzer
  update, the population count \<open>bit_count\<close>, and the bitmap rendering of traces. The
  time counters of \<open>StatisticsCls\<close>, which only \<^verbatim>\<open>time.time()\<close> feeds, are left out.
\<close>

record statistics =
  st_test_cases :: nat
  st_num_inputs :: nat
  st_eff_classes :: nat
  st_single_entry_classes :: int
  st_required_priming :: nat
  st_priming_errors :: nat
  st_violations :: nat
  st_coverage :: nat

definition statistics_init :: statistics where
  "statistics_init = \<lparr>st_test_cases = 0, st_num_inputs = 0, st_eff_classes = 0,
     st_single_entry_classes = 0, st_required_priming = 0, st_priming_errors = 0,
     st_violations = 0, st_coverage = 0\<rparr>"

subsection \<open>Population count\<close>

text \<open>The loop clears the lowest set bit until nothing is left; \<open>n\<close> is \<open>abs(n)\<close>.\<close>

lemma int_and_pred_less: "0 < (n::int) \<Longrightarrow> n AND (n - 1) < n"
  using AND_upper2 [of "n - 1" n] by simp

function bit_count_loop :: "int \<Rightarrow> nat \<Rightarrow> nat" where
  "bit_count_loop n count =
     (if n \<le> 0 then count else bit_count_loop (n AND (n - 1)) (Suc count))"
  by pat_completeness auto
termination
  by (relation "measure (\<lambda>(n, _). nat n)") (auto simp: int_and_pred_less)

declare bit_count_loop.simps [simp del]

definition bit_count :: "int \<Rightarrow> nat" where
  "bit_count n = bit_count_loop \<bar>n\<bar> 0"

subsection \<open>Rendering of bitmaps\<close>

text \<open>The digits of \<open>f"{n:b}"\<close> for \<open>n \<ge> 0\<close>, and the padded rendering with \<open>_\<close> and \<open>^\<close>.\<close>

function bin_digits :: "nat \<Rightarrow> string" where
  "bin_digits n = (if n < 2 then [if n = 0 then CHR ''0'' else CHR ''1'']
     else bin_digits (n div 2) @ [if n mod 2 = 0 then CHR ''0'' else CHR ''1''])"
  by pat_completeness auto
termination
  by (relation "measure id") auto

declare bin_digits.simps [simp del]

definition format_064b :: "int \<Rightarrow> string" where
  "format_064b n =
     (let sign = (if n < 0 then ''-'' else []); d = bin_digits (nat \<bar>n\<bar>)
      in sign @ replicate (64 - length sign - length d) (CHR ''0'') @ d)"

definition mark_bits :: "string \<Rightarrow> string" where
  "mark_bits = map (\<lambda>c. if c = CHR ''0'' then CHR ''_'' else if c = CHR ''1'' then CHR 0x5E else c)"

definition MASK_64BIT :: int where
  "MASK_64BIT = 2 ^ 64"

definition pretty_bitmap :: "int \<Rightarrow> bool \<Rightarrow> string" where
  "pretty_bitmap bits merged =
     mark_bits (if \<not> merged then format_064b bits
       else format_064b (bits mod MASK_64BIT) @ '' [ns]'' @ [CHR 0x0A] @
            format_064b (drop_bit 64 bits mod MASK_64BIT) @ '' [s]'')"

subsection \<open>Facts\<close>

lemma card_bits_double: "card {i. bit (2 * n) i} = card {i. bit (n::nat) i}"
proof -
  have "{i. bit (2 * n) i} = Suc ` {i. bit n i}"
    by (auto simp: bit_double_iff image_iff gr0_conv_Suc)
  then show ?thesis by (simp add: card_image)
qed

lemma finite_nat_bits [simp]: "finite {i. bit (n::nat) i}"
proof -
  have "{i. bit n i} \<subseteq> {..<n}"
    by (auto simp: bit_iff_odd) (metis div_eq_0_iff even_zero less_exp not_less order_less_le_trans)
  then show ?thesis by (rule finite_subset) simp
qed

lemma card_bits_odd: "card {i. bit (Suc (2 * n)) i} = Suc (card {i. bit n i})"
proof -
  have "bit (Suc (2 * n)) i \<longleftrightarrow> i \<in> insert 0 (Suc ` {i. bit n i})" for i
    by (cases i) (auto simp: bit_0 bit_Suc)
  then have "{i. bit (Suc (2 * n)) i} = insert 0 (Suc ` {i. bit n i})" by blast
  then show ?thesis by (simp add: card_image)
qed

lemma and_pred_even: "0 < m \<Longrightarrow> (2 * m) AND (2 * m - Suc 0) = 2 * (m AND (m - Suc 0))" for m :: nat
  by (subst and_rec) (auto elim!: oddE simp: gr0_conv_Suc)

lemma and_pred_odd: "Suc (2 * m) AND (2 * m) = 2 * m" for m :: nat
  by (subst and_rec) simp

lemma card_bits_and_pred:
  "0 < n \<Longrightarrow> card {i. bit n i} = Suc (card {i. bit (n AND (n - 1)) i})" for n :: nat
proof (induction n rule: less_induct)
  case (less n)
  show ?case
  proof (cases "even n")
    case True
    then obtain m where m: "n = 2 * m" by (elim evenE)
    with less.prems have "0 < m" "m < n" by auto
    then have "card {i. bit m i} = Suc (card {i. bit (m AND (m - 1)) i})"
      by (intro less.IH)
    with \<open>0 < m\<close> show ?thesis
      by (simp add: m and_pred_even card_bits_double del: bit_double_iff)
  next
    case False
    then obtain m where m: "n = Suc (2 * m)" by (elim oddE) simp
    then show ?thesis
      by (simp add: and_pred_odd card_bits_odd card_bits_double del: bit_double_iff)
  qed
qed

lemma bit_count_loop_card:
  "bit_count_loop (int n) count = count + card {i. bit n i}"
proof (induction n arbitrary: count rule: less_induct)
  case (less n)
  show ?case
  proof (cases "n = 0")
    case True
    then show ?thesis by (simp add: bit_count_loop.simps)
  next
    case False
    have eq: "int n AND (int n - 1) = int (n AND (n - 1))"
      using False by (simp add: of_nat_and_eq of_nat_diff)
    have lt: "n AND (n - 1) < n"
      using int_and_pred_less [of "int n"] False by (simp add: eq)
    show ?thesis
      using False less.IH [OF lt, of "Suc count"] card_bits_and_pred [of n]
      by (simp add: bit_count_loop.simps [of "int n"] eq)
  qed
qed

lemma length_bin_digits: "n < 2 ^ k \<Longrightarrow> 0 < k \<Longrightarrow> length (bin_digits n) \<le> k"
proof (induction n arbitrary: k rule: bin_digits.induct)
  case (1 n)
  show ?case
  proof (cases "n < 2")
    case True
    with "1.prems" show ?thesis by (simp add: bin_digits.simps [of n])
  next
    case False
    have k: "1 < k"
    proof (rule ccontr)
      assume "\<not> 1 < k"
      with "1.prems"(2) have "k = 1" by simp
      with "1.prems"(1) False show False by simp
    qed
    with "1.prems" have "n div 2 < 2 ^ (k - 1)"
      by (cases k) (auto simp: less_mult_imp_div_less mult.commute)
    with False k have "length (bin_digits (n div 2)) \<le> k - 1" by (intro "1.IH") auto
    with False k show ?thesis by (simp add: bin_digits.simps [of n])
  qed
qed

text \<open>
  \<open>bit_count\<close> returns the number of one bits of the absolute value of its argument
  (the loop that clears one bit per round stops and counts each bit once).
\<close>

lemma bit_count_correct: "bit_count n = card {i. bit (nat \<bar>n\<bar>) i}"
proof -
  have "bit_count_loop (int (nat \<bar>n\<bar>)) 0 = 0 + card {i. bit (nat \<bar>n\<bar>) i}"
    by (rule bit_count_loop_card)
  then show ?thesis by (simp add: bit_count_def)
qed

subsection \<open>Caching dictionaries\<close>

text \<open>
  \<open>CachingDict\<close> of \<^verbatim>\<open>src/src/util.py\<close>: the factory runs on the untransformed key unless the cache
  holds a value other than \<^verbatim>\<open>None\<close> (\<open>None\<close> in the model); its result is cached even if it is \<^verbatim>\<open>None\<close>.
\<close>

definition caching_getitem ::
    "('p \<Rightarrow> 'v option res) \<Rightarrow> ('p \<Rightarrow> 'k) \<Rightarrow> 'p \<Rightarrow> ('k, 'v option) dict \<Rightarrow> ('v option \<times> ('k, 'v option) dict) res" where
  "caching_getitem value_factory key_transform prekey d =
     (let key = key_transform prekey in
      case dict_default d None key of
        Some v \<Rightarrow> Inr (Some v, d)
      | None \<Rightarrow> res_bind (value_factory prekey) (\<lambda>value. Inr (value, AList.update key value d)))"

text \<open>The dictionary holds only values of the factory, for some key with the same transform.\<close>

definition caches :: "('p \<Rightarrow> 'v option res) \<Rightarrow> ('p \<Rightarrow> 'k) \<Rightarrow> ('k, 'v option) dict \<Rightarrow> bool" where
  "caches value_factory key_transform d \<longleftrightarrow>
     (\<forall>k v. map_of d k = Some v \<longrightarrow> (\<exists>p. key_transform p = k \<and> value_factory p = Inr v))"

lemma caches_empty: "caches f t []"
  by (simp add: caches_def)

lemma caching_getitem_caches:
  "caches f t d \<Longrightarrow> caching_getitem f t p d = Inr (v, d') \<Longrightarrow> caches f t d'"
  by (auto simp: caches_def caching_getitem_def Let_def res_bind_Inr_iff split: option.splits if_splits)

text \<open>
  When the factory depends on the transformed key only, a look-up in the cache is a call of the
  factory, whatever was looked up before.
\<close>

lemma caching_getitem_factory:
  assumes "caches f t d" and "\<And>p q. t p = t q \<Longrightarrow> f p = f q"
  shows "map_sum id fst (caching_getitem f t p d) = f p"
proof (cases "map_of d (t p)")
  case None
  then show ?thesis by (cases "f p") (simp_all add: caching_getitem_def dict_default_def)
next
  case (Some w)
  with assms(1) obtain q where "t q = t p" "f q = Inr w" by (auto simp: caches_def)
  with assms(2) [of q p] Some show ?thesis
    by (cases w; cases "f p") (simp_all add: caching_getitem_def dict_default_def)
qed

end
