(* ===== verification/Analyser.thy ===== *)
theory Analyser
  imports Service
begin

text \<open>
  \<^verbatim>\<open>src/src/analyser.py\<close> and the data types it works on (\<^verbatim>\<open>Measurement\<close> and
  \<^verbatim>\<open>EquivalenceClass\<close> of \<^verbatim>\<open>src/src/interfaces.py\<close>): inputs are grouped by contract trace,
  groups of one input are dropped, and a group whose hardware traces differ is reported.
  The lemmas give the groups in closed form and show that a class is reported exactly when
  two inputs with that contract trace have different (valid) hardware traces.
\<close>

subsection \<open>Measurements and equivalence classes\<close>

record 'i measurement =
  m_input_id :: nat
  m_input :: 'i
  m_ctrace :: int
  m_htrace :: int

type_synonym 'i htrace_map = "(int, 'i measurement list) dict"

record 'i equivalence_class =
  ec_ctrace :: int
  ec_measurements :: "'i measurement list"
  ec_htrace_map :: "'i htrace_map"

definition new_equivalence_class :: "'i equivalence_class" where
  "new_equivalence_class = \<lparr>ec_ctrace = 0, ec_measurements = [], ec_htrace_map = []\<rparr>"

text \<open>Group the inputs of a class by hardware trace; a trace of 0 marks a buggy run and is ignored.\<close>

definition htrace_map_step :: "'i measurement \<Rightarrow> 'i htrace_map \<Rightarrow> 'i htrace_map" where
  "htrace_map_step m groups =
     (if m_htrace m = 0 then groups
      else AList.update (m_htrace m) (dict_default groups [] (m_htrace m) @ [m]) groups)"

definition build_htrace_map :: "'i equivalence_class \<Rightarrow> 'i equivalence_class" where
  "build_htrace_map c = c\<lparr>ec_htrace_map := fold htrace_map_step (ec_measurements c) []\<rparr>"

subsection \<open>Building the classes\<close>

text \<open>One round of \<open>for i, ctrace in enumerate(ctraces)\<close>; \<open>inputs[i]\<close> and \<open>htraces[i]\<close> may be out of range.\<close>

definition class_step ::
    "'i list \<Rightarrow> int list \<Rightarrow> nat \<times> int \<Rightarrow> (int, 'i equivalence_class) dict
     \<Rightarrow> (int, 'i equivalence_class) dict res" where
  "class_step inputs htraces ic d =
     (let (i, ctrace) = ic; eq_cls = dict_default d new_equivalence_class ctrace
      in res_bind (py_nth inputs i) (\<lambda>inp. res_bind (py_nth htraces i) (\<lambda>htrace.
           Inr (AList.update ctrace
             (eq_cls\<lparr>ec_ctrace := ctrace,
                ec_measurements := ec_measurements eq_cls @
                  [\<lparr>m_input_id = i, m_input = inp, m_ctrace = ctrace, m_htrace = htrace\<rparr>]\<rparr>) d))))"

definition build_equivalence_classes ::
    "'i list \<Rightarrow> int list \<Rightarrow> int list \<Rightarrow> bool \<Rightarrow> statistics
     \<Rightarrow> (statistics \<times> 'i equivalence_class list) res" where
  "build_equivalence_classes inputs ctraces htraces stats st =
     res_bind (res_fold (class_step inputs htraces) (enumerate 0 ctraces) [])
       (\<lambda>eq_class_map.
          let effective = sort_key ec_ctrace
                (filter (\<lambda>c. 1 < length (ec_measurements c)) (map snd eq_class_map));
              st' = (if stats then st\<lparr>st_eff_classes := st_eff_classes st + length effective,
                       st_single_entry_classes := st_single_entry_classes st +
                         (int (length eq_class_map) - int (length effective))\<rparr> else st)
          in Inr (st', map build_htrace_map effective))"

subsection \<open>Filtering the violations\<close>

fun subset_loop :: "int \<Rightarrow> int list \<Rightarrow> bool" where
  "subset_loop max_htrace [] = True"
| "subset_loop max_htrace (h # hs) =
     (let htrace = \<bar>h\<bar>
      in if htrace AND max_htrace \<noteq> htrace then False else subset_loop max_htrace hs)"

definition check_if_all_subsets :: "int list \<Rightarrow> bool res" where
  "check_if_all_subsets htraces =
     res_bind (py_max_key abs htraces) (\<lambda>max_htrace. Inr (subset_loop max_htrace htraces))"

text \<open>The rows of \<open>table.json\<close>: input, input id and hardware trace, by hardware trace.\<close>

definition table_rows :: "'i equivalence_class \<Rightarrow> ('i \<times> nat \<times> int) list" where
  "table_rows c = sort_key (\<lambda>(_, _, h). h)
     (map (\<lambda>m. (m_input m, m_input_id m, m_htrace m)) (ec_measurements c))"

definition build_table ::
    "'i equivalence_class list \<Rightarrow> (int, ('i \<times> nat \<times> int) list) dict" where
  "build_table cs = fold (\<lambda>c d. AList.update (ec_ctrace c) (table_rows c) d) cs []"

definition violation_step ::
    "bool \<Rightarrow> 'i equivalence_class \<Rightarrow> 'i equivalence_class list \<Rightarrow> 'i equivalence_class list res" where
  "violation_step permit_subsets c violations =
     (if length (ec_htrace_map c) < 2 then Inr violations
      else if \<not> permit_subsets then Inr (violations @ [c])
      else res_bind (check_if_all_subsets (map fst (ec_htrace_map c)))
             (\<lambda>b. Inr (if \<not> b then violations @ [c] else violations)))"

text \<open>
  \<open>filter_violations\<close>: the coverage object's \<open>analyser_hook\<close> is an argument, its state is
  threaded through; \<open>json.dump\<close> of the table is part of the result.
\<close>

definition filter_violations ::
    "('i equivalence_class list \<Rightarrow> 'c \<Rightarrow> 'c res) \<Rightarrow> bool
     \<Rightarrow> 'i list \<Rightarrow> int list \<Rightarrow> int list \<Rightarrow> bool \<Rightarrow> statistics \<Rightarrow> 'c
     \<Rightarrow> (statistics \<times> 'c \<times> (int, ('i \<times> nat \<times> int) list) dict \<times> 'i equivalence_class list) res" where
  "filter_violations analyser_hook permit_subsets inputs ctraces htraces stats st cov =
     res_bind (build_equivalence_classes inputs ctraces htraces stats st) (\<lambda>(st', classes).
     res_bind (analyser_hook classes cov) (\<lambda>cov'.
     res_bind (res_fold (violation_step permit_subsets) classes []) (\<lambda>violations.
       Inr (st', cov', build_table classes, violations))))"

subsection \<open>The classes in closed form\<close>

definition measurement_at :: "'i list \<Rightarrow> int list \<Rightarrow> int list \<Rightarrow> nat \<Rightarrow> 'i measurement" where
  "measurement_at inputs ctraces htraces i =
     \<lparr>m_input_id = i, m_input = inputs ! i, m_ctrace = ctraces ! i, m_htrace = htraces ! i\<rparr>"

definition group_at :: "'i list \<Rightarrow> int list \<Rightarrow> int list \<Rightarrow> int \<Rightarrow> 'i measurement list" where
  "group_at inputs ctraces htraces c =
     map (measurement_at inputs ctraces htraces)
       (filter (\<lambda>i. ctraces ! i = c) [0..<length ctraces])"

lemma measurement_at_simps [simp]:
  "m_input_id (measurement_at inputs cts hts i) = i"
  "m_input (measurement_at inputs cts hts i) = inputs ! i"
  "m_ctrace (measurement_at inputs cts hts i) = cts ! i"
  "m_htrace (measurement_at inputs cts hts i) = hts ! i"
  by (simp_all add: measurement_at_def)

definition add_measurement ::
    "'i measurement \<Rightarrow> 'i equivalence_class option \<Rightarrow> 'i equivalence_class" where
  "add_measurement m c =
     (case c of None \<Rightarrow> \<lparr>ec_ctrace = m_ctrace m, ec_measurements = [m], ec_htrace_map = []\<rparr>
      | Some c \<Rightarrow> c\<lparr>ec_ctrace := m_ctrace m, ec_measurements := ec_measurements c @ [m]\<rparr>)"

definition class_map ::
    "'i list \<Rightarrow> int list \<Rightarrow> int list \<Rightarrow> (int, 'i equivalence_class) dict" where
  "class_map inputs cts hts =
     fold (\<lambda>m d. AList.update (m_ctrace m) (add_measurement m (map_of d (m_ctrace m))) d)
       (map (measurement_at inputs cts hts) [0..<length cts]) []"

lemma class_fold_closed:
  assumes "length inputs = length cts" and "length hts = length cts"
  shows "res_fold (class_step inputs hts) (enumerate 0 cts) [] = Inr (class_map inputs cts hts)"
proof -
  let ?g = "\<lambda>p d. AList.update (snd p)
      (add_measurement (measurement_at inputs cts hts (fst p)) (map_of d (snd p))) d"
  have step: "class_step inputs hts p d = Inr (?g p d)" if "p \<in> set (enumerate 0 cts)" for p d
  proof (cases p)
    case (Pair i c)
    with that assms have "i < length inputs" "i < length hts" "c = cts ! i"
      by (auto simp: in_set_enumerate_eq)
    with Pair show ?thesis
      by (simp add: class_step_def Let_def add_measurement_def
        measurement_at_def dict_default_def new_equivalence_class_def split: option.splits)
  qed
  have "res_fold (class_step inputs hts) (enumerate 0 cts) [] = Inr (fold ?g (enumerate 0 cts) [])"
    by (rule res_fold_total) (rule step)
  moreover have "enumerate 0 cts = map (\<lambda>i. (i, cts ! i)) [0..<length cts]"
    by (rule nth_equalityI) (simp_all add: nth_enumerate_eq)
  then have "fold ?g (enumerate 0 cts) [] = class_map inputs cts hts"
    by (simp add: class_map_def fold_map comp_def)
  ultimately show ?thesis by simp
qed

lemma fold_add_measurement:
  "fold (\<lambda>m v. Some (add_measurement m v)) ms v =
     (if ms = [] then v
      else Some \<lparr>ec_ctrace = m_ctrace (last ms),
        ec_measurements = (case v of None \<Rightarrow> [] | Some c \<Rightarrow> ec_measurements c) @ ms,
        ec_htrace_map = (case v of None \<Rightarrow> [] | Some c \<Rightarrow> ec_htrace_map c)\<rparr>)"
proof (induction ms arbitrary: v)
  case (Cons m ms)
  then show ?case by (cases v) (auto simp: add_measurement_def)
qed simp

lemma class_map_lookup:
  "map_of (class_map inputs cts hts) c =
     (if group_at inputs cts hts c = [] then None
      else Some \<lparr>ec_ctrace = c, ec_measurements = group_at inputs cts hts c, ec_htrace_map = []\<rparr>)"
proof -
  have grp: "filter (\<lambda>m. m_ctrace m = c) (map (measurement_at inputs cts hts) [0..<length cts]) =
      group_at inputs cts hts c"
    by (simp add: group_at_def filter_map comp_def)
  have "m_ctrace m = c" if "m \<in> set (group_at inputs cts hts c)" for m
    using that by (auto simp: group_at_def)
  then have last: "group_at inputs cts hts c \<noteq> [] \<Longrightarrow> m_ctrace (last (group_at inputs cts hts c)) = c"
    by simp
  show ?thesis
    unfolding class_map_def
      map_of_fold_update [where key = m_ctrace and f = "\<lambda>v m. add_measurement m v"]
      grp fold_add_measurement using last by simp
qed

lemma class_map_distinct: "distinct (map fst (class_map inputs cts hts))"
  unfolding class_map_def
  by (rule distinct_fold_update [where f = "\<lambda>v m. add_measurement m v"]) simp

definition class_of :: "'i list \<Rightarrow> int list \<Rightarrow> int list \<Rightarrow> int \<Rightarrow> 'i equivalence_class" where
  "class_of inputs cts hts k =
     \<lparr>ec_ctrace = k, ec_measurements = group_at inputs cts hts k, ec_htrace_map = []\<rparr>"

lemma class_of_simps [simp]:
  "ec_ctrace (class_of inputs cts hts k) = k"
  "ec_measurements (class_of inputs cts hts k) = group_at inputs cts hts k"
  by (simp_all add: class_of_def)

lemma class_map_values:
  "c \<in> snd ` set (class_map inputs cts hts) \<longleftrightarrow>
     (\<exists>k. group_at inputs cts hts k \<noteq> [] \<and> c = class_of inputs cts hts k)"
proof -
  have "c \<in> snd ` set (class_map inputs cts hts) \<longleftrightarrow> (\<exists>k. (k, c) \<in> set (class_map inputs cts hts))"
    by force
  also have "\<dots> \<longleftrightarrow> (\<exists>k. map_of (class_map inputs cts hts) k = Some c)"
    by (simp only: map_of_eq_Some_iff [OF class_map_distinct])
  also have "\<dots> \<longleftrightarrow> (\<exists>k. group_at inputs cts hts k \<noteq> [] \<and> c = class_of inputs cts hts k)"
    unfolding class_map_lookup class_of_def by (metis option.inject option.distinct(1))
  finally show ?thesis .
qed

lemma length_group_at:
  "length (group_at inputs cts hts c) = card {i. i < length cts \<and> cts ! i = c}"
  using filter_enumerate_length [of "\<lambda>i. cts ! i = c" id "length cts"]
  by (simp add: group_at_def)

lemma large_group_iff:
  "1 < length (group_at inputs cts hts c) \<longleftrightarrow>
     (\<exists>i j. i < j \<and> j < length cts \<and> cts ! i = c \<and> cts ! j = c)"
  unfolding length_group_at by (rule two_distinct_positions)

lemma class_map_ctraces_distinct:
  "distinct (map ec_ctrace (map snd (class_map inputs cts hts)))"
proof -
  have "ec_ctrace (snd p) = fst p" if "p \<in> set (class_map inputs cts hts)" for p
  proof -
    from that have "map_of (class_map inputs cts hts) (fst p) = Some (snd p)"
      by (simp add: map_of_eq_Some_iff [OF class_map_distinct])
    then show ?thesis
      unfolding class_map_lookup
      by (metis equivalence_class.select_convs(1) option.distinct(1) option.inject)
  qed
  then have "map ec_ctrace (map snd (class_map inputs cts hts)) = map fst (class_map inputs cts hts)"
    by simp
  then show ?thesis by (simp only: class_map_distinct)
qed

lemma build_equivalence_classes_closed:
  assumes "length inputs = length cts" and "length hts = length cts"
  obtains st' cls where
    "build_equivalence_classes inputs cts hts stats st = Inr (st', map build_htrace_map cls)"
    and "sorted_wrt (<) (map ec_ctrace cls)"
    and "set cls = class_of inputs cts hts ` {c. 1 < length (group_at inputs cts hts c)}"
proof -
  let ?vals = "filter (\<lambda>c. 1 < length (ec_measurements c)) (map snd (class_map inputs cts hts))"
  let ?cls = "sort_key ec_ctrace ?vals"
  have "distinct (map ec_ctrace ?vals)"
    using class_map_ctraces_distinct [of inputs cts hts] by (rule distinct_map_filter)
  then have "distinct (map ec_ctrace ?cls)"
    by (simp add: distinct_map)
  moreover have "sorted (map ec_ctrace ?cls)" by simp
  ultimately have sorted: "sorted_wrt (<) (map ec_ctrace ?cls)"
    by (simp add: strict_sorted_iff)
  have "set ?cls = {c \<in> snd ` set (class_map inputs cts hts). 1 < length (ec_measurements c)}"
    by auto
  also have "\<dots> = class_of inputs cts hts ` {c. 1 < length (group_at inputs cts hts c)}"
    unfolding class_map_values
    by (auto simp: image_iff) (metis length_greater_0_conv order.strict_trans zero_less_Suc)
  finally have set_cls:
    "set ?cls = class_of inputs cts hts ` {c. 1 < length (group_at inputs cts hts c)}" .
  show ?thesis
    by (rule that [OF _ sorted set_cls])
      (simp add: build_equivalence_classes_def class_fold_closed [OF assms] Let_def)
qed

lemma build_htrace_map_simps [simp]:
  "ec_ctrace (build_htrace_map c) = ec_ctrace c"
  "ec_measurements (build_htrace_map c) = ec_measurements c"
  by (simp_all add: build_htrace_map_def)

lemma fold_htrace_map_step:
  "fold htrace_map_step ms d =
   fold (\<lambda>m d. AList.update (m_htrace m)
       ((\<lambda>v m. (case v of None \<Rightarrow> [] | Some l \<Rightarrow> l) @ [m]) (map_of d (m_htrace m)) m) d)
     (filter (\<lambda>m. m_htrace m \<noteq> 0) ms) d"
  by (induction ms arbitrary: d) (simp_all add: htrace_map_step_def dict_default_def)

lemma htrace_map_keys:
  "set (map fst (ec_htrace_map (build_htrace_map c))) =
     {h. h \<noteq> 0 \<and> (\<exists>m \<in> set (ec_measurements c). m_htrace m = h)}"
  using keys_fold_update [where key = m_htrace and d = "[]"
      and f = "\<lambda>v m. (case v of None \<Rightarrow> [] | Some l \<Rightarrow> l) @ [m]"
      and xs = "filter (\<lambda>m. m_htrace m \<noteq> 0) (ec_measurements c)"]
  by (auto simp: build_htrace_map_def fold_htrace_map_step)

lemma htrace_map_distinct: "distinct (map fst (ec_htrace_map (build_htrace_map c)))"
  using distinct_fold_update [where key = m_htrace and d = "[]"
      and f = "\<lambda>v m. (case v of None \<Rightarrow> [] | Some l \<Rightarrow> l) @ [m]"
      and xs = "filter (\<lambda>m. m_htrace m \<noteq> 0) (ec_measurements c)"]
  by (simp add: build_htrace_map_def fold_htrace_map_step)

definition class_htraces :: "int list \<Rightarrow> int list \<Rightarrow> int \<Rightarrow> int set" where
  "class_htraces cts hts c = {hts ! i | i. i < length cts \<and> cts ! i = c \<and> hts ! i \<noteq> 0}"

lemma htrace_map_keys_class_of:
  "set (map fst (ec_htrace_map (build_htrace_map (class_of inputs cts hts c)))) =
     class_htraces cts hts c"
  unfolding htrace_map_keys by (auto simp: group_at_def class_htraces_def)

lemma htrace_map_length_class_of:
  "length (ec_htrace_map (build_htrace_map (class_of inputs cts hts c))) =
     card (class_htraces cts hts c)"
  using distinct_card [OF htrace_map_distinct [of "class_of inputs cts hts c"]]
  by (simp only: htrace_map_keys_class_of length_map)

lemma class_htraces_le_group:
  "card (class_htraces cts hts c) \<le> length (group_at inputs cts hts c)"
proof -
  have "class_htraces cts hts c \<subseteq> (\<lambda>m. m_htrace m) ` set (group_at inputs cts hts c)"
    by (auto simp: class_htraces_def group_at_def image_iff)
  then show ?thesis
    by (meson List.finite_set card_image_le card_length card_mono finite_imageI le_trans)
qed

subsection \<open>The subset check\<close>

lemma subset_loop_iff: "subset_loop m hs \<longleftrightarrow> (\<forall>h \<in> set hs. \<bar>h\<bar> AND m = \<bar>h\<bar>)"
  by (induction hs) (auto simp: Let_def)

lemma check_if_all_subsets_iff:
  assumes "hs \<noteq> []" and nonneg: "\<And>h. h \<in> set hs \<Longrightarrow> 0 \<le> h"
  shows "check_if_all_subsets hs = Inr (\<exists>m \<in> set hs. \<forall>h \<in> set hs. h AND m = h)"
proof -
  obtain m where m: "py_max_key abs hs = Inr m" "m \<in> set hs" "\<And>y. y \<in> set hs \<Longrightarrow> \<bar>y\<bar> \<le> \<bar>m\<bar>"
    using py_max_key_correct [OF assms(1)] by metis
  have "subset_loop m hs \<longleftrightarrow> (\<exists>m \<in> set hs. \<forall>h \<in> set hs. h AND m = h)"
  proof
    assume "subset_loop m hs"
    with m(2) nonneg show "\<exists>m \<in> set hs. \<forall>h \<in> set hs. h AND m = h"
      by (auto simp: subset_loop_iff)
  next
    assume "\<exists>m \<in> set hs. \<forall>h \<in> set hs. h AND m = h"
    then obtain k where k: "k \<in> set hs" "\<And>h. h \<in> set hs \<Longrightarrow> h AND k = h" by blast
    have "m \<le> k" using nonneg [OF k(1)] k(2) [OF m(2)] by (rule int_subset_le)
    moreover have "k \<le> m" using m(3) [OF k(1)] nonneg [OF k(1)] nonneg [OF m(2)] by simp
    ultimately have "m = k" by simp
    with k nonneg show "subset_loop m hs" by (simp add: subset_loop_iff)
  qed
  with m(1) show ?thesis by (simp add: check_if_all_subsets_def)
qed

subsection \<open>What is reported\<close>

text \<open>The condition on the valid hardware traces of a class under which it is reported.\<close>

definition differing :: "bool \<Rightarrow> int set \<Rightarrow> bool" where
  "differing permit H \<longleftrightarrow>
     2 \<le> card H \<and> (permit \<longrightarrow> \<not> (\<exists>m \<in> H. \<forall>h \<in> H. h AND m = h))"

lemma violation_step_class_of:
  fixes inputs :: "'i list"
  assumes "\<And>h. h \<in> class_htraces cts hts c \<Longrightarrow> permit \<Longrightarrow> 0 \<le> h"
  defines "e \<equiv> build_htrace_map (class_of inputs cts hts c)"
  shows "violation_step permit e vs =
     Inr (if differing permit (class_htraces cts hts c) then vs @ [e] else vs)"
proof (cases "2 \<le> card (class_htraces cts hts c) \<and> permit")
  case True
  let ?keys = "map fst (ec_htrace_map e)"
  have keys: "set ?keys = class_htraces cts hts c"
    unfolding e_def by (rule htrace_map_keys_class_of)
  have "length ?keys = card (class_htraces cts hts c)"
    unfolding e_def by (simp add: htrace_map_length_class_of)
  with True have "?keys \<noteq> []" by auto
  moreover have "0 \<le> h" if "h \<in> set ?keys" for h
    using assms(1) True that unfolding keys by blast
  ultimately have "check_if_all_subsets ?keys =
      Inr (\<exists>m \<in> class_htraces cts hts c. \<forall>h \<in> class_htraces cts hts c. h AND m = h)"
    using check_if_all_subsets_iff [of ?keys] unfolding keys by blast
  with True show ?thesis
    by (simp add: violation_step_def e_def htrace_map_length_class_of differing_def)
next
  case False
  then show ?thesis
    by (auto simp: violation_step_def e_def htrace_map_length_class_of differing_def)
qed

lemma fold_append_if:
  "fold (\<lambda>x acc. if P x then acc @ [x] else acc) xs acc = acc @ filter P xs"
  by (induction xs arbitrary: acc) auto

text \<open>
  Every call with as many inputs and hardware traces as contract traces returns, and the
  classes it reports are those whose valid hardware traces satisfy the condition above.
\<close>

lemma filter_violations_reported:
  assumes len: "length inputs = length cts" "length hts = length cts"
    and hook: "\<And>cs. \<exists>cov'. hook cs cov = Inr cov'"
    and nonneg: "\<And>i. i < length cts \<Longrightarrow> permit \<Longrightarrow> 0 \<le> hts ! i"
  shows "\<exists>st' cov' table vs.
    filter_violations hook permit inputs cts hts stats st cov = Inr (st', cov', table, vs) \<and>
    ec_ctrace ` set vs = {c. differing permit (class_htraces cts hts c)}"
proof -
  obtain st' cls where
    build: "build_equivalence_classes inputs cts hts stats st = Inr (st', map build_htrace_map cls)"
    and cls: "set cls = class_of inputs cts hts ` {c. 1 < length (group_at inputs cts hts c)}"
    using build_equivalence_classes_closed [OF len] by metis
  obtain cov' where cov: "hook (map build_htrace_map cls) cov = Inr cov'" using hook by blast
  define es where "es = map build_htrace_map cls"
  have es: "set es = (\<lambda>c. build_htrace_map (class_of inputs cts hts c)) `
      {c. 1 < length (group_at inputs cts hts c)}"
    by (simp add: es_def cls image_image)
  define P where "P e \<longleftrightarrow> differing permit (class_htraces cts hts (ec_ctrace e))"
    for e :: "'a equivalence_class"
  have step: "violation_step permit e vs = Inr (if P e then vs @ [e] else vs)"
    if "e \<in> set es" for e vs
  proof -
    from that obtain c where e: "e = build_htrace_map (class_of inputs cts hts c)"
      unfolding es by auto
    have "\<And>h. h \<in> class_htraces cts hts c \<Longrightarrow> permit \<Longrightarrow> 0 \<le> h"
      using nonneg by (auto simp: class_htraces_def)
    then show ?thesis
      unfolding e P_def build_htrace_map_simps class_of_simps
      by (rule violation_step_class_of)
  qed
  have "res_fold (violation_step permit) es [] = Inr (filter P es)"
    using res_fold_total [of es "violation_step permit" "\<lambda>e vs. if P e then vs @ [e] else vs", OF step]
    by (simp add: fold_append_if)
  with build cov have result:
    "filter_violations hook permit inputs cts hts stats st cov = Inr (st', cov', build_table es, filter P es)"
    by (simp add: filter_violations_def es_def)
  have "1 < length (group_at inputs cts hts c)" if "2 \<le> card (class_htraces cts hts c)" for c
    using class_htraces_le_group [of cts hts c inputs] that by linarith
  then have "{c. differing permit (class_htraces cts hts c)} =
      {c. 1 < length (group_at inputs cts hts c) \<and> differing permit (class_htraces cts hts c)}"
    unfolding differing_def by blast
  moreover have "set (filter P es) = (\<lambda>c. build_htrace_map (class_of inputs cts hts c)) `
      {c. 1 < length (group_at inputs cts hts c) \<and> differing permit (class_htraces cts hts c)}"
    unfolding set_filter es P_def by auto
  ultimately have "ec_ctrace ` set (filter P es) = {c. differing permit (class_htraces cts hts c)}"
    by (simp add: image_image)
  with result show ?thesis by blast
qed

lemma finite_class_htraces [simp]: "finite (class_htraces cts hts c)"
  by (rule finite_subset [of _ "(\<lambda>i. hts ! i) ` {..<length cts}"]) (auto simp: class_htraces_def)

lemma two_class_htraces:
  "2 \<le> card (class_htraces cts hts c) \<longleftrightarrow>
     (\<exists>i j. i < length cts \<and> j < length cts \<and> cts ! i = c \<and> cts ! j = c \<and>
        hts ! i \<noteq> 0 \<and> hts ! j \<noteq> 0 \<and> hts ! i \<noteq> hts ! j)"
proof -
  have "\<not> 2 \<le> card (class_htraces cts hts c) \<longleftrightarrow>
      (\<forall>x \<in> class_htraces cts hts c. \<forall>y \<in> class_htraces cts hts c. x = y)"
    using card_le_Suc0_iff_eq [of "class_htraces cts hts c"] by auto
  then show ?thesis by (auto simp: class_htraces_def)
qed

subsection \<open>Properties\<close>

text \<open>
  C17. Building the equivalence classes never fails on traces of matching length; the classes
  come in strictly increasing order of contract trace, there is one for exactly the contract
  traces that two or more inputs share, and each holds the measurements of all inputs with
  its contract trace, in input order.
\<close>

theorem build_equivalence_classes_partition:
  assumes "length inputs = length cts" and "length hts = length cts"
  shows "\<exists>st' cls. build_equivalence_classes inputs cts hts stats st = Inr (st', cls) \<and>
    sorted_wrt (<) (map ec_ctrace cls) \<and>
    (\<forall>c. c \<in> ec_ctrace ` set cls \<longleftrightarrow> (\<exists>i j. i < j \<and> j < length cts \<and> cts ! i = c \<and> cts ! j = c)) \<and>
    (\<forall>e \<in> set cls. ec_measurements e =
       map (measurement_at inputs cts hts) (filter (\<lambda>i. cts ! i = ec_ctrace e) [0..<length cts]))"
proof -
  obtain st' cls where *:
    "build_equivalence_classes inputs cts hts stats st = Inr (st', map build_htrace_map cls)"
    "sorted_wrt (<) (map ec_ctrace cls)"
    "set cls = class_of inputs cts hts ` {c. 1 < length (group_at inputs cts hts c)}"
    using build_equivalence_classes_closed [OF assms] by metis
  have "map ec_ctrace (map build_htrace_map cls) = map ec_ctrace cls" by simp
  with *(2) have sorted: "sorted_wrt (<) (map ec_ctrace (map build_htrace_map cls))"
    by (simp only:)
  have "ec_ctrace ` set (map build_htrace_map cls) = {c. 1 < length (group_at inputs cts hts c)}"
    by (simp add: *(3) image_image)
  then have "\<forall>c. c \<in> ec_ctrace ` set (map build_htrace_map cls) \<longleftrightarrow>
      (\<exists>i j. i < j \<and> j < length cts \<and> cts ! i = c \<and> cts ! j = c)"
    by (simp only: mem_Collect_eq large_group_iff) blast
  moreover have "\<forall>e \<in> set (map build_htrace_map cls). ec_measurements e =
      map (measurement_at inputs cts hts) (filter (\<lambda>i. cts ! i = ec_ctrace e) [0..<length cts])"
    by (simp add: *(3) group_at_def)
  ultimately show ?thesis using *(1) sorted by blast
qed

theorem build_equivalence_classes_partition_witness:
  "\<exists>st' cls. build_equivalence_classes [10, 11, 12 :: nat] [5, 7, 5] [1, 2, 3] True statistics_init
     = Inr (st', cls) \<and> 5 \<in> ec_ctrace ` set cls \<and> 7 \<notin> ec_ctrace ` set cls"
proof -
  have len: "length [10, 11, 12 :: nat] = length [5, 7, 5 :: int]"
    "length [1, 2, 3 :: int] = length [5, 7, 5 :: int]" by simp_all
  have "\<exists>i j. i < j \<and> j < length [5, 7, 5 :: int] \<and> [5, 7, 5 :: int] ! i = 5 \<and> [5, 7, 5 :: int] ! j = 5"
    by (rule exI [of _ 0], rule exI [of _ 2]) simp
  moreover have "\<not> (\<exists>i j. i < j \<and> j < length [5, 7, 5 :: int] \<and>
      [5, 7, 5 :: int] ! i = 7 \<and> [5, 7, 5 :: int] ! j = 7)"
    by (auto simp: less_Suc_eq numeral_3_eq_3)
  moreover obtain st' cls where
    "build_equivalence_classes [10, 11, 12 :: nat] [5, 7, 5] [1, 2, 3] True statistics_init
      = Inr (st', cls)"
    "\<forall>c. c \<in> ec_ctrace ` set cls \<longleftrightarrow> (\<exists>i j. i < j \<and> j < length [5, 7, 5 :: int] \<and>
      [5, 7, 5] ! i = c \<and> [5, 7, 5] ! j = c)"
    using build_equivalence_classes_partition
      [of "[10, 11, 12 :: nat]" "[5, 7, 5]" "[1, 2, 3]" True statistics_init, OF len]
    by (elim exE conjE) (rule that)
  ultimately show ?thesis by blast
qed

text \<open>
  C6. The relational check of the analyser (without subset tolerance): for traces of matching
  length and a coverage hook that returns, \<open>filter_violations\<close> returns, and it reports
  a class exactly for the contract traces under which two inputs have different hardware
  traces, a trace of 0 marking an invalid measurement. So a reported class is a contract
  counterexample, and no counterexample is lost.
\<close>

theorem filter_violations_sound_complete:
  assumes "length inputs = length cts" and "length hts = length cts"
    and "\<And>cs. \<exists>cov'. hook cs cov = Inr cov'"
  shows "\<exists>st' cov' table vs.
    filter_violations hook False inputs cts hts stats st cov = Inr (st', cov', table, vs) \<and>
    (\<forall>c. c \<in> ec_ctrace ` set vs \<longleftrightarrow>
       (\<exists>i j. i < length cts \<and> j < length cts \<and> cts ! i = c \<and> cts ! j = c \<and>
          hts ! i \<noteq> 0 \<and> hts ! j \<noteq> 0 \<and> hts ! i \<noteq> hts ! j))"
  using filter_violations_reported [where hook = hook and cov = cov and permit = False
      and stats = stats and st = st, OF assms]
  by (simp add: differing_def two_class_htraces set_eq_iff)

theorem filter_violations_sound_complete_witness:
  "\<exists>st' cov' table vs.
     filter_violations (\<lambda>_ c. Inr c) False [10, 11, 12 :: nat] [5, 5, 7] [1, 2, 3] True
       statistics_init () = Inr (st', cov', table, vs) \<and>
     5 \<in> ec_ctrace ` set vs \<and> 7 \<notin> ec_ctrace ` set vs"
proof -
  have len: "length [10, 11, 12 :: nat] = length [5, 5, 7 :: int]"
    "length [1, 2, 3 :: int] = length [5, 5, 7 :: int]" by simp_all
  have hook: "\<And>cs :: nat equivalence_class list. \<exists>cov'. (Inr () :: unit res) = Inr cov'" by simp
  have "\<exists>i j. i < length [5, 5, 7 :: int] \<and> j < length [5, 5, 7 :: int] \<and>
      [5, 5, 7 :: int] ! i = 5 \<and> [5, 5, 7 :: int] ! j = 5 \<and> [1, 2, 3 :: int] ! i \<noteq> 0 \<and>
      [1, 2, 3 :: int] ! j \<noteq> 0 \<and> [1, 2, 3 :: int] ! i \<noteq> [1, 2, 3 :: int] ! j"
    by (rule exI [of _ 0], rule exI [of _ 1]) simp
  moreover have "\<not> (\<exists>i j. i < length [5, 5, 7 :: int] \<and> j < length [5, 5, 7 :: int] \<and>
      [5, 5, 7 :: int] ! i = 7 \<and> [5, 5, 7 :: int] ! j = 7 \<and> [1, 2, 3 :: int] ! i \<noteq> 0 \<and>
      [1, 2, 3 :: int] ! j \<noteq> 0 \<and> [1, 2, 3 :: int] ! i \<noteq> [1, 2, 3 :: int] ! j)"
    by (auto simp: less_Suc_eq numeral_3_eq_3)
  moreover obtain st' cov' table vs where
    "filter_violations (\<lambda>_ c. Inr c) False [10, 11, 12 :: nat] [5, 5, 7] [1, 2, 3] True
       statistics_init () = Inr (st', cov', table, vs)"
    "\<forall>c. c \<in> ec_ctrace ` set vs \<longleftrightarrow> (\<exists>i j. i < length [5, 5, 7 :: int] \<and>
      j < length [5, 5, 7 :: int] \<and> [5, 5, 7 :: int] ! i = c \<and> [5, 5, 7 :: int] ! j = c \<and>
      [1, 2, 3 :: int] ! i \<noteq> 0 \<and> [1, 2, 3 :: int] ! j \<noteq> 0 \<and> [1, 2, 3 :: int] ! i \<noteq> [1, 2, 3 :: int] ! j)"
    using filter_violations_sound_complete [of "[10, 11, 12 :: nat]" "[5, 5, 7]" "[1, 2, 3]"
        "\<lambda>_ c. Inr c" "()" True statistics_init, OF len hook]
    by (elim exE conjE) (rule that)
  ultimately show ?thesis by blast
qed

text \<open>
  C16. With \<open>analyser_permit_subsets\<close> a class is reported exactly when it has a valid
  hardware trace and no hardware trace of the class contains all the others as bit sets
  (the traces being non-negative); comparing with the numerically greatest trace only is
  therefore enough.
\<close>

theorem filter_violations_permit_subsets:
  assumes "length inputs = length cts" and "length hts = length cts"
    and "\<And>cs. \<exists>cov'. hook cs cov = Inr cov'" and "\<forall>h \<in> set hts. 0 \<le> h"
  shows "\<exists>st' cov' table vs.
    filter_violations hook True inputs cts hts stats st cov = Inr (st', cov', table, vs) \<and>
    (\<forall>c. c \<in> ec_ctrace ` set vs \<longleftrightarrow> class_htraces cts hts c \<noteq> {} \<and>
       \<not> (\<exists>m \<in> class_htraces cts hts c. \<forall>h \<in> class_htraces cts hts c. h AND m = h))"
proof -
  have nonneg: "\<And>i. i < length cts \<Longrightarrow> True \<Longrightarrow> 0 \<le> hts ! i"
    using assms(2,4) by simp
  have iff: "differing True H \<longleftrightarrow> H \<noteq> {} \<and> \<not> (\<exists>m \<in> H. \<forall>h \<in> H. h AND m = h)"
    if "finite H" for H
  proof -
    have card: "2 \<le> card H \<longleftrightarrow> (\<exists>x \<in> H. \<exists>y \<in> H. x \<noteq> y)"
      using card_le_Suc0_iff_eq [OF that] by (simp add: not_le [symmetric] numeral_2_eq_2) (meson not_less_eq_eq)
    have "\<exists>x \<in> H. \<exists>y \<in> H. x \<noteq> y" if "H \<noteq> {}" "\<not> (\<exists>m \<in> H. \<forall>h \<in> H. h AND m = h)"
      using that by (metis and.idem ex_in_conv)
    then show ?thesis unfolding differing_def card by blast
  qed
  have *: "differing True (class_htraces cts hts c) \<longleftrightarrow> class_htraces cts hts c \<noteq> {} \<and>
      \<not> (\<exists>m \<in> class_htraces cts hts c. \<forall>h \<in> class_htraces cts hts c. h AND m = h)" for c
    by (rule iff [OF finite_class_htraces])
  show ?thesis
    using filter_violations_reported [where hook = hook and cov = cov and permit = True
      and stats = stats and st = st, OF assms(1-3) nonneg]
    unfolding * set_eq_iff mem_Collect_eq .
qed

theorem filter_violations_permit_subsets_witness:
  "\<exists>st' cov' table vs.
     filter_violations (\<lambda>_ c. Inr c) True [10, 11, 12, 13 :: nat] [5, 5, 7, 7] [1, 2, 1, 3] True
       statistics_init () = Inr (st', cov', table, vs) \<and>
     5 \<in> ec_ctrace ` set vs \<and> 7 \<notin> ec_ctrace ` set vs"
proof -
  have h5: "class_htraces [5, 5, 7, 7] [1, 2, 1, 3] 5 = {1, 2}"
    by (auto simp: class_htraces_def less_Suc_eq numeral_eq_Suc intro: exI [of _ 0] exI [of _ 1])
  have h7: "class_htraces [5, 5, 7, 7] [1, 2, 1, 3] 7 = {1, 3}"
    by (auto simp: class_htraces_def less_Suc_eq numeral_eq_Suc intro: exI [of _ 2] exI [of _ 3])
  show ?thesis
    using filter_violations_permit_subsets [of "[10, 11, 12, 13 :: nat]" "[5, 5, 7, 7]"
        "[1, 2, 1, 3]" "\<lambda>_ c. Inr c" "()" True statistics_init] h5 h7 by auto
qed

end
