(* ===== verification/Interfaces.thy ===== *)
theory Interfaces
  imports Prelude
begin

text \<open>
  The components of a test case, from \<^verbatim>\<open>src/src/interfaces.py\<close>: operand kinds, operand and
  instruction specifications, operands, instructions and their queries. A Python operand
  class is a constructor of \<open>operand\<close>; \<open>isinstance\<close> is the constructor test. The linked
  list of instructions in a basic block is in theory \<open>Basic_Block\<close>.
\<close>

subsection \<open>Strings\<close>

definition upper_char :: "char \<Rightarrow> char" where
  "upper_char c = (if 97 \<le> (of_char c :: nat) \<and> (of_char c :: nat) \<le> 122
     then char_of ((of_char c :: nat) - 32) else c)"

definition lower_char :: "char \<Rightarrow> char" where
  "lower_char c = (if 65 \<le> (of_char c :: nat) \<and> (of_char c :: nat) \<le> 90
     then char_of ((of_char c :: nat) + 32) else c)"

definition upper :: "string \<Rightarrow> string" where
  "upper = map upper_char"

definition lower :: "string \<Rightarrow> string" where
  "lower = map lower_char"

text \<open>\<open>p in s\<close> on strings: \<open>p\<close> is a contiguous part of \<open>s\<close>.\<close>

fun starts_with :: "string \<Rightarrow> string \<Rightarrow> bool" where
  "starts_with s [] = True"
| "starts_with [] (p # ps) = False"
| "starts_with (c # s) (p # ps) = (c = p \<and> starts_with s ps)"

fun contains :: "string \<Rightarrow> string \<Rightarrow> bool" where
  "contains [] p = (p = [])"
| "contains (c # s) p = (starts_with (c # s) p \<or> contains s p)"

subsection \<open>Operand kinds and specifications\<close>

datatype ot = OT_REG | OT_MEM | OT_IMM | OT_LABEL | OT_AGEN | OT_FLAGS | OT_COND

fun ot_str :: "ot \<Rightarrow> string" where
  "ot_str OT_REG = ''REG''"
| "ot_str OT_MEM = ''MEM''"
| "ot_str OT_IMM = ''IMM''"
| "ot_str OT_LABEL = ''LABEL''"
| "ot_str OT_AGEN = ''AGEN''"
| "ot_str OT_FLAGS = ''FLAGS''"
| "ot_str OT_COND = ''COND''"

record operand_spec =
  os_values :: "string list"
  os_type :: ot
  os_width :: nat
  os_src :: bool
  os_dest :: bool
  os_magic_value :: bool

definition new_operand_spec :: "string list \<Rightarrow> ot \<Rightarrow> bool \<Rightarrow> bool \<Rightarrow> operand_spec" where
  "new_operand_spec values ty src dest =
     \<lparr>os_values = values, os_type = ty, os_width = 0, os_src = src, os_dest = dest,
      os_magic_value = False\<rparr>"

record instruction_spec =
  is_name :: string
  is_operands :: "operand_spec list"
  is_implicit_operands :: "operand_spec list"
  is_category :: string
  is_control_flow :: bool
  is_has_mem_operand :: bool
  is_has_write :: bool
  is_has_magic_value :: bool

definition new_instruction_spec :: instruction_spec where
  "new_instruction_spec = \<lparr>is_name = [], is_operands = [], is_implicit_operands = [],
     is_category = [], is_control_flow = False, is_has_mem_operand = False,
     is_has_write = False, is_has_magic_value = False\<rparr>"

subsection \<open>Operands\<close>

datatype operand =
    RegisterOperand string nat bool bool
  | MemoryOperand string nat bool bool
  | ImmediateOperand string nat
  | LabelOperand string
  | AgenOperand string nat
  | FlagsOperand "string list"

text \<open>The constructors of the Python classes; register and address names are upper-cased, immediates lower-cased.\<close>

definition new_RegisterOperand :: "string \<Rightarrow> nat \<Rightarrow> bool \<Rightarrow> bool \<Rightarrow> operand" where
  "new_RegisterOperand value width src dest = RegisterOperand (upper value) width src dest"

definition new_MemoryOperand :: "string \<Rightarrow> nat \<Rightarrow> bool \<Rightarrow> bool \<Rightarrow> operand" where
  "new_MemoryOperand address width src dest = MemoryOperand (upper address) width src dest"

definition new_ImmediateOperand :: "string \<Rightarrow> nat \<Rightarrow> operand" where
  "new_ImmediateOperand value width = ImmediateOperand (lower value) width"

definition new_AgenOperand :: "string \<Rightarrow> nat \<Rightarrow> operand" where
  "new_AgenOperand value width = AgenOperand (upper value) width"

definition flag_names :: "string list" where
  "flag_names = [''CF'', ''PF'', ''AF'', ''ZF'', ''SF'', ''TF'', ''IF'', ''DF'', ''OF'']"

definition new_FlagsOperand :: "string list \<Rightarrow> operand res" where
  "new_FlagsOperand values =
     res_bind (py_assert (length values = length flag_names)) (\<lambda>_. Inr (FlagsOperand values))"

fun op_value :: "operand \<Rightarrow> string" where
  "op_value (RegisterOperand v w s d) = v"
| "op_value (MemoryOperand v w s d) = v"
| "op_value (ImmediateOperand v w) = v"
| "op_value (LabelOperand v) = v"
| "op_value (AgenOperand v w) = v"
| "op_value (FlagsOperand vs) = ''FLAGS''"

fun op_type :: "operand \<Rightarrow> ot" where
  "op_type (RegisterOperand v w s d) = OT_REG"
| "op_type (MemoryOperand v w s d) = OT_MEM"
| "op_type (ImmediateOperand v w) = OT_IMM"
| "op_type (LabelOperand v) = OT_LABEL"
| "op_type (AgenOperand v w) = OT_AGEN"
| "op_type (FlagsOperand vs) = OT_FLAGS"

fun op_width :: "operand \<Rightarrow> nat" where
  "op_width (RegisterOperand v w s d) = w"
| "op_width (MemoryOperand v w s d) = w"
| "op_width (ImmediateOperand v w) = w"
| "op_width (LabelOperand v) = 0"
| "op_width (AgenOperand v w) = w"
| "op_width (FlagsOperand vs) = 0"

fun op_src :: "operand \<Rightarrow> bool" where
  "op_src (RegisterOperand v w s d) = s"
| "op_src (MemoryOperand v w s d) = s"
| "op_src (ImmediateOperand v w) = True"
| "op_src (LabelOperand v) = True"
| "op_src (AgenOperand v w) = True"
| "op_src (FlagsOperand vs) = False"

fun op_dest :: "operand \<Rightarrow> bool" where
  "op_dest (RegisterOperand v w s d) = d"
| "op_dest (MemoryOperand v w s d) = d"
| "op_dest _ = False"

fun is_register_operand :: "operand \<Rightarrow> bool" where
  "is_register_operand (RegisterOperand v w s d) = True"
| "is_register_operand _ = False"

fun is_memory_operand :: "operand \<Rightarrow> bool" where
  "is_memory_operand (MemoryOperand v w s d) = True"
| "is_memory_operand _ = False"

fun is_immediate_operand :: "operand \<Rightarrow> bool" where
  "is_immediate_operand (ImmediateOperand v w) = True"
| "is_immediate_operand _ = False"

fun is_flags_operand :: "operand \<Rightarrow> bool" where
  "is_flags_operand (FlagsOperand vs) = True"
| "is_flags_operand _ = False"

subsection \<open>Flags operands\<close>

text \<open>The access modes of the nine flags, as a list of strings in the order of \<open>flag_names\<close>.\<close>

definition get_flag_list :: "string list \<Rightarrow> string list \<Rightarrow> string list" where
  "get_flag_list values types = map fst (filter (\<lambda>(n, v). v \<in> set types) (zip flag_names values))"

definition get_read_flags :: "string list \<Rightarrow> string list" where
  "get_read_flags values = get_flag_list values [''r'', ''r/w'', ''r/cw'']"

definition get_write_flags :: "string list \<Rightarrow> string list" where
  "get_write_flags values = get_flag_list values [''w'', ''r/w'', ''r/cw'']"

definition get_undef_flags :: "string list \<Rightarrow> string list" where
  "get_undef_flags values = get_flag_list values [''undef'']"

text \<open>\<open>flags2.is_dependent(flags1)\<close>: a flag written by the first is read by the second.\<close>

definition is_dependent :: "string list \<Rightarrow> string list \<Rightarrow> bool" where
  "is_dependent self_values flags_values \<longleftrightarrow>
     list_ex (\<lambda>(mode2, mode1). contains mode1 ''w'' \<and> contains mode2 ''r'') (zip self_values flags_values)"

subsection \<open>Instructions\<close>

record instruction =
  i_name :: string
  i_operands :: "operand list"
  i_implicit_operands :: "operand list"
  i_category :: string
  i_control_flow :: bool
  i_is_instrumentation :: bool
  i_latest_reg_operand :: "operand option"

definition new_instruction :: "string \<Rightarrow> bool \<Rightarrow> string \<Rightarrow> bool \<Rightarrow> instruction" where
  "new_instruction name is_instrumentation category control_flow =
     \<lparr>i_name = name, i_operands = [], i_implicit_operands = [], i_category = category,
      i_control_flow = control_flow, i_is_instrumentation = is_instrumentation,
      i_latest_reg_operand = None\<rparr>"

definition from_spec :: "instruction_spec \<Rightarrow> bool \<Rightarrow> instruction" where
  "from_spec spec is_instrumentation =
     new_instruction (is_name spec) is_instrumentation (is_category spec) (is_control_flow spec)"

definition add_op :: "instruction \<Rightarrow> operand \<Rightarrow> bool \<Rightarrow> instruction" where
  "add_op i op implicit =
     (if \<not> implicit then i\<lparr>i_operands := i_operands i @ [op]\<rparr>
      else i\<lparr>i_implicit_operands := i_implicit_operands i @ [op]\<rparr>)"

definition has_mem_operand :: "instruction \<Rightarrow> bool \<Rightarrow> bool" where
  "has_mem_operand i include_implicit \<longleftrightarrow>
     list_ex (\<lambda>op. op_type op = OT_MEM) (i_operands i) \<or>
     (include_implicit \<and> list_ex (\<lambda>op. op_type op = OT_MEM) (i_implicit_operands i))"

definition has_write :: "instruction \<Rightarrow> bool" where
  "has_write i \<longleftrightarrow> list_ex (\<lambda>op. op_type op = OT_MEM \<and> op_dest op) (i_operands i)"

definition has_read :: "instruction \<Rightarrow> bool" where
  "has_read i \<longleftrightarrow> list_ex (\<lambda>op. op_type op = OT_MEM \<and> op_src op) (i_operands i)"

definition get_src_operands :: "instruction \<Rightarrow> bool \<Rightarrow> operand list" where
  "get_src_operands i include_implicit =
     filter op_src (i_operands i) @ (if include_implicit then filter op_src (i_implicit_operands i) else [])"

definition get_dest_operands :: "instruction \<Rightarrow> bool \<Rightarrow> operand list" where
  "get_dest_operands i include_implicit =
     filter op_dest (i_operands i) @ (if include_implicit then filter op_dest (i_implicit_operands i) else [])"

definition get_mem_operands :: "instruction \<Rightarrow> operand list" where
  "get_mem_operands i =
     filter is_memory_operand (i_operands i) @ filter is_memory_operand (i_implicit_operands i)"

definition get_implicit_mem_operands :: "instruction \<Rightarrow> operand list" where
  "get_implicit_mem_operands i = filter is_memory_operand (i_implicit_operands i)"

definition get_reg_operands :: "instruction \<Rightarrow> operand list" where
  "get_reg_operands i =
     filter is_register_operand (i_implicit_operands i) @ filter is_register_operand (i_operands i)"

text \<open>The first flags operand, implicit operands first; the result is its list of access modes.\<close>

fun first_flags :: "operand list \<Rightarrow> string list option" where
  "first_flags [] = None"
| "first_flags (FlagsOperand vs # ops) = Some vs"
| "first_flags (op # ops) = first_flags ops"

definition get_flags_operand :: "instruction \<Rightarrow> string list option" where
  "get_flags_operand i =
     (case first_flags (i_implicit_operands i) of
        Some vs \<Rightarrow> Some vs
      | None \<Rightarrow> first_flags (i_operands i))"

subsection \<open>Inputs\<close>

text \<open>
  An input is the array of its 64-bit words; \<open>data_size\<close> and \<open>register_start\<close> are computed from the
  sizes of the regions as in \<open>Input.__new__\<close>.
\<close>

record input_layout =
  il_main :: nat
  il_assist :: nat
  il_register :: nat

definition data_size :: "input_layout \<Rightarrow> nat" where
  "data_size il = (il_main il + il_assist il + il_register il) div 8"

definition aligned_size :: "input_layout \<Rightarrow> int" where
  "aligned_size il = int (data_size il) + (4096 - int (il_register il)) div 8"

definition register_start :: "input_layout \<Rightarrow> nat" where
  "register_start il = data_size il - il_register il div 8"

definition get_registers :: "input_layout \<Rightarrow> nat list \<Rightarrow> nat list" where
  "get_registers il inp = drop (register_start il) (take (data_size il - 1) inp)"

subsection \<open>Facts\<close>

lemma is_memory_operand_type: "is_memory_operand op \<longleftrightarrow> op_type op = OT_MEM"
  by (cases op) auto

lemma is_register_operand_type: "is_register_operand op \<longleftrightarrow> op_type op = OT_REG"
  by (cases op) auto

lemma has_mem_operand_get:
  "has_mem_operand i True \<longleftrightarrow> get_mem_operands i \<noteq> []"
  by (auto simp: has_mem_operand_def get_mem_operands_def filter_empty_conv list_ex_iff
      is_memory_operand_type)

definition flag_modes :: "string list" where
  "flag_modes = [[], ''r'', ''w'', ''r/w'', ''r/cw'', ''undef'']"

lemma flag_mode_writes:
  "m \<in> set flag_modes \<Longrightarrow> contains m ''w'' \<longleftrightarrow> m \<in> {''w'', ''r/w'', ''r/cw''}"
  by (auto simp: flag_modes_def)

lemma flag_mode_reads:
  "m \<in> set flag_modes \<Longrightarrow> contains m ''r'' \<longleftrightarrow> m \<in> {''r'', ''r/w'', ''r/cw''}"
  by (auto simp: flag_modes_def)

lemma distinct_flag_names [simp]: "distinct flag_names"
  by (simp add: flag_names_def)

lemma length_flag_names [simp]: "length flag_names = 9"
  by (simp add: flag_names_def)

lemma get_flag_list_nth:
  "f \<in> set (get_flag_list values types) \<longleftrightarrow>
     (\<exists>k. k < 9 \<and> k < length values \<and> flag_names ! k = f \<and> values ! k \<in> set types)"
  by (force simp: get_flag_list_def set_zip)

text \<open>
  \<open>is_dependent\<close>, which tests single letters of the mode strings, agrees with the
  flag lists used everywhere else: it holds exactly when some flag that the first
  instruction writes is read by the second.
\<close>

lemma is_dependent_iff_flag_lists:
  assumes "length values2 = 9" and "length values1 = 9"
    and "set values2 \<subseteq> set flag_modes" and "set values1 \<subseteq> set flag_modes"
  shows "is_dependent values2 values1 \<longleftrightarrow>
    set (get_write_flags values1) \<inter> set (get_read_flags values2) \<noteq> {}"
proof -
  have modes: "values2 ! k \<in> set flag_modes" "values1 ! k \<in> set flag_modes" if "k < 9" for k
    using that assms nth_mem by (metis subsetD)+
  have "is_dependent values2 values1 \<longleftrightarrow>
      (\<exists>k<9. contains (values1 ! k) ''w'' \<and> contains (values2 ! k) ''r'')"
    using assms(1,2) by (auto simp: is_dependent_def list_ex_iff set_zip)
  also have "\<dots> \<longleftrightarrow> (\<exists>k<9. values1 ! k \<in> {''w'', ''r/w'', ''r/cw''} \<and>
      values2 ! k \<in> {''r'', ''r/w'', ''r/cw''})"
    using flag_mode_writes [OF modes(2)] flag_mode_reads [OF modes(1)] by blast
  also have "\<dots> \<longleftrightarrow> (\<exists>f. f \<in> set (get_write_flags values1) \<and> f \<in> set (get_read_flags values2))"
    unfolding get_write_flags_def get_read_flags_def get_flag_list_nth
    using assms(1,2) nth_eq_iff_index_eq [OF distinct_flag_names]
    by (simp only: length_flag_names list.set) (metis)
  finally show ?thesis by blast
qed

lemma is_dependent_iff_flag_lists_example:
  "is_dependent [''r'', [], [], [], [], [], [], [], []]
     [''w'', ''w'', [], [], [], [], [], [], []] \<and>
   set (get_write_flags [''w'', ''w'', [], [], [], [], [], [], []]) \<inter>
     set (get_read_flags [''r'', [], [], [], [], [], [], [], []]) \<noteq> {}"
proof -
  have "is_dependent [''r'', [], [], [], [], [], [], [], []]
      [''w'', ''w'', [], [], [], [], [], [], []]"
    by (simp add: is_dependent_def)
  then show ?thesis
    using is_dependent_iff_flag_lists [of "[''r'', [], [], [], [], [], [], [], []]"
        "[''w'', ''w'', [], [], [], [], [], [], []]"]
    by (simp add: flag_modes_def)
qed

end
