(* ===== verification/Basic_Block.thy ===== *)
theory Basic_Block
  imports Interfaces
begin

text \<open>
  Basic blocks and functions, from \<^verbatim>\<open>src/src/interfaces.py\<close>. A \<open>BasicBlock\<close> keeps its
  instructions in a doubly linked list through the \<open>next\<close> and \<open>previous\<close> fields of
  \<open>Instruction\<close>; here an instruction object is a number, the heap maps it to its two
  links, and every operation of the class is a function on the heap and the block. The
  lemmas show that the pointer operations implement insertion and deletion on the list
  of instructions of the block, which is the view the passes of the generator use.
\<close>

subsection \<open>The heap of instruction objects\<close>

record node =
  n_next :: "nat option"
  n_prev :: "nat option"

type_synonym heap = "nat \<Rightarrow> node"

record block =
  b_start :: "nat option"
  b_end :: "nat option"

definition new_block :: block where
  "new_block = \<lparr>b_start = None, b_end = None\<rparr>"

definition set_next :: "nat \<Rightarrow> nat option \<Rightarrow> heap \<Rightarrow> heap" where
  "set_next i v h = h(i := (h i)\<lparr>n_next := v\<rparr>)"

definition set_prev :: "nat \<Rightarrow> nat option \<Rightarrow> heap \<Rightarrow> heap" where
  "set_prev i v h = h(i := (h i)\<lparr>n_prev := v\<rparr>)"

subsection \<open>Operations\<close>

text \<open>The generator \<open>__iter__\<close> follows \<open>next\<close> until it is \<open>None\<close>; on a cyclic chain it does not stop.\<close>

partial_function (option) block_iter :: "heap \<Rightarrow> nat option \<Rightarrow> nat list \<Rightarrow> nat list option" where
  "block_iter h current acc =
     (case current of None \<Rightarrow> Some acc | Some i \<Rightarrow> block_iter h (n_next (h i)) (acc @ [i]))"

definition iter_block :: "heap \<Rightarrow> block \<Rightarrow> nat list option" where
  "iter_block h b = block_iter h (b_start b) []"

text \<open>\<open>__len__\<close> has its own loop, which stops at the last object instead of behind it.\<close>

partial_function (option) block_len_loop :: "heap \<Rightarrow> nat \<Rightarrow> nat \<Rightarrow> nat option" where
  "block_len_loop h instr count =
     (case n_next (h instr) of
        None \<Rightarrow> Some count
      | Some n \<Rightarrow> block_len_loop h n (count + 1))"

definition block_len :: "heap \<Rightarrow> block \<Rightarrow> nat option" where
  "block_len h b = (case b_start b of None \<Rightarrow> Some 0 | Some i \<Rightarrow> block_len_loop h i 1)"

definition insert_after_at :: "nat \<Rightarrow> nat \<Rightarrow> heap \<times> block \<Rightarrow> heap \<times> block" where
  "insert_after_at position inst = (\<lambda>(h, b).
     let next0 = n_next (h position);
         h = set_next position (Some inst) h;
         h = set_prev inst (Some position) h
     in case next0 of
          Some n \<Rightarrow> (set_prev n (Some inst) (set_next inst (Some n) h), b)
        | None \<Rightarrow> (h, b\<lparr>b_end := Some inst\<rparr>))"

definition insert_after :: "nat option \<Rightarrow> nat \<Rightarrow> heap \<times> block \<Rightarrow> heap \<times> block" where
  "insert_after position inst = (\<lambda>(h, b).
     case position of
       Some p \<Rightarrow> insert_after_at p inst (h, b)
     | None \<Rightarrow> (case b_start b of
         None \<Rightarrow> (h, b\<lparr>b_start := Some inst, b_end := Some inst\<rparr>)
       | Some s \<Rightarrow> insert_after_at s inst (h, b)))"

definition insert_before_at :: "nat \<Rightarrow> nat \<Rightarrow> heap \<times> block \<Rightarrow> heap \<times> block" where
  "insert_before_at position inst = (\<lambda>(h, b).
     let previous = n_prev (h position);
         h = set_prev position (Some inst) h;
         h = set_next inst (Some position) h
     in case previous of
          Some q \<Rightarrow> (set_next q (Some inst) (set_prev inst (Some q) h), b)
        | None \<Rightarrow> (h, b\<lparr>b_start := Some inst\<rparr>))"

definition insert_before :: "nat option \<Rightarrow> nat \<Rightarrow> heap \<times> block \<Rightarrow> heap \<times> block" where
  "insert_before position inst = (\<lambda>(h, b).
     case position of
       Some p \<Rightarrow> insert_before_at p inst (h, b)
     | None \<Rightarrow> (case b_start b of
         None \<Rightarrow> (h, b\<lparr>b_start := Some inst, b_end := Some inst\<rparr>)
       | Some s \<Rightarrow> insert_before_at s inst (h, b)))"

text \<open>
  \<open>delete\<close> first walks the block and raises if the instruction is not in it (\<open>None\<close> where the
  walk does not end), then patches the links of the neighbours.
\<close>

definition unlink :: "nat \<Rightarrow> heap \<times> block \<Rightarrow> heap \<times> block" where
  "unlink target = (\<lambda>(h, b).
     case (n_prev (h target), n_next (h target)) of
       (None, None) \<Rightarrow> (h, b\<lparr>b_end := None, b_start := None\<rparr>)
     | (None, Some n) \<Rightarrow> (set_prev n None h, b\<lparr>b_start := Some n\<rparr>)
     | (Some p, None) \<Rightarrow> (set_next p None h, b\<lparr>b_end := Some p\<rparr>)
     | (Some p, Some n) \<Rightarrow> (set_prev n (Some p) (set_next p (Some n) h), b))"

definition delete :: "nat \<Rightarrow> heap \<times> block \<Rightarrow> (heap \<times> block) res option" where
  "delete target hb =
     (case iter_block (fst hb) (snd hb) of
        None \<Rightarrow> None
      | Some is \<Rightarrow> Some (if target \<in> set is then Inr (unlink target hb) else Inl PyException))"

subsection \<open>Functions and test cases\<close>

text \<open>
  A basic block object also carries its name, successors (by name) and terminators. The
  constructor of \<open>Function\<close> derives the names of its entry and exit block with
  \<open>name.lstrip(".function_")\<close>, which strips every leading character that occurs in
  the argument, not the prefix.
\<close>

record basic_block =
  bb_name :: string
  bb_successors :: "string list"
  bb_terminators :: "instruction list"
  bb_list :: block

definition new_basic_block :: "string \<Rightarrow> basic_block" where
  "new_basic_block name = \<lparr>bb_name = name, bb_successors = [], bb_terminators = [], bb_list = new_block\<rparr>"

definition insert_terminator :: "basic_block \<Rightarrow> instruction \<Rightarrow> basic_block" where
  "insert_terminator bb terminator = bb\<lparr>bb_terminators := bb_terminators bb @ [terminator]\<rparr>"

definition get_first :: "basic_block \<Rightarrow> nat option" where
  "get_first bb = b_start (bb_list bb)"

definition get_last :: "basic_block \<Rightarrow> nat option" where
  "get_last bb = b_end (bb_list bb)"

definition lstrip :: "string \<Rightarrow> string \<Rightarrow> string" where
  "lstrip s chars = dropWhile (\<lambda>c. c \<in> set chars) s"

record function_obj =
  f_name :: string
  f_all_bb :: "basic_block list"
  f_entry :: basic_block
  f_exit :: basic_block

definition new_function :: "string \<Rightarrow> function_obj" where
  "new_function name =
     (let stripped_name = lstrip name ''.function_'';
          entry = new_basic_block (''.bb_'' @ stripped_name @ ''.entry'');
          exit = new_basic_block (''.bb_'' @ stripped_name @ ''.exit'')
      in \<lparr>f_name = name, f_all_bb = [entry, exit], f_entry = entry, f_exit = exit\<rparr>)"

definition function_insert :: "function_obj \<Rightarrow> basic_block \<Rightarrow> function_obj" where
  "function_insert f bb =
     (let all_bb = butlast (f_all_bb f);
          all_bb = all_bb @ [bb];
          all_bb = all_bb @ [f_exit f]
      in f\<lparr>f_all_bb := all_bb\<rparr>)"

definition insert_multiple :: "function_obj \<Rightarrow> basic_block list \<Rightarrow> function_obj" where
  "insert_multiple f new_bbs =
     (let all_bb = butlast (f_all_bb f);
          all_bb = all_bb @ new_bbs;
          all_bb = all_bb @ [f_exit f]
      in f\<lparr>f_all_bb := all_bb\<rparr>)"

definition get_all :: "function_obj \<Rightarrow> basic_block list" where
  "get_all f = f_all_bb f"

subsection \<open>The list view of a block\<close>

fun list_insert_after :: "'a \<Rightarrow> 'a \<Rightarrow> 'a list \<Rightarrow> 'a list" where
  "list_insert_after p i [] = []"
| "list_insert_after p i (x # xs) = (if x = p then x # i # xs else x # list_insert_after p i xs)"

fun list_insert_before :: "'a \<Rightarrow> 'a \<Rightarrow> 'a list \<Rightarrow> 'a list" where
  "list_insert_before p i [] = []"
| "list_insert_before p i (x # xs) = (if x = p then i # x # xs else x # list_insert_before p i xs)"

text \<open>
  \<open>seg h prev xs nxt\<close>: the objects \<open>xs\<close> are linked in this order in both directions, the
  first one's predecessor being \<open>prev\<close> and the last one's successor \<open>nxt\<close>.
\<close>

definition hd_or :: "'a list \<Rightarrow> 'a option \<Rightarrow> 'a option" where
  "hd_or xs d = (case xs of [] \<Rightarrow> d | x # _ \<Rightarrow> Some x)"

definition last_or :: "'a list \<Rightarrow> 'a option \<Rightarrow> 'a option" where
  "last_or xs d = (if xs = [] then d else Some (last xs))"

fun seg :: "heap \<Rightarrow> nat option \<Rightarrow> nat list \<Rightarrow> nat option \<Rightarrow> bool" where
  "seg h prev [] nxt = True"
| "seg h prev (x # xs) nxt =
     (n_prev (h x) = prev \<and> n_next (h x) = hd_or xs nxt \<and> seg h (Some x) xs nxt)"

definition block_repr :: "heap \<times> block \<Rightarrow> nat list \<Rightarrow> bool" where
  "block_repr hb xs \<longleftrightarrow> seg (fst hb) None xs None \<and> distinct xs \<and>
     b_start (snd hb) = hd_or xs None \<and> b_end (snd hb) = last_or xs None"

text \<open>An instruction object as its constructor leaves it.\<close>

definition fresh_node :: "heap \<Rightarrow> nat \<Rightarrow> bool" where
  "fresh_node h i \<longleftrightarrow> n_next (h i) = None \<and> n_prev (h i) = None"

lemma set_links_simps [simp]:
  "n_next (set_next i v h j) = (if j = i then v else n_next (h j))"
  "n_prev (set_next i v h j) = n_prev (h j)"
  "n_next (set_prev i v h j) = n_next (h j)"
  "n_prev (set_prev i v h j) = (if j = i then v else n_prev (h j))"
  by (simp_all add: set_next_def set_prev_def)

lemma end_or_simps [simp]:
  "hd_or [] d = d" "hd_or (x # xs) d = Some x"
  "last_or [] d = d" "last_or (xs @ [x]) d = Some x" "last_or (x # xs) d = last_or xs (Some x)"
  by (simp_all add: hd_or_def last_or_def)

lemma hd_or_append [simp]: "hd_or (xs @ ys) d = hd_or xs (hd_or ys d)"
  by (simp add: hd_or_def split: list.splits)

lemma last_or_append [simp]: "last_or (xs @ ys) d = last_or ys (last_or xs d)"
  by (simp add: last_or_def)

lemma hd_or_in: "hd_or xs d = Some y \<Longrightarrow> y \<in> set xs \<or> d = Some y"
  by (cases xs) auto

lemma last_or_in: "last_or xs d = Some y \<Longrightarrow> y \<in> set xs \<or> d = Some y"
  by (auto simp: last_or_def split: if_splits)

lemma seg_append [simp]:
  "seg h prev (xs @ ys) nxt \<longleftrightarrow> seg h prev xs (hd_or ys nxt) \<and> seg h (last_or xs prev) ys nxt"
  by (induction xs arbitrary: prev) auto

lemma seg_cong:
  "(\<And>x. x \<in> set xs \<Longrightarrow> n_next (h' x) = n_next (h x) \<and> n_prev (h' x) = n_prev (h x)) \<Longrightarrow>
   seg h' prev xs nxt = seg h prev xs nxt"
  by (induction xs arbitrary: prev) auto

text \<open>A store to an object outside the segment does not change it.\<close>

lemma seg_set_other [simp]:
  "i \<notin> set xs \<Longrightarrow> seg (set_next i v h) prev xs nxt = seg h prev xs nxt"
  "i \<notin> set xs \<Longrightarrow> seg (set_prev i v h) prev xs nxt = seg h prev xs nxt"
  by (rule seg_cong; auto)+

text \<open>The two ends of a segment are relinked by one store each.\<close>

lemma seg_relink_last:
  assumes "seg h prev xs nxt" and "distinct xs" and "last_or xs None = Some q"
  shows "seg (set_next q v h) prev xs v"
proof -
  from assms(3) obtain ys where xs: "xs = ys @ [q]"
    by (cases xs rule: rev_cases) auto
  with assms(1,2) show ?thesis by simp
qed

lemma seg_relink_first:
  assumes "seg h prev xs nxt" and "distinct xs" and "hd_or xs None = Some q"
  shows "seg (set_prev q v h) v xs nxt"
  using assms by (cases xs) auto

lemma in_set_split: "p \<in> set xs \<Longrightarrow> distinct xs \<Longrightarrow>
  \<exists>as bs. xs = as @ p # bs \<and> p \<notin> set as \<and> p \<notin> set bs"
  by (metis distinct.simps(2) distinct_append in_set_conv_decomp_first)

lemma list_insert_split:
  assumes "p \<notin> set as"
  shows "list_insert_after p i (as @ p # bs) = as @ p # i # bs"
    and "list_insert_before p i (as @ p # bs) = as @ i # p # bs"
  using assms by (induction as) auto

lemma set_list_insert:
  "p \<in> set xs \<Longrightarrow> set (list_insert_after p i xs) = insert i (set xs)"
  "p \<in> set xs \<Longrightarrow> set (list_insert_before p i xs) = insert i (set xs)"
  by (induction xs) auto

subsection \<open>The operations implement the list operations\<close>

lemma block_iter_seg:
  "seg h prev xs None \<Longrightarrow> block_iter h (hd_or xs None) acc = Some (acc @ xs)"
proof (induction xs arbitrary: prev acc)
  case Nil
  then show ?case by (simp add: block_iter.simps)
next
  case (Cons x xs)
  from Cons.prems have "seg h (Some x) xs None" and nx: "n_next (h x) = hd_or xs None"
    by simp_all
  with Cons.IH [of "Some x" "acc @ [x]"]
  have "block_iter h (n_next (h x)) (acc @ [x]) = Some (acc @ x # xs)" by simp
  then show ?case by (subst block_iter.simps) simp
qed

lemma iter_block_repr: "block_repr hb xs \<Longrightarrow> iter_block (fst hb) (snd hb) = Some xs"
  using block_iter_seg [of "fst hb" None xs "[]"]
  by (simp add: block_repr_def iter_block_def)

lemma insert_after_at_repr:
  assumes r: "block_repr (h, b) xs" and p: "p \<in> set xs" and i: "i \<notin> set xs" and f: "fresh_node h i"
  shows "block_repr (insert_after_at p i (h, b)) (list_insert_after p i xs)"
proof -
  from r have d: "distinct xs" by (simp add: block_repr_def)
  with p obtain as bs where xs: "xs = as @ p # bs" "p \<notin> set as" "p \<notin> set bs"
    using in_set_split by metis
  note sp = list_insert_split(1) [OF xs(2), of i bs]
  show ?thesis
  proof (cases bs)
    case Nil
    then show ?thesis using r i f xs sp d
      by (auto simp: block_repr_def insert_after_at_def fresh_node_def)
  next
    case (Cons n cs)
    then show ?thesis using r i f xs sp d
      by (auto simp: block_repr_def insert_after_at_def fresh_node_def)
  qed
qed

lemma insert_before_at_repr:
  assumes r: "block_repr (h, b) xs" and p: "p \<in> set xs" and i: "i \<notin> set xs" and f: "fresh_node h i"
  shows "block_repr (insert_before_at p i (h, b)) (list_insert_before p i xs)"
proof -
  from r have d: "distinct xs" by (simp add: block_repr_def)
  with p obtain as bs where xs: "xs = as @ p # bs" "p \<notin> set as" "p \<notin> set bs"
    using in_set_split by metis
  note sp = list_insert_split(2) [OF xs(2), of i bs]
  show ?thesis
  proof (cases as rule: rev_cases)
    case Nil
    then show ?thesis using r i f xs sp d
      by (auto simp: block_repr_def insert_before_at_def fresh_node_def)
  next
    case (snoc cs q)
    then show ?thesis using r i f xs sp d
      by (auto simp: block_repr_def insert_before_at_def fresh_node_def)
  qed
qed

lemma unlink_repr:
  assumes r: "block_repr (h, b) xs" and p: "p \<in> set xs"
  shows "block_repr (unlink p (h, b)) (remove1 p xs)"
proof -
  from r have d: "distinct xs" by (simp add: block_repr_def)
  with p obtain as bs where xs: "xs = as @ p # bs" "p \<notin> set as" "p \<notin> set bs"
    using in_set_split by metis
  then have rm: "remove1 p xs = as @ bs" by (simp add: remove1_append)
  show ?thesis
  proof (cases as rule: rev_cases)
    case Nil
    then show ?thesis using r xs rm d
      by (cases bs) (auto simp: block_repr_def unlink_def)
  next
    case (snoc cs q)
    then show ?thesis using r xs rm d
      by (cases bs) (auto simp: block_repr_def unlink_def)
  qed
qed

lemma block_len_loop_seg:
  "seg h prev (x # xs) None \<Longrightarrow> block_len_loop h x n = Some (n + length xs)"
proof (induction xs arbitrary: prev x n)
  case Nil
  then show ?case by (subst block_len_loop.simps) simp
next
  case (Cons y ys)
  from Cons.prems have "seg h (Some x) (y # ys) None" and nx: "n_next (h x) = Some y"
    by simp_all
  from Cons.IH [OF this(1), of "n + 1"] nx show ?case by (subst block_len_loop.simps) simp
qed

lemma block_len_repr: "block_repr hb xs \<Longrightarrow> block_len (fst hb) (snd hb) = Some (length xs)"
  using block_len_loop_seg [of "fst hb" None "hd xs" "tl xs" 1]
  by (cases xs) (simp_all add: block_repr_def block_len_def)

text \<open>A block never touches an object outside itself and the object it inserts.\<close>

lemma fresh_insert_after_at:
  assumes "block_repr (h, b) xs" and "p \<in> set xs" and "j \<notin> set xs" and "j \<noteq> i" and "fresh_node h j"
  shows "fresh_node (fst (insert_after_at p i (h, b))) j"
proof -
  from assms(1,2) obtain as bs where xs: "xs = as @ p # bs"
    using in_set_split by (metis block_repr_def)
  with assms show ?thesis
    by (cases bs) (auto simp: block_repr_def insert_after_at_def fresh_node_def)
qed

lemma fresh_insert_before_at:
  assumes "block_repr (h, b) xs" and "p \<in> set xs" and "j \<notin> set xs" and "j \<noteq> i" and "fresh_node h j"
  shows "fresh_node (fst (insert_before_at p i (h, b))) j"
proof -
  from assms(1,2) obtain as bs where xs: "xs = as @ p # bs"
    using in_set_split by (metis block_repr_def)
  with assms show ?thesis
    by (cases as rule: rev_cases) (auto simp: block_repr_def insert_before_at_def fresh_node_def)
qed

subsection \<open>The interface of an instruction sequence\<close>

text \<open>
  What the instrumentation passes rely on: the sequence can be iterated, and a new
  instruction can be put next to one that is in it. A pass that puts several instructions
  next to the same position obtains them in order with \<open>insert_before\<close> and in reverse order
  with \<open>insert_after\<close>.
\<close>

locale instruction_sequence =
  fixes holds :: "'s \<Rightarrow> 'i list \<Rightarrow> bool"
    and unused :: "'s \<Rightarrow> 'i \<Rightarrow> bool"
    and iter :: "'s \<Rightarrow> 'i list option"
    and ins_after :: "'i \<Rightarrow> 'i \<Rightarrow> 's \<Rightarrow> 's"
    and ins_before :: "'i \<Rightarrow> 'i \<Rightarrow> 's \<Rightarrow> 's"
  assumes iter: "holds s xs \<Longrightarrow> iter s = Some xs"
    and distinct_holds: "holds s xs \<Longrightarrow> distinct xs"
    and ins_after: "holds s xs \<Longrightarrow> p \<in> set xs \<Longrightarrow> i \<notin> set xs \<Longrightarrow> unused s i \<Longrightarrow>
      holds (ins_after p i s) (list_insert_after p i xs)"
    and ins_before: "holds s xs \<Longrightarrow> p \<in> set xs \<Longrightarrow> i \<notin> set xs \<Longrightarrow> unused s i \<Longrightarrow>
      holds (ins_before p i s) (list_insert_before p i xs)"
    and unused_after: "holds s xs \<Longrightarrow> p \<in> set xs \<Longrightarrow> j \<notin> set xs \<Longrightarrow> j \<noteq> i \<Longrightarrow> unused s j \<Longrightarrow>
      unused (ins_after p i s) j"
    and unused_before: "holds s xs \<Longrightarrow> p \<in> set xs \<Longrightarrow> j \<notin> set xs \<Longrightarrow> j \<noteq> i \<Longrightarrow> unused s j \<Longrightarrow>
      unused (ins_before p i s) j"
begin

lemma fold_ins_before:
  assumes "holds s (as @ p # bs)" and "distinct is" and "set is \<inter> set (as @ p # bs) = {}"
    and "\<And>i. i \<in> set is \<Longrightarrow> unused s i"
  shows "holds (fold (ins_before p) is s) (as @ is @ p # bs)"
  using assms
proof (induction "is" arbitrary: s as)
  case (Cons i js)
  have p: "p \<notin> set as" using distinct_holds [OF Cons.prems(1)] by simp
  have i: "i \<notin> set (as @ p # bs)" and u: "unused s i" using Cons.prems by auto
  have h: "holds (ins_before p i s) ((as @ [i]) @ p # bs)"
    using ins_before [OF Cons.prems(1), of p i] i u list_insert_split(2) [OF p, of i bs] by simp
  have "unused (ins_before p i s) j" if "j \<in> set js" for j
    using that Cons.prems by (intro unused_before [OF Cons.prems(1)]) auto
  then show ?case using Cons.IH [OF h] Cons.prems by auto
qed simp

lemma fold_ins_after:
  assumes "holds s (as @ p # bs)" and "distinct is" and "set is \<inter> set (as @ p # bs) = {}"
    and "\<And>i. i \<in> set is \<Longrightarrow> unused s i"
  shows "holds (fold (ins_after p) is s) (as @ p # rev is @ bs)"
  using assms
proof (induction "is" arbitrary: s bs)
  case (Cons i js)
  have p: "p \<notin> set as" using distinct_holds [OF Cons.prems(1)] by simp
  have i: "i \<notin> set (as @ p # bs)" and u: "unused s i" using Cons.prems by auto
  have h: "holds (ins_after p i s) (as @ p # i # bs)"
    using ins_after [OF Cons.prems(1), of p i] i u list_insert_split(1) [OF p, of i bs] by simp
  have "unused (ins_after p i s) j" if "j \<in> set js" for j
    using that Cons.prems by (intro unused_after [OF Cons.prems(1)]) auto
  then show ?case using Cons.IH [OF h] Cons.prems by auto
qed simp

end

interpretation blk: instruction_sequence block_repr "\<lambda>hb. fresh_node (fst hb)"
  "\<lambda>hb. iter_block (fst hb) (snd hb)" insert_after_at insert_before_at
proof
  fix s :: "heap \<times> block" and xs p i
  assume "block_repr s xs" "p \<in> set xs" "i \<notin> set xs" "fresh_node (fst s) i"
  then show "block_repr (insert_after_at p i s) (list_insert_after p i xs)"
    "block_repr (insert_before_at p i s) (list_insert_before p i xs)"
    using insert_after_at_repr [of "fst s" "snd s" xs p i]
      insert_before_at_repr [of "fst s" "snd s" xs p i] by simp_all
next
  fix s :: "heap \<times> block" and xs p j i
  assume "block_repr s xs" "p \<in> set xs" "j \<notin> set xs" "j \<noteq> i" "fresh_node (fst s) j"
  then show "fresh_node (fst (insert_after_at p i s)) j" "fresh_node (fst (insert_before_at p i s)) j"
    using fresh_insert_after_at [of "fst s" "snd s" xs p j i]
      fresh_insert_before_at [of "fst s" "snd s" xs p j i] by simp_all
qed (simp_all add: iter_block_repr block_repr_def)

text \<open>Without a position the first instruction is the position, and an empty block gets its only one.\<close>

lemma insert_none_repr:
  assumes r: "block_repr (h, b) xs" and i: "i \<notin> set xs" and f: "fresh_node h i"
  shows "block_repr (insert_after None i (h, b)) (take 1 xs @ i # drop 1 xs)"
    and "block_repr (insert_before None i (h, b)) (i # xs)"
proof -
  have "block_repr (insert_after None i (h, b)) (take 1 xs @ i # drop 1 xs) \<and>
    block_repr (insert_before None i (h, b)) (i # xs)"
  proof (cases xs)
    case Nil
    then show ?thesis using r f
      by (simp add: block_repr_def insert_after_def insert_before_def fresh_node_def)
  next
    case (Cons x ys)
    then have "b_start b = Some x" using r by (simp add: block_repr_def)
    with Cons insert_after_at_repr [OF r _ i f, of x] insert_before_at_repr [OF r _ i f, of x]
    show ?thesis by (simp add: insert_after_def insert_before_def)
  qed
  then show "block_repr (insert_after None i (h, b)) (take 1 xs @ i # drop 1 xs)"
    and "block_repr (insert_before None i (h, b)) (i # xs)" by simp_all
qed

subsection \<open>Properties\<close>

text \<open>
  C12. On a well-formed block that holds the instructions \<open>xs\<close>, each pointer operation of
  \<open>BasicBlock\<close> is the corresponding operation on \<open>xs\<close> and leaves a well-formed block:
  iteration and length terminate with \<open>xs\<close>, insertion next to a member works at that
  position, insertion without a position goes behind (or before) the first instruction
  and into an empty block makes it the only one, and deletion removes exactly the target
  or raises when the target is not in the block.
\<close>

theorem block_operations_refine_lists:
  assumes r: "block_repr (h, b) xs" and i: "i \<notin> set xs" and f: "fresh_node h i"
  shows "iter_block h b = Some xs \<and> block_len h b = Some (length xs) \<and>
    (p \<in> set xs \<longrightarrow>
       block_repr (insert_after (Some p) i (h, b)) (list_insert_after p i xs) \<and>
       block_repr (insert_before (Some p) i (h, b)) (list_insert_before p i xs) \<and>
       (\<exists>hb. delete p (h, b) = Some (Inr hb) \<and> block_repr hb (remove1 p xs))) \<and>
    (p \<notin> set xs \<longrightarrow> delete p (h, b) = Some (Inl PyException)) \<and>
    block_repr (insert_after None i (h, b)) (take 1 xs @ i # drop 1 xs) \<and>
    block_repr (insert_before None i (h, b)) (i # xs)"
proof (intro conjI impI)
  show "iter_block h b = Some xs" "block_len h b = Some (length xs)"
    using iter_block_repr [OF r] block_len_repr [OF r] by simp_all
next
  assume p: "p \<in> set xs"
  show "block_repr (insert_after (Some p) i (h, b)) (list_insert_after p i xs)"
    using blk.ins_after [OF r p i] f by (simp add: insert_after_def)
  show "block_repr (insert_before (Some p) i (h, b)) (list_insert_before p i xs)"
    using blk.ins_before [OF r p i] f by (simp add: insert_before_def)
  show "\<exists>hb. delete p (h, b) = Some (Inr hb) \<and> block_repr hb (remove1 p xs)"
    using iter_block_repr [OF r] unlink_repr [OF r p] p by (simp add: delete_def)
next
  assume "p \<notin> set xs"
  then show "delete p (h, b) = Some (Inl PyException)"
    using iter_block_repr [OF r] by (simp add: delete_def)
next
  show "block_repr (insert_after None i (h, b)) (take 1 xs @ i # drop 1 xs)"
    using insert_none_repr(1) [OF r i f] .
  show "block_repr (insert_before None i (h, b)) (i # xs)"
    using insert_none_repr(2) [OF r i f] .
qed

definition ex_heap :: heap where
  "ex_heap = (\<lambda>_. \<lparr>n_next = None, n_prev = None\<rparr>)(0 := \<lparr>n_next = Some 1, n_prev = None\<rparr>,
     1 := \<lparr>n_next = None, n_prev = Some 0\<rparr>)"

definition ex_block :: block where
  "ex_block = \<lparr>b_start = Some 0, b_end = Some 1\<rparr>"

theorem block_operations_refine_lists_witness:
  "block_repr (insert_after None 2 (ex_heap, ex_block)) [0, 2, 1] \<and>
   delete 7 (ex_heap, ex_block) = Some (Inl PyException)"
proof -
  have r: "block_repr (ex_heap, ex_block) [0, 1]"
    by (simp add: block_repr_def ex_heap_def ex_block_def)
  have "fresh_node ex_heap 2" by (simp add: fresh_node_def ex_heap_def)
  with block_operations_refine_lists [OF r, of 2 7] show ?thesis by simp
qed

text \<open>
  Instrumentation around one instruction: putting fresh instructions one after another
  before a position leaves them in the order of insertion directly before it, while
  putting them after a position leaves them in the reverse order directly after it; the
  instructions that were there keep their order.
\<close>

lemma repeated_insertion_order:
  assumes "block_repr hb (as @ p # bs)" and "distinct is" and "set is \<inter> set (as @ p # bs) = {}"
    and "\<And>i. i \<in> set is \<Longrightarrow> fresh_node (fst hb) i"
  shows "block_repr (fold (\<lambda>i. insert_before (Some p) i) is hb) (as @ is @ p # bs) \<and>
    block_repr (fold (\<lambda>i. insert_after (Some p) i) is hb) (as @ p # rev is @ bs)"
proof -
  have "(\<lambda>i. insert_before (Some p) i) = insert_before_at p"
    and "(\<lambda>i. insert_after (Some p) i) = insert_after_at p"
    by (auto simp: insert_before_def insert_after_def fun_eq_iff)
  then show ?thesis using blk.fold_ins_before [OF assms] blk.fold_ins_after [OF assms] by simp
qed

lemma repeated_insertion_order_example:
  "block_repr (fold (\<lambda>i. insert_before (Some 1) i) [2, 3] (ex_heap, ex_block)) [0, 2, 3, 1] \<and>
   block_repr (fold (\<lambda>i. insert_after (Some 1) i) [2, 3] (ex_heap, ex_block)) [0, 1, 3, 2]"
proof -
  have r: "block_repr (ex_heap, ex_block) ([0] @ 1 # [])"
    by (simp add: block_repr_def ex_heap_def ex_block_def)
  have f: "fresh_node (fst (ex_heap, ex_block)) i" if "i \<in> set [2, 3]" for i
    using that by (auto simp: fresh_node_def ex_heap_def)
  show ?thesis
    using repeated_insertion_order [OF r, of "[2, 3]", OF _ _ f] by simp
qed

text \<open>
  The list of blocks of a function starts with its entry and ends with its exit, however
  blocks are inserted: \<open>insert\<close> and \<open>insert_multiple\<close> put the new blocks just before the exit and
  keep the others in order, and inserting blocks one at a time is inserting them all.
\<close>

lemma function_blocks_entry_exit:
  "get_all (fold (\<lambda>bb f. function_insert f bb) bbs (insert_multiple (new_function name) cs)) =
     f_entry (new_function name) # cs @ bbs @ [f_exit (new_function name)]"
proof -
  have "get_all (fold (\<lambda>bb f. function_insert f bb) bbs f) = butlast (f_all_bb f) @ bbs @ [f_exit f] \<and>
      f_exit (fold (\<lambda>bb f. function_insert f bb) bbs f) = f_exit f"
    if "f_all_bb f \<noteq> []" "last (f_all_bb f) = f_exit f" for f
    using that
    by (induction bbs arbitrary: f)
      (auto simp: get_all_def function_insert_def Let_def butlast_append, metis append_butlast_last_id)
  then show ?thesis
    by (auto simp: insert_multiple_def new_function_def Let_def butlast_append)
qed

text \<open>
  Names of entry blocks are not unique: two functions with different names can have entry
  blocks (and exit blocks) with the same label, because the prefix is stripped as a set of
  characters.
\<close>

lemma function_entry_names_collide:
  "bb_name (f_entry (new_function ''.function_1'')) = bb_name (f_entry (new_function ''.function_n1''))
   \<and> ''.function_1'' \<noteq> ''.function_n1''
   \<and> bb_name (f_entry (new_function ''.function_main'')) = ''.bb_main.entry''
   \<and> bb_name (f_entry (new_function ''.function_init'')) = ''.bb_.entry''"
  by (simp add: new_function_def new_basic_block_def lstrip_def Let_def)

end
