(* ===== verification/Taint.thy ===== *)
theory Taint
  imports Interfaces
begin

text \<open>
  The taint tracker of \<^verbatim>\<open>src/src/model.py\<close> (\<open>TaintTracker\<close>): it follows the data flow of an
  emulated test case and reports which elements of the input influence the contract
  trace. Labels are strings, as in the code: normalised register names, flag names and
  hexadecimal addresses of 8-byte blocks. The dependency dictionaries are never iterated, so
  they are maps from labels to sets of labels; stacks have their top at the head of the list.

  The second half states the tracker's contract as the locale \<open>dependency_tracker\<close>, proves
  noninterference in it (an input that agrees on the tainted labels produces the same
  observations, also along rolled-restored speculation), and interprets it on the tracker.
\<close>

subsection \<open>Hexadecimal labels\<close>

definition hex_digit :: "nat \<Rightarrow> char" where
  "hex_digit d = (if d < 10 then char_of (48 + d) else char_of (87 + d))"

fun hex_digits :: "nat \<Rightarrow> string" where
  "hex_digits n = (if n < 16 then [hex_digit n] else hex_digits (n div 16) @ [hex_digit (n mod 16)])"

declare hex_digits.simps [simp del]

definition hex :: "nat \<Rightarrow> string" where
  "hex n = ''0x'' @ hex_digits n"

definition digit_value :: "char \<Rightarrow> nat option" where
  "digit_value c =
     (let n = (of_char c :: nat)
      in if 48 \<le> n \<and> n \<le> 57 then Some (n - 48)
         else if 97 \<le> n \<and> n \<le> 102 then Some (n - 87)
         else if 65 \<le> n \<and> n \<le> 70 then Some (n - 55) else None)"

text \<open>\<open>int(label, 16)\<close> for a label with the prefix \<open>0x\<close>.\<close>

fun parse_hex_digits :: "nat \<Rightarrow> string \<Rightarrow> nat res" where
  "parse_hex_digits acc [] = Inr acc"
| "parse_hex_digits acc (c # cs) =
     (case digit_value c of None \<Rightarrow> Inl ValueError | Some d \<Rightarrow> parse_hex_digits (16 * acc + d) cs)"

definition int16 :: "string \<Rightarrow> nat res" where
  "int16 label = (if drop 2 label = [] then Inl ValueError else parse_hex_digits 0 (drop 2 label))"

subsection \<open>Register names\<close>

definition gpr_normalized :: "(string \<times> string) list" where
  "gpr_normalized =
    [(''RAX'', ''A''), (''EAX'', ''A''), (''AX'', ''A''), (''AL'', ''A''), (''AH'', ''A''),
     (''RBX'', ''B''), (''EBX'', ''B''), (''BX'', ''B''), (''BL'', ''B''), (''BH'', ''B''),
     (''RCX'', ''C''), (''ECX'', ''C''), (''CX'', ''C''), (''CL'', ''C''), (''CH'', ''C''),
     (''RDX'', ''D''), (''EDX'', ''D''), (''DX'', ''D''), (''DL'', ''D''), (''DH'', ''D''),
     (''RSI'', ''SI''), (''ESI'', ''SI''), (''SI'', ''SI''), (''SIL'', ''SI''),
     (''RDI'', ''DI''), (''EDI'', ''DI''), (''DI'', ''DI''), (''DIL'', ''DI''),
     (''R8'', ''8''), (''R8D'', ''8''), (''R8W'', ''8''), (''R8B'', ''8''),
     (''R9'', ''9''), (''R9D'', ''9''), (''R9W'', ''9''), (''R9B'', ''9''),
     (''R10'', ''10''), (''R10D'', ''10''), (''R10W'', ''10''), (''R10B'', ''10''),
     (''R11'', ''11''), (''R11D'', ''11''), (''R11W'', ''11''), (''R11B'', ''11''),
     (''R12'', ''12''), (''R12D'', ''12''), (''R12W'', ''12''), (''R12B'', ''12''),
     (''R13'', ''13''), (''R13D'', ''13''), (''R13W'', ''13''), (''R13B'', ''13''),
     (''R14'', ''14''), (''R14D'', ''14''), (''R14W'', ''14''), (''R14B'', ''14''),
     (''R15'', ''15''), (''R15D'', ''15''), (''R15W'', ''15''), (''R15B'', ''15''),
     (''FLAGS'', ''FLAGS''), (''RIP'', ''RIP''), (''RSP'', ''RSP'')]"

text \<open>Unicorn's register identifiers; \<open>UC_NONE\<close> is the value \<open>-1\<close> of the table.\<close>

datatype uc_reg = UC_RAX | UC_RBX | UC_RCX | UC_RDX | UC_RDI | UC_RSI | UC_RSP | UC_RBP
  | UC_R8 | UC_R9 | UC_R10 | UC_R11 | UC_R12 | UC_R13 | UC_R14 | UC_R15 | UC_EFLAGS | UC_RIP | UC_NONE

definition reg_decode :: "(string \<times> uc_reg) list" where
  "reg_decode =
    [(''A'', UC_RAX), (''B'', UC_RBX), (''C'', UC_RCX), (''D'', UC_RDX), (''DI'', UC_RDI),
     (''SI'', UC_RSI), (''SP'', UC_RSP), (''BP'', UC_RBP), (''8'', UC_R8), (''9'', UC_R9),
     (''10'', UC_R10), (''11'', UC_R11), (''12'', UC_R12), (''13'', UC_R13), (''14'', UC_R14),
     (''15'', UC_R15), (''FLAGS'', UC_EFLAGS), (''CF'', UC_EFLAGS), (''PF'', UC_EFLAGS),
     (''AF'', UC_EFLAGS), (''ZF'', UC_EFLAGS), (''SF'', UC_EFLAGS), (''TF'', UC_EFLAGS),
     (''IF'', UC_EFLAGS), (''DF'', UC_EFLAGS), (''OF'', UC_EFLAGS), (''AC'', UC_EFLAGS),
     (''RIP'', UC_NONE), (''RSP'', UC_NONE)]"

definition input_registers :: "uc_reg list" where
  "input_registers = [UC_RAX, UC_RBX, UC_RCX, UC_RDX, UC_RSI, UC_RDI, UC_EFLAGS]"

text \<open>\<open>re.split\<close> of an address at \<open>+\<close>, \<open>-\<close>, \<open>*\<close> and blanks.\<close>

fun split_chars :: "char list \<Rightarrow> string \<Rightarrow> string \<Rightarrow> string list" where
  "split_chars seps acc [] = [acc]"
| "split_chars seps acc (c # cs) =
     (if c \<in> set seps then acc # split_chars seps [] cs else split_chars seps (acc @ [c]) cs)"

definition address_parts :: "string \<Rightarrow> string list" where
  "address_parts value = split_chars ''+-* '' [] value"

subsection \<open>State\<close>

type_synonym deps = "string \<Rightarrow> string set option"

record taint_state =
  ts_sandbox_base :: int
  ts_instruction :: "instruction option"
  ts_src_regs :: "string list"
  ts_dest_regs :: "string list"
  ts_src_flags :: "string list"
  ts_dest_flags :: "string list"
  ts_src_mems :: "string list"
  ts_dest_mems :: "string list"
  ts_mem_address_regs :: "string list"
  ts_pending_taint :: "string list"
  ts_reg_dependencies :: deps
  ts_flag_dependencies :: deps
  ts_mem_dependencies :: deps
  ts_tainted_labels :: "string set"
  ts_checkpoints :: "(deps \<times> deps \<times> deps) list"

definition new_taint_tracker :: "string list \<Rightarrow> int \<Rightarrow> taint_state" where
  "new_taint_tracker initial_observations sandbox_base =
     \<lparr>ts_sandbox_base = sandbox_base, ts_instruction = None,
      ts_src_regs = [], ts_dest_regs = [], ts_src_flags = [], ts_dest_flags = [],
      ts_src_mems = [], ts_dest_mems = [], ts_mem_address_regs = [], ts_pending_taint = [],
      ts_reg_dependencies = Map.empty, ts_flag_dependencies = Map.empty,
      ts_mem_dependencies = Map.empty, ts_tainted_labels = set initial_observations,
      ts_checkpoints = []\<rparr>"

definition dep_get :: "deps \<Rightarrow> string \<Rightarrow> string set" where
  "dep_get m label = (case m label of None \<Rightarrow> {label} | Some s \<Rightarrow> s)"

definition dep_collect :: "deps \<Rightarrow> string list \<Rightarrow> string set" where
  "dep_collect m labels = \<Union> (dep_get m ` set labels)"

definition dep_add :: "string set \<Rightarrow> string \<Rightarrow> deps \<Rightarrow> deps" where
  "dep_add uniq_labels l m =
     (case m l of
        Some s \<Rightarrow> m(l \<mapsto> s \<union> uniq_labels)
      | None \<Rightarrow> m(l \<mapsto> insert l uniq_labels))"

subsection \<open>Operations\<close>

definition finalize_instruction :: "taint_state \<Rightarrow> taint_state" where
  "finalize_instruction t =
     (let src_labels = dep_collect (ts_reg_dependencies t) (ts_src_regs t)
            \<union> dep_collect (ts_flag_dependencies t) (ts_src_flags t)
            \<union> dep_collect (ts_mem_dependencies t) (ts_src_mems t);
          reg_deps = fold (dep_add src_labels) (ts_dest_regs t) (ts_reg_dependencies t);
          flag_deps = fold (dep_add src_labels) (ts_dest_flags t) (ts_flag_dependencies t);
          mem_deps = fold (dep_add src_labels) (ts_dest_mems t) (ts_mem_dependencies t);
          tainted = fold (\<lambda>label s.
              if starts_with label ''0x'' then s \<union> dep_get mem_deps label
              else s \<union> dep_get reg_deps label) (ts_pending_taint t) (ts_tainted_labels t)
      in t\<lparr>ts_reg_dependencies := reg_deps, ts_flag_dependencies := flag_deps,
           ts_mem_dependencies := mem_deps, ts_tainted_labels := tainted, ts_instruction := None\<rparr>)"

definition finalize_pending :: "taint_state \<Rightarrow> taint_state" where
  "finalize_pending t = (if ts_instruction t = None then t else finalize_instruction t)"

text \<open>One operand of the instruction that starts.\<close>

definition start_operand :: "operand \<Rightarrow> taint_state \<Rightarrow> taint_state res" where
  "start_operand op t =
     (case op of
        RegisterOperand value _ src dest \<Rightarrow>
          res_bind (dict_get gpr_normalized value) (\<lambda>value.
            Inr (t\<lparr>ts_src_regs := ts_src_regs t @ (if src then [value] else []),
                   ts_dest_regs := ts_dest_regs t @ (if dest then [value] else [])\<rparr>))
      | FlagsOperand modes \<Rightarrow>
          Inr (t\<lparr>ts_src_flags := get_read_flags modes @ get_undef_flags modes,
                 ts_dest_flags := get_write_flags modes\<rparr>)
      | MemoryOperand value _ _ _ \<Rightarrow>
          Inr (t\<lparr>ts_mem_address_regs := ts_mem_address_regs t @
                 List.map_filter (\<lambda>sub. map_of gpr_normalized sub) (address_parts value)\<rparr>)
      | _ \<Rightarrow> Inr t)"

definition start_instruction :: "instruction \<Rightarrow> taint_state \<Rightarrow> taint_state res" where
  "start_instruction instruction t =
     (let t = finalize_pending t;
          t = t\<lparr>ts_instruction := Some instruction, ts_src_regs := [], ts_src_flags := [],
                ts_src_mems := [], ts_dest_regs := [], ts_dest_flags := [], ts_dest_mems := [],
                ts_pending_taint := [], ts_mem_address_regs := []\<rparr>
      in res_fold start_operand (i_operands instruction @ i_implicit_operands instruction) t)"

text \<open>\<open>range(start, end + 1, 8)\<close>\<close>

definition block_range :: "int \<Rightarrow> int \<Rightarrow> int list" where
  "block_range first final =
     (if final < first then [] else map (\<lambda>k. first + 8 * int k) [0..<nat ((final - first) div 8 + 1)])"

definition access_labels :: "int \<Rightarrow> int \<Rightarrow> int \<Rightarrow> string list" where
  "access_labels sandbox_base address sz =
     (let address = address - sandbox_base;
          masked_start_addr = address AND 0xfffffffffffffff8;
          end_addr = address + (sz - 1);
          masked_end_addr = end_addr AND 0xfffffffffffffff8
      in map (\<lambda>i. hex (nat i)) (block_range masked_start_addr masked_end_addr))"

definition track_memory_access :: "int \<Rightarrow> int \<Rightarrow> bool \<Rightarrow> taint_state \<Rightarrow> taint_state" where
  "track_memory_access address sz is_write t =
     (if is_write
      then t\<lparr>ts_dest_mems := ts_dest_mems t @ access_labels (ts_sandbox_base t) address sz\<rparr>
      else t\<lparr>ts_src_mems := ts_src_mems t @ access_labels (ts_sandbox_base t) address sz\<rparr>)"

definition taint_pc :: "taint_state \<Rightarrow> taint_state" where
  "taint_pc t =
     (case ts_instruction t of
        Some i \<Rightarrow> if i_control_flow i then t\<lparr>ts_pending_taint := ts_pending_taint t @ [''RIP'']\<rparr> else t
      | None \<Rightarrow> t)"

definition taint_memory_access_address :: "taint_state \<Rightarrow> taint_state" where
  "taint_memory_access_address t = t\<lparr>ts_pending_taint := ts_pending_taint t @ ts_mem_address_regs t\<rparr>"

definition taint_memory_load :: "taint_state \<Rightarrow> taint_state" where
  "taint_memory_load t = t\<lparr>ts_pending_taint := ts_pending_taint t @ ts_src_mems t\<rparr>"

definition taint_memory_store :: "taint_state \<Rightarrow> taint_state" where
  "taint_memory_store t = t\<lparr>ts_pending_taint := ts_pending_taint t @ ts_dest_mems t\<rparr>"

text \<open>The five regular expressions of \<open>taint_reg\<close>, in order; each is searched anywhere in the name.\<close>

fun search_pair :: "string \<Rightarrow> string \<Rightarrow> string \<Rightarrow> string option" where
  "search_pair first second (c # d # cs) =
     (if c \<in> set first \<and> d \<in> set second then Some [c] else search_pair first second (d # cs))"
| "search_pair first second _ = None"

fun search_number :: "string \<Rightarrow> string option" where
  "search_number (c # d # cs) =
     (if c = CHR ''R'' \<and> d \<in> set ''0123456789''
      then Some (takeWhile (\<lambda>x. x \<in> set ''0123456789'') (d # cs))
      else search_number (d # cs))"
| "search_number _ = None"

fun search_word :: "string list \<Rightarrow> string \<Rightarrow> string option" where
  "search_word words [] = None"
| "search_word words (c # cs) =
     (case List.find (starts_with (c # cs)) words of
        Some w \<Rightarrow> Some w
      | None \<Rightarrow> search_word words cs)"

definition taint_reg_label :: "string \<Rightarrow> string option" where
  "taint_reg_label reg =
     (case search_pair ''ABCD'' ''XHL'' reg of Some l \<Rightarrow> Some l
      | None \<Rightarrow> (case search_number reg of Some l \<Rightarrow> Some l
      | None \<Rightarrow> (case search_word [''DI'', ''SI''] reg of Some l \<Rightarrow> Some l
      | None \<Rightarrow> (case search_word [''SP'', ''BP''] reg of Some l \<Rightarrow> Some l
      | None \<Rightarrow> search_word [''FLAGS''] reg))))"

definition taint_reg :: "string \<Rightarrow> taint_state \<Rightarrow> taint_state res" where
  "taint_reg reg t =
     (if reg \<in> {''SS'', ''DS'', ''CS'', ''FS'', ''GS''} then Inr t
      else case taint_reg_label reg of
        Some l \<Rightarrow> Inr (t\<lparr>ts_pending_taint := ts_pending_taint t @ [l]\<rparr>)
      | None \<Rightarrow> Inl ValueError)"

definition taint_checkpoint :: "taint_state \<Rightarrow> taint_state" where
  "taint_checkpoint t =
     (let t = finalize_pending t
      in t\<lparr>ts_checkpoints :=
             (ts_flag_dependencies t, ts_reg_dependencies t, ts_mem_dependencies t) # ts_checkpoints t\<rparr>)"

definition taint_rollback :: "taint_state \<Rightarrow> taint_state res" where
  "taint_rollback t =
     res_bind (py_assert (ts_checkpoints t \<noteq> [])) (\<lambda>_.
       let t = finalize_pending t
       in case ts_checkpoints t of
            (f, r, m) # cs \<Rightarrow>
              Inr (t\<lparr>ts_checkpoints := cs, ts_flag_dependencies := f, ts_reg_dependencies := r,
                     ts_mem_dependencies := m\<rparr>)
          | [] \<Rightarrow> Inl IndexError)"

text \<open>
  The position of a label in the input array. \<open>input_size\<close> and \<open>register_start\<close> are the fields
  of \<open>InputTaint\<close>; a label that is no register of the input has no position. A label
  outside the table raises \<open>KeyError\<close> when its turn comes in the iteration over the set.
\<close>

fun index_of :: "'a \<Rightarrow> 'a list \<Rightarrow> nat" where
  "index_of x [] = 0"
| "index_of x (y # ys) = (if y = x then 0 else Suc (index_of x ys))"

definition label_offset :: "nat \<Rightarrow> string \<Rightarrow> nat option res" where
  "label_offset reg_start label =
     (if starts_with label ''0x'' then res_bind (int16 label) (\<lambda>a. Inr (Some (a div 8)))
      else res_bind (dict_get reg_decode label) (\<lambda>reg.
        Inr (if reg \<in> set input_registers then Some (reg_start + index_of reg input_registers)
             else None)))"

definition get_taint :: "nat \<Rightarrow> nat \<Rightarrow> taint_state \<Rightarrow> (taint_state \<times> bool list) res" where
  "get_taint input_size reg_start t =
     (let t = finalize_pending t in
      if \<exists>l \<in> ts_tainted_labels t. label_offset reg_start l = Inl ValueError
      then Inl ValueError
      else if \<exists>l \<in> ts_tainted_labels t. isl (label_offset reg_start l)
      then Inl KeyError
      else Inr (t, map (\<lambda>i. \<exists>l \<in> ts_tainted_labels t. label_offset reg_start l = Inr (Some i))
                     [0..<input_size]))"

subsection \<open>Facts about the tracker\<close>

lemma hex_digit_value: "d < 16 \<Longrightarrow> digit_value (hex_digit d) = Some d"
  by (auto simp: digit_value_def hex_digit_def Let_def)

lemma parse_hex_digits_append:
  "parse_hex_digits acc (xs @ ys) = res_bind (parse_hex_digits acc xs) (\<lambda>n. parse_hex_digits n ys)"
  by (induction xs arbitrary: acc) (auto split: option.splits)

lemma parse_hex_digits_hex_digits:
  "\<exists>k. \<forall>acc. parse_hex_digits acc (hex_digits n) = Inr (acc * 16 ^ k + n)"
proof (induction n rule: hex_digits.induct)
  case (1 n)
  show ?case
  proof (cases "n < 16")
    case True
    then show ?thesis by (subst hex_digits.simps) (auto simp: hex_digit_value intro!: exI [of _ 1])
  next
    case False
    with 1 obtain k where k: "\<And>acc. parse_hex_digits acc (hex_digits (n div 16)) = Inr (acc * 16 ^ k + n div 16)"
      by blast
    have "parse_hex_digits acc (hex_digits n) = Inr (acc * 16 ^ Suc k + n)" for acc
      using False by (subst hex_digits.simps) (simp add: parse_hex_digits_append k hex_digit_value algebra_simps)
    then show ?thesis by blast
  qed
qed

lemma hex_digits_nonempty [simp]: "hex_digits n \<noteq> []"
  by (subst hex_digits.simps) simp

lemma int16_hex [simp]: "int16 (hex n) = Inr n"
  using parse_hex_digits_hex_digits [of n] by (auto simp: int16_def hex_def)

lemma hex_inj: "hex m = hex n \<longleftrightarrow> m = n"
  by (metis int16_hex sum.inject(2))

lemma starts_with_hex [simp]: "starts_with (hex n) ''0x''"
  by (simp add: hex_def)

lemma dep_get_add [simp]:
  "dep_get (dep_add u k m) l = (if l = k then dep_get m l \<union> u else dep_get m l)"
  by (auto simp: dep_get_def dep_add_def split: option.splits)

lemma dep_get_fold:
  "dep_get (fold (dep_add u) ks m) l = (if l \<in> set ks then dep_get m l \<union> u else dep_get m l)"
  by (induction ks arbitrary: m) auto

lemma fold_taint:
  "fold (\<lambda>label s. if P label then s \<union> f label else s \<union> g label) ls s =
   s \<union> (\<Union>l \<in> set ls. if P l then f l else g l)"
  by (induction ls arbitrary: s) auto

subsection \<open>The contract of a dependency tracker\<close>

text \<open>
  An emulated machine as the tracker sees it: locations hold values, an action executes an
  instruction (a function on the store), takes a checkpoint or rolls restored to the latest one. Which
  action comes next may depend on everything observed so far and on nothing else: the
  observation clauses expose the program counter and the accessed addresses. An
  instruction exposes the values of its observed locations before and after it.
\<close>

datatype ('e, 'l, 'v) action = Exec 'e "('l \<Rightarrow> 'v) \<Rightarrow> ('l \<Rightarrow> 'v)" | Ckpt | Rbk

definition exposes :: "'l set \<Rightarrow> ('l \<Rightarrow> 'v) \<Rightarrow> ('l \<Rightarrow> 'v) \<Rightarrow> 'l \<Rightarrow> ('v \<times> 'v) option" where
  "exposes L before after l = (if l \<in> L then Some (before l, after l) else None)"

text \<open>An instruction writes only \<open>D\<close>, and each new value depends on \<open>S\<close> and on the old value there.\<close>

definition flow_within :: "'l set \<Rightarrow> 'l set \<Rightarrow> (('l \<Rightarrow> 'v) \<Rightarrow> ('l \<Rightarrow> 'v)) \<Rightarrow> bool" where
  "flow_within S D F \<longleftrightarrow> (\<forall>\<sigma> l. l \<notin> D \<longrightarrow> F \<sigma> l = \<sigma> l) \<and>
     (\<forall>\<sigma> \<tau>. \<forall>l \<in> D. (\<forall>s \<in> insert l S. \<sigma> s = \<tau> s) \<longrightarrow> F \<sigma> l = F \<tau> l)"

text \<open>The run of the machine alone, and the run with the tracker beside it.\<close>

fun run :: "('e \<Rightarrow> 'l set) \<Rightarrow> (('l \<Rightarrow> ('v \<times> 'v) option) list \<Rightarrow> ('e, 'l, 'v) action option) \<Rightarrow> nat \<Rightarrow>
    ('l \<Rightarrow> ('v \<times> 'v) option) list \<Rightarrow> ('l \<Rightarrow> 'v) \<Rightarrow> ('l \<Rightarrow> 'v) list \<Rightarrow> ('l \<Rightarrow> ('v \<times> 'v) option) list" where
  "run observed prog 0 obs \<sigma> st = obs"
| "run observed prog (Suc n) obs \<sigma> st =
     (case prog obs of
        None \<Rightarrow> obs
      | Some (Exec e F) \<Rightarrow> run observed prog n (obs @ [exposes (observed e) \<sigma> (F \<sigma>)]) (F \<sigma>) st
      | Some Ckpt \<Rightarrow> run observed prog n (obs @ [Map.empty]) \<sigma> (\<sigma> # st)
      | Some Rbk \<Rightarrow> (case st of [] \<Rightarrow> obs | \<tau> # st' \<Rightarrow> run observed prog n (obs @ [Map.empty]) \<tau> st'))"

fun tracked :: "('e \<Rightarrow> 'l set) \<Rightarrow> ('e \<Rightarrow> 't \<Rightarrow> 't res) \<Rightarrow> ('t \<Rightarrow> 't) \<Rightarrow> ('t \<Rightarrow> 't res) \<Rightarrow>
    (('l \<Rightarrow> ('v \<times> 'v) option) list \<Rightarrow> ('e, 'l, 'v) action option) \<Rightarrow> nat \<Rightarrow>
    ('l \<Rightarrow> ('v \<times> 'v) option) list \<Rightarrow> ('l \<Rightarrow> 'v) \<Rightarrow> ('l \<Rightarrow> 'v) list \<Rightarrow> 't \<Rightarrow> 't res" where
  "tracked observed exec ckpt rbk prog 0 obs \<sigma> st t = Inr t"
| "tracked observed exec ckpt rbk prog (Suc n) obs \<sigma> st t =
     (case prog obs of
        None \<Rightarrow> Inr t
      | Some (Exec e F) \<Rightarrow>
          res_bind (exec e t) (tracked observed exec ckpt rbk prog n (obs @ [exposes (observed e) \<sigma> (F \<sigma>)]) (F \<sigma>) st)
      | Some Ckpt \<Rightarrow> tracked observed exec ckpt rbk prog n (obs @ [Map.empty]) \<sigma> (\<sigma> # st) (ckpt t)
      | Some Rbk \<Rightarrow> (case st of [] \<Rightarrow> Inr t
          | \<tau> # st' \<Rightarrow> res_bind (rbk t) (tracked observed exec ckpt rbk prog n (obs @ [Map.empty]) \<tau> st')))"

locale dependency_tracker =
  fixes inv :: "'t \<Rightarrow> bool"
    and deps :: "'t \<Rightarrow> 'l \<Rightarrow> 'b set"
    and tainted :: "'t \<Rightarrow> 'b set"
    and saved :: "'t \<Rightarrow> ('l \<Rightarrow> 'b set) list"
    and srcs :: "'e \<Rightarrow> 'l set"
    and dests :: "'e \<Rightarrow> 'l set"
    and observed :: "'e \<Rightarrow> 'l set"
    and exec :: "'e \<Rightarrow> 't \<Rightarrow> 't res"
    and ckpt :: "'t \<Rightarrow> 't"
    and rbk :: "'t \<Rightarrow> 't res"
  assumes exec_inv: "inv t \<Longrightarrow> exec e t = Inr t' \<Longrightarrow> inv t'"
    and exec_keeps: "inv t \<Longrightarrow> exec e t = Inr t' \<Longrightarrow> deps t l \<subseteq> deps t' l"
    and exec_flows: "inv t \<Longrightarrow> exec e t = Inr t' \<Longrightarrow> d \<in> dests e \<Longrightarrow> s \<in> srcs e \<Longrightarrow> deps t s \<subseteq> deps t' d"
    and exec_tainted: "inv t \<Longrightarrow> exec e t = Inr t' \<Longrightarrow> tainted t \<subseteq> tainted t'"
    and exec_observed: "inv t \<Longrightarrow> exec e t = Inr t' \<Longrightarrow> l \<in> observed e \<Longrightarrow> deps t' l \<subseteq> tainted t'"
    and exec_saved: "inv t \<Longrightarrow> exec e t = Inr t' \<Longrightarrow> saved t' = saved t"
    and ckpt: "inv t \<Longrightarrow> inv (ckpt t) \<and> deps (ckpt t) = deps t \<and> tainted (ckpt t) = tainted t \<and>
      saved (ckpt t) = deps t # saved t"
    and rbk: "inv t \<Longrightarrow> rbk t = Inr t' \<Longrightarrow> inv t' \<and> deps t' # saved t' = saved t \<and> tainted t' = tainted t"
begin

definition agree :: "'b set \<Rightarrow> ('l \<Rightarrow> 'b set) \<Rightarrow> ('l \<Rightarrow> 'v) \<Rightarrow> ('l \<Rightarrow> 'v) \<Rightarrow> bool" where
  "agree A d \<sigma> \<tau> \<longleftrightarrow> (\<forall>l. d l \<subseteq> A \<longrightarrow> \<sigma> l = \<tau> l)"

lemma tracked_tainted:
  "inv t \<Longrightarrow> tracked observed exec ckpt rbk prog n obs \<sigma> st t = Inr t' \<Longrightarrow> tainted t \<subseteq> tainted t'"
proof (induction n arbitrary: obs \<sigma> st t)
  case (Suc n)
  show ?case
  proof (cases "prog obs")
    case None
    with Suc.prems show ?thesis by simp
  next
    case (Some a)
    show ?thesis
    proof (cases a)
      case (Exec e F)
      with Suc.prems Some obtain t1 where t1: "exec e t = Inr t1"
        "tracked observed exec ckpt rbk prog n (obs @ [exposes (observed e) \<sigma> (F \<sigma>)]) (F \<sigma>) st t1 = Inr t'"
        by (auto simp: res_bind_Inr_iff)
      from Suc.IH [OF exec_inv [OF Suc.prems(1) t1(1)] t1(2)] exec_tainted [OF Suc.prems(1) t1(1)]
      show ?thesis by blast
    next
      case Ckpt
      with Suc.prems Some Suc.IH [of "ckpt t" "obs @ [Map.empty]" \<sigma> "\<sigma> # st"] ckpt [OF Suc.prems(1)]
      show ?thesis by simp
    next
      case Rbk
      show ?thesis
      proof (cases st)
        case Nil
        with Suc.prems Some Rbk show ?thesis by simp
      next
        case (Cons \<rho> st')
        with Suc.prems Some Rbk obtain t1 where t1: "rbk t = Inr t1"
          "tracked observed exec ckpt rbk prog n (obs @ [Map.empty]) \<rho> st' t1 = Inr t'"
          by (auto simp: res_bind_Inr_iff)
        from Suc.IH [OF _ t1(2)] rbk [OF Suc.prems(1) t1(1)] show ?thesis by blast
      qed
    qed
  qed
qed simp

lemma agree_exec:
  assumes "inv t" and "exec e t = Inr t'" and "agree A (deps t) \<sigma> \<tau>"
    and "flow_within (srcs e) (dests e) F"
  shows "agree A (deps t') (F \<sigma>) (F \<tau>)"
  unfolding agree_def
proof (intro allI impI)
  fix l assume l: "deps t' l \<subseteq> A"
  note keep = exec_keeps [OF assms(1,2)] and flow = exec_flows [OF assms(1,2)]
  have "\<sigma> l = \<tau> l" using l keep [of l] assms(3) by (auto simp: agree_def)
  moreover have "\<sigma> s = \<tau> s" if "l \<in> dests e" "s \<in> srcs e" for s
    using l flow [OF that] assms(3) by (auto simp: agree_def)
  ultimately show "F \<sigma> l = F \<tau> l" using assms(4) by (cases "l \<in> dests e") (auto simp: flow_within_def)
qed

lemma exposes_agree:
  assumes i: "inv t" "exec e t = Inr t'" and a: "agree A (deps t) \<sigma> \<tau>"
    and r: "flow_within (srcs e) (dests e) F" and A: "tainted t' \<subseteq> A"
  shows "exposes (observed e) \<sigma> (F \<sigma>) = exposes (observed e) \<tau> (F \<tau>)"
proof
  fix l
  show "exposes (observed e) \<sigma> (F \<sigma>) l = exposes (observed e) \<tau> (F \<tau>) l"
  proof (cases "l \<in> observed e")
    case True
    then have after: "deps t' l \<subseteq> A" using exec_observed [OF i] A by blast
    then have "deps t l \<subseteq> A" using exec_keeps [OF i, of l] by blast
    with after a agree_exec [OF i a r] True show ?thesis by (simp add: exposes_def agree_def)
  qed (simp add: exposes_def)
qed

text \<open>Noninterference: a store that agrees on the labels tainted by the end of the run is observed alike.\<close>

lemma noninterference:
  assumes "inv t" and "tracked observed exec ckpt rbk prog n obs \<sigma> st t = Inr t'" and "tainted t' \<subseteq> A"
    and "agree A (deps t) \<sigma> \<tau>" and "list_all2 (\<lambda>d (a, b). agree A d a b) (saved t) (zip st st2)"
    and "length st = length st2"
    and "\<And>os e F. prog os = Some (Exec e F) \<Longrightarrow> flow_within (srcs e) (dests e) F"
  shows "run observed prog n obs \<sigma> st = run observed prog n obs \<tau> st2"
  using assms
proof (induction n arbitrary: obs \<sigma> \<tau> st st2 t)
  case (Suc n)
  note prems = Suc.prems
  show ?case
  proof (cases "prog obs")
    case (Some a)
    show ?thesis
    proof (cases a)
      case (Exec e F)
      with prems(2) Some obtain t1 where t1: "exec e t = Inr t1"
        and rest: "tracked observed exec ckpt rbk prog n (obs @ [exposes (observed e) \<sigma> (F \<sigma>)]) (F \<sigma>) st t1 = Inr t'"
        by (auto simp: res_bind_Inr_iff)
      have r: "flow_within (srcs e) (dests e) F" using prems(7) Some Exec by simp
      have i1: "inv t1" by (rule exec_inv [OF prems(1) t1])
      have A1: "tainted t1 \<subseteq> A" using tracked_tainted [OF i1 rest] prems(3) by simp
      note eq = exposes_agree [OF prems(1) t1 prems(4) r A1]
      have "run observed prog n (obs @ [exposes (observed e) \<sigma> (F \<sigma>)]) (F \<sigma>) st =
          run observed prog n (obs @ [exposes (observed e) \<sigma> (F \<sigma>)]) (F \<tau>) st2"
        using Suc.IH [OF i1 rest prems(3) agree_exec [OF prems(1) t1 prems(4) r]]
          prems(5-7) exec_saved [OF prems(1) t1] by simp
      with Some Exec eq show ?thesis by simp
    next
      case Ckpt
      with prems(2) Some have rest: "tracked observed exec ckpt rbk prog n (obs @ [Map.empty]) \<sigma> (\<sigma> # st) (ckpt t) = Inr t'"
        by simp
      from Suc.IH [OF _ rest prems(3), of \<tau> "\<tau> # st2"] ckpt [OF prems(1)] prems(4-7)
      show ?thesis using Some Ckpt by simp
    next
      case Rbk
      show ?thesis
      proof (cases st)
        case Nil
        with Some Rbk prems(6) show ?thesis by simp
      next
        case (Cons \<rho> st')
        with prems(2) Some Rbk obtain t1 where t1: "rbk t = Inr t1"
          and rest: "tracked observed exec ckpt rbk prog n (obs @ [Map.empty]) \<rho> st' t1 = Inr t'"
          by (auto simp: res_bind_Inr_iff)
        from Cons prems(6) obtain \<rho>2 st2' where st2: "st2 = \<rho>2 # st2'" by (cases st2) auto
        note restored = rbk [OF prems(1) t1]
        have "list_all2 (\<lambda>d (a, b). agree A d a b) (deps t1 # saved t1) ((\<rho>, \<rho>2) # zip st' st2')"
          using prems(5) restored Cons st2 by simp
        then have "agree A (deps t1) \<rho> \<rho>2" "list_all2 (\<lambda>d (a, b). agree A d a b) (saved t1) (zip st' st2')"
          by simp_all
        from Suc.IH [OF _ rest prems(3) this] restored prems(6,7) Cons st2
        show ?thesis using Some Rbk Cons st2 by simp
      qed
    qed
  qed simp
qed simp

end

subsection \<open>The tracker keeps the contract\<close>

text \<open>
  The events of one instruction: its start, then the calls that the memory hook and the
  observation clause make while it executes; it is finalised when the next one starts.
\<close>

datatype loc = LReg string | LFlag string | LMem string

fun loc_label :: "loc \<Rightarrow> string" where
  "loc_label (LReg s) = s"
| "loc_label (LFlag s) = s"
| "loc_label (LMem s) = s"

datatype tracker_call = Track int int bool | TaintPc | TaintAddr | TaintLoad | TaintStore | TaintReg string

fun run_call :: "tracker_call \<Rightarrow> taint_state \<Rightarrow> taint_state res" where
  "run_call (Track address sz is_write) t = Inr (track_memory_access address sz is_write t)"
| "run_call TaintPc t = Inr (taint_pc t)"
| "run_call TaintAddr t = Inr (taint_memory_access_address t)"
| "run_call TaintLoad t = Inr (taint_memory_load t)"
| "run_call TaintStore t = Inr (taint_memory_store t)"
| "run_call (TaintReg reg) t = taint_reg reg t"

definition in_flight :: "instruction \<times> tracker_call list \<Rightarrow> taint_state \<Rightarrow> taint_state res" where
  "in_flight e t = res_bind (start_instruction (fst e) t) (res_fold run_call (snd e))"

definition exec_event :: "instruction \<times> tracker_call list \<Rightarrow> taint_state \<Rightarrow> taint_state res" where
  "exec_event e t = res_bind (in_flight e t) (\<lambda>t. Inr (finalize_pending t))"

definition deps_at :: "deps \<times> deps \<times> deps \<Rightarrow> loc \<Rightarrow> string set" where
  "deps_at c l = (case c of (f, r, m) \<Rightarrow>
     (case l of LReg s \<Rightarrow> dep_get r s | LFlag s \<Rightarrow> dep_get f s | LMem s \<Rightarrow> dep_get m s))"

definition loc_deps :: "taint_state \<Rightarrow> loc \<Rightarrow> string set" where
  "loc_deps t = deps_at (ts_flag_dependencies t, ts_reg_dependencies t, ts_mem_dependencies t)"

definition saved_deps :: "taint_state \<Rightarrow> (loc \<Rightarrow> string set) list" where
  "saved_deps t = map deps_at (ts_checkpoints t)"

definition src_locs :: "taint_state \<Rightarrow> loc set" where
  "src_locs t = LReg ` set (ts_src_regs t) \<union> LFlag ` set (ts_src_flags t) \<union> LMem ` set (ts_src_mems t)"

definition dest_locs :: "taint_state \<Rightarrow> loc set" where
  "dest_locs t = LReg ` set (ts_dest_regs t) \<union> LFlag ` set (ts_dest_flags t) \<union> LMem ` set (ts_dest_mems t)"

definition pending_locs :: "taint_state \<Rightarrow> loc set" where
  "pending_locs t = (\<lambda>l. if starts_with l ''0x'' then LMem l else LReg l) ` set (ts_pending_taint t)"

text \<open>What an event reads, writes and exposes does not depend on the state of the tracker.\<close>

definition event_locs :: "(taint_state \<Rightarrow> loc set) \<Rightarrow> int \<Rightarrow> instruction \<times> tracker_call list \<Rightarrow> loc set" where
  "event_locs f base e =
     (case in_flight e (new_taint_tracker [] base) of Inl _ \<Rightarrow> {} | Inr u \<Rightarrow> f u)"

definition between_instructions :: "int \<Rightarrow> taint_state \<Rightarrow> bool" where
  "between_instructions base t \<longleftrightarrow> ts_instruction t = None \<and> ts_sandbox_base t = base"

definition with_core :: "taint_state \<Rightarrow> taint_state \<Rightarrow> taint_state" where
  "with_core t u = u\<lparr>ts_reg_dependencies := ts_reg_dependencies t,
     ts_flag_dependencies := ts_flag_dependencies t, ts_mem_dependencies := ts_mem_dependencies t,
     ts_tainted_labels := ts_tainted_labels t, ts_checkpoints := ts_checkpoints t\<rparr>"

lemma start_operand_core:
  "start_operand op (with_core t u) = map_sum id (with_core t) (start_operand op u)"
  by (auto simp: start_operand_def with_core_def dict_get_def split: operand.split option.split)

lemma run_call_core:
  "run_call c (with_core t u) = map_sum id (with_core t) (run_call c u)"
  by (cases c) (auto simp: with_core_def track_memory_access_def taint_pc_def taint_reg_def
      taint_memory_access_address_def taint_memory_load_def taint_memory_store_def split: option.split)

lemma res_fold_core:
  assumes "\<And>x u. f x (h u) = map_sum id h (f x u)"
  shows "res_fold f xs (h u) = map_sum id h (res_fold f xs u)"
proof (induction xs arbitrary: u)
  case (Cons x xs)
  then show ?case by (cases "f x u") (simp_all add: assms)
qed simp

lemma in_flight_core:
  assumes "between_instructions base t"
  shows "in_flight e t = map_sum id (with_core t) (in_flight e (new_taint_tracker [] base))"
proof -
  define u where "u = (new_taint_tracker [] base)\<lparr>ts_instruction := Some (fst e), ts_src_regs := [],
    ts_src_flags := [], ts_src_mems := [], ts_dest_regs := [], ts_dest_flags := [], ts_dest_mems := [],
    ts_pending_taint := [], ts_mem_address_regs := []\<rparr>"
  have "start_instruction (fst e) t =
      res_fold start_operand (i_operands (fst e) @ i_implicit_operands (fst e)) (with_core t u)"
    using assms by (cases t) (simp add: start_instruction_def finalize_pending_def between_instructions_def
        with_core_def u_def new_taint_tracker_def)
  moreover have "start_instruction (fst e) (new_taint_tracker [] base) =
      res_fold start_operand (i_operands (fst e) @ i_implicit_operands (fst e)) u"
    by (simp add: start_instruction_def finalize_pending_def u_def new_taint_tracker_def)
  ultimately have "start_instruction (fst e) t =
      map_sum id (with_core t) (start_instruction (fst e) (new_taint_tracker [] base))"
    by (simp add: res_fold_core [of start_operand, OF start_operand_core])
  then show ?thesis
    by (cases "start_instruction (fst e) (new_taint_tracker [] base)")
      (simp_all add: in_flight_def res_fold_core [of run_call, OF run_call_core])
qed

lemma start_operand_keeps:
  "start_operand op t = Inr t' \<Longrightarrow>
   ts_instruction t' = ts_instruction t \<and> ts_sandbox_base t' = ts_sandbox_base t"
  by (auto simp: start_operand_def res_bind_Inr_iff split: operand.splits)

lemma run_call_keeps:
  "run_call c t = Inr t' \<Longrightarrow>
   ts_instruction t' = ts_instruction t \<and> ts_sandbox_base t' = ts_sandbox_base t"
  by (cases c) (auto simp: track_memory_access_def taint_pc_def taint_reg_def
      taint_memory_access_address_def taint_memory_load_def taint_memory_store_def
      split: option.splits if_splits)

lemma in_flight_keeps:
  assumes "in_flight e (new_taint_tracker [] base) = Inr u"
  shows "ts_instruction u = Some (fst e) \<and> ts_sandbox_base u = base"
proof -
  from assms obtain v where v: "start_instruction (fst e) (new_taint_tracker [] base) = Inr v"
    and u: "res_fold run_call (snd e) v = Inr u"
    by (auto simp: in_flight_def res_bind_Inr_iff)
  have "ts_instruction v = Some (fst e) \<and> ts_sandbox_base v = base"
    using v unfolding start_instruction_def Let_def
    by (rule res_fold_invariant)
      (auto simp: finalize_pending_def new_taint_tracker_def dest: start_operand_keeps)
  with u show ?thesis
    by (rule res_fold_invariant) (auto dest: run_call_keeps)
qed

text \<open>What one finalised instruction does to the dependencies.\<close>

lemma loc_deps_finalize:
  "loc_deps (finalize_instruction t) l =
     (if l \<in> dest_locs t then loc_deps t l \<union> \<Union> (loc_deps t ` src_locs t) else loc_deps t l)"
  by (cases l) (auto simp: finalize_instruction_def loc_deps_def deps_at_def dest_locs_def src_locs_def
      dep_get_fold dep_collect_def Let_def)

lemma tainted_finalize:
  "ts_tainted_labels (finalize_instruction t) =
     ts_tainted_labels t \<union> \<Union> (loc_deps (finalize_instruction t) ` pending_locs t)"
  by (auto simp: finalize_instruction_def loc_deps_def deps_at_def pending_locs_def fold_taint Let_def
      split: if_splits)

lemma finalize_instruction_simps [simp]:
  "ts_instruction (finalize_instruction t) = None"
  "ts_sandbox_base (finalize_instruction t) = ts_sandbox_base t"
  "ts_checkpoints (finalize_instruction t) = ts_checkpoints t"
  by (simp_all add: finalize_instruction_def Let_def)

lemma with_core_simps [simp]:
  "loc_deps (with_core t u) = loc_deps t"
  "ts_tainted_labels (with_core t u) = ts_tainted_labels t"
  "ts_checkpoints (with_core t u) = ts_checkpoints t"
  "ts_instruction (with_core t u) = ts_instruction u"
  "ts_sandbox_base (with_core t u) = ts_sandbox_base u"
  "src_locs (with_core t u) = src_locs u"
  "dest_locs (with_core t u) = dest_locs u"
  "pending_locs (with_core t u) = pending_locs u"
  by (simp_all add: with_core_def loc_deps_def src_locs_def dest_locs_def pending_locs_def)

lemma exec_event_cases:
  assumes "between_instructions base t" and "exec_event e t = Inr t'"
  obtains u where "t' = finalize_instruction (with_core t u)"
    and "\<And>f. event_locs f base e = f u" and "ts_sandbox_base u = base"
proof -
  from assms obtain v where v: "in_flight e t = Inr v" "t' = finalize_pending v"
    by (auto simp: exec_event_def res_bind_Inr_iff)
  from v(1) in_flight_core [OF assms(1)] obtain u
    where u: "in_flight e (new_taint_tracker [] base) = Inr u" "v = with_core t u"
    by (cases "in_flight e (new_taint_tracker [] base)") auto
  from in_flight_keeps [OF u(1)] have "ts_instruction u = Some (fst e)" "ts_sandbox_base u = base"
    by simp_all
  with u v(2) show ?thesis
    by (intro that [of u]) (simp_all add: finalize_pending_def event_locs_def)
qed

interpretation tt: dependency_tracker "between_instructions base" loc_deps ts_tainted_labels saved_deps
  "event_locs src_locs base" "event_locs dest_locs base" "event_locs pending_locs base"
  exec_event taint_checkpoint taint_rollback for base
proof
  fix t t' e
  assume i: "between_instructions base t" and e: "exec_event e t = Inr t'"
  obtain u where u: "t' = finalize_instruction (with_core t u)"
    "\<And>f. event_locs f base e = f u" "ts_sandbox_base u = base"
    using exec_event_cases [OF i e] by metis
  show "between_instructions base t'" using u by (simp add: between_instructions_def)
  show "loc_deps t l \<subseteq> loc_deps t' l" for l using u by (auto simp: loc_deps_finalize)
  show "loc_deps t s \<subseteq> loc_deps t' d"
    if "d \<in> event_locs dest_locs base e" "s \<in> event_locs src_locs base e" for d s
    using u that by (auto simp: loc_deps_finalize)
  show "ts_tainted_labels t \<subseteq> ts_tainted_labels t'" using u by (simp add: tainted_finalize)
  show "loc_deps t' l \<subseteq> ts_tainted_labels t'" if "l \<in> event_locs pending_locs base e" for l
    using u that by (auto simp: tainted_finalize)
  show "saved_deps t' = saved_deps t" using u by (simp add: saved_deps_def)
next
  fix t
  assume "between_instructions base t"
  then show "between_instructions base (taint_checkpoint t) \<and> loc_deps (taint_checkpoint t) = loc_deps t \<and>
      ts_tainted_labels (taint_checkpoint t) = ts_tainted_labels t \<and>
      saved_deps (taint_checkpoint t) = loc_deps t # saved_deps t"
    by (simp add: between_instructions_def taint_checkpoint_def finalize_pending_def loc_deps_def
        saved_deps_def)
next
  fix t t'
  assume "between_instructions base t" and "taint_rollback t = Inr t'"
  then show "between_instructions base t' \<and> loc_deps t' # saved_deps t' = saved_deps t \<and>
      ts_tainted_labels t' = ts_tainted_labels t"
    by (auto simp: between_instructions_def taint_rollback_def finalize_pending_def loc_deps_def
        saved_deps_def res_bind_Inr_iff split: list.splits)
qed

lemma loc_deps_new: "loc_deps (new_taint_tracker initial base) l = {loc_label l}"
  by (cases l) (simp_all add: loc_deps_def deps_at_def dep_get_def new_taint_tracker_def)

lemma tracker_noninterference:
  assumes "tracked (event_locs pending_locs base) exec_event taint_checkpoint taint_rollback
      prog n [] \<sigma> [] (new_taint_tracker initial base) = Inr t"
    and "\<And>l. loc_label l \<in> ts_tainted_labels t \<Longrightarrow> \<sigma> l = \<tau> l"
    and "\<And>os e F. prog os = Some (Exec e F) \<Longrightarrow>
      flow_within (event_locs src_locs base e) (event_locs dest_locs base e) F"
  shows "run (event_locs pending_locs base) prog n [] \<sigma> [] = run (event_locs pending_locs base) prog n [] \<tau> []"
proof -
  let ?t0 = "new_taint_tracker initial base"
  have i: "between_instructions base ?t0" and s: "saved_deps ?t0 = []"
    by (simp_all add: between_instructions_def saved_deps_def new_taint_tracker_def)
  have "tt.agree (ts_tainted_labels t) (loc_deps ?t0) \<sigma> \<tau>"
    using assms(2) by (simp add: tt.agree_def loc_deps_new)
  from tt.noninterference [OF i assms(1) subset_refl this, of "[]"] assms(3) s show ?thesis by simp
qed

subsection \<open>Properties\<close>


text \<open>The example: \<open>MOV RBX, [R14 + RAX]\<close> reading the block at offset 8.\<close>

definition ex_load :: instruction where
  "ex_load = (new_instruction ''MOV'' False ''BASE-DATAXFER'' False)
     \<lparr>i_operands := [RegisterOperand ''RBX'' 64 False True, MemoryOperand ''R14 + RAX'' 64 True False]\<rparr>"

definition ex_load_event :: "instruction \<times> tracker_call list" where
  "ex_load_event = (ex_load, [Track 8 8 False, TaintAddr])"

definition ex_load_step :: "(loc \<Rightarrow> int) \<Rightarrow> (loc \<Rightarrow> int)" where
  "ex_load_step \<sigma> = \<sigma>(LReg ''B'' := \<sigma> (LMem (hex 8)))"

lemma ex_access_labels: "access_labels 0 8 8 = [hex 8]"
  by (simp add: access_labels_def block_range_def)

lemma ex_load_in_flight:
  "\<exists>u. in_flight ex_load_event (new_taint_tracker [] 0) = Inr u \<and> ts_src_regs u = [] \<and>
     ts_src_flags u = [] \<and> ts_src_mems u = [hex 8] \<and> ts_dest_regs u = [''B''] \<and> ts_dest_flags u = [] \<and>
     ts_dest_mems u = [] \<and> ts_pending_taint u = [''14'', ''A''] \<and> ts_tainted_labels u = {}"
  by (simp add: in_flight_def ex_load_event_def ex_load_def new_instruction_def start_instruction_def
      finalize_pending_def new_taint_tracker_def start_operand_def dict_get_def gpr_normalized_def
      address_parts_def track_memory_access_def taint_memory_access_address_def ex_access_labels
      List.map_filter_def)

lemma ex_load_locs:
  "event_locs src_locs 0 ex_load_event = {LMem (hex 8)}"
  "event_locs dest_locs 0 ex_load_event = {LReg ''B''}"
  "event_locs pending_locs 0 ex_load_event = {LReg ''14'', LReg ''A''}"
  using ex_load_in_flight
  by (auto simp: event_locs_def src_locs_def dest_locs_def pending_locs_def)

definition ex_load_prog :: "(loc \<Rightarrow> (int \<times> int) option) list \<Rightarrow>
    (instruction \<times> tracker_call list, loc, int) action option" where
  "ex_load_prog obs = (if obs = [] then Some (Exec ex_load_event ex_load_step) else None)"

lemma ex_load_prog_flow:
  "ex_load_prog os = Some (Exec e F) \<Longrightarrow> flow_within (event_locs src_locs 0 e) (event_locs dest_locs 0 e) F"
  by (auto simp: ex_load_prog_def ex_load_locs flow_within_def ex_load_step_def split: if_splits)

lemma ex_load_tracked:
  "\<exists>t. (\<forall>\<sigma>. tracked (event_locs pending_locs 0) exec_event taint_checkpoint taint_rollback
      ex_load_prog 2 [] \<sigma> [] (new_taint_tracker [] 0) = Inr t) \<and>
    ts_tainted_labels t = {''14'', ''A''} \<and> ts_instruction t = None"
proof -
  have b: "between_instructions 0 (new_taint_tracker [] 0)"
    by (simp add: between_instructions_def new_taint_tracker_def)
  from ex_load_in_flight obtain u where u: "in_flight ex_load_event (new_taint_tracker [] 0) = Inr u"
    "ts_pending_taint u = [''14'', ''A'']" "ts_tainted_labels u = {}"
    "ts_dest_regs u = [''B'']" by blast
  define t where "t = finalize_pending u"
  have e: "exec_event ex_load_event (new_taint_tracker [] 0) = Inr t"
    using u(1) by (simp add: exec_event_def t_def)
  have tr: "tracked (event_locs pending_locs 0) exec_event taint_checkpoint taint_rollback
      ex_load_prog 2 [] \<sigma> [] (new_taint_tracker [] 0) = Inr t" for \<sigma>
    by (simp add: eval_nat_numeral ex_load_prog_def e)
  have u0: "u = with_core (new_taint_tracker [] 0) u"
    using in_flight_core [OF b, of ex_load_event] u(1) by simp
  have f: "t = finalize_instruction u"
    using in_flight_keeps [OF u(1)] by (simp add: t_def finalize_pending_def)
  moreover have "loc_deps u l = {loc_label l}" for l
    by (subst u0) (simp add: loc_deps_new)
  moreover have "pending_locs u = {LReg ''14'', LReg ''A''}" "LReg ''14'' \<notin> dest_locs u" "LReg ''A'' \<notin> dest_locs u"
    using u by (auto simp: pending_locs_def dest_locs_def)
  ultimately have "ts_tainted_labels t = {''14'', ''A''}"
    using u(3) by (simp add: tainted_finalize loc_deps_finalize insert_commute)
  moreover have "ts_instruction t = None" by (simp add: f)
  ultimately show ?thesis using tr by blast
qed


text \<open>
  C21. Granularity of memory labels: an access of \<open>sz\<close> bytes inside the sandbox records the label of an
  8-byte block exactly when one of its bytes lies in that block, and \<open>get_taint\<close> maps the label
  of the \<open>b\<close>-th block to the \<open>b\<close>-th element of the input.
\<close>

lemma and_mask8: "(x :: int) AND 0xfffffffffffffff8 = 8 * ((x mod 2 ^ 64) div 8)"
proof -
  have m: "(0xfffffffffffffff8 :: int) = push_bit 3 (mask 61)"
    by (simp add: mask_eq_exp_minus_1 push_bit_eq_mult)
  have "x AND push_bit 3 (mask 61) = push_bit 3 (drop_bit 3 (take_bit 64 x))"
  proof (rule bit_eqI)
    fix n
    show "bit (x AND push_bit 3 (mask 61)) n = bit (push_bit 3 (drop_bit 3 (take_bit 64 x))) n"
      by (cases "3 \<le> n") (auto simp: bit_and_iff bit_push_bit_iff bit_drop_bit_eq bit_take_bit_iff bit_mask_iff)
  qed
  then show ?thesis unfolding m by (simp add: push_bit_eq_mult drop_bit_eq_div take_bit_eq_mod)
qed

lemma image_upto_shift: "(\<lambda>k. 8 * p + 8 * int k) ` {0..<nat (q - p + 1)} = (\<lambda>r. 8 * r) ` {p..q}"
proof (intro set_eqI iffI)
  fix x assume "x \<in> (\<lambda>r. 8 * r) ` {p..q}"
  then obtain r where "x = 8 * r" "p \<le> r" "r \<le> q" by auto
  then show "x \<in> (\<lambda>k. 8 * p + 8 * int k) ` {0..<nat (q - p + 1)}"
    by (intro image_eqI [of _ _ "nat (r - p)"]) auto
next
  fix x assume "x \<in> (\<lambda>k. 8 * p + 8 * int k) ` {0..<nat (q - p + 1)}"
  then obtain k where "x = 8 * p + 8 * int k" "k < nat (q - p + 1)" by auto
  then show "x \<in> (\<lambda>r. 8 * r) ` {p..q}"
    by (intro image_eqI [of _ _ "p + int k"]) auto
qed

lemma set_block_range:
  "set (block_range (8 * p) (8 * q)) = (\<lambda>r. 8 * r) ` {p..q}"
proof (cases "q < p")
  case False
  have "(8 * q - 8 * p) div 8 = q - p" by simp
  with False show ?thesis using image_upto_shift [of p q] by (simp add: block_range_def)
qed (simp add: block_range_def)

lemma set_access_labels:
  assumes "base \<le> address" and "0 < sz" and "address + sz - base \<le> 2 ^ 64"
  shows "set (access_labels base address sz) =
    (\<lambda>r. hex (nat (8 * r))) ` {(address - base) div 8..(address + sz - 1 - base) div 8}"
proof -
  have m: "x mod 2 ^ 64 = x" if "0 \<le> x" "x < 2 ^ 64" for x :: int
    using that by (rule mod_pos_pos_trivial)
  have "(address - base) AND 0xfffffffffffffff8 = 8 * ((address - base) div 8)"
    unfolding and_mask8 using assms by (subst m) auto
  moreover have "(address - base + (sz - 1)) AND 0xfffffffffffffff8 = 8 * ((address + sz - 1 - base) div 8)"
    unfolding and_mask8 using assms by (subst m) (auto simp: algebra_simps)
  ultimately show ?thesis by (simp add: access_labels_def Let_def set_block_range image_image)
qed

theorem access_labels_blocks:
  assumes "base \<le> address" and "0 < sz" and "address + sz - base \<le> 2 ^ 64"
  shows "(hex (8 * b) \<in> set (access_labels base address sz) \<longleftrightarrow>
      (\<exists>k. address \<le> k \<and> k < address + sz \<and> (k - base) div 8 = int b)) \<and>
    label_offset reg_start (hex (8 * b)) = Inr (Some b)"
proof -
  have "hex (8 * b) \<in> set (access_labels base address sz) \<longleftrightarrow>
      int b \<in> {(address - base) div 8..(address + sz - 1 - base) div 8}"
    using assms by (auto simp: set_access_labels hex_inj image_iff intro!: bexI [of _ "int b"])
  also have "\<dots> \<longleftrightarrow> (\<exists>k. address \<le> k \<and> k < address + sz \<and> (k - base) div 8 = int b)"
  proof
    assume b: "int b \<in> {(address - base) div 8..(address + sz - 1 - base) div 8}"
    show "\<exists>k. address \<le> k \<and> k < address + sz \<and> (k - base) div 8 = int b"
      using b assms(2) by (intro exI [of _ "max address (base + 8 * int b)"]) (auto simp: max_def)
  next
    assume "\<exists>k. address \<le> k \<and> k < address + sz \<and> (k - base) div 8 = int b"
    then show "int b \<in> {(address - base) div 8..(address + sz - 1 - base) div 8}"
      by (auto intro!: zdiv_mono1)
  qed
  finally show ?thesis by (simp add: label_offset_def)
qed

theorem access_labels_blocks_witness:
  "hex (8 * 2) \<in> set (access_labels 4096 4110 4) \<and> hex (8 * 3) \<notin> set (access_labels 4096 4110 2)"
proof -
  have "\<exists>k. 4110 \<le> k \<and> k < 4110 + (4 :: int) \<and> (k - 4096) div 8 = int 2"
    by (intro exI [of _ 4112]) simp
  moreover have "\<not> (\<exists>k. 4110 \<le> k \<and> k < 4110 + (2 :: int) \<and> (k - 4096) div 8 = int 3)"
    by presburger
  ultimately show ?thesis
    using access_labels_blocks [of 4096 4110 4 2] access_labels_blocks [of 4096 4110 2 3] by simp
qed



text \<open>
  A checkpoint taken while an instruction is still executing closes it for the tracker: the memory
  accesses and exposures that the rest of this instruction reports are dropped, so they reach
  neither the taint nor the dependencies. (The store-bypass clause takes its checkpoint in
  the code hook, before the accesses of the instruction.)
\<close>

lemma run_call_no_taint:
  "run_call c t = Inr t' \<Longrightarrow> loc_deps t' = loc_deps t \<and> ts_tainted_labels t' = ts_tainted_labels t"
  by (cases c) (auto simp: track_memory_access_def taint_pc_def taint_reg_def loc_deps_def
      taint_memory_access_address_def taint_memory_load_def taint_memory_store_def
      split: option.splits if_splits)

lemma checkpoint_drops_later_accesses:
  assumes "res_fold run_call calls (taint_checkpoint t) = Inr u"
  shows "finalize_pending u = u \<and> loc_deps u = loc_deps (finalize_pending t) \<and>
    ts_tainted_labels u = ts_tainted_labels (finalize_pending t)"
proof -
  let ?P = "\<lambda>v. ts_instruction v = None \<and> loc_deps v = loc_deps (finalize_pending t) \<and>
    ts_tainted_labels v = ts_tainted_labels (finalize_pending t)"
  have "?P (taint_checkpoint t)"
    by (simp add: taint_checkpoint_def loc_deps_def finalize_pending_def Let_def)
  with assms have "?P u"
    by (rule res_fold_invariant) (metis run_call_keeps run_call_no_taint)
  then show ?thesis by (simp add: finalize_pending_def)
qed

lemma checkpoint_drops_later_accesses_example:
  "ts_tainted_labels (finalize_pending (taint_memory_access_address (track_memory_access 8 8 False
     (taint_checkpoint (new_taint_tracker [''A''] 0))))) = {''A''}"
  using checkpoint_drops_later_accesses [of "[Track 8 8 False, TaintAddr]" "new_taint_tracker [''A''] 0"]
  by (simp add: finalize_pending_def new_taint_tracker_def)

text \<open>
  Exposing a register by its assembly name taints the label under which the tracker keeps its
  dependencies for every general-purpose register except \<open>RSP\<close>, which is kept as \<open>RSP\<close> and
  exposed as \<open>SP\<close>; \<open>RIP\<close> and \<open>ES\<close> raise \<open>ValueError\<close>.
\<close>

lemma taint_reg_labels:
  "filter (\<lambda>(reg, label). taint_reg_label reg \<noteq> Some label) gpr_normalized =
     [(''RIP'', ''RIP''), (''RSP'', ''RSP'')] \<and>
   taint_reg_label ''RSP'' = Some ''SP'' \<and> taint_reg ''RIP'' t = Inl ValueError \<and>
   taint_reg ''ES'' t = Inl ValueError \<and> taint_reg ''DS'' t = Inr t"
  by (simp add: gpr_normalized_def taint_reg_def taint_reg_label_def)

text \<open>
  Exposing the flags register is not tracked through: dependencies of flags are kept
  per flag, but the exposed label \<open>FLAGS\<close> is looked up among the registers, so after an
  instruction that computes the flags from \<open>RAX\<close> the taint of the exposed flags lacks \<open>RAX\<close>.
\<close>

definition ex_test :: instruction where
  "ex_test = (new_instruction ''TEST'' False ''BASE-LOGICAL'' False)
     \<lparr>i_operands := [RegisterOperand ''RAX'' 64 True False],
      i_implicit_operands := [FlagsOperand [''w'', ''w'', [], ''w'', ''w'', [], [], [], ''w'']]\<rparr>"

lemma exposed_flags_lose_sources:
  "\<exists>t. res_fold exec_event [(ex_test, []), (new_instruction ''NOP'' False [] False, [TaintReg ''RFLAGS''])]
       (new_taint_tracker [] 0) = Inr t \<and>
     ''A'' \<in> loc_deps t (LFlag ''ZF'') \<and> ts_tainted_labels t = {''FLAGS''}"
  by (simp add: ex_test_def exec_event_def in_flight_def start_instruction_def start_operand_def
      new_instruction_def new_taint_tracker_def finalize_pending_def finalize_instruction_def
      dict_get_def gpr_normalized_def taint_reg_def taint_reg_label_def loc_deps_def deps_at_def
      dep_get_def dep_add_def dep_collect_def get_read_flags_def get_undef_flags_def get_write_flags_def
      get_flag_list_def flag_names_def Let_def)

end
