(* ===== verification/Dataflow.thy ===== *)
theory Dataflow
  imports Prelude
begin

text \<open>
  The static analysis of the \<open>cts\<close> observation clause (\<open>CTSTracer\<close> in \<^verbatim>\<open>src/src/model.py\<close>): from the
  disassembled code page it builds a control-flow graph and computes, backwards, which
  registers are unprotected before every instruction. Capstone is outside the
  repository: an instruction is a record of the attributes the code reads, and the
  enumeration constants and the register constants are arguments. The sets are keyed by the
  address of the instruction (the code keys them by the instruction object).

  The analysis is shown to return the least solution of its data-flow equations, and a
  bound on the size of the code is given under which the limit of 1000 rounds is not hit.
\<close>

subsection \<open>Disassembled instructions\<close>

datatype cs_optype = CS_OP_REG | CS_OP_IMM | CS_OP_MEM

datatype cs_group = CS_GRP_JUMP | CS_GRP_BRANCH_RELATIVE | CS_GRP_OTHER nat

text \<open>\<open>co_access\<close> is the bit mask of \<open>CS_AC_READ\<close> (1) and \<open>CS_AC_WRITE\<close> (2); register 0 is "no register".\<close>

record cs_operand =
  co_type :: cs_optype
  co_access :: nat
  co_base :: nat
  co_index :: nat
  co_imm :: int

record cs_insn =
  ci_address :: int
  ci_size :: int
  ci_opcode :: "nat list"
  ci_groups :: "cs_group list"
  ci_operands :: "cs_operand list"
  ci_regs_read :: "nat list"
  ci_regs_write :: "nat list"

definition accesses_memory :: "cs_operand \<Rightarrow> bool" where
  "accesses_memory op \<longleftrightarrow> co_access op AND 3 \<noteq> 0"

subsection \<open>Sub-registers\<close>

definition digit :: "char \<Rightarrow> bool" where
  "digit c \<longleftrightarrow> c \<in> set ''0123456789''"

text \<open>\<open>re.fullmatch\<close> of \<open>r(\\d+)suffix\<close> and of \<open>pre([cs])suffix\<close>; the result is the group.\<close>

definition match_num :: "string \<Rightarrow> string \<Rightarrow> string option" where
  "match_num suffix s =
     (case s of
        c # rest \<Rightarrow>
          if c = CHR ''r'' \<and> takeWhile digit rest \<noteq> [] \<and> dropWhile digit rest = suffix
          then Some (takeWhile digit rest) else None
      | [] \<Rightarrow> None)"

definition match_mid :: "string \<Rightarrow> string \<Rightarrow> string \<Rightarrow> string \<Rightarrow> string option" where
  "match_mid pre cs suffix s =
     (case drop (length pre) s of
        c # rest \<Rightarrow> if take (length pre) s = pre \<and> c \<in> set cs \<and> rest = suffix then Some [c] else None
      | [] \<Rightarrow> None)"

text \<open>The table \<open>d\<close>: matchers with the formats of the direct sub-registers, in the order of the code.\<close>

definition subreg_table :: "((string \<Rightarrow> string option) \<times> (string \<Rightarrow> string) list) list" where
  "subreg_table =
    [(match_num [], [\<lambda>n. ''r'' @ n @ ''d'']),
     (match_num ''d'', [\<lambda>n. ''r'' @ n @ ''w'']),
     (match_num ''w'', [\<lambda>n. ''r'' @ n @ ''b'']),
     (match_num ''b'', []),
     (match_mid ''r'' ''abcd'' ''x'', [\<lambda>n. ''e'' @ n @ ''x'']),
     (match_mid ''e'' ''abcd'' ''x'', [\<lambda>n. n @ ''x'']),
     (match_mid [] ''abcd'' ''x'', [\<lambda>n. n @ ''h'', \<lambda>n. n @ ''l'']),
     (\<lambda>s. if match_mid [] ''abcd'' ''h'' s = None then match_mid [] ''abcd'' ''l'' s else Some [], []),
     (match_mid ''r'' ''ds'' ''i'', [\<lambda>n. ''e'' @ n @ ''i'']),
     (match_mid ''e'' ''ds'' ''i'', [\<lambda>n. n @ ''i'']),
     (match_mid [] ''ds'' ''i'', [\<lambda>n. n @ ''il'']),
     (match_mid [] ''ds'' ''il'', []),
     (match_mid ''r'' ''sb'' ''p'', [\<lambda>n. ''e'' @ n @ ''p'']),
     (match_mid ''e'' ''sb'' ''p'', [\<lambda>n. n @ ''p'']),
     (match_mid [] ''sb'' ''p'', [\<lambda>n. n @ ''pl'']),
     (match_mid [] ''sb'' ''pl'', []),
     (match_mid [] ''cdsefg'' ''s'', []),
     (\<lambda>s. if s = ''rflags'' then Some [] else None, [])]"

fun first_match :: "((string \<Rightarrow> string option) \<times> (string \<Rightarrow> string) list) list \<Rightarrow> string \<Rightarrow> string list option" where
  "first_match [] s = None"
| "first_match ((m, fmts) # d) s =
     (case m s of Some g \<Rightarrow> Some (map (\<lambda>f. f g) fmts) | None \<Rightarrow> first_match d s)"

definition direct_subregs :: "string \<Rightarrow> string list option" where
  "direct_subregs reg = first_match subreg_table reg"

text \<open>The depth of a register in the sub-register order, which decreases along the table.\<close>

definition reg_depth :: "string \<Rightarrow> nat" where
  "reg_depth s =
     (if match_num [] s \<noteq> None \<or> match_mid ''r'' ''abcd'' ''x'' s \<noteq> None \<or>
         match_mid ''r'' ''ds'' ''i'' s \<noteq> None \<or> match_mid ''r'' ''sb'' ''p'' s \<noteq> None then 4
      else if match_num ''d'' s \<noteq> None \<or> match_mid ''e'' ''abcd'' ''x'' s \<noteq> None \<or>
         match_mid ''e'' ''ds'' ''i'' s \<noteq> None \<or> match_mid ''e'' ''sb'' ''p'' s \<noteq> None then 3
      else if match_num ''w'' s \<noteq> None \<or> match_mid [] ''abcd'' ''x'' s \<noteq> None \<or>
         match_mid [] ''ds'' ''i'' s \<noteq> None \<or> match_mid [] ''sb'' ''p'' s \<noteq> None then 2
      else 1)"

lemma match_num_SomeD:
  "match_num suffix s = Some g \<Longrightarrow> s = ''r'' @ g @ suffix \<and> g \<noteq> [] \<and> list_all digit g"
  by (auto simp: match_num_def list_all_iff split: list.splits if_splits dest: set_takeWhileD)

lemma match_num_iff:
  assumes "g \<noteq> []" and "list_all digit g" and "suffix = [] \<or> \<not> digit (hd suffix)"
  shows "match_num suffix' (CHR ''r'' # g @ suffix) = (if suffix' = suffix then Some g else None)"
proof -
  have t: "takeWhile digit (g @ suffix) = g" and d: "dropWhile digit (g @ suffix) = suffix"
    using assms by (cases suffix; auto simp: list_all_iff takeWhile_append2 dropWhile_append2)+
  show ?thesis using assms(1) by (auto simp: match_num_def t d)
qed

lemma match_mid_SomeD:
  "match_mid pre cs suffix s = Some g \<Longrightarrow> \<exists>c \<in> set cs. s = pre @ [c] @ suffix \<and> g = [c]"
  by (auto simp: match_mid_def split: list.splits if_splits) (metis append_take_drop_id)

lemma first_match_SomeD:
  "first_match d s = Some ts \<Longrightarrow> \<exists>m fmts g. (m, fmts) \<in> set d \<and> m s = Some g \<and> ts = map (\<lambda>f. f g) fmts"
  by (induction d s rule: first_match.induct) (auto split: option.splits)

lemma reg_depth_num:
  assumes "g \<noteq> []" and "list_all digit g"
  shows "reg_depth (''r'' @ g) = 4" "reg_depth (''r'' @ g @ ''d'') = 3"
    "reg_depth (''r'' @ g @ ''w'') = 2" "reg_depth (''r'' @ g @ ''b'') = 1"
proof -
  obtain c g' where g: "g = c # g'" "digit c" using assms by (cases g) auto
  have no: "match_mid pre cs suf (''r'' @ g @ u) = None"
    if "(pre = ''r'' \<and> (\<forall>x \<in> set cs. \<not> digit x)) \<or> pre = ''e'' \<or> (pre = [] \<and> CHR ''r'' \<notin> set cs)" for pre cs suf u
    using that g by (auto simp: match_mid_def split: list.splits)
  note num = match_num_iff [OF assms]
  show "reg_depth (''r'' @ g) = 4" using num [of "[]"] by (simp add: reg_depth_def)
  show "reg_depth (''r'' @ g @ ''d'') = 3" "reg_depth (''r'' @ g @ ''w'') = 2" "reg_depth (''r'' @ g @ ''b'') = 1"
    using no num [of "''d''"] num [of "''w''"] num [of "''b''"]
    by (simp_all add: reg_depth_def digit_def)
qed

lemma reg_depth_mid:
  "c \<in> set ''abcd'' \<Longrightarrow> reg_depth (''r'' @ [c] @ ''x'') = 4 \<and> reg_depth (''e'' @ [c] @ ''x'') = 3 \<and>
     reg_depth ([c] @ ''x'') = 2 \<and> reg_depth ([c] @ ''h'') = 1 \<and> reg_depth ([c] @ ''l'') = 1"
  "c \<in> set ''ds'' \<Longrightarrow> reg_depth (''r'' @ [c] @ ''i'') = 4 \<and> reg_depth (''e'' @ [c] @ ''i'') = 3 \<and>
     reg_depth ([c] @ ''i'') = 2 \<and> reg_depth ([c] @ ''il'') = 1"
  "c \<in> set ''sb'' \<Longrightarrow> reg_depth (''r'' @ [c] @ ''p'') = 4 \<and> reg_depth (''e'' @ [c] @ ''p'') = 3 \<and>
     reg_depth ([c] @ ''p'') = 2 \<and> reg_depth ([c] @ ''pl'') = 1"
  unfolding list.set insert_iff empty_iff
  by (elim disjE FalseE; simp add: reg_depth_def match_mid_def match_num_def digit_def)+

definition descends :: "(string \<Rightarrow> string option) \<times> (string \<Rightarrow> string) list \<Rightarrow> bool" where
  "descends e \<longleftrightarrow> (\<forall>s g f. fst e s = Some g \<longrightarrow> f \<in> set (snd e) \<longrightarrow> reg_depth (f g) < reg_depth s)"

lemma descends_leaf: "descends (m, [])"
  by (simp add: descends_def)

lemma descends_num:
  "descends (match_num [], [\<lambda>n. ''r'' @ n @ ''d''])"
  "descends (match_num ''d'', [\<lambda>n. ''r'' @ n @ ''w''])"
  "descends (match_num ''w'', [\<lambda>n. ''r'' @ n @ ''b''])"
  unfolding descends_def fst_conv snd_conv
  by (intro allI impI; drule match_num_SomeD; elim conjE;
      frule (1) reg_depth_num(1), frule (1) reg_depth_num(2), frule (1) reg_depth_num(3),
      frule (1) reg_depth_num(4); simp)+

lemma descends_mid:
  "descends (match_mid ''r'' ''abcd'' ''x'', [\<lambda>n. ''e'' @ n @ ''x''])"
  "descends (match_mid ''e'' ''abcd'' ''x'', [\<lambda>n. n @ ''x''])"
  "descends (match_mid [] ''abcd'' ''x'', [\<lambda>n. n @ ''h'', \<lambda>n. n @ ''l''])"
  "descends (match_mid ''r'' ''ds'' ''i'', [\<lambda>n. ''e'' @ n @ ''i''])"
  "descends (match_mid ''e'' ''ds'' ''i'', [\<lambda>n. n @ ''i''])"
  "descends (match_mid [] ''ds'' ''i'', [\<lambda>n. n @ ''il''])"
  "descends (match_mid ''r'' ''sb'' ''p'', [\<lambda>n. ''e'' @ n @ ''p''])"
  "descends (match_mid ''e'' ''sb'' ''p'', [\<lambda>n. n @ ''p''])"
  "descends (match_mid [] ''sb'' ''p'', [\<lambda>n. n @ ''pl''])"
  unfolding descends_def fst_conv snd_conv list.set(2) [of "\<lambda>n. _ n"] list.set(1) insert_iff empty_iff
  by (intro allI impI; drule match_mid_SomeD; elim bexE conjE disjE FalseE;
      (drule reg_depth_mid(1) | drule reg_depth_mid(2) | drule reg_depth_mid(3)); simp only:; simp)+

lemma subreg_table_descends: "list_all descends subreg_table"
  unfolding subreg_table_def list.pred_inject
  by (intro conjI descends_leaf descends_num descends_mid) simp

lemma direct_subregs_depth:
  assumes "direct_subregs s = Some ts" and "t \<in> set ts"
  shows "reg_depth t < reg_depth s"
proof -
  from assms obtain m fmts g where m: "(m, fmts) \<in> set subreg_table" "m s = Some g" "t \<in> (\<lambda>f. f g) ` set fmts"
    using first_match_SomeD [of subreg_table s ts] unfolding direct_subregs_def by auto
  from m(1) have "descends (m, fmts)" using subreg_table_descends by (simp add: list_all_iff)
  with m(2,3) show ?thesis by (auto simp: descends_def)
qed

function subregs_str :: "string \<Rightarrow> string list res" where
  "subregs_str reg =
     (case direct_subregs reg of
        None \<Rightarrow> Inl ValueError
      | Some subs \<Rightarrow> res_bind (res_map subregs_str subs) (\<lambda>ls. Inr (reg # concat ls)))"
  by pat_completeness auto

termination
  by (relation "measure reg_depth") (auto intro: direct_subregs_depth)

declare subregs_str.simps [simp del]

text \<open>
  \<open>subregs\<close> translates the names back to constants; \<open>reg_name\<close> and \<open>reg_const\<close> stand for
  capstone's name function and its constants \<open>X86_REG_*\<close>.
\<close>

definition subregs :: "(nat \<Rightarrow> string) \<Rightarrow> (string \<Rightarrow> nat option) \<Rightarrow> nat \<Rightarrow> nat list res" where
  "subregs reg_name reg_const reg =
     res_bind (subregs_str (reg_name reg)) (res_map (\<lambda>x.
       case reg_const (if x = ''rflags'' then ''eflags'' else x) of
         Some r \<Rightarrow> Inr r
       | None \<Rightarrow> Inl AttributeError))"

definition expand_subregs :: "(nat \<Rightarrow> nat list res) \<Rightarrow> nat list \<Rightarrow> nat list res" where
  "expand_subregs sub l = res_bind (res_map sub l) (\<lambda>ls. Inr (concat ls))"

subsection \<open>Control-flow graph\<close>

definition get_insns :: "cs_insn list \<Rightarrow> (int, cs_insn) dict \<Rightarrow> (int, cs_insn) dict" where
  "get_insns disassembly insns = fold (\<lambda>insn d. AList.update (ci_address insn) insn d) disassembly insns"

definition lookup_insn :: "(int, cs_insn) dict \<Rightarrow> int \<Rightarrow> cs_insn option" where
  "lookup_insn insns address = map_of insns address"

text \<open>
  \<open>src_insn.opcode\<close> is the list of opcode bytes, so its comparison with the number
  \<open>X86_INS_JMP\<close> always differs: every jump also gets the following instruction as target.
\<close>

definition jump_targets :: "cs_insn \<Rightarrow> int list res" where
  "jump_targets src_insn =
     (if CS_GRP_JUMP \<in> set (ci_groups src_insn) then
        res_bind (py_assert (CS_GRP_BRANCH_RELATIVE \<in> set (ci_groups src_insn))) (\<lambda>_.
        res_bind (py_nth (ci_operands src_insn) 0) (\<lambda>op.
        Inr [co_imm op, ci_address src_insn + ci_size src_insn]))
      else Inr [ci_address src_insn + ci_size src_insn])"

definition construct_cfg :: "(int, cs_insn) dict \<Rightarrow> (int, cs_insn list) dict res" where
  "construct_cfg insns =
     res_fold (\<lambda>src_insn succs.
       res_bind (jump_targets src_insn) (\<lambda>targets.
         Inr (AList.update (ci_address src_insn) (List.map_filter (lookup_insn insns) targets) succs)))
       (map snd insns) []"

subsection \<open>Transfer function\<close>

definition get_unprot_operands :: "cs_insn \<Rightarrow> nat list" where
  "get_unprot_operands insn =
     (if CS_GRP_JUMP \<in> set (ci_groups insn) then ci_regs_read insn else []) @
     concat (map (\<lambda>op. if accesses_memory op
         then (if co_base op \<noteq> 0 then [co_base op] else []) @ (if co_index op \<noteq> 0 then [co_index op] else [])
         else []) (ci_operands insn))"

definition transfer_set :: "cs_insn \<Rightarrow> nat set \<Rightarrow> nat set" where
  "transfer_set insn v =
     (let unprot_defs = list_ex (\<lambda>x. x \<in> v) (ci_regs_write insn);
          v = v - set (ci_regs_write insn);
          v = v \<union> set (get_unprot_operands insn)
      in if unprot_defs then v \<union> set (ci_regs_read insn) else v)"

text \<open>The two \<open>defaultdict(set)\<close>: a look-up of an absent key stores the empty set there.\<close>

record unprots =
  un_pre :: "int \<Rightarrow> nat set option"
  un_post :: "int \<Rightarrow> nat set option"

definition touch :: "int \<Rightarrow> (int \<Rightarrow> nat set option) \<Rightarrow> (int \<Rightarrow> nat set option)" where
  "touch a m = (case m a of None \<Rightarrow> m(a \<mapsto> {}) | Some _ \<Rightarrow> m)"

definition get_set :: "(int \<Rightarrow> nat set option) \<Rightarrow> int \<Rightarrow> nat set" where
  "get_set m a = (case m a of None \<Rightarrow> {} | Some s \<Rightarrow> s)"

definition merge_succ :: "cs_insn \<Rightarrow> cs_insn \<Rightarrow> unprots \<Rightarrow> unprots" where
  "merge_succ pred succ u =
     u\<lparr>un_pre := touch (ci_address succ) (un_pre u),
       un_post := (un_post u)(ci_address pred \<mapsto>
         get_set (un_post u) (ci_address pred) \<union> get_set (un_pre u) (ci_address succ))\<rparr>"

definition merge_unprots :: "(int, cs_insn list) dict \<Rightarrow> cs_insn \<Rightarrow> unprots \<Rightarrow> unprots" where
  "merge_unprots succs pred u = fold (merge_succ pred) (dict_default succs [] (ci_address pred)) u"

text \<open>
  \<open>expand\<close> is the set version of \<open>expand_subregs\<close>; it fails when a register has no entry in the
  sub-register table.
\<close>

definition transfer :: "(nat set \<Rightarrow> nat set res) \<Rightarrow> cs_insn \<Rightarrow> unprots \<Rightarrow> unprots res" where
  "transfer expand insn u =
     (let u = u\<lparr>un_post := touch (ci_address insn) (un_post u)\<rparr>;
          v = transfer_set insn (get_set (un_post u) (ci_address insn))
      in res_bind (expand v) (\<lambda>w. Inr (u\<lparr>un_pre := (un_pre u)(ci_address insn \<mapsto> w)\<rparr>)))"

definition expand_set :: "(nat \<Rightarrow> nat list res) \<Rightarrow> nat set \<Rightarrow> nat set res" where
  "expand_set sub v =
     (if \<exists>x \<in> v. sub x = Inl AttributeError then Inl AttributeError
      else if \<exists>x \<in> v. isl (sub x) then Inl ValueError
      else Inr (\<Union>x \<in> v. case sub x of Inr l \<Rightarrow> set l | Inl _ \<Rightarrow> {}))"

subsection \<open>Iteration\<close>

text \<open>
  The snapshots are shallow copies. The sets of \<open>unprots_post\<close> are updated in place, so
  the old snapshot sees the new sets and only new keys make a difference there; the sets of
  \<open>unprots_pre\<close> are replaced, so there the comparison is by value. All keys are
  addresses of instructions.
\<close>

definition snapshot_differs :: "int list \<Rightarrow> unprots \<Rightarrow> unprots \<Rightarrow> bool" where
  "snapshot_differs addrs old new \<longleftrightarrow>
     list_ex (\<lambda>a. un_pre old a \<noteq> un_pre new a \<or> (un_post old a = None) \<noteq> (un_post new a = None)) addrs"

definition sorted_insns :: "(int, cs_insn) dict \<Rightarrow> cs_insn list" where
  "sorted_insns insns = map snd (rev (sort_key fst insns))"

definition dataflow_analysis_one ::
    "(nat set \<Rightarrow> nat set res) \<Rightarrow> (int, cs_insn) dict \<Rightarrow> (int, cs_insn list) dict \<Rightarrow> unprots \<Rightarrow> (bool \<times> unprots) res" where
  "dataflow_analysis_one expand insns succs u =
     res_bind (res_fold (\<lambda>insn u. transfer expand insn (merge_unprots succs insn u)) (sorted_insns insns) u)
       (\<lambda>u'. Inr (snapshot_differs (map fst insns) u u', u'))"

text \<open>At most 1001 rounds are started; \<open>num_iters\<close> counts the rounds that changed something.\<close>

function dataflow_loop ::
    "(nat set \<Rightarrow> nat set res) \<Rightarrow> (int, cs_insn) dict \<Rightarrow> (int, cs_insn list) dict \<Rightarrow> nat \<Rightarrow> unprots \<Rightarrow> unprots res" where
  "dataflow_loop expand insns succs num_iters u =
     res_bind (dataflow_analysis_one expand insns succs u) (\<lambda>(changed, u').
       if changed then
         (let num_iters = num_iters + 1
          in if num_iters > 1000 then Inl RuntimeError
             else dataflow_loop expand insns succs num_iters u')
       else Inr u')"
  by pat_completeness auto

termination
  by (relation "measure (\<lambda>(_, _, _, n, _). 1001 - n)") auto

declare dataflow_loop.simps [simp del]

definition dataflow_analysis ::
    "(nat set \<Rightarrow> nat set res) \<Rightarrow> (int, cs_insn) dict \<Rightarrow> (int, cs_insn list) dict \<Rightarrow> unprots \<Rightarrow> unprots res" where
  "dataflow_analysis expand insns succs u = dataflow_loop expand insns succs 0 u"

definition new_unprots :: unprots where
  "new_unprots = \<lparr>un_pre = Map.empty, un_post = Map.empty\<rparr>"

definition analyze_binary :: "(nat set \<Rightarrow> nat set res) \<Rightarrow> cs_insn list \<Rightarrow>
    ((int, cs_insn) dict \<times> (int, cs_insn list) dict \<times> unprots) res" where
  "analyze_binary expand disassembly =
     (let insns = get_insns disassembly []
      in res_bind (construct_cfg insns) (\<lambda>succs.
         res_bind (dataflow_analysis expand insns succs new_unprots) (\<lambda>u.
         Inr (insns, succs, u))))"

subsection \<open>The analysis computes the least solution\<close>

text \<open>
  Before every instruction at least the transferred registers are unprotected, and after it
  at least everything that is unprotected before a successor.
\<close>

definition is_solution :: "(nat set \<Rightarrow> nat set) \<Rightarrow> (int, cs_insn) dict \<Rightarrow> (int, cs_insn list) dict \<Rightarrow>
    (int \<Rightarrow> nat set) \<Rightarrow> (int \<Rightarrow> nat set) \<Rightarrow> bool" where
  "is_solution E insns succs P Q \<longleftrightarrow> (\<forall>(a, i) \<in> set insns.
     E (transfer_set i (Q a)) \<subseteq> P a \<and> (\<forall>s \<in> set (dict_default succs [] a). P (ci_address s) \<subseteq> Q a))"

definition wf_program :: "nat set \<Rightarrow> (int, cs_insn) dict \<Rightarrow> (int, cs_insn list) dict \<Rightarrow> bool" where
  "wf_program U insns succs \<longleftrightarrow> distinct (map fst insns) \<and>
     (\<forall>(a, i) \<in> set insns. ci_address i = a \<and> set (ci_regs_read i) \<subseteq> U \<and> set (get_unprot_operands i) \<subseteq> U \<and>
        (\<forall>s \<in> set (dict_default succs [] a). ci_address s \<in> fst ` set insns))"

lemma get_set_simps [simp]:
  "get_set (touch a m) b = get_set m b"
  "get_set (m(a \<mapsto> s)) b = (if b = a then s else get_set m b)"
  by (auto simp: get_set_def touch_def split: option.splits)

lemma touch_None [simp]: "touch a m b = None \<longleftrightarrow> b \<noteq> a \<and> m b = None"
  by (auto simp: touch_def split: option.splits)

lemma merge_unprots_sets:
  "get_set (un_pre (merge_unprots succs i u)) a = get_set (un_pre u) a \<and>
   get_set (un_post (merge_unprots succs i u)) a =
     (if a = ci_address i
      then get_set (un_post u) a \<union> (\<Union>s \<in> set (dict_default succs [] a). get_set (un_pre u) (ci_address s))
      else get_set (un_post u) a)"
proof -
  have "get_set (un_pre (fold (merge_succ i) ss u)) a = get_set (un_pre u) a \<and>
      get_set (un_post (fold (merge_succ i) ss u)) a =
        (if a = ci_address i then get_set (un_post u) a \<union> (\<Union>s \<in> set ss. get_set (un_pre u) (ci_address s))
         else get_set (un_post u) a)" for ss
    by (induction ss arbitrary: u) (auto simp: merge_succ_def)
  then show ?thesis by (auto simp: merge_unprots_def)
qed

lemma merge_unprots_keys:
  "un_pre u a \<noteq> None \<Longrightarrow> un_pre (merge_unprots succs i u) a \<noteq> None"
  "un_post u a \<noteq> None \<Longrightarrow> un_post (merge_unprots succs i u) a \<noteq> None"
proof -
  have k: "(un_pre u a \<noteq> None \<longrightarrow> un_pre (merge_succ i s u) a \<noteq> None) \<and>
      (un_post u a \<noteq> None \<longrightarrow> un_post (merge_succ i s u) a \<noteq> None)" for s u
    by (simp add: merge_succ_def)
  have "(un_pre u a \<noteq> None \<longrightarrow> un_pre (fold (merge_succ i) ss u) a \<noteq> None) \<and>
      (un_post u a \<noteq> None \<longrightarrow> un_post (fold (merge_succ i) ss u) a \<noteq> None)" for ss
  proof (induction ss arbitrary: u)
    case (Cons s ss)
    from Cons [of "merge_succ i s u"] k [of u s] show ?case by simp
  qed simp
  then show "un_pre u a \<noteq> None \<Longrightarrow> un_pre (merge_unprots succs i u) a \<noteq> None"
    "un_post u a \<noteq> None \<Longrightarrow> un_post (merge_unprots succs i u) a \<noteq> None"
    by (simp_all add: merge_unprots_def)
qed

lemma transfer_set_mono: "v \<subseteq> w \<Longrightarrow> transfer_set i v \<subseteq> transfer_set i w"
  by (auto simp: transfer_set_def list_ex_iff Let_def)

lemma transfer_set_within:
  "v \<subseteq> U \<Longrightarrow> set (ci_regs_read i) \<subseteq> U \<Longrightarrow> set (get_unprot_operands i) \<subseteq> U \<Longrightarrow> transfer_set i v \<subseteq> U"
  by (auto simp: transfer_set_def Let_def)

lemma set_sorted_insns: "set (sorted_insns insns) = snd ` set insns"
  by (simp add: sorted_insns_def)

lemma wf_programD:
  assumes "wf_program U insns succs"
  shows "i \<in> set (sorted_insns insns) \<Longrightarrow> set (ci_regs_read i) \<subseteq> U \<and> set (get_unprot_operands i) \<subseteq> U"
    and "distinct (map ci_address (sorted_insns insns))"
    and "(a, i) \<in> set insns \<Longrightarrow> ci_address i = a"
    and "(a, i) \<in> set insns \<Longrightarrow> s \<in> set (dict_default succs [] a) \<Longrightarrow> ci_address s \<in> fst ` set insns"
proof -
  have "map ci_address (sorted_insns insns) = map fst (rev (sort_key fst insns))"
    using assms by (auto simp: sorted_insns_def wf_program_def)
  moreover have "distinct (map fst (rev (sort_key fst insns)))"
    using assms by (simp add: wf_program_def rev_map [symmetric] distinct_map inj_on_def)
  ultimately show "distinct (map ci_address (sorted_insns insns))" by simp
qed (use assms in \<open>fastforce simp: wf_program_def set_sorted_insns\<close>)+

locale register_expansion =
  fixes expand :: "nat set \<Rightarrow> nat set res"
    and E :: "nat set \<Rightarrow> nat set"
    and U :: "nat set"
  assumes expand: "v \<subseteq> U \<Longrightarrow> expand v = Inr (E v)"
    and closed: "v \<subseteq> U \<Longrightarrow> E v \<subseteq> U"
    and mono: "v \<subseteq> w \<Longrightarrow> E v \<subseteq> E w"
begin

definition within :: "unprots \<Rightarrow> bool" where
  "within u \<longleftrightarrow> (\<forall>a. get_set (un_pre u) a \<subseteq> U \<and> get_set (un_post u) a \<subseteq> U)"

definition known_regs :: "cs_insn \<Rightarrow> bool" where
  "known_regs i \<longleftrightarrow> set (ci_regs_read i) \<subseteq> U \<and> set (get_unprot_operands i) \<subseteq> U"

text \<open>One step of a round, on the sets.\<close>

lemma step_sets:
  assumes "within u" and "known_regs i"
  obtains u' where "transfer expand i (merge_unprots succs i u) = Inr u'" and "within u'"
    and "\<And>a. get_set (un_post u') a = (if a = ci_address i
      then get_set (un_post u) a \<union> (\<Union>s \<in> set (dict_default succs [] a). get_set (un_pre u) (ci_address s))
      else get_set (un_post u) a)"
    and "\<And>a. get_set (un_pre u') a = (if a = ci_address i
      then E (transfer_set i (get_set (un_post u') a)) else get_set (un_pre u) a)"
    and "un_pre u' (ci_address i) \<noteq> None" and "un_post u' (ci_address i) \<noteq> None"
proof -
  let ?m = "merge_unprots succs i u"
  let ?q = "get_set (un_post ?m) (ci_address i)"
  have q: "?q \<subseteq> U" using assms(1) by (auto simp: merge_unprots_sets within_def)
  then have t: "transfer_set i ?q \<subseteq> U" using assms(2) using transfer_set_within by (simp add: known_regs_def)
  define u' where "u' = ?m\<lparr>un_post := touch (ci_address i) (un_post ?m),
    un_pre := (un_pre ?m)(ci_address i \<mapsto> E (transfer_set i ?q))\<rparr>"
  show thesis
  proof (rule that [of u'])
    show "transfer expand i ?m = Inr u'" using t by (simp add: transfer_def u'_def expand Let_def)
    show "within u'" using assms(1) closed [OF t] by (auto simp: u'_def within_def merge_unprots_sets)
  qed (auto simp: u'_def merge_unprots_sets)
qed

lemma step_keys:
  assumes "transfer expand i (merge_unprots succs i u) = Inr u'"
  shows "un_pre u a \<noteq> None \<Longrightarrow> un_pre u' a \<noteq> None" and "un_post u a \<noteq> None \<Longrightarrow> un_post u' a \<noteq> None"
  using assms merge_unprots_keys [of u a succs i]
  by (auto simp: transfer_def Let_def res_bind_Inr_iff touch_def split: option.splits)

abbreviation round :: "(int, cs_insn list) dict \<Rightarrow> cs_insn list \<Rightarrow> unprots \<Rightarrow> unprots res" where
  "round succs is u \<equiv> res_fold (\<lambda>insn u. transfer expand insn (merge_unprots succs insn u)) is u"

lemma round_keys:
  assumes "round succs is u = Inr u'"
  shows "(un_pre u a \<noteq> None \<longrightarrow> un_pre u' a \<noteq> None) \<and> (un_post u a \<noteq> None \<longrightarrow> un_post u' a \<noteq> None)"
  by (rule res_fold_invariant [OF assms]) (use step_keys in blast)+

text \<open>
  A round over instructions with distinct addresses: the sets of an address are final once its
  instruction is processed, and they are computed from sets that are either old or final.
\<close>

lemma round_sets:
  assumes "within u" and "\<forall>i \<in> set is. known_regs i" and "distinct (map ci_address is)"
  shows "\<exists>u'. round succs is u = Inr u' \<and> within u' \<and>
    (\<forall>a. a \<notin> ci_address ` set is \<longrightarrow> get_set (un_pre u') a = get_set (un_pre u) a \<and>
       get_set (un_post u') a = get_set (un_post u) a) \<and>
    (\<forall>a. get_set (un_post u) a \<subseteq> get_set (un_post u') a) \<and>
    (\<forall>i \<in> set is. un_pre u' (ci_address i) \<noteq> None \<and> un_post u' (ci_address i) \<noteq> None \<and>
       get_set (un_pre u') (ci_address i) = E (transfer_set i (get_set (un_post u') (ci_address i))) \<and>
       (\<forall>s \<in> set (dict_default succs [] (ci_address i)).
          get_set (un_pre u) (ci_address s) \<subseteq> get_set (un_post u') (ci_address i) \<or>
          get_set (un_pre u') (ci_address s) \<subseteq> get_set (un_post u') (ci_address i)))"
  using assms
proof (induction "is" arbitrary: u)
  case (Cons i js)
  from Cons.prems have ki: "known_regs i" by simp
  obtain v where v: "transfer expand i (merge_unprots succs i u) = Inr v" "within v"
    "\<And>a. get_set (un_post v) a = (if a = ci_address i
      then get_set (un_post u) a \<union> (\<Union>s \<in> set (dict_default succs [] a). get_set (un_pre u) (ci_address s))
      else get_set (un_post u) a)"
    "\<And>a. get_set (un_pre v) a = (if a = ci_address i
      then E (transfer_set i (get_set (un_post v) a)) else get_set (un_pre u) a)"
    "un_pre v (ci_address i) \<noteq> None" "un_post v (ci_address i) \<noteq> None"
    using step_sets [OF Cons.prems(1) ki] by metis
  from Cons.IH [OF v(2)] Cons.prems obtain w where w: "round succs js v = Inr w" "within w"
    "\<And>a. a \<notin> ci_address ` set js \<Longrightarrow> get_set (un_pre w) a = get_set (un_pre v) a \<and>
       get_set (un_post w) a = get_set (un_post v) a"
    "\<And>a. get_set (un_post v) a \<subseteq> get_set (un_post w) a"
    "\<forall>i \<in> set js. un_pre w (ci_address i) \<noteq> None \<and> un_post w (ci_address i) \<noteq> None \<and>
       get_set (un_pre w) (ci_address i) = E (transfer_set i (get_set (un_post w) (ci_address i))) \<and>
       (\<forall>s \<in> set (dict_default succs [] (ci_address i)).
          get_set (un_pre v) (ci_address s) \<subseteq> get_set (un_post w) (ci_address i) \<or>
          get_set (un_pre w) (ci_address s) \<subseteq> get_set (un_post w) (ci_address i))"
    by auto
  have ai: "ci_address i \<notin> ci_address ` set js" using Cons.prems(3) by auto
  have keys: "un_pre w (ci_address i) \<noteq> None \<and> un_post w (ci_address i) \<noteq> None"
    using round_keys [OF w(1)] v(5,6) by blast
  have "get_set (un_pre w) (ci_address i) = E (transfer_set i (get_set (un_post w) (ci_address i)))"
    using w(3) [OF ai] v(4) [of "ci_address i"] by simp
  moreover have "get_set (un_pre u) (ci_address s) \<subseteq> get_set (un_post w) (ci_address i)"
    if "s \<in> set (dict_default succs [] (ci_address i))" for s
    using that w(3) [OF ai] v(3) [of "ci_address i"] by auto
  moreover have "get_set (un_pre u) (ci_address s) \<subseteq> get_set (un_post w) (ci_address j) \<or>
      get_set (un_pre w) (ci_address s) \<subseteq> get_set (un_post w) (ci_address j)"
    if "j \<in> set js" "s \<in> set (dict_default succs [] (ci_address j))" for j s
  proof (cases "ci_address s = ci_address i")
    case True
    with w(3) [OF ai] w(5) that show ?thesis by metis
  next
    case False
    then have "get_set (un_pre v) (ci_address s) = get_set (un_pre u) (ci_address s)"
      using v(4) [of "ci_address s"] by simp
    with w(5) that show ?thesis by metis
  qed
  moreover have "get_set (un_post u) a \<subseteq> get_set (un_post w) a" for a
    using v(3) [of a] w(4) [of a] by (auto split: if_splits)
  moreover have "get_set (un_pre w) a = get_set (un_pre u) a \<and> get_set (un_post w) a = get_set (un_post u) a"
    if "a \<notin> ci_address ` set (i # js)" for a
    using that w(3) [of a] v(3,4) [of a] by auto
  ultimately show ?case using v(1) w(1,2,5) keys by (intro exI [of _ w]) simp
qed simp

text \<open>Nothing grows above a solution.\<close>

lemma round_below:
  assumes "round succs is u = Inr u'" and "within u" and "\<forall>i \<in> set is. known_regs i"
    and "\<And>a. get_set (un_pre u) a \<subseteq> P a" and "\<And>a. get_set (un_post u) a \<subseteq> Q a"
    and "\<And>i. i \<in> set is \<Longrightarrow> E (transfer_set i (Q (ci_address i))) \<subseteq> P (ci_address i) \<and>
      (\<forall>s \<in> set (dict_default succs [] (ci_address i)). P (ci_address s) \<subseteq> Q (ci_address i))"
  shows "get_set (un_pre u') a \<subseteq> P a \<and> get_set (un_post u') a \<subseteq> Q a"
proof -
  let ?I = "\<lambda>u. within u \<and> (\<forall>a. get_set (un_pre u) a \<subseteq> P a \<and> get_set (un_post u) a \<subseteq> Q a)"
  have "?I u'"
  proof (rule res_fold_invariant [OF assms(1), of ?I])
    show "?I u" using assms by blast
  next
    fix i s s'
    assume i: "i \<in> set is" and s: "?I s" and step: "transfer expand i (merge_unprots succs i s) = Inr s'"
    from s i assms(3) have "within s" "known_regs i" by auto
    from step_sets [OF this, of succs] step have w: "within s'"
      and q: "\<And>a. get_set (un_post s') a = (if a = ci_address i
        then get_set (un_post s) a \<union> (\<Union>t \<in> set (dict_default succs [] a). get_set (un_pre s) (ci_address t))
        else get_set (un_post s) a)"
      and p: "\<And>a. get_set (un_pre s') a = (if a = ci_address i
        then E (transfer_set i (get_set (un_post s') a)) else get_set (un_pre s) a)"
      by (metis sum.inject(2))+
    have Q: "get_set (un_post s') a \<subseteq> Q a" for a
      using q [of a] s assms(6) [OF i] by (auto split: if_splits) blast+
    have "E (transfer_set i (get_set (un_post s') (ci_address i))) \<subseteq> P (ci_address i)"
      using mono [OF transfer_set_mono [OF Q]] assms(6) [OF i] by blast
    then have "get_set (un_pre s') a \<subseteq> P a" for a using p [of a] s by (auto split: if_splits)
    with w Q show "?I s'" by blast
  qed
  then show ?thesis by blast
qed

definition after_round :: "(int, cs_insn) dict \<Rightarrow> (int, cs_insn list) dict \<Rightarrow> unprots \<Rightarrow> unprots \<Rightarrow> bool" where
  "after_round insns succs u u' \<longleftrightarrow> within u' \<and> (\<forall>a. get_set (un_post u) a \<subseteq> get_set (un_post u') a) \<and>
     (\<forall>(a, i) \<in> set insns. un_pre u' a \<noteq> None \<and> un_post u' a \<noteq> None \<and>
       get_set (un_pre u') a = E (transfer_set i (get_set (un_post u') a)) \<and>
       (\<forall>s \<in> set (dict_default succs [] a).
          get_set (un_pre u) (ci_address s) \<subseteq> get_set (un_post u') a \<or>
          get_set (un_pre u') (ci_address s) \<subseteq> get_set (un_post u') a))"

lemma round_program:
  assumes "wf_program U insns succs" and "within u"
  obtains u' where "round succs (sorted_insns insns) u = Inr u'" and "after_round insns succs u u'"
proof -
  have k: "\<forall>i \<in> set (sorted_insns insns). known_regs i"
    and d: "distinct (map ci_address (sorted_insns insns))"
    using wf_programD [OF assms(1)] by (auto simp: known_regs_def set_sorted_insns)
  from round_sets [OF assms(2) k d, of succs] obtain u' where u':
    "round succs (sorted_insns insns) u = Inr u'" "within u'"
    "\<And>a. get_set (un_post u) a \<subseteq> get_set (un_post u') a"
    "\<And>i. i \<in> set (sorted_insns insns) \<Longrightarrow> un_pre u' (ci_address i) \<noteq> None \<and> un_post u' (ci_address i) \<noteq> None \<and>
       get_set (un_pre u') (ci_address i) = E (transfer_set i (get_set (un_post u') (ci_address i))) \<and>
       (\<forall>s \<in> set (dict_default succs [] (ci_address i)).
          get_set (un_pre u) (ci_address s) \<subseteq> get_set (un_post u') (ci_address i) \<or>
          get_set (un_pre u') (ci_address s) \<subseteq> get_set (un_post u') (ci_address i))"
    by blast
  have "after_round insns succs u u'" unfolding after_round_def
  proof (intro conjI ballI, goal_cases)
    case (3 x)
    then obtain a i where x: "x = (a, i)" "(a, i) \<in> set insns" by (metis surj_pair)
    then have "i \<in> set (sorted_insns insns)" "ci_address i = a"
      using wf_programD(3) [OF assms(1)] by (force simp: set_sorted_insns)+
    with u'(4) [of i] x show ?case by simp
  qed (use u'(2,3) in blast)+
  with u'(1) show thesis by (rule that)
qed

lemma after_roundD:
  assumes "after_round insns succs u u'"
  shows "within u'" and "get_set (un_post u) a \<subseteq> get_set (un_post u') a"
    and "(a, i) \<in> set insns \<Longrightarrow> un_pre u' a \<noteq> None \<and> un_post u' a \<noteq> None \<and>
       get_set (un_pre u') a = E (transfer_set i (get_set (un_post u') a))"
    and "(a, i) \<in> set insns \<Longrightarrow> s \<in> set (dict_default succs [] a) \<Longrightarrow>
      get_set (un_pre u) (ci_address s) = get_set (un_pre u') (ci_address s) \<Longrightarrow>
      get_set (un_pre u') (ci_address s) \<subseteq> get_set (un_post u') a"
  using assms unfolding after_round_def by (blast, blast, fastforce, fastforce)

text \<open>A round that changes nothing has reached a solution.\<close>

lemma unchanged_solution:
  assumes wf: "wf_program U insns succs" and "within u"
    and "dataflow_analysis_one expand insns succs u = Inr (False, u')"
  shows "is_solution E insns succs (get_set (un_pre u')) (get_set (un_post u'))"
proof -
  obtain v where v: "round succs (sorted_insns insns) u = Inr v" and rv: "after_round insns succs u v"
    by (rule round_program [OF assms(1,2)])
  from v assms(3) have nd: "\<not> snapshot_differs (map fst insns) u u'" and "v = u'"
    by (auto simp: dataflow_analysis_one_def)
  note r = rv [unfolded \<open>v = u'\<close>]
  have same: "get_set (un_pre u) (ci_address s) = get_set (un_pre u') (ci_address s)"
    if "(a, i) \<in> set insns" "s \<in> set (dict_default succs [] a)" for a i s
  proof -
    from wf_programD(4) [OF wf that] nd have "un_pre u (ci_address s) = un_pre u' (ci_address s)"
      by (auto simp: snapshot_differs_def list_ex_iff)
    then show ?thesis by (simp add: get_set_def)
  qed
  show ?thesis unfolding is_solution_def
  proof (intro ballI, clarify, intro conjI ballI)
    fix a i assume ai: "(a, i) \<in> set insns"
    from after_roundD(3) [OF r ai] show "E (transfer_set i (get_set (un_post u') a)) \<subseteq> get_set (un_pre u') a" by simp
    fix s assume s: "s \<in> set (dict_default succs [] a)"
    show "get_set (un_pre u') (ci_address s) \<subseteq> get_set (un_post u') a"
      by (rule after_roundD(4) [OF r ai s same [OF ai s]])
  qed
qed

lemma loop_least_solution:
  assumes "wf_program U insns succs" and "within u"
    and "dataflow_loop expand insns succs n u = Inr u'"
  shows "is_solution E insns succs (get_set (un_pre u')) (get_set (un_post u')) \<and>
    (\<forall>P Q. is_solution E insns succs P Q \<and> (\<forall>a. get_set (un_pre u) a \<subseteq> P a \<and> get_set (un_post u) a \<subseteq> Q a) \<longrightarrow>
       (\<forall>a. get_set (un_pre u') a \<subseteq> P a \<and> get_set (un_post u') a \<subseteq> Q a))"
  using assms(2,3)
proof (induction "1001 - n" arbitrary: n u rule: less_induct)
  case less
  obtain v where v: "round succs (sorted_insns insns) u = Inr v" and "after_round insns succs u v"
    by (rule round_program [OF assms(1) less.prems(1)])
  then have wv: "within v" by (simp add: after_roundD(1))
  have below: "get_set (un_pre v) a \<subseteq> P a \<and> get_set (un_post v) a \<subseteq> Q a"
    if "is_solution E insns succs P Q" "\<forall>a. get_set (un_pre u) a \<subseteq> P a \<and> get_set (un_post u) a \<subseteq> Q a" for P Q a
  proof (rule round_below [OF v less.prems(1)])
    show "\<forall>i \<in> set (sorted_insns insns). known_regs i"
      using wf_programD(1) [OF assms(1)] by (simp add: known_regs_def)
  next
    fix i assume "i \<in> set (sorted_insns insns)"
    then obtain b where "(b, i) \<in> set insns" by (auto simp: set_sorted_insns)
    with wf_programD(3) [OF assms(1) this] bspec [OF that(1) [unfolded is_solution_def]]
    show "E (transfer_set i (Q (ci_address i))) \<subseteq> P (ci_address i) \<and>
        (\<forall>s \<in> set (dict_default succs [] (ci_address i)). P (ci_address s) \<subseteq> Q (ci_address i))"
      by blast
  qed (use that(2) in auto)
  show ?case
  proof (cases "snapshot_differs (map fst insns) u v")
    case True
    with less.prems(2) v have n: "n + 1 \<le> 1000" and rest: "dataflow_loop expand insns succs (n + 1) v = Inr u'"
      by (subst (asm) dataflow_loop.simps, auto simp: dataflow_analysis_one_def Let_def split: if_splits)+
    have "1001 - (n + 1) < 1001 - n" using n by simp
    from less.hyps [OF this wv rest] below show ?thesis by blast
  next
    case False
    with less.prems(2) v have "u' = v"
      by (subst (asm) dataflow_loop.simps) (simp add: dataflow_analysis_one_def)
    moreover have "dataflow_analysis_one expand insns succs u = Inr (False, v)"
      using False v by (simp add: dataflow_analysis_one_def)
    ultimately show ?thesis using unchanged_solution [OF assms(1) less.prems(1)] below by blast
  qed
qed

text \<open>
  After the first round every further round that changes a set enlarges some set \<open>unprots_post\<close>,
  so the number of rounds is bounded by the total size these sets can have.
\<close>

definition settled :: "(int, cs_insn) dict \<Rightarrow> unprots \<Rightarrow> bool" where
  "settled insns u \<longleftrightarrow> within u \<and> (\<forall>(a, i) \<in> set insns. un_pre u a \<noteq> None \<and> un_post u a \<noteq> None \<and>
     get_set (un_pre u) a = E (transfer_set i (get_set (un_post u) a)))"

definition weight :: "(int, cs_insn) dict \<Rightarrow> unprots \<Rightarrow> nat" where
  "weight insns u = (\<Sum>a \<in> fst ` set insns. card (get_set (un_post u) a))"

lemma weight_bound:
  assumes "finite U" and "within u"
  shows "weight insns u \<le> length insns * card U"
proof -
  have "weight insns u \<le> (\<Sum>a \<in> fst ` set insns. card U)"
    unfolding weight_def using assms by (intro sum_mono card_mono) (auto simp: within_def)
  also have "\<dots> \<le> length insns * card U"
    using card_length [of "map fst insns"] by simp
  finally show ?thesis .
qed

lemma changed_weight:
  assumes wf: "wf_program U insns succs" and fin: "finite U" and s: "settled insns u"
    and r: "round succs (sorted_insns insns) u = Inr v" and ch: "snapshot_differs (map fst insns) u v"
  shows "settled insns v \<and> weight insns u < weight insns v"
proof -
  from s have w: "within u" by (simp add: settled_def)
  obtain v' where "round succs (sorted_insns insns) u = Inr v'" and "after_round insns succs u v'"
    by (rule round_program [OF wf w])
  with r have ar: "after_round insns succs u v" by simp
  note w' = after_roundD(1) [OF ar] and grow = after_roundD(2) [OF ar] and eq = after_roundD(3) [OF ar]
  have s': "settled insns v" using w' eq by (auto simp: settled_def)
  from ch obtain a i where ai: "(a, i) \<in> set insns"
    and "un_pre u a \<noteq> un_pre v a \<or> (un_post u a = None) \<noteq> (un_post v a = None)"
    by (auto simp: snapshot_differs_def list_ex_iff)
  moreover have "un_pre u a \<noteq> None" "un_post u a \<noteq> None" "un_pre v a \<noteq> None" "un_post v a \<noteq> None"
    using s s' ai by (auto simp: settled_def)
  ultimately have "get_set (un_pre u) a \<noteq> get_set (un_pre v) a" by (auto simp: get_set_def)
  moreover have "get_set (un_pre u) a = E (transfer_set i (get_set (un_post u) a))"
    and "get_set (un_pre v) a = E (transfer_set i (get_set (un_post v) a))"
    using s s' ai by (auto simp: settled_def)
  ultimately have "get_set (un_post u) a \<noteq> get_set (un_post v) a" by auto
  moreover have fv: "finite (get_set (un_post v) b)" for b
    using w' fin by (meson finite_subset within_def)
  ultimately have lt: "card (get_set (un_post u) a) < card (get_set (un_post v) a)"
    using grow [of a] fv by (intro psubset_card_mono) auto
  have "weight insns u < weight insns v"
    unfolding weight_def
  proof (rule sum_strict_mono_ex1)
    show "\<forall>a \<in> fst ` set insns. card (get_set (un_post u) a) \<le> card (get_set (un_post v) a)"
      using grow fv by (intro ballI card_mono) auto
    show "\<exists>a \<in> fst ` set insns. card (get_set (un_post u) a) < card (get_set (un_post v) a)"
      using ai lt by force
  qed simp
  with s' show ?thesis by simp
qed

lemma loop_returns:
  assumes wf: "wf_program U insns succs" and fin: "finite U"
    and "settled insns u" and "n + (length insns * card U - weight insns u) \<le> 1000"
  shows "\<exists>u'. dataflow_loop expand insns succs n u = Inr u'"
  using assms(3,4)
proof (induction "1001 - n" arbitrary: n u rule: less_induct)
  case less
  from less.prems(1) have w: "within u" by (simp add: settled_def)
  obtain v where v: "round succs (sorted_insns insns) u = Inr v" by (rule round_program [OF wf w])
  show ?case
  proof (cases "snapshot_differs (map fst insns) u v")
    case True
    note cw = changed_weight [OF wf fin less.prems(1) v True]
    then have "weight insns v \<le> length insns * card U"
      using weight_bound [OF fin, of v insns] by (simp add: settled_def)
    with cw less.prems(2) have n: "n + 1 + (length insns * card U - weight insns v) \<le> 1000" by linarith
    then have "\<exists>u'. dataflow_loop expand insns succs (n + 1) v = Inr u'"
      using less.hyps [of "n + 1" v] cw by simp
    with n True v show ?thesis
      by (subst dataflow_loop.simps) (simp add: dataflow_analysis_one_def)
  next
    case False
    with v show ?thesis by (subst dataflow_loop.simps) (simp add: dataflow_analysis_one_def)
  qed
qed

lemma analysis_returns:
  assumes wf: "wf_program U insns succs" and fin: "finite U" and "length insns * card U < 1000"
  shows "\<exists>u'. dataflow_analysis expand insns succs new_unprots = Inr u'"
proof -
  have w: "within new_unprots" by (simp add: within_def new_unprots_def get_set_def)
  obtain v where v: "round succs (sorted_insns insns) new_unprots = Inr v"
    and "after_round insns succs new_unprots v"
    by (rule round_program [OF wf w])
  then have s: "settled insns v" using after_roundD by (auto simp: settled_def)
  have "\<exists>u'. dataflow_loop expand insns succs 1 v = Inr u'"
    using assms(3) by (intro loop_returns [OF wf fin s]) linarith
  with v show ?thesis
    by (simp add: dataflow_analysis_def, subst dataflow_loop.simps) (simp add: dataflow_analysis_one_def)
qed

end

subsection \<open>The sub-register expansion of the analysis\<close>

text \<open>The registers whose expansion is defined all the way down.\<close>

definition sub_rel :: "(nat \<Rightarrow> nat list res) \<Rightarrow> (nat \<times> nat) set" where
  "sub_rel sub = {(x, y). \<exists>l. sub x = Inr l \<and> y \<in> set l}"

definition expandable :: "(nat \<Rightarrow> nat list res) \<Rightarrow> nat set" where
  "expandable sub = {x. \<forall>y. (x, y) \<in> (sub_rel sub)\<^sup>* \<longrightarrow> \<not> isl (sub y)}"

definition expansion :: "(nat \<Rightarrow> nat list res) \<Rightarrow> nat set \<Rightarrow> nat set" where
  "expansion sub v = (\<Union>x \<in> v. case sub x of Inr l \<Rightarrow> set l | Inl _ \<Rightarrow> {})"

interpretation cts: register_expansion "expand_set sub" "expansion sub" "expandable sub" for sub
proof
  fix v :: "nat set"
  assume v: "v \<subseteq> expandable sub"
  then have "\<not> isl (sub x)" if "x \<in> v" for x using that by (auto simp: expandable_def)
  then show "expand_set sub v = Inr (expansion sub v)"
    by (auto simp: expand_set_def expansion_def) (metis isl_def)
  show "expansion sub v \<subseteq> expandable sub"
    using v by (auto simp: expansion_def expandable_def sub_rel_def split: sum.splits)
      (metis (mono_tags, lifting) case_prodI converse_rtrancl_into_rtrancl mem_Collect_eq subsetD)
qed (auto simp: expansion_def)

lemma get_insns_keys:
  assumes "\<forall>(a, i) \<in> set insns. ci_address i = a" and "distinct (map fst insns)"
  shows "(\<forall>(a, i) \<in> set (get_insns is insns). ci_address i = a) \<and> distinct (map fst (get_insns is insns)) \<and>
    snd ` set (get_insns is insns) \<subseteq> set is \<union> snd ` set insns"
  using assms
proof (induction "is" arbitrary: insns)
  case (Cons i js)
  let ?d = "AList.update (ci_address i) i insns"
  have sub: "set ?d \<subseteq> insert (ci_address i, i) (set insns)" by (induction insns) auto
  then have "\<forall>(a, i) \<in> set ?d. ci_address i = a" "snd ` set ?d \<subseteq> insert i (snd ` set insns)"
    using Cons.prems(1) by auto
  note d = this
  have eq: "get_insns (i # js) insns = get_insns js ?d" by (simp add: get_insns_def)
  have "distinct (map fst ?d)" using Cons.prems(2) by simp
  note IH = Cons.IH [OF d(1) this]
  have un: "A \<subseteq> J \<union> B \<Longrightarrow> B \<subseteq> insert i S \<Longrightarrow> A \<subseteq> insert i J \<union> S" for A J B S :: "cs_insn set"
    by blast
  show ?case unfolding eq list.set(2) using IH un [OF _ d(2)] by blast
qed (simp add: get_insns_def)

lemma construct_cfg_succs:
  assumes "construct_cfg insns = Inr succs" and "\<forall>(a, i) \<in> set insns. ci_address i = a"
  shows "s \<in> set (dict_default succs [] a) \<Longrightarrow> ci_address s \<in> fst ` set insns"
proof -
  let ?I = "\<lambda>d. \<forall>a. \<forall>s \<in> set (dict_default d [] a). ci_address s \<in> fst ` set insns"
  have "?I succs"
    using assms(1) unfolding construct_cfg_def
  proof (rule res_fold_invariant)
    fix i d d'
    assume d: "?I d" and "res_bind (jump_targets i) (\<lambda>targets. Inr (AList.update (ci_address i)
      (List.map_filter (lookup_insn insns) targets) d)) = Inr d'"
    then obtain targets where
      d': "d' = AList.update (ci_address i) (List.map_filter (lookup_insn insns) targets) d"
      by (auto simp: res_bind_Inr_iff)
    have "ci_address s \<in> fst ` set insns" if "s \<in> set (List.map_filter (lookup_insn insns) targets)" for s
    proof -
      from that obtain t where "map_of insns t = Some s"
        by (auto simp: List.map_filter_def lookup_insn_def)
      then have "(t, s) \<in> set insns" by (rule map_of_SomeD)
      with assms(2) show ?thesis by force
    qed
    with d show "?I d'" by (simp add: d')
  qed (simp add: dict_default_def)
  then show "s \<in> set (dict_default succs [] a) \<Longrightarrow> ci_address s \<in> fst ` set insns" by blast
qed

lemma analyze_binary_wf:
  assumes "construct_cfg (get_insns disassembly []) = Inr succs"
    and "\<And>i. i \<in> set disassembly \<Longrightarrow> set (ci_regs_read i) \<subseteq> U \<and> set (get_unprot_operands i) \<subseteq> U"
  shows "wf_program U (get_insns disassembly []) succs"
proof -
  let ?d = "get_insns disassembly []"
  have k: "\<forall>(a, i) \<in> set ?d. ci_address i = a" "distinct (map fst ?d)" "snd ` set ?d \<subseteq> set disassembly"
    using get_insns_keys [of "[]" disassembly] by auto
  have "ci_address i = a \<and> set (ci_regs_read i) \<subseteq> U \<and> set (get_unprot_operands i) \<subseteq> U \<and>
      (\<forall>s \<in> set (dict_default succs [] a). ci_address s \<in> fst ` set ?d)" if "(a, i) \<in> set ?d" for a i
  proof -
    have "i \<in> set disassembly" using that k(3) by force
    with that k(1) assms(2) [of i] construct_cfg_succs [OF assms(1) k(1)] show ?thesis by blast
  qed
  with k(2) show ?thesis unfolding wf_program_def by blast
qed

subsection \<open>Properties\<close>

text \<open>
  C8. The analysis of the \<open>cts\<close> clause is correct and precise: when it returns, the sets it found
  solve the backward data-flow equations of the control-flow graph (before an instruction:
  its transmitted operands, the unprotected registers it does not write, and its inputs when
  it writes an unprotected register, all with their sub-registers; after it: everything
  unprotected before a successor), and they are contained in every other solution.
\<close>

theorem analyze_binary_least_solution:
  assumes "analyze_binary (expand_set sub) disassembly = Inr (insns, succs, u)"
    and "\<And>i. i \<in> set disassembly \<Longrightarrow>
      set (ci_regs_read i) \<subseteq> expandable sub \<and> set (get_unprot_operands i) \<subseteq> expandable sub"
  shows "is_solution (expansion sub) insns succs (get_set (un_pre u)) (get_set (un_post u)) \<and>
    (\<forall>P Q. is_solution (expansion sub) insns succs P Q \<longrightarrow>
       (\<forall>a. get_set (un_pre u) a \<subseteq> P a \<and> get_set (un_post u) a \<subseteq> Q a))"
proof -
  from assms(1) have cfg: "construct_cfg (get_insns disassembly []) = Inr succs"
    and i: "insns = get_insns disassembly []"
    and l: "dataflow_loop (expand_set sub) insns succs 0 new_unprots = Inr u"
    by (auto simp: analyze_binary_def dataflow_analysis_def res_bind_Inr_iff Let_def)
  have e: "get_set (un_pre new_unprots) a = {}" "get_set (un_post new_unprots) a = {}" for a
    by (simp_all add: new_unprots_def get_set_def)
  then have w: "cts.within sub new_unprots" by (simp add: cts.within_def)
  have wf: "wf_program (expandable sub) insns succs"
    unfolding i by (rule analyze_binary_wf [OF cfg assms(2)])
  from cts.loop_least_solution [OF wf w l] show ?thesis by (simp add: e)
qed

text \<open>
  C13. Termination within the limit: the analysis never gives up with "dataflow analysis braindead" when the
  number of instructions on the page times the number of registers is below 1000.
\<close>

theorem analyze_binary_returns:
  assumes "construct_cfg (get_insns disassembly []) = Inr succs"
    and "\<And>i. i \<in> set disassembly \<Longrightarrow>
      set (ci_regs_read i) \<subseteq> expandable sub \<and> set (get_unprot_operands i) \<subseteq> expandable sub"
    and "finite (expandable sub)"
    and "length (get_insns disassembly []) * card (expandable sub) < 1000"
  shows "\<exists>u. analyze_binary (expand_set sub) disassembly = Inr (get_insns disassembly [], succs, u)"
  using cts.analysis_returns [OF analyze_binary_wf [OF assms(1,2)] assms(3,4)] assms(1)
  by (auto simp: analyze_binary_def)

text \<open>The example: \<open>mov rax, [rbx]\<close> at 0 followed by a jump at 4 that reads \<open>rax\<close>, over two registers.\<close>

definition ex_sub :: "nat \<Rightarrow> nat list res" where
  "ex_sub r = (if r \<in> {1, 2} then Inr [r] else Inl ValueError)"

definition ex_mov :: cs_insn where
  "ex_mov = \<lparr>ci_address = 0, ci_size = 4, ci_opcode = [139], ci_groups = [],
     ci_operands = [\<lparr>co_type = CS_OP_REG, co_access = 2, co_base = 0, co_index = 0, co_imm = 0\<rparr>,
       \<lparr>co_type = CS_OP_MEM, co_access = 1, co_base = 2, co_index = 0, co_imm = 0\<rparr>],
     ci_regs_read = [2], ci_regs_write = [1]\<rparr>"

definition ex_jmp :: cs_insn where
  "ex_jmp = \<lparr>ci_address = 4, ci_size = 2, ci_opcode = [235], ci_groups = [CS_GRP_JUMP, CS_GRP_BRANCH_RELATIVE],
     ci_operands = [\<lparr>co_type = CS_OP_IMM, co_access = 0, co_base = 0, co_index = 0, co_imm = 0\<rparr>],
     ci_regs_read = [1], ci_regs_write = []\<rparr>"

lemma ex_expandable: "expandable ex_sub = {1, 2}"
proof -
  have "sub_rel ex_sub = {(1, 1), (2, 2)}" by (auto simp: sub_rel_def ex_sub_def split: if_splits)
  then have r: "y = x" if "(x, y) \<in> sub_rel ex_sub" for x y using that by auto
  have "y = x" if "(x, y) \<in> (sub_rel ex_sub)\<^sup>*" for x y
    using that by (induction rule: rtrancl_induct) (auto dest: r)
  then show ?thesis by (auto simp: expandable_def ex_sub_def split: if_splits)
qed

lemma ex_fields:
  "ci_address ex_mov = 0" "ci_size ex_mov = 4" "ci_groups ex_mov = []" "ci_regs_read ex_mov = [2]"
  "ci_regs_write ex_mov = [1]" "ci_address ex_jmp = 4" "ci_size ex_jmp = 2"
  "ci_groups ex_jmp = [CS_GRP_JUMP, CS_GRP_BRANCH_RELATIVE]" "ci_regs_read ex_jmp = [1]"
  "ci_regs_write ex_jmp = []"
  "ci_operands ex_jmp = [\<lparr>co_type = CS_OP_IMM, co_access = 0, co_base = 0, co_index = 0, co_imm = 0\<rparr>]"
  by (simp_all add: ex_mov_def ex_jmp_def)

lemma ex_unprot:
  "get_unprot_operands ex_mov = [2]" "get_unprot_operands ex_jmp = [1]"
  by (simp_all add: get_unprot_operands_def ex_mov_def ex_jmp_def accesses_memory_def)

lemma ex_regs:
  "i \<in> set [ex_mov, ex_jmp] \<Longrightarrow>
     set (ci_regs_read i) \<subseteq> expandable ex_sub \<and> set (get_unprot_operands i) \<subseteq> expandable ex_sub"
  using ex_unprot by (auto simp: ex_expandable ex_fields)

lemma ex_insns: "get_insns [ex_mov, ex_jmp] [] = [(0, ex_mov), (4, ex_jmp)]"
  by (simp add: get_insns_def ex_mov_def ex_jmp_def)

lemma ex_cfg: "construct_cfg [(0, ex_mov), (4, ex_jmp)] = Inr [(0, [ex_jmp]), (4, [ex_mov])]"
  by (simp add: construct_cfg_def jump_targets_def lookup_insn_def List.map_filter_def py_assert_def
      ex_fields)

theorem analyze_binary_returns_witness:
  "\<exists>u. analyze_binary (expand_set ex_sub) [ex_mov, ex_jmp] =
     Inr ([(0, ex_mov), (4, ex_jmp)], [(0, [ex_jmp]), (4, [ex_mov])], u)"
  using analyze_binary_returns [of "[ex_mov, ex_jmp]" _ ex_sub, OF _ ex_regs]
  by (simp add: ex_insns ex_cfg ex_expandable)

theorem analyze_binary_least_solution_witness:
  "\<exists>u. analyze_binary (expand_set ex_sub) [ex_mov, ex_jmp] =
      Inr ([(0, ex_mov), (4, ex_jmp)], [(0, [ex_jmp]), (4, [ex_mov])], u) \<and>
    get_set (un_pre u) 4 \<subseteq> {1, 2} \<and> {1} \<subseteq> get_set (un_pre u) 4"
proof -
  obtain u where u: "analyze_binary (expand_set ex_sub) [ex_mov, ex_jmp] =
      Inr ([(0, ex_mov), (4, ex_jmp)], [(0, [ex_jmp]), (4, [ex_mov])], u)"
    using cts.analysis_returns [OF analyze_binary_wf, of "[ex_mov, ex_jmp]" _ ex_sub, OF _ ex_regs]
    by (auto simp: ex_insns ex_cfg ex_expandable analyze_binary_def)
  let ?top = "\<lambda>_ :: int. {1, 2 :: nat}"
  note least = analyze_binary_least_solution [OF u ex_regs]
  have "is_solution (expansion ex_sub) [(0, ex_mov), (4, ex_jmp)] [(0, [ex_jmp]), (4, [ex_mov])] ?top ?top"
    by (auto simp: is_solution_def expansion_def ex_sub_def split: if_splits)
  with least have "get_set (un_pre u) 4 \<subseteq> {1, 2}" by blast
  moreover have "expansion ex_sub (transfer_set ex_jmp (get_set (un_post u) 4)) \<subseteq> get_set (un_pre u) 4"
    using least by (simp add: is_solution_def)
  then have "{1} \<subseteq> get_set (un_pre u) 4"
    by (force simp: expansion_def ex_sub_def transfer_set_def ex_unprot ex_fields Let_def)
  ultimately show ?thesis using u by blast
qed

end
