(* ===== verification/Cond_Decode.thy ===== *)
theory Cond_Decode
  imports Prelude
begin

text \<open>
  Decoding of conditional jumps in the conditional-branch clause (\<open>X86UnicornCond.jumps\<close>,
  \<open>multibyte_jmp\<close> and \<open>decode\<close> in \<^verbatim>\<open>src/src/model.py\<close>): from the bytes of an instruction, \<open>EFLAGS\<close> and
  \<open>RCX\<close> it computes the displacement, whether the jump is taken and whether it is a \<open>LOOP\<close>. The
  tables are the two case distinctions below; the properties relate them to the condition
  codes of the architecture.
\<close>

definition FLAGS_CF :: int where "FLAGS_CF = 0x001"
definition FLAGS_PF :: int where "FLAGS_PF = 0x004"
definition FLAGS_AF :: int where "FLAGS_AF = 0x010"
definition FLAGS_ZF :: int where "FLAGS_ZF = 0x040"
definition FLAGS_SF :: int where "FLAGS_SF = 0x080"
definition FLAGS_OF :: int where "FLAGS_OF = 0x800"

lemmas flag_masks = FLAGS_CF_def FLAGS_PF_def FLAGS_AF_def FLAGS_ZF_def FLAGS_SF_def FLAGS_OF_def

type_synonym jump = "nat list \<times> bool \<times> bool"

definition no_jump :: jump where
  "no_jump = ([0], False, False)"

text \<open>Two-byte jumps, looked up by the second opcode byte; \<open>c[2:]\<close> is the displacement.\<close>

definition multibyte_jmp :: "nat \<Rightarrow> nat list \<Rightarrow> int \<Rightarrow> int \<Rightarrow> jump" where
  "multibyte_jmp b c f r =
    (if b = 0x80 then (drop 2 c, f AND FLAGS_OF \<noteq> 0, False)
     else if b = 0x81 then (drop 2 c, f AND FLAGS_OF = 0, False)
     else if b = 0x82 then (drop 2 c, f AND FLAGS_CF \<noteq> 0, False)
     else if b = 0x83 then (drop 2 c, f AND FLAGS_CF = 0, False)
     else if b = 0x84 then (drop 2 c, f AND FLAGS_ZF \<noteq> 0, False)
     else if b = 0x85 then (drop 2 c, f AND FLAGS_ZF = 0, False)
     else if b = 0x86 then (drop 2 c, f AND FLAGS_CF \<noteq> 0 \<or> f AND FLAGS_ZF \<noteq> 0, False)
     else if b = 0x87 then (drop 2 c, f AND FLAGS_CF = 0 \<and> f AND FLAGS_ZF = 0, False)
     else if b = 0x88 then (drop 2 c, f AND FLAGS_SF \<noteq> 0, False)
     else if b = 0x89 then (drop 2 c, f AND FLAGS_SF = 0, False)
     else if b = 0x8A then (drop 2 c, f AND FLAGS_PF \<noteq> 0, False)
     else if b = 0x8B then (drop 2 c, f AND FLAGS_PF = 0, False)
     else if b = 0x8C then (drop 2 c, (f AND FLAGS_SF = 0) \<noteq> (f AND FLAGS_OF = 0), False)
     else if b = 0x8D then (drop 2 c, (f AND FLAGS_SF = 0) = (f AND FLAGS_OF = 0), False)
     else if b = 0x8E then
       (drop 2 c, f AND FLAGS_ZF \<noteq> 0 \<or> (f AND FLAGS_SF = 0) \<noteq> (f AND FLAGS_OF = 0), False)
     else if b = 0x8F then
       (drop 2 c, f AND FLAGS_ZF = 0 \<and> (f AND FLAGS_SF = 0) = (f AND FLAGS_OF = 0), False)
     else no_jump)"

text \<open>The table \<open>jumps\<close>, looked up by the first opcode byte; \<open>0x0F\<close> continues with the second one.\<close>

definition jumps :: "nat \<Rightarrow> nat list \<Rightarrow> int \<Rightarrow> int \<Rightarrow> jump res" where
  "jumps b c f r =
    (if b = 0x70 then Inr (drop 1 c, f AND FLAGS_OF \<noteq> 0, False)
     else if b = 0x71 then Inr (drop 1 c, f AND FLAGS_OF = 0, False)
     else if b = 0x72 then Inr (drop 1 c, f AND FLAGS_CF \<noteq> 0, False)
     else if b = 0x73 then Inr (drop 1 c, f AND FLAGS_CF = 0, False)
     else if b = 0x74 then Inr (drop 1 c, f AND FLAGS_ZF \<noteq> 0, False)
     else if b = 0x75 then Inr (drop 1 c, f AND FLAGS_ZF = 0, False)
     else if b = 0x76 then Inr (drop 1 c, f AND FLAGS_CF \<noteq> 0 \<or> f AND FLAGS_ZF \<noteq> 0, False)
     else if b = 0x77 then Inr (drop 1 c, f AND FLAGS_CF = 0 \<and> f AND FLAGS_ZF = 0, False)
     else if b = 0x78 then Inr (drop 1 c, f AND FLAGS_SF \<noteq> 0, False)
     else if b = 0x79 then Inr (drop 1 c, f AND FLAGS_SF = 0, False)
     else if b = 0x7A then Inr (drop 1 c, f AND FLAGS_PF \<noteq> 0, False)
     else if b = 0x7B then Inr (drop 1 c, f AND FLAGS_PF = 0, False)
     else if b = 0x7C then Inr (drop 1 c, (f AND FLAGS_SF = 0) \<noteq> (f AND FLAGS_OF = 0), False)
     else if b = 0x7D then Inr (drop 1 c, (f AND FLAGS_SF = 0) = (f AND FLAGS_OF = 0), False)
     else if b = 0x7E then
       Inr (drop 1 c, f AND FLAGS_ZF \<noteq> 0 \<or> (f AND FLAGS_SF = 0) \<noteq> (f AND FLAGS_OF = 0), False)
     else if b = 0x7F then
       Inr (drop 1 c, f AND FLAGS_ZF = 0 \<and> (f AND FLAGS_SF = 0) = (f AND FLAGS_OF = 0), False)
     else if b = 0xE0 then Inr (drop 1 c, r \<noteq> 1 \<and> f AND FLAGS_ZF = 0, True)
     else if b = 0xE1 then Inr (drop 1 c, r \<noteq> 1 \<and> f AND FLAGS_ZF \<noteq> 0, True)
     else if b = 0xE2 then Inr (drop 1 c, r \<noteq> 1, True)
     else if b = 0xE3 then Inr (drop 1 c, r = 0, False)
     else if b = 0x0F then res_bind (py_nth c 1) (\<lambda>b1. Inr (multibyte_jmp b1 c f r))
     else Inr no_jump)"

text \<open>\<open>int.from_bytes(bs, 'little')\<close>: unsigned.\<close>

fun from_bytes_little :: "nat list \<Rightarrow> int" where
  "from_bytes_little [] = 0"
| "from_bytes_little (b # bs) = int b + 256 * from_bytes_little bs"

definition decode :: "nat list \<Rightarrow> int \<Rightarrow> int \<Rightarrow> (int \<times> bool \<times> bool) res" where
  "decode code flags rcx =
     res_bind (py_nth code 0) (\<lambda>b.
     res_bind (jumps b code flags rcx) (\<lambda>(target, will_jump, is_loop).
       if length target = 1
       then res_bind (py_nth target 0) (\<lambda>t. Inr (int t, will_jump, is_loop))
       else Inr (from_bytes_little target, will_jump, is_loop)))"

subsection \<open>Condition codes\<close>

text \<open>
  The sixteen conditions of the architecture, as its manual tabulates them by the low four bits of the opcode:
  pairs of a condition and its negation.
\<close>

definition flag_set :: "int \<Rightarrow> int \<Rightarrow> bool" where
  "flag_set f m \<longleftrightarrow> f AND m \<noteq> 0"

definition condition :: "nat \<Rightarrow> int \<Rightarrow> bool" where
  "condition cc f =
     (let base = [flag_set f FLAGS_OF, flag_set f FLAGS_CF, flag_set f FLAGS_ZF,
          flag_set f FLAGS_CF \<or> flag_set f FLAGS_ZF, flag_set f FLAGS_SF, flag_set f FLAGS_PF,
          flag_set f FLAGS_SF \<noteq> flag_set f FLAGS_OF,
          flag_set f FLAGS_ZF \<or> flag_set f FLAGS_SF \<noteq> flag_set f FLAGS_OF] ! (cc div 2)
      in if even cc then base else \<not> base)"

lemma less_16_cases:
  "cc < 16 \<Longrightarrow> cc \<in> set [0, 1, 2, 3, 4, 5, 6, 7, 8, 9, 10, 11, 12, 13, 14, 15 :: nat]"
  by simp presburger

lemma jumps_condition:
  assumes "cc < 16"
  shows "jumps (0x70 + cc) c f r = Inr (drop 1 c, condition cc f, False) \<and>
    multibyte_jmp (0x80 + cc) c f r = (drop 2 c, condition cc f, False)"
  using less_16_cases [OF assms] unfolding list.set insert_iff empty_iff
  by (elim disjE FalseE; simp add: jumps_def multibyte_jmp_def condition_def flag_set_def; blast)

text \<open>
  The jump tables implement the architecture's condition codes: for every condition the
  short and the long encoding are decoded to the same decision, the displacement is the
  rest of the instruction, and flipping the low opcode bit negates the decision.
\<close>

lemma decode_conditional_jump:
  assumes "cc < 16" and "length disp \<noteq> 1"
  shows "decode [0x70 + cc, d] f r = Inr (int d, condition cc f, False) \<and>
    decode (0x0F # (0x80 + cc) # disp) f r = Inr (from_bytes_little disp, condition cc f, False) \<and>
    (even cc \<longrightarrow> condition (cc + 1) f = (\<not> condition cc f))"
proof -
  have "condition (cc + 1) f = (\<not> condition cc f)" if "even cc"
  proof -
    have "Suc cc div 2 = cc div 2" using that by (auto elim!: evenE)
    with that show ?thesis by (simp add: condition_def Let_def)
  qed
  moreover have "jumps 0x0F (0x0F # (0x80 + cc) # disp) f r =
      Inr (multibyte_jmp (0x80 + cc) (0x0F # (0x80 + cc) # disp) f r)"
    by (simp add: jumps_def)
  ultimately show ?thesis
    using jumps_condition [OF assms(1), of "[0x70 + cc, d]" f r]
      jumps_condition [OF assms(1), of "0x0F # (0x80 + cc) # disp" f r] assms(2)
    by (simp add: decode_def)
qed

lemma decode_conditional_jump_example:
  "decode [0x74, 5] 0x40 0 = Inr (5, True, False) \<and> decode [0x0F, 0x85, 1, 2, 0, 0] 0x40 0 = Inr (513, False, False)"
  using decode_conditional_jump [of 4 "[1, 2, 0, 0]" 5 "0x40" 0]
    decode_conditional_jump [of 5 "[1, 2, 0, 0]" 5 "0x40" 0]
  by (simp add: condition_def flag_set_def flag_masks)

text \<open>
  An instruction that is not a conditional jump, \<open>LOOP\<close> or \<open>J*CXZ\<close> is decoded to the target 0, which the
  clause takes as "not a jump"; the four loop instructions depend on \<open>RCX\<close> and only the
  three \<open>LOOP\<close> forms ask for it to be decremented.
\<close>

lemma decode_other:
  assumes "b \<notin> {0x70..0x7F} \<union> {0xE0..0xE3} \<union> {0x0F}"
  shows "decode (b # bs) f r = Inr (0, False, False) \<and>
    decode [0xE0, d] f r = Inr (int d, r \<noteq> 1 \<and> \<not> flag_set f FLAGS_ZF, True) \<and>
    decode [0xE1, d] f r = Inr (int d, r \<noteq> 1 \<and> flag_set f FLAGS_ZF, True) \<and>
    decode [0xE2, d] f r = Inr (int d, r \<noteq> 1, True) \<and>
    decode [0xE3, d] f r = Inr (int d, r = 0, False)"
  using assms by (auto simp: decode_def jumps_def no_jump_def flag_set_def)

lemma decode_other_example:
  "decode [0x90] 0 0 = Inr (0, False, False) \<and> decode [0xE2, 3] 0 1 = Inr (3, False, True)"
  using decode_other [of "0x90" "[]" 0 0] decode_other [of "0x90" "[]" 0 1] by simp

text \<open>
  Displacements are read as unsigned numbers, while the architecture's are signed: for every
  backward jump the decoded displacement differs from the signed one by \<open>2\<close> to the power of
  its width, so the computed target lies outside the code.
\<close>

definition signed_displacement :: "nat list \<Rightarrow> int" where
  "signed_displacement bs =
     (let n = from_bytes_little bs; w = 2 ^ (8 * length bs)
      in if 2 * n < w then n else n - w)"

lemma decode_backward_unsigned:
  assumes "128 \<le> d" and "d < 256"
  shows "decode [0x74, d] f r = Inr (signed_displacement [d] + 256, flag_set f FLAGS_ZF, False)"
  using assms by (simp add: decode_def jumps_def signed_displacement_def flag_set_def Let_def)

lemma decode_backward_unsigned_example:
  "decode [0x74, 254] 0 0 = Inr (254, False, False) \<and> signed_displacement [254] = -2"
  using decode_backward_unsigned [of 254 0 0] by (simp add: signed_displacement_def flag_set_def)

end
