(* ===== verification/Tracers.thy ===== *)
theory Tracers
  imports Taint Dataflow Cond_Decode
begin

text \<open>
  The state of a contract model (\<open>X86UnicornModel\<close>) and the observation clauses (the classes
  derived from \<open>X86UnicornTracer\<close>) of \<^verbatim>\<open>src/src/model.py\<close>. Unicorn, capstone and xxhash are
  outside the repository: the operations that the code calls are the fields of the records
  \<open>unicorn\<close> and \<open>capstone\<close>, arguments of the definitions, and the hash is an argument of
  \<open>get_contract_trace\<close>. Unicorn registers are named by the constant after \<open>UC_X86_REG_\<close>.
  The single tracer record has the fields of all classes; the observation clause selects the
  methods.
\<close>

subsection \<open>External engines\<close>

record ('u, 'c) unicorn =
  uc_has_reg :: "string \<Rightarrow> bool"
  uc_reg_read :: "'u \<Rightarrow> string \<Rightarrow> int"
  uc_reg_write :: "'u \<Rightarrow> string \<Rightarrow> int \<Rightarrow> 'u"
  uc_mem_read :: "'u \<Rightarrow> int \<Rightarrow> nat \<Rightarrow> nat list"
  uc_mem_write :: "'u \<Rightarrow> int \<Rightarrow> nat list \<Rightarrow> 'u"
  uc_context_save :: "'u \<Rightarrow> 'c"
  uc_context_restore :: "'u \<Rightarrow> 'c \<Rightarrow> 'u"
  uc_emu_stop :: "'u \<Rightarrow> 'u"

text \<open>
  \<open>cs_set_order\<close> is the iteration order of a Python set of register numbers; \<open>cs_sub\<close> is
  \<open>subregs\<close> at capstone's register names and constants.
\<close>

record capstone =
  cs_disasm :: "nat list \<Rightarrow> int \<Rightarrow> cs_insn list"
  cs_reg_name :: "nat \<Rightarrow> string"
  cs_reg_const :: "string \<Rightarrow> nat option"
  cs_set_order :: "nat set \<Rightarrow> nat list"

datatype mem_access = UC_MEM_READ | UC_MEM_WRITE

subsection \<open>State\<close>

record traced_mem_access =
  ta_address :: int
  ta_value :: int
  ta_is_store :: bool

record traced_instruction =
  ti_address :: int
  ti_accesses :: "traced_mem_access list"

datatype observation_clause =
  L1D | PC | MEMORY | CT | CTX | CT_NONSPECSTORE | CTR | ARCH | PROT | CTS

record tracer =
  tr_clause :: observation_clause
  tr_trace :: "int list"
  tr_execution_trace :: "traced_instruction list"
  tr_instruction_id :: "nat option"
  tr_unprot_regs :: "nat list"
  tr_last_pc :: "int option"
  tr_analysis :: "((int, cs_insn) dict \<times> (int, cs_insn list) dict \<times> unprots) option"

definition new_tracer :: "observation_clause \<Rightarrow> tracer" where
  "new_tracer clause = \<lparr>tr_clause = clause, tr_trace = [], tr_execution_trace = [],
     tr_instruction_id = None, tr_unprot_regs = [], tr_last_pc = None, tr_analysis = None\<rparr>"

datatype taint_tracker = DummyTaintTracker | TaintTracker taint_state

datatype execution_clause = Seq | Cond | Bpas | Null | CondBpas

record model_conf =
  mc_execution :: execution_clause
  mc_sandbox_base :: int
  mc_code_start :: int
  mc_code_end :: int
  mc_nesting :: nat
  mc_max_spec_window :: nat
  mc_execution_tracing_enabled :: bool
  mc_tainting_enabled :: bool
  mc_initial_taints :: "string list"
  mc_address_map :: "int \<Rightarrow> instruction option"
  mc_main_region_size :: int
  mc_assist_region_size :: int

text \<open>The stacks \<open>checkpoints\<close> and \<open>store_logs\<close> and each store log have their top at the head.\<close>

record ('u, 'c) x86_model =
  m_emulator :: 'u
  m_tracer :: tracer
  m_taint :: taint_tracker
  m_current_instruction :: "instruction option"
  m_in_speculation :: bool
  m_speculation_window :: nat
  m_checkpoints :: "('c \<times> int \<times> int \<times> nat) list"
  m_store_logs :: "(int \<times> nat list) list list"
  m_previous_store :: "int \<times> nat \<times> nat list \<times> int"
  m_latest_rollback_address :: int
  m_instruction_address :: "int option"

subsection \<open>Dispatch to the taint tracker\<close>

definition lift_taint :: "(taint_state \<Rightarrow> taint_state res) \<Rightarrow> taint_tracker \<Rightarrow> taint_tracker res" where
  "lift_taint f tt = (case tt of
     DummyTaintTracker \<Rightarrow> Inr DummyTaintTracker
   | TaintTracker t \<Rightarrow> res_bind (f t) (\<lambda>t'. Inr (TaintTracker t')))"

definition with_taint :: "(taint_state \<Rightarrow> taint_state res) \<Rightarrow> ('u, 'c) x86_model \<Rightarrow> ('u, 'c) x86_model res" where
  "with_taint f m = res_bind (lift_taint f (m_taint m)) (\<lambda>tt. Inr (m\<lparr>m_taint := tt\<rparr>))"

definition upd_tracer :: "(tracer \<Rightarrow> tracer) \<Rightarrow> ('u, 'c) x86_model \<Rightarrow> ('u, 'c) x86_model" where
  "upd_tracer f m = m\<lparr>m_tracer := f (m_tracer m)\<rparr>"

definition trace_append :: "int \<Rightarrow> ('u, 'c) x86_model \<Rightarrow> ('u, 'c) x86_model" where
  "trace_append x = upd_tracer (\<lambda>tr. tr\<lparr>tr_trace := tr_trace tr @ [x]\<rparr>)"

subsection \<open>The base class \<open>X86UnicornTracer\<close>\<close>

definition add_mem_address_to_trace_base :: "int \<Rightarrow> ('u, 'c) x86_model \<Rightarrow> ('u, 'c) x86_model res" where
  "add_mem_address_to_trace_base address m =
     with_taint (\<lambda>t. Inr (taint_memory_access_address t)) (trace_append address m)"

definition add_pc_to_trace :: "int \<Rightarrow> ('u, 'c) x86_model \<Rightarrow> ('u, 'c) x86_model res" where
  "add_pc_to_trace address m = with_taint (\<lambda>t. Inr (taint_pc t)) (trace_append address m)"

definition base_observe_mem_access :: "('u, 'c) unicorn \<Rightarrow> model_conf \<Rightarrow>
    mem_access \<Rightarrow> int \<Rightarrow> nat \<Rightarrow> int \<Rightarrow> ('u, 'c) x86_model \<Rightarrow> ('u, 'c) x86_model res" where
  "base_observe_mem_access uc cf access address sz value m =
     (let normalized_address = address - mc_sandbox_base cf;
          is_store = (access \<noteq> UC_MEM_READ);
          val = (if is_store then value else from_bytes_little (uc_mem_read uc (m_emulator m) address sz))
      in if m_in_speculation m then Inr m
         else if mc_execution_tracing_enabled cf then
           (case tr_instruction_id (m_tracer m) of
              None \<Rightarrow> Inl AttributeError
            | Some k \<Rightarrow>
                if k < length (tr_execution_trace (m_tracer m)) then
                  Inr (upd_tracer (\<lambda>tr. tr\<lparr>tr_execution_trace := (tr_execution_trace tr)[k :=
                      (tr_execution_trace tr ! k)\<lparr>ti_accesses := ti_accesses (tr_execution_trace tr ! k) @
                        [\<lparr>ta_address = normalized_address, ta_value = val, ta_is_store = is_store\<rparr>]\<rparr>]\<rparr>) m)
                else Inl IndexError)
         else Inr m)"

definition base_observe_instruction :: "model_conf \<Rightarrow> int \<Rightarrow> ('u, 'c) x86_model \<Rightarrow> ('u, 'c) x86_model res" where
  "base_observe_instruction cf address m =
     (let normalized_address = address - mc_code_start cf
      in if mc_address_map cf normalized_address = None then Inl KeyError
         else if m_in_speculation m then Inr m
         else if mc_execution_tracing_enabled cf then
           Inr (upd_tracer (\<lambda>tr. tr\<lparr>tr_execution_trace := tr_execution_trace tr @
                 [\<lparr>ti_address = normalized_address, ti_accesses = []\<rparr>],
               tr_instruction_id := Some (length (tr_execution_trace tr))\<rparr>) m)
         else Inr m)"

definition disasm_instruction :: "('u, 'c) unicorn \<Rightarrow> capstone \<Rightarrow> ('u, 'c) x86_model \<Rightarrow> cs_insn res" where
  "disasm_instruction uc cs m =
     (let address = uc_reg_read uc (m_emulator m) ''RIP'';
          code = uc_mem_read uc (m_emulator m) address 16
      in case cs_disasm cs code address of [] \<Rightarrow> Inl StopIteration | insn # _ \<Rightarrow> Inr insn)"

definition cs_to_uc_regname :: "string \<Rightarrow> string" where
  "cs_to_uc_regname cs_reg = (if cs_reg = ''rflags'' then ''eflags'' else cs_reg)"

definition read_cs_reg :: "('u, 'c) unicorn \<Rightarrow> capstone \<Rightarrow> nat \<Rightarrow> ('u, 'c) x86_model \<Rightarrow> int res" where
  "read_cs_reg uc cs cs_reg m =
     (let reg = cs_reg_name cs cs_reg
      in if reg \<in> {''cs'', ''ds'', ''ss'', ''fs'', ''gs'', ''es''} then Inr 0
         else let uc_reg = upper (cs_to_uc_regname reg)
              in if uc_has_reg uc uc_reg then Inr (uc_reg_read uc (m_emulator m) uc_reg)
                 else Inl AttributeError)"

definition expose_reg :: "('u, 'c) unicorn \<Rightarrow> capstone \<Rightarrow> nat \<Rightarrow> ('u, 'c) x86_model \<Rightarrow> ('u, 'c) x86_model res" where
  "expose_reg uc cs cs_reg m =
     res_bind (read_cs_reg uc cs cs_reg m) (\<lambda>x.
       with_taint (taint_reg (upper (cs_reg_name cs cs_reg))) (trace_append x m))"

definition expose_mem :: "('u, 'c) unicorn \<Rightarrow> int \<Rightarrow> nat \<Rightarrow> ('u, 'c) x86_model \<Rightarrow> ('u, 'c) x86_model res" where
  "expose_mem uc address sz m =
     with_taint (\<lambda>t. Inr (taint_memory_load t))
       (trace_append (from_bytes_little (uc_mem_read uc (m_emulator m) address sz)) m)"

text \<open>The base and index registers of the memory operands; the \<open>CTX\<close> and \<open>PROT\<close> clauses expose them.\<close>

definition address_registers :: "cs_insn \<Rightarrow> nat list" where
  "address_registers insn =
     concat (map (\<lambda>op. if co_type op = CS_OP_MEM \<and> accesses_memory op
         then filter (\<lambda>reg. reg \<noteq> 0) [co_base op, co_index op] else []) (ci_operands insn))"

subsection \<open>Observation clauses\<close>

definition l1d_add_mem_address :: "int \<Rightarrow> ('u, 'c) x86_model \<Rightarrow> ('u, 'c) x86_model res" where
  "l1d_add_mem_address address m =
     (let page_offset = nat (drop_bit 6 (address AND 0xFC0));
          cache_set_index = drop_bit page_offset (0x8000000000000000 :: int);
          k = (if m_in_speculation m then 1 else 0)
      in if k < length (tr_trace (m_tracer m)) then
           with_taint (\<lambda>t. Inr (taint_memory_access_address t))
             (upd_tracer (\<lambda>tr. tr\<lparr>tr_trace := (tr_trace tr)[k := tr_trace tr ! k OR cache_set_index]\<rparr>) m)
         else Inl IndexError)"

definition add_mem_address_to_trace :: "int \<Rightarrow> ('u, 'c) x86_model \<Rightarrow> ('u, 'c) x86_model res" where
  "add_mem_address_to_trace address m =
     (if tr_clause (m_tracer m) = L1D then l1d_add_mem_address address m
      else add_mem_address_to_trace_base address m)"

definition reset_trace :: "('u, 'c) unicorn \<Rightarrow> 'u \<Rightarrow> tracer \<Rightarrow> tracer" where
  "reset_trace uc emulator tr =
     (case tr_clause tr of
        L1D \<Rightarrow> tr\<lparr>tr_trace := [0, 0], tr_execution_trace := []\<rparr>
      | CTR \<Rightarrow> tr\<lparr>tr_trace := map (uc_reg_read uc emulator)
            [''RAX'', ''RBX'', ''RCX'', ''RDX'', ''RSI'', ''RDI'', ''EFLAGS''], tr_execution_trace := []\<rparr>
      | ARCH \<Rightarrow> tr\<lparr>tr_trace := map (uc_reg_read uc emulator)
            [''RAX'', ''RBX'', ''RCX'', ''RDX'', ''RSI'', ''RDI'', ''EFLAGS''], tr_execution_trace := []\<rparr>
      | PROT \<Rightarrow> tr\<lparr>tr_trace := map (uc_reg_read uc emulator)
            [''RAX'', ''RBX'', ''RCX'', ''RDX'', ''RSI'', ''RDI'', ''EFLAGS''], tr_execution_trace := []\<rparr>
      | CTX \<Rightarrow> tr\<lparr>tr_trace := map (uc_reg_read uc emulator) [''RBP'', ''RSP''], tr_execution_trace := []\<rparr>
      | CTS \<Rightarrow> tr\<lparr>tr_trace := map (uc_reg_read uc emulator) [''RBP'', ''RSP''], tr_execution_trace := [],
            tr_analysis := None\<rparr>
      | _ \<Rightarrow> tr\<lparr>tr_trace := [], tr_execution_trace := []\<rparr>)"

definition check_protected_pc :: "('u, 'c) unicorn \<Rightarrow> int \<Rightarrow> ('u, 'c) x86_model \<Rightarrow> bool res" where
  "check_protected_pc uc pc m =
     res_bind (py_nth (uc_mem_read uc (m_emulator m) pc 1) 0) (\<lambda>b. Inr (b = 0x36))"

definition pc_observe_instruction :: "model_conf \<Rightarrow> int \<Rightarrow> ('u, 'c) x86_model \<Rightarrow> ('u, 'c) x86_model res" where
  "pc_observe_instruction cf address m =
     res_bind (add_pc_to_trace address m) (base_observe_instruction cf address)"

definition ct_observe_mem_access :: "('u, 'c) unicorn \<Rightarrow> model_conf \<Rightarrow>
    mem_access \<Rightarrow> int \<Rightarrow> nat \<Rightarrow> int \<Rightarrow> ('u, 'c) x86_model \<Rightarrow> ('u, 'c) x86_model res" where
  "ct_observe_mem_access uc cf access address sz value m =
     res_bind (add_mem_address_to_trace address m) (base_observe_mem_access uc cf access address sz value)"

text \<open>
  \<open>CTXTracer.observe_instruction\<close>; the \<open>DIV\<close> branch is guarded by the constant \<open>expose_div = False\<close>.
\<close>

definition ctx_observe_instruction :: "('u, 'c) unicorn \<Rightarrow> capstone \<Rightarrow> model_conf \<Rightarrow> int \<Rightarrow>
    ('u, 'c) x86_model \<Rightarrow> ('u, 'c) x86_model res" where
  "ctx_observe_instruction uc cs cf address m =
     res_bind (pc_observe_instruction cf address m) (\<lambda>m.
     res_bind (disasm_instruction uc cs m) (\<lambda>insn.
     res_fold (expose_reg uc cs) (address_registers insn) m))"

definition ctx_observe_mem_access :: "('u, 'c) unicorn \<Rightarrow> capstone \<Rightarrow> model_conf \<Rightarrow>
    mem_access \<Rightarrow> int \<Rightarrow> nat \<Rightarrow> int \<Rightarrow> ('u, 'c) x86_model \<Rightarrow> ('u, 'c) x86_model res" where
  "ctx_observe_mem_access uc cs cf access address sz value m =
     res_bind (ct_observe_mem_access uc cf access address sz value m) (\<lambda>m.
     res_bind (disasm_instruction uc cs m) (\<lambda>_. Inr m))"

definition prot_observe_mem_access :: "('u, 'c) unicorn \<Rightarrow> model_conf \<Rightarrow>
    mem_access \<Rightarrow> int \<Rightarrow> nat \<Rightarrow> int \<Rightarrow> ('u, 'c) x86_model \<Rightarrow> ('u, 'c) x86_model res" where
  "prot_observe_mem_access uc cf access address sz value m =
     res_bind (ct_observe_mem_access uc cf access address sz value m) (\<lambda>m.
     if access \<noteq> UC_MEM_READ then Inr m
     else let pc = uc_reg_read uc (m_emulator m) ''RIP''
          in case tr_last_pc (m_tracer m) of
               None \<Rightarrow> Inl AttributeError
             | Some last_pc \<Rightarrow>
                 res_bind (py_assert (pc = last_pc)) (\<lambda>_.
                 res_bind (check_protected_pc uc pc m) (\<lambda>protected.
                 if protected then Inr m else expose_mem uc address sz m)))"

definition prot_observe_instruction :: "('u, 'c) unicorn \<Rightarrow> capstone \<Rightarrow> model_conf \<Rightarrow> int \<Rightarrow>
    ('u, 'c) x86_model \<Rightarrow> ('u, 'c) x86_model res" where
  "prot_observe_instruction uc cs cf address m =
     res_bind (pc_observe_instruction cf address m) (\<lambda>m.
     res_bind (disasm_instruction uc cs m) (\<lambda>insn.
     let m = upd_tracer (\<lambda>tr. tr\<lparr>tr_last_pc := Some address\<rparr>) m in
     res_bind (res_fold (expose_reg uc cs) (tr_unprot_regs (m_tracer m)) m) (\<lambda>m.
     let m = upd_tracer (\<lambda>tr. tr\<lparr>tr_unprot_regs := []\<rparr>) m in
     res_bind (res_fold (expose_reg uc cs) (address_registers insn) m) (\<lambda>m.
     res_bind (check_protected_pc uc address m) (\<lambda>protected.
     if \<not> protected then Inr m
     else Inr (upd_tracer (\<lambda>tr. tr\<lparr>tr_unprot_regs := ci_regs_write insn\<rparr>) m))))))"

definition cts_sub :: "capstone \<Rightarrow> nat \<Rightarrow> nat list res" where
  "cts_sub cs = subregs (cs_reg_name cs) (cs_reg_const cs)"

definition cts_analysis :: "('u, 'c) unicorn \<Rightarrow> capstone \<Rightarrow> int \<Rightarrow> ('u, 'c) x86_model \<Rightarrow>
    ((int, cs_insn) dict \<times> (int, cs_insn list) dict \<times> unprots) res" where
  "cts_analysis uc cs address m =
     (let address_base = address - address mod 0x1000;
          code_bytes = uc_mem_read uc (m_emulator m) address_base 0x1000
      in analyze_binary (expand_set (cts_sub cs)) (cs_disasm cs code_bytes address_base))"

definition cts_observe_instruction :: "('u, 'c) unicorn \<Rightarrow> capstone \<Rightarrow> model_conf \<Rightarrow> int \<Rightarrow>
    ('u, 'c) x86_model \<Rightarrow> ('u, 'c) x86_model res" where
  "cts_observe_instruction uc cs cf address m =
     res_bind (case tr_analysis (m_tracer m) of
         Some a \<Rightarrow> Inr (a, m)
       | None \<Rightarrow> res_bind (cts_analysis uc cs address m) (\<lambda>a.
           Inr (a, upd_tracer (\<lambda>tr. tr\<lparr>tr_analysis := Some a\<rparr>) m))) (\<lambda>((insns, succs, u), m).
     res_bind (ctx_observe_instruction uc cs cf address m) (\<lambda>m.
     case lookup_insn insns address of
       None \<Rightarrow> Inr m
     | Some insn \<Rightarrow> res_fold (expose_reg uc cs) (cs_set_order cs (get_set (un_pre u) (ci_address insn))) m))"

text \<open>Dynamic dispatch of the two observation methods.\<close>

definition observe_mem_access :: "('u, 'c) unicorn \<Rightarrow> capstone \<Rightarrow> model_conf \<Rightarrow>
    mem_access \<Rightarrow> int \<Rightarrow> nat \<Rightarrow> int \<Rightarrow> ('u, 'c) x86_model \<Rightarrow> ('u, 'c) x86_model res" where
  "observe_mem_access uc cs cf access address sz value m =
     (case tr_clause (m_tracer m) of
        PC \<Rightarrow> base_observe_mem_access uc cf access address sz value m
      | CT_NONSPECSTORE \<Rightarrow>
          res_bind (if \<not> m_in_speculation m \<or> access = UC_MEM_READ
                    then add_mem_address_to_trace address m else Inr m)
            (base_observe_mem_access uc cf access address sz value)
      | CTX \<Rightarrow> ctx_observe_mem_access uc cs cf access address sz value m
      | CTS \<Rightarrow> ctx_observe_mem_access uc cs cf access address sz value m
      | PROT \<Rightarrow> prot_observe_mem_access uc cf access address sz value m
      | ARCH \<Rightarrow>
          res_bind (if access = UC_MEM_READ then expose_mem uc address sz m else Inr m) (\<lambda>m.
          res_bind (add_mem_address_to_trace address m)
            (ct_observe_mem_access uc cf access address sz value))
      | _ \<Rightarrow> ct_observe_mem_access uc cf access address sz value m)"

definition observe_instruction :: "('u, 'c) unicorn \<Rightarrow> capstone \<Rightarrow> model_conf \<Rightarrow> int \<Rightarrow>
    ('u, 'c) x86_model \<Rightarrow> ('u, 'c) x86_model res" where
  "observe_instruction uc cs cf address m =
     (case tr_clause (m_tracer m) of
        L1D \<Rightarrow> base_observe_instruction cf address m
      | MEMORY \<Rightarrow> base_observe_instruction cf address m
      | CTX \<Rightarrow> ctx_observe_instruction uc cs cf address m
      | PROT \<Rightarrow> prot_observe_instruction uc cs cf address m
      | CTS \<Rightarrow> cts_observe_instruction uc cs cf address m
      | _ \<Rightarrow> pc_observe_instruction cf address m)"

text \<open>
  The contract trace: the hash \<open>xxh32\<close> of the concatenated hexadecimal strings, or the two
  bitmaps of the \<open>L1D\<close> clause packed into one number.
\<close>

definition trace_encoding :: "int list \<Rightarrow> string" where
  "trace_encoding tr = concat (map (\<lambda>x. if x < 0 then ''-'' @ hex (nat (- x)) else hex (nat x)) tr)"

definition get_contract_trace :: "(string \<Rightarrow> int) \<Rightarrow> tracer \<Rightarrow> int res" where
  "get_contract_trace xxh32 tr =
     (if tr_clause tr = L1D then
        res_bind (py_nth (tr_trace tr) 1) (\<lambda>spec.
        res_bind (py_nth (tr_trace tr) 0) (\<lambda>arch. Inr (push_bit 64 spec + arch)))
      else Inr (xxh32 (trace_encoding (tr_trace tr))))"

subsection \<open>Facts\<close>

datatype hook_event = HInstr int | HMem mem_access int nat int

fun observe :: "('u, 'c) unicorn \<Rightarrow> capstone \<Rightarrow> model_conf \<Rightarrow> hook_event \<Rightarrow>
    ('u, 'c) x86_model \<Rightarrow> ('u, 'c) x86_model res" where
  "observe uc cs cf (HInstr address) m = observe_instruction uc cs cf address m"
| "observe uc cs cf (HMem access address sz value) m = observe_mem_access uc cs cf access address sz value m"

lemma with_taint_trace:
  assumes "with_taint f m = Inr m'"
  shows "m_tracer m' = m_tracer m" "m_emulator m' = m_emulator m" "m_in_speculation m' = m_in_speculation m"
    "m_checkpoints m' = m_checkpoints m" "m_store_logs m' = m_store_logs m"
    "m_previous_store m' = m_previous_store m"
  using assms by (auto simp: with_taint_def res_bind_Inr_iff)

lemma trace_append_simps [simp]:
  "m_tracer (trace_append x m) = (m_tracer m)\<lparr>tr_trace := tr_trace (m_tracer m) @ [x]\<rparr>"
  "m_emulator (trace_append x m) = m_emulator m"
  "m_in_speculation (trace_append x m) = m_in_speculation m"
  "m_checkpoints (trace_append x m) = m_checkpoints m"
  "m_store_logs (trace_append x m) = m_store_logs m"
  "m_taint (trace_append x m) = m_taint m"
  by (simp_all add: trace_append_def upd_tracer_def)

lemma upd_tracer_simps [simp]:
  "m_tracer (upd_tracer f m) = f (m_tracer m)"
  "m_emulator (upd_tracer f m) = m_emulator m"
  "m_in_speculation (upd_tracer f m) = m_in_speculation m"
  "m_checkpoints (upd_tracer f m) = m_checkpoints m"
  "m_store_logs (upd_tracer f m) = m_store_logs m"
  "m_taint (upd_tracer f m) = m_taint m"
  by (simp_all add: upd_tracer_def)

lemma base_observe_trace:
  "base_observe_instruction cf address m = Inr m' \<Longrightarrow>
     tr_trace (m_tracer m') = tr_trace (m_tracer m) \<and> tr_clause (m_tracer m') = tr_clause (m_tracer m)"
  "base_observe_mem_access uc cf access address sz value m = Inr m' \<Longrightarrow>
     tr_trace (m_tracer m') = tr_trace (m_tracer m) \<and> tr_clause (m_tracer m') = tr_clause (m_tracer m)"
  by (auto simp: base_observe_instruction_def base_observe_mem_access_def Let_def
      split: if_splits option.splits)

lemma add_to_trace:
  "add_pc_to_trace address m = Inr m' \<Longrightarrow>
     m_tracer m' = (m_tracer m)\<lparr>tr_trace := tr_trace (m_tracer m) @ [address]\<rparr>"
  "add_mem_address_to_trace_base address m = Inr m' \<Longrightarrow>
     m_tracer m' = (m_tracer m)\<lparr>tr_trace := tr_trace (m_tracer m) @ [address]\<rparr>"
  by (auto simp: add_pc_to_trace_def add_mem_address_to_trace_base_def dest!: with_taint_trace(1))

text \<open>What exposing a value leaves alone: everything but the trace, the execution trace and the taint.\<close>

definition taint_depth :: "taint_tracker \<Rightarrow> nat option" where
  "taint_depth tt = (case tt of DummyTaintTracker \<Rightarrow> None | TaintTracker t \<Rightarrow> Some (length (ts_checkpoints t)))"

definition depth_ok :: "(taint_state \<Rightarrow> taint_state res) \<Rightarrow> bool" where
  "depth_ok f \<longleftrightarrow> (\<forall>t t'. f t = Inr t' \<longrightarrow> length (ts_checkpoints t') = length (ts_checkpoints t))"

lemma depth_ok_calls:
  "depth_ok (\<lambda>t. Inr (taint_memory_access_address t))" "depth_ok (\<lambda>t. Inr (taint_pc t))"
  "depth_ok (\<lambda>t. Inr (taint_memory_load t))" "depth_ok (taint_reg r)"
  "depth_ok (\<lambda>t. Inr (track_memory_access a sz w t))"
  by (auto simp: depth_ok_def taint_memory_access_address_def taint_pc_def taint_memory_load_def taint_reg_def
      track_memory_access_def split: option.splits if_splits)

lemma depth_ok_start: "depth_ok (start_instruction i)"
  unfolding depth_ok_def
proof (intro allI impI)
  fix t t' assume t': "start_instruction i t = Inr t'"
  show "length (ts_checkpoints t') = length (ts_checkpoints t)"
    using t' unfolding start_instruction_def Let_def
    by (rule res_fold_invariant)
      (auto simp: finalize_pending_def start_operand_def res_bind_Inr_iff split: operand.splits)
qed

definition keeps :: "('u, 'c) x86_model \<Rightarrow> ('u, 'c) x86_model \<Rightarrow> bool" where
  "keeps m m' \<longleftrightarrow> m_emulator m' = m_emulator m \<and> m_current_instruction m' = m_current_instruction m \<and>
     m_in_speculation m' = m_in_speculation m \<and> m_speculation_window m' = m_speculation_window m \<and>
     m_checkpoints m' = m_checkpoints m \<and> m_store_logs m' = m_store_logs m \<and>
     m_previous_store m' = m_previous_store m \<and>
     m_latest_rollback_address m' = m_latest_rollback_address m \<and>
     m_instruction_address m' = m_instruction_address m \<and>
     taint_depth (m_taint m') = taint_depth (m_taint m) \<and>
     tr_clause (m_tracer m') = tr_clause (m_tracer m) \<and> tr_last_pc (m_tracer m') = tr_last_pc (m_tracer m) \<and>
     tr_unprot_regs (m_tracer m') = tr_unprot_regs (m_tracer m)"

lemma keeps_refl: "keeps m m"
  by (simp add: keeps_def)

lemma keeps_trans: "keeps m m1 \<Longrightarrow> keeps m1 m2 \<Longrightarrow> keeps m m2"
  by (simp add: keeps_def)

lemma with_taint_keeps_ok: "depth_ok f \<Longrightarrow> with_taint f m = Inr m' \<Longrightarrow> keeps m m'"
  by (auto simp: with_taint_def lift_taint_def keeps_def depth_ok_def taint_depth_def res_bind_Inr_iff
      split: taint_tracker.splits)

lemmas with_taint_keeps = depth_ok_calls [THEN with_taint_keeps_ok]

lemma trace_append_keeps: "keeps m (trace_append x m)"
  by (simp add: keeps_def trace_append_def upd_tracer_def)

lemma add_pc_keeps: "add_pc_to_trace address m = Inr m' \<Longrightarrow> keeps m m'"
  unfolding add_pc_to_trace_def using keeps_trans trace_append_keeps with_taint_keeps by blast

lemma upd_trace_keeps: "keeps m (upd_tracer (\<lambda>tr. tr\<lparr>tr_trace := f tr\<rparr>) m)"
  by (simp add: keeps_def upd_tracer_def)

lemma add_mem_address_keeps: "add_mem_address_to_trace address m = Inr m' \<Longrightarrow> keeps m m'"
  unfolding add_mem_address_to_trace_def l1d_add_mem_address_def add_mem_address_to_trace_base_def Let_def
  by (simp only: split: if_splits)
    (auto intro: keeps_trans [OF upd_trace_keeps with_taint_keeps(1)] keeps_trans [OF trace_append_keeps with_taint_keeps(1)])

lemma base_observe_keeps:
  "base_observe_instruction cf address m = Inr m' \<Longrightarrow> keeps m m'"
  "base_observe_mem_access uc cf access address sz value m = Inr m' \<Longrightarrow> keeps m m'"
  by (auto simp: base_observe_instruction_def base_observe_mem_access_def Let_def keeps_def upd_tracer_def
      split: if_splits option.splits)

lemma pc_observe_keeps: "pc_observe_instruction cf address m = Inr m' \<Longrightarrow> keeps m m'"
  unfolding pc_observe_instruction_def res_bind_Inr_iff
  using keeps_trans add_pc_keeps base_observe_keeps(1) by blast

lemma ct_observe_keeps: "ct_observe_mem_access uc cf access address sz value m = Inr m' \<Longrightarrow> keeps m m'"
  unfolding ct_observe_mem_access_def res_bind_Inr_iff
  using keeps_trans add_mem_address_keeps base_observe_keeps(2) by blast

lemma expose_reg_keeps: "expose_reg uc cs r m = Inr m' \<Longrightarrow> keeps m m'"
  unfolding expose_reg_def res_bind_Inr_iff
  using keeps_trans trace_append_keeps with_taint_keeps by blast

lemma expose_mem_keeps: "expose_mem uc address sz m = Inr m' \<Longrightarrow> keeps m m'"
  unfolding expose_mem_def using keeps_trans trace_append_keeps with_taint_keeps by blast

lemma expose_regs_keeps: "res_fold (expose_reg uc cs) rs m = Inr m' \<Longrightarrow> keeps m m'"
  by (rule res_fold_invariant [where P = "keeps m"])
    (auto intro: keeps_refl keeps_trans expose_reg_keeps)

text \<open>What the three simplest clauses expose of one event.\<close>

fun exposed :: "observation_clause \<Rightarrow> hook_event \<Rightarrow> int list" where
  "exposed clause (HInstr address) = (if clause \<in> {PC, CT} then [address] else [])"
| "exposed clause (HMem access address sz value) = (if clause \<in> {MEMORY, CT} then [address] else [])"

lemma observe_trace:
  assumes "observe uc cs cf e m = Inr m'" and "tr_clause (m_tracer m) \<in> {PC, MEMORY, CT}"
  shows "tr_trace (m_tracer m') = tr_trace (m_tracer m) @ exposed (tr_clause (m_tracer m)) e \<and>
    tr_clause (m_tracer m') = tr_clause (m_tracer m)"
  using assms
  by (cases e)
    (auto simp: observe_instruction_def observe_mem_access_def pc_observe_instruction_def
      ct_observe_mem_access_def add_mem_address_to_trace_def res_bind_Inr_iff
      dest!: base_observe_trace add_to_trace)

subsection \<open>Properties\<close>

text \<open>
  C19. The contract trace of the clauses \<open>pc\<close>, \<open>memory\<close> and \<open>ct\<close> is exactly the sequence of program
  counters and accessed addresses, in the order of the hooks: it does not depend on loaded or
  stored values, on the taint tracker, on speculation, or on execution tracing.
\<close>

theorem ct_trace_exact:
  assumes "res_fold (observe uc cs cf) events m = Inr m'" and "tr_clause (m_tracer m) \<in> {PC, MEMORY, CT}"
  shows "tr_trace (m_tracer m') =
    tr_trace (m_tracer m) @ concat (map (exposed (tr_clause (m_tracer m))) events)"
  using assms
proof (induction events arbitrary: m)
  case (Cons e es)
  from Cons.prems(1) obtain m1 where m1: "observe uc cs cf e m = Inr m1"
    "res_fold (observe uc cs cf) es m1 = Inr m'" by (auto simp: res_bind_Inr_iff)
  from observe_trace [OF m1(1) Cons.prems(2)] Cons.IH [OF m1(2)] Cons.prems(2) show ?case by simp
qed simp

definition ex_uc :: "(unit, unit) unicorn" where
  "ex_uc = \<lparr>uc_has_reg = \<lambda>_. True, uc_reg_read = \<lambda>_ _. 0, uc_reg_write = \<lambda>u _ _. u,
     uc_mem_read = \<lambda>_ _ n. replicate n 0, uc_mem_write = \<lambda>u _ _. u, uc_context_save = \<lambda>u. u,
     uc_context_restore = \<lambda>u _. u, uc_emu_stop = \<lambda>u. u\<rparr>"

definition ex_cs :: capstone where
  "ex_cs = \<lparr>cs_disasm = \<lambda>_ _. [], cs_reg_name = \<lambda>_. [], cs_reg_const = \<lambda>_. None, cs_set_order = \<lambda>_. []\<rparr>"

definition ex_conf :: model_conf where
  "ex_conf = \<lparr>mc_execution = Seq, mc_sandbox_base = 0x1000, mc_code_start = 0x100, mc_code_end = 0x200,
     mc_nesting = 1, mc_max_spec_window = 250, mc_execution_tracing_enabled = True,
     mc_tainting_enabled = False, mc_initial_taints = [],
     mc_address_map = \<lambda>_. Some (new_instruction ''NOP'' False [] False), mc_main_region_size = 4096,
     mc_assist_region_size = 4096\<rparr>"

definition ex_model :: "observation_clause \<Rightarrow> (unit, unit) x86_model" where
  "ex_model clause = \<lparr>m_emulator = (), m_tracer = new_tracer clause, m_taint = DummyTaintTracker,
     m_current_instruction = None, m_in_speculation = False, m_speculation_window = 0,
     m_checkpoints = [], m_store_logs = [], m_previous_store = (0, 0, [], 0),
     m_latest_rollback_address = 0, m_instruction_address = None\<rparr>"

lemmas observe_defs = observe_instruction_def observe_mem_access_def pc_observe_instruction_def
  ct_observe_mem_access_def add_mem_address_to_trace_def add_mem_address_to_trace_base_def
  add_pc_to_trace_def base_observe_instruction_def base_observe_mem_access_def with_taint_def lift_taint_def

theorem ct_trace_exact_witness:
  "\<exists>m'. res_fold (observe ex_uc ex_cs ex_conf) [HInstr 0x100, HMem UC_MEM_READ 0x1008 8 0] (ex_model CT) = Inr m' \<and>
     tr_trace (m_tracer m') = [0x100, 0x1008]"
proof -
  have "\<exists>m'. res_fold (observe ex_uc ex_cs ex_conf) [HInstr 0x100, HMem UC_MEM_READ 0x1008 8 0] (ex_model CT) = Inr m'"
    by (simp add: observe_defs ex_uc_def ex_conf_def ex_model_def new_tracer_def trace_append_def upd_tracer_def)
  then obtain m' where m': "res_fold (observe ex_uc ex_cs ex_conf)
      [HInstr 0x100, HMem UC_MEM_READ 0x1008 8 0] (ex_model CT) = Inr m'" by blast
  have "tr_clause (m_tracer (ex_model CT)) = CT" "tr_trace (m_tracer (ex_model CT)) = []"
    by (simp_all add: ex_model_def new_tracer_def)
  with ct_trace_exact [OF m'] m' show ?thesis by simp
qed

text \<open>
  C20. The encoding that is hashed is injective: two traces of non-negative values with the same
  concatenation of hexadecimal strings are equal, so different traces get the same
  contract trace only through a collision of \<open>xxh32\<close> itself.
\<close>

lemma hex_digit_not_x: "d < 16 \<Longrightarrow> hex_digit d \<noteq> CHR ''x''"
  using hex_digit_value [of d] by (auto simp: digit_value_def)

lemma hex_digits_no_x: "CHR ''x'' \<notin> set (hex_digits n)"
proof (induction n rule: hex_digits.induct)
  case (1 n)
  then show ?case
    by (cases "n < 16"; subst hex_digits.simps) (auto simp: hex_digit_not_x [symmetric])
qed

definition token_start :: "string \<Rightarrow> bool" where
  "token_start s \<longleftrightarrow> s = [] \<or> starts_with s ''0x''"

lemma starts_with_append: "starts_with s p \<Longrightarrow> \<exists>t. s = p @ t"
  by (induction s p rule: starts_with.induct) auto

lemma hex_token_unique:
  assumes "hex a @ e = hex b @ f" and "token_start e" and "token_start f"
  shows "a = b \<and> e = f"
proof -
  have no: "CHR ''x'' \<notin> set (hex_digits n)" for n by (rule hex_digits_no_x)
  have eq: "hex_digits a @ e = hex_digits b @ f" using assms(1) by (simp add: hex_def)
  have tw: "takeWhile (\<lambda>c. c \<noteq> CHR ''x'') (hex_digits n @ ''0x'' @ t) = hex_digits n @ ''0''" for n t
    using no [of n] by (subst takeWhile_append2) auto
  have "hex_digits a = hex_digits b"
  proof (cases "e = [] \<or> f = []")
    case True
    then have "e = [] \<and> f = []"
      using eq no [of a] no [of b] assms(2,3) unfolding token_start_def
      by (metis append_self_conv in_set_conv_decomp starts_with_append list.set_intros(1)
          append_Cons append_Nil set_append Un_iff)
    with eq show ?thesis by simp
  next
    case False
    then obtain t u where "e = ''0x'' @ t" "f = ''0x'' @ u"
      using assms(2,3) unfolding token_start_def by (metis starts_with_append)
    with eq tw [of a t] tw [of b u] show ?thesis by simp
  qed
  with eq hex_inj [of a b] show ?thesis by (simp add: hex_def)
qed

lemma trace_encoding_start: "\<forall>x \<in> set tr. 0 \<le> x \<Longrightarrow> token_start (trace_encoding tr)"
  by (cases tr) (auto simp: trace_encoding_def token_start_def hex_def)

theorem trace_encoding_injective:
  assumes "\<forall>x \<in> set tr1. 0 \<le> x" and "\<forall>x \<in> set tr2. 0 \<le> x"
  shows "trace_encoding tr1 = trace_encoding tr2 \<longleftrightarrow> tr1 = tr2"
proof
  show "trace_encoding tr1 = trace_encoding tr2 \<Longrightarrow> tr1 = tr2"
    using assms
  proof (induction tr1 arbitrary: tr2)
    case Nil
    then show ?case by (cases tr2) (auto simp: trace_encoding_def hex_def)
  next
    case (Cons x xs)
    then obtain y ys where tr2: "tr2 = y # ys" by (cases tr2) (auto simp: trace_encoding_def hex_def)
    have "hex (nat x) @ trace_encoding xs = hex (nat y) @ trace_encoding ys"
      using Cons.prems tr2 by (simp add: trace_encoding_def)
    then have "nat x = nat y \<and> trace_encoding xs = trace_encoding ys"
      using Cons.prems tr2 by (intro hex_token_unique) (auto intro: trace_encoding_start)
    with Cons tr2 show ?case by auto
  qed
qed simp

theorem trace_encoding_injective_witness:
  "trace_encoding [1, 2] \<noteq> trace_encoding [18]"
  using trace_encoding_injective [of "[1, 2]" "[18]"] by simp

text \<open>
  C18. The \<open>l1d\<close> contract trace is a pair of cache-set bitmaps: after any sequence of architectural
  and speculative accesses, bit \<open>63 - s\<close> of the low half is set exactly when some
  architectural access falls into cache set \<open>s\<close> (bits 6 to 11 of the address), and
  bit \<open>127 - s\<close> exactly when some speculative access does.
\<close>

definition cache_set :: "int \<Rightarrow> nat" where
  "cache_set address = nat ((address div 64) mod 64)"

lemma cache_set_less: "cache_set a < 64"
  by (simp add: cache_set_def nat_less_iff)

lemma page_offset_cache_set: "nat (drop_bit 6 (address AND 0xFC0)) = cache_set address"
proof -
  have "drop_bit 6 (address AND 0xFC0) = drop_bit 6 address AND 63"
    by (simp add: drop_bit_and)
  also have "\<dots> = take_bit 6 (drop_bit 6 address)"
    by (simp add: take_bit_eq_mask mask_eq_exp_minus_1)
  finally show ?thesis by (simp add: cache_set_def drop_bit_eq_div take_bit_eq_mod)
qed

lemma bit_cache_line: "s < 64 \<Longrightarrow> bit (drop_bit s (0x8000000000000000 :: int)) k \<longleftrightarrow> k = 63 - s"
proof -
  assume s: "s < 64"
  have e: "(0x8000000000000000 :: int) = 2 ^ 63" by simp
  show "bit (drop_bit s (0x8000000000000000 :: int)) k \<longleftrightarrow> k = 63 - s"
    unfolding e bit_drop_bit_eq comp_def bit_exp_iff using s by auto
qed

lemma l1d_step:
  assumes "tr_trace (m_tracer m) = [arch, spec]" and "l1d_add_mem_address a m = Inr m'"
  shows "\<exists>arch' spec'. tr_trace (m_tracer m') = [arch', spec'] \<and> m_in_speculation m' = m_in_speculation m \<and>
    tr_clause (m_tracer m') = tr_clause (m_tracer m) \<and>
    (\<forall>k. bit arch' k \<longleftrightarrow> bit arch k \<or> (\<not> m_in_speculation m \<and> k = 63 - cache_set a)) \<and>
    (\<forall>k. bit spec' k \<longleftrightarrow> bit spec k \<or> (m_in_speculation m \<and> k = 63 - cache_set a))"
proof -
  note line = bit_cache_line [OF cache_set_less [of a]]
  define k where "k = (if m_in_speculation m then 1 else 0 :: nat)"
  let ?m = "upd_tracer (\<lambda>tr. tr\<lparr>tr_trace := (tr_trace tr)[k := tr_trace tr ! k OR
    drop_bit (cache_set a) 0x8000000000000000]\<rparr>) m"
  have "with_taint (\<lambda>t. Inr (taint_memory_access_address t)) ?m = Inr m'"
    using assms unfolding l1d_add_mem_address_def page_offset_cache_set Let_def k_def
    by (cases "m_in_speculation m") simp_all
  from with_taint_trace(1,3) [OF this] have "m_tracer m' = m_tracer ?m" "m_in_speculation m' = m_in_speculation m"
    by simp_all
  then show ?thesis using assms(1) line
    by (cases "m_in_speculation m") (simp_all add: k_def bit_or_iff)
qed

definition l1d_access :: "bool \<times> int \<Rightarrow> ('u, 'c) x86_model \<Rightarrow> ('u, 'c) x86_model res" where
  "l1d_access = (\<lambda>(in_speculation, address) m.
     l1d_add_mem_address address (m\<lparr>m_in_speculation := in_speculation\<rparr>))"

lemma l1d_accesses:
  assumes "res_fold l1d_access accs m = Inr m'" and "tr_trace (m_tracer m) = [arch, spec]"
  shows "\<exists>arch' spec'. tr_trace (m_tracer m') = [arch', spec'] \<and>
    tr_clause (m_tracer m') = tr_clause (m_tracer m) \<and>
    (\<forall>k. bit arch' k \<longleftrightarrow> bit arch k \<or> (\<exists>a. (False, a) \<in> set accs \<and> k = 63 - cache_set a)) \<and>
    (\<forall>k. bit spec' k \<longleftrightarrow> bit spec k \<or> (\<exists>a. (True, a) \<in> set accs \<and> k = 63 - cache_set a))"
  using assms
proof (induction accs arbitrary: m arch spec)
  case (Cons acc accs)
  obtain sp a where acc: "acc = (sp, a)" by force
  from Cons.prems(1) acc obtain m1 where m1: "l1d_add_mem_address a (m\<lparr>m_in_speculation := sp\<rparr>) = Inr m1"
    "res_fold l1d_access accs m1 = Inr m'" by (auto simp: res_bind_Inr_iff l1d_access_def)
  from l1d_step [OF _ m1(1), of arch spec] Cons.prems(2) obtain arch1 spec1
    where s1: "tr_trace (m_tracer m1) = [arch1, spec1]" "tr_clause (m_tracer m1) = tr_clause (m_tracer m)"
      "\<And>k. bit arch1 k \<longleftrightarrow> bit arch k \<or> (\<not> sp \<and> k = 63 - cache_set a)"
      "\<And>k. bit spec1 k \<longleftrightarrow> bit spec k \<or> (sp \<and> k = 63 - cache_set a)"
    by auto
  from Cons.IH [OF m1(2) s1(1)] obtain arch' spec' where
    "tr_trace (m_tracer m') = [arch', spec']" "tr_clause (m_tracer m') = tr_clause (m_tracer m1)"
    "\<forall>k. bit arch' k \<longleftrightarrow> bit arch1 k \<or> (\<exists>a. (False, a) \<in> set accs \<and> k = 63 - cache_set a)"
    "\<forall>k. bit spec' k \<longleftrightarrow> bit spec1 k \<or> (\<exists>a. (True, a) \<in> set accs \<and> k = 63 - cache_set a)" by blast
  with s1 acc show ?case by (intro exI [of _ arch'] exI [of _ spec']) auto
qed simp

lemma bit_pair:
  assumes "\<And>k. bit arch k \<Longrightarrow> k < 64"
  shows "bit (push_bit 64 spec + arch :: int) k \<longleftrightarrow> (if k < 64 then bit arch k else bit spec (k - 64))"
proof -
  have "push_bit 64 spec AND arch = 0"
    by (rule bit_eqI) (auto simp: bit_and_iff bit_push_bit_iff dest: assms)
  then have "push_bit 64 spec + arch = push_bit 64 spec OR arch"
    using plus_and_or [of "push_bit 64 spec" arch] by simp
  then show ?thesis using assms by (auto simp: bit_or_iff bit_push_bit_iff)
qed

theorem l1d_trace_cache_sets:
  assumes "res_fold l1d_access accs (m\<lparr>m_tracer := reset_trace uc emulator (new_tracer L1D)\<rparr>) = Inr m'"
  shows "\<exists>c. get_contract_trace xxh32 (m_tracer m') = Inr c \<and>
    (\<forall>s < 64. (bit c (63 - s) \<longleftrightarrow> (\<exists>a. (False, a) \<in> set accs \<and> cache_set a = s)) \<and>
              (bit c (127 - s) \<longleftrightarrow> (\<exists>a. (True, a) \<in> set accs \<and> cache_set a = s)))"
proof -
  let ?m = "m\<lparr>m_tracer := reset_trace uc emulator (new_tracer L1D)\<rparr>"
  have t0: "tr_trace (m_tracer ?m) = [0, 0]" "tr_clause (m_tracer ?m) = L1D"
    by (simp_all add: reset_trace_def new_tracer_def)
  from l1d_accesses [OF assms t0(1)] t0(2) obtain arch spec where
    tr: "tr_trace (m_tracer m') = [arch, spec]" "tr_clause (m_tracer m') = L1D"
    and a: "\<And>k. bit arch k \<longleftrightarrow> (\<exists>a. (False, a) \<in> set accs \<and> k = 63 - cache_set a)"
    and s: "\<And>k. bit spec k \<longleftrightarrow> (\<exists>a. (True, a) \<in> set accs \<and> k = 63 - cache_set a)"
    by auto
  have pair: "bit (push_bit 64 spec + arch) k \<longleftrightarrow> (if k < 64 then bit arch k else bit spec (k - 64))" for k
    by (rule bit_pair) (auto simp: a)
  have set_eq: "63 - t = 63 - cache_set b \<longleftrightarrow> cache_set b = t" if "t < 64" for t b
    using that cache_set_less [of b] by linarith
  show ?thesis
  proof (intro exI conjI allI impI)
    show "get_contract_trace xxh32 (m_tracer m') = Inr (push_bit 64 spec + arch)"
      using tr by (simp add: get_contract_trace_def)
    fix t :: nat assume t: "t < 64"
    have "63 - t < 64" by simp
    then    show "bit (push_bit 64 spec + arch) (63 - t) \<longleftrightarrow> (\<exists>a. (False, a) \<in> set accs \<and> cache_set a = t)"
      using t set_eq [OF t] by (simp add: pair a)
    have "127 - t - 64 = 63 - t" "\<not> 127 - t < 64" using t by simp_all
    then show "bit (push_bit 64 spec + arch) (127 - t) \<longleftrightarrow> (\<exists>a. (True, a) \<in> set accs \<and> cache_set a = t)"
      using t set_eq [OF t] by (simp add: pair s)
  qed
qed

theorem l1d_trace_cache_sets_witness:
  "\<exists>m' c. res_fold l1d_access [(False, 0x1040), (True, 0x1080)]
      ((ex_model L1D)\<lparr>m_tracer := reset_trace ex_uc () (new_tracer L1D)\<rparr>) = Inr m' \<and>
    get_contract_trace (\<lambda>_. 0) (m_tracer m') = Inr c \<and> bit c 62 \<and> bit c 125 \<and> \<not> bit c 63"
proof -
  have "\<exists>m'. res_fold l1d_access [(False, 0x1040), (True, 0x1080)]
      ((ex_model L1D)\<lparr>m_tracer := reset_trace ex_uc () (new_tracer L1D)\<rparr>) = Inr m'"
    by (simp add: l1d_access_def l1d_add_mem_address_def ex_model_def reset_trace_def new_tracer_def
        with_taint_def lift_taint_def upd_tracer_def)
  then obtain m' where m': "res_fold l1d_access [(False, 0x1040), (True, 0x1080)]
      ((ex_model L1D)\<lparr>m_tracer := reset_trace ex_uc () (new_tracer L1D)\<rparr>) = Inr m'" by blast
  from l1d_trace_cache_sets [OF m', of "\<lambda>_. 0"] obtain c where
    c: "get_contract_trace (\<lambda>_. 0) (m_tracer m') = Inr c"
    and b: "\<And>s. s < 64 \<Longrightarrow> (bit c (63 - s) \<longleftrightarrow> (\<exists>a. (False, a) \<in> set [(False, 0x1040), (True, 0x1080)] \<and> cache_set a = s)) \<and>
      (bit c (127 - s) \<longleftrightarrow> (\<exists>a. (True, a) \<in> set [(False, 0x1040), (True, 0x1080)] \<and> cache_set a = s))"
    by blast
  have "cache_set 0x1040 = 1" "cache_set 0x1080 = 2" by (simp_all add: cache_set_def)
  with b [of 1] b [of 2] b [of 0] have "bit c 62" "bit c 125" "\<not> bit c 63" by auto
  with m' c show ?thesis by blast
qed

text \<open>
  The \<open>prot\<close> clause contradicts itself on which instructions are unprotected. An
  instruction without the prefix \<open>0x36\<close> has its loaded values exposed, so it is treated as
  unprotected; but its output registers are not scheduled for exposure. They are scheduled exactly for the
  instructions with the prefix, whose loaded values are kept out of the trace.
\<close>

lemma prot_clause_inverted:
  assumes "uc_mem_read uc (m_emulator m) pc 1 = [b]" and "uc_reg_read uc (m_emulator m) ''RIP'' = pc"
    and "disasm_instruction uc cs m = Inr insn" and "prot_observe_instruction uc cs cf pc m = Inr m'"
  shows "tr_unprot_regs (m_tracer m') = (if b = 0x36 then ci_regs_write insn else []) \<and>
    prot_observe_mem_access uc cf UC_MEM_READ address sz value m' =
      res_bind (ct_observe_mem_access uc cf UC_MEM_READ address sz value m')
        (if b = 0x36 then Inr else expose_mem uc address sz)"
proof -
  from assms(4) obtain m1 insn1 m2 m3 protected where
    m1: "pc_observe_instruction cf pc m = Inr m1" and i: "disasm_instruction uc cs m1 = Inr insn1"
    and m2: "res_fold (expose_reg uc cs) (tr_unprot_regs (m_tracer m1))
        (upd_tracer (\<lambda>tr. tr\<lparr>tr_last_pc := Some pc\<rparr>) m1) = Inr m2"
    and m3: "res_fold (expose_reg uc cs) (address_registers insn1)
        (upd_tracer (\<lambda>tr. tr\<lparr>tr_unprot_regs := []\<rparr>) m2) = Inr m3"
    and p: "check_protected_pc uc pc m3 = Inr protected"
    and m': "m' = (if \<not> protected then m3 else upd_tracer (\<lambda>tr. tr\<lparr>tr_unprot_regs := ci_regs_write insn1\<rparr>) m3)"
    by (auto simp: prot_observe_instruction_def res_bind_Inr_iff Let_def split: if_splits)
  note k1 = pc_observe_keeps [OF m1] and k2 = expose_regs_keeps [OF m2] and k3 = expose_regs_keeps [OF m3]
  have e: "m_emulator m3 = m_emulator m" "m_emulator m1 = m_emulator m"
    using k1 k2 k3 by (simp_all add: keeps_def)
  then have "insn1 = insn" using i assms(3) by (simp add: disasm_instruction_def)
  moreover have pb: "protected \<longleftrightarrow> b = 0x36" using p e assms(1) by (simp add: check_protected_pc_def)
  ultimately have regs: "tr_unprot_regs (m_tracer m') = (if b = 0x36 then ci_regs_write insn else [])"
    using k3 m' by (simp add: keeps_def)
  have e': "m_emulator m' = m_emulator m" and l': "tr_last_pc (m_tracer m') = Some pc"
    using k2 k3 e m' by (simp_all add: keeps_def)
  have "prot_observe_mem_access uc cf UC_MEM_READ address sz value m' =
      res_bind (ct_observe_mem_access uc cf UC_MEM_READ address sz value m')
        (if b = 0x36 then Inr else expose_mem uc address sz)"
  proof (cases "ct_observe_mem_access uc cf UC_MEM_READ address sz value m'")
    case (Inr m4)
    from ct_observe_keeps [OF this] have "m_emulator m4 = m_emulator m" "tr_last_pc (m_tracer m4) = Some pc"
      using e' l' by (simp_all add: keeps_def)
    with Inr assms(1,2) show ?thesis
      by (simp add: prot_observe_mem_access_def check_protected_pc_def py_assert_def)
  qed (simp add: prot_observe_mem_access_def)
  with regs show ?thesis by simp
qed

definition ex_uc_prefix :: "(unit, unit) unicorn" where
  "ex_uc_prefix = ex_uc\<lparr>uc_mem_read := \<lambda>_ _ n. replicate n 0x36\<rparr>"

definition ex_cs_mov :: capstone where
  "ex_cs_mov = ex_cs\<lparr>cs_disasm := \<lambda>_ _. [ex_mov], cs_reg_name := \<lambda>_. ''rbx''\<rparr>"

lemma prot_clause_inverted_example:
  "\<exists>m'. prot_observe_instruction ex_uc_prefix ex_cs_mov ex_conf 0 (ex_model PROT) = Inr m' \<and>
     tr_unprot_regs (m_tracer m') = [1]"
proof -
  have r: "uc_mem_read ex_uc_prefix (m_emulator (ex_model PROT)) 0 1 = [0x36]"
    "uc_reg_read ex_uc_prefix (m_emulator (ex_model PROT)) ''RIP'' = 0"
    by (simp_all add: ex_uc_prefix_def ex_uc_def)
  have d: "disasm_instruction ex_uc_prefix ex_cs_mov (ex_model PROT) = Inr ex_mov"
    by (simp add: disasm_instruction_def ex_cs_mov_def)
  have a: "address_registers ex_mov = [2]"
    by (simp add: address_registers_def ex_mov_def accesses_memory_def)
  have "\<exists>m'. prot_observe_instruction ex_uc_prefix ex_cs_mov ex_conf 0 (ex_model PROT) = Inr m'"
    by (simp add: prot_observe_instruction_def pc_observe_instruction_def add_pc_to_trace_def with_taint_def
        lift_taint_def ex_model_def new_tracer_def trace_append_def upd_tracer_def base_observe_instruction_def
        ex_conf_def disasm_instruction_def ex_cs_mov_def ex_cs_def a expose_reg_def read_cs_reg_def
        check_protected_pc_def ex_uc_prefix_def ex_uc_def Let_def)
  then obtain m' where m': "prot_observe_instruction ex_uc_prefix ex_cs_mov ex_conf 0 (ex_model PROT) = Inr m'"
    by blast
  with prot_clause_inverted [OF r d m'] show ?thesis by (simp add: ex_fields)
qed

end
