(* ===== verification/Speculation.thy ===== *)
theory Speculation
  imports Tracers
begin

text \<open>
  The execution clauses of \<^verbatim>\<open>src/src/model.py\<close>: in-order execution (\<open>X86UnicornSeq\<close>), the machinery
  shared by the speculative clauses (\<open>X86UnicornSpec\<close>: checkpoints, store logs, rollback), the clauses
  for conditional branches, store bypass and null injection, and the loop over the inputs
  (\<open>_execute_test_case\<close>). The emulator calls the two hooks; what it does between them is
  described by the step relation \<open>spec_run\<close>.
\<close>

subsection \<open>In-order execution\<close>

definition seq_trace_instruction :: "('u, 'c) unicorn \<Rightarrow> capstone \<Rightarrow> model_conf \<Rightarrow> int \<Rightarrow>
    ('u, 'c) x86_model \<Rightarrow> ('u, 'c) x86_model res" where
  "seq_trace_instruction uc cs cf address m =
     (case m_current_instruction m of
        None \<Rightarrow> Inl AttributeError
      | Some i \<Rightarrow> res_bind (with_taint (start_instruction i) m) (observe_instruction uc cs cf address))"

definition seq_trace_mem_access :: "('u, 'c) unicorn \<Rightarrow> capstone \<Rightarrow> model_conf \<Rightarrow> mem_access \<Rightarrow> int \<Rightarrow> nat \<Rightarrow> int \<Rightarrow>
    ('u, 'c) x86_model \<Rightarrow> ('u, 'c) x86_model res" where
  "seq_trace_mem_access uc cs cf access address sz value m =
     res_bind (with_taint (\<lambda>t. Inr (track_memory_access address (int sz) (access = UC_MEM_WRITE) t)) m)
       (observe_mem_access uc cs cf access address sz value)"

subsection \<open>Checkpoints and rollback\<close>

definition spec_checkpoint :: "('u, 'c) unicorn \<Rightarrow> int \<Rightarrow> ('u, 'c) x86_model \<Rightarrow> ('u, 'c) x86_model res" where
  "spec_checkpoint uc next_instruction m =
     (let flags = uc_reg_read uc (m_emulator m) ''EFLAGS'';
          context = uc_context_save uc (m_emulator m);
          spec_window = m_speculation_window m;
          m = m\<lparr>m_checkpoints := (context, next_instruction, flags, spec_window) # m_checkpoints m,
                m_store_logs := [] # m_store_logs m, m_in_speculation := True\<rparr>
      in with_taint (\<lambda>t. Inr (taint_checkpoint t)) m)"

text \<open>Appends an entry to the latest store log (\<open>store_logs[-1].append\<close>).\<close>

definition log_store :: "int \<times> nat list \<Rightarrow> ('u, 'c) x86_model \<Rightarrow> ('u, 'c) x86_model res" where
  "log_store e m =
     (case m_store_logs m of
        [] \<Rightarrow> Inl IndexError
      | log # logs \<Rightarrow> Inr (m\<lparr>m_store_logs := (e # log) # logs\<rparr>))"

definition undo_stores :: "('u, 'c) unicorn \<Rightarrow> (int \<times> nat list) list \<Rightarrow> 'u \<Rightarrow> 'u" where
  "undo_stores uc mem_changes u = fold (\<lambda>(addr, val) u. uc_mem_write uc u addr val) mem_changes u"

text \<open>
  \<open>rollback\<close> up to the restart of the emulator; the result includes the address from
  which it restarts.
\<close>

definition spec_rollback :: "('u, 'c) unicorn \<Rightarrow> ('u, 'c) x86_model \<Rightarrow> (('u, 'c) x86_model \<times> int) res" where
  "spec_rollback uc m =
     (case m_checkpoints m of
        [] \<Rightarrow> Inl IndexError
      | (state, next_instr, flags, spec_window) # checkpoints \<Rightarrow>
          let m = m\<lparr>m_checkpoints := checkpoints\<rparr>;
              m = (if checkpoints = [] then m\<lparr>m_in_speculation := False\<rparr> else m);
              m = m\<lparr>m_latest_rollback_address := next_instr,
                    m_emulator := uc_context_restore uc (m_emulator m) state,
                    m_speculation_window := spec_window\<rparr>
          in case m_store_logs m of
               [] \<Rightarrow> Inl IndexError
             | mem_changes # logs \<Rightarrow>
                 let m = m\<lparr>m_store_logs := logs, m_emulator := undo_stores uc mem_changes (m_emulator m),
                           m_previous_store := (0, 0, [], 0)\<rparr>;
                     m = m\<lparr>m_emulator := uc_reg_write uc (m_emulator m) ''EFLAGS'' flags\<rparr>
                 in res_bind (with_taint taint_rollback m) (\<lambda>m. Inr (m, next_instr)))"

subsection \<open>Speculative clauses\<close>

text \<open>What happens for a decoded instruction; a target of 0 means that it is no conditional jump.\<close>

definition mispredict :: "('u, 'c) unicorn \<Rightarrow> int \<Rightarrow> nat \<Rightarrow> int \<Rightarrow> int \<times> bool \<times> bool \<Rightarrow>
    ('u, 'c) x86_model \<Rightarrow> ('u, 'c) x86_model res" where
  "mispredict uc address sz rcx decoded m =
     (case decoded of (target, will_jump, is_loop) \<Rightarrow>
        if target = 0 then Inr m
        else
          let u = (if is_loop then uc_reg_write uc (m_emulator m) ''RCX'' (rcx - 1) else m_emulator m);
              next_instr = (if will_jump then address + int sz + target else address + int sz);
              wrong = (if will_jump then address + int sz else address + int sz + target)
          in res_bind (spec_checkpoint uc next_instr (m\<lparr>m_emulator := u\<rparr>)) (\<lambda>m.
             Inr (m\<lparr>m_emulator := uc_reg_write uc (m_emulator m) ''RIP'' wrong\<rparr>)))"

definition cond_speculate_instruction :: "('u, 'c) unicorn \<Rightarrow> model_conf \<Rightarrow> int \<Rightarrow> nat \<Rightarrow>
    ('u, 'c) x86_model \<Rightarrow> ('u, 'c) x86_model res" where
  "cond_speculate_instruction uc cf address sz m =
     (if mc_nesting cf \<le> length (m_checkpoints m) then Inr m
      else
        let code = uc_mem_read uc (m_emulator m) address sz;
            flags = uc_reg_read uc (m_emulator m) ''EFLAGS'';
            rcx = uc_reg_read uc (m_emulator m) ''RCX''
        in res_bind (decode code flags rcx) (\<lambda>decoded. mispredict uc address sz rcx decoded m))"

text \<open>\<open>value.to_bytes(size, 'little', signed=value < 0)\<close>\<close>

fun little_bytes :: "nat \<Rightarrow> int \<Rightarrow> nat list" where
  "little_bytes 0 v = []"
| "little_bytes (Suc n) v = nat (v mod 256) # little_bytes n (v div 256)"

definition to_bytes :: "nat \<Rightarrow> int \<Rightarrow> nat list res" where
  "to_bytes sz v =
     (if v < 0
      then (if sz > 0 \<and> - (2 ^ (8 * sz - 1)) \<le> v then Inr (little_bytes sz v) else Inl OverflowError)
      else (if v < 2 ^ (8 * sz) then Inr (little_bytes sz v) else Inl OverflowError))"

definition call_opcodes :: "nat list" where
  "call_opcodes = [0xE8, 0xFF, 0x9A]"

definition bpas_speculate_mem_access :: "('u, 'c) unicorn \<Rightarrow> mem_access \<Rightarrow> int \<Rightarrow> nat \<Rightarrow> int \<Rightarrow>
    ('u, 'c) x86_model \<Rightarrow> ('u, 'c) x86_model res" where
  "bpas_speculate_mem_access uc access address sz value m =
     (if access = UC_MEM_WRITE then
        let rip = uc_reg_read uc (m_emulator m) ''RIP''
        in res_bind (py_nth (uc_mem_read uc (m_emulator m) rip 1) 0) (\<lambda>opcode.
           if opcode \<notin> set call_opcodes
           then Inr (m\<lparr>m_previous_store := (address, sz, uc_mem_read uc (m_emulator m) address sz, value)\<rparr>)
           else Inr m)
      else Inr m)"

definition bpas_speculate_instruction :: "('u, 'c) unicorn \<Rightarrow> model_conf \<Rightarrow> int \<Rightarrow>
    ('u, 'c) x86_model \<Rightarrow> ('u, 'c) x86_model res" where
  "bpas_speculate_instruction uc cf address m =
     (if mc_nesting cf \<le> length (m_checkpoints m) then Inr m
      else
        res_bind
          (case m_previous_store m of (store_addr, sz, old_value, value) \<Rightarrow>
             if store_addr \<noteq> 0 then
               res_bind (to_bytes sz value) (\<lambda>new_value.
               res_bind (spec_checkpoint uc address m) (\<lambda>m.
               log_store (store_addr, new_value)
                 (m\<lparr>m_emulator := uc_mem_write uc (m_emulator m) store_addr old_value\<rparr>)))
             else Inr m)
          (\<lambda>m. Inr (m\<lparr>m_previous_store := (0, 0, [], 0)\<rparr>)))"

definition null_speculate_mem_access :: "('u, 'c) unicorn \<Rightarrow> model_conf \<Rightarrow> mem_access \<Rightarrow> int \<Rightarrow> nat \<Rightarrow>
    ('u, 'c) x86_model \<Rightarrow> ('u, 'c) x86_model res" where
  "null_speculate_mem_access uc cf access address sz m =
     (if mc_nesting cf \<le> length (m_checkpoints m) then Inr m
      else if access = UC_MEM_WRITE then Inr m
      else case m_instruction_address m of
        None \<Rightarrow> Inl AttributeError
      | Some instruction_address \<Rightarrow>
          if instruction_address = m_latest_rollback_address m then Inr m
          else
            res_bind (spec_checkpoint uc instruction_address m) (\<lambda>m.
            res_bind (log_store (address, uc_mem_read uc (m_emulator m) address 8) m) (\<lambda>m.
            Inr (m\<lparr>m_emulator := uc_mem_write uc (m_emulator m) address (replicate sz 0)\<rparr>))))"

definition null_speculate_instruction :: "int \<Rightarrow> ('u, 'c) x86_model \<Rightarrow> ('u, 'c) x86_model res" where
  "null_speculate_instruction address m = Inr (m\<lparr>m_instruction_address := Some address\<rparr>)"

definition speculate_mem_access :: "('u, 'c) unicorn \<Rightarrow> model_conf \<Rightarrow> mem_access \<Rightarrow> int \<Rightarrow> nat \<Rightarrow> int \<Rightarrow>
    ('u, 'c) x86_model \<Rightarrow> ('u, 'c) x86_model res" where
  "speculate_mem_access uc cf access address sz value m =
     (case mc_execution cf of
        Bpas \<Rightarrow> bpas_speculate_mem_access uc access address sz value m
      | CondBpas \<Rightarrow> bpas_speculate_mem_access uc access address sz value m
      | Null \<Rightarrow> null_speculate_mem_access uc cf access address sz m
      | _ \<Rightarrow> Inr m)"

definition speculate_instruction :: "('u, 'c) unicorn \<Rightarrow> model_conf \<Rightarrow> int \<Rightarrow> nat \<Rightarrow>
    ('u, 'c) x86_model \<Rightarrow> ('u, 'c) x86_model res" where
  "speculate_instruction uc cf address sz m =
     (case mc_execution cf of
        Cond \<Rightarrow> cond_speculate_instruction uc cf address sz m
      | Bpas \<Rightarrow> bpas_speculate_instruction uc cf address m
      | Null \<Rightarrow> null_speculate_instruction address m
      | CondBpas \<Rightarrow>
          res_bind (cond_speculate_instruction uc cf address sz m) (bpas_speculate_instruction uc cf address)
      | Seq \<Rightarrow> Inr m)"

subsection \<open>Hooks\<close>

definition spec_trace_mem_access :: "('u, 'c) unicorn \<Rightarrow> capstone \<Rightarrow> model_conf \<Rightarrow> mem_access \<Rightarrow> int \<Rightarrow> nat \<Rightarrow> int \<Rightarrow>
    ('u, 'c) x86_model \<Rightarrow> ('u, 'c) x86_model res" where
  "spec_trace_mem_access uc cs cf access address sz value m =
     res_bind (if access = UC_MEM_WRITE \<and> m_store_logs m \<noteq> []
               then log_store (address, uc_mem_read uc (m_emulator m) address 8) m else Inr m) (\<lambda>m.
     res_bind (seq_trace_mem_access uc cs cf access address sz value m)
       (speculate_mem_access uc cf access address sz value))"

text \<open>In speculation, a serialising instruction or an expired window stops the emulator.\<close>

definition advance_window :: "('u, 'c) unicorn \<Rightarrow> model_conf \<Rightarrow> ('u, 'c) x86_model \<Rightarrow> ('u, 'c) x86_model" where
  "advance_window uc cf m =
     (if m_in_speculation m then
        let m = m\<lparr>m_speculation_window := m_speculation_window m + 1\<rparr>;
            m = (case m_current_instruction m of
                   Some i \<Rightarrow> if i_name i \<in> {''LFENCE'', ''MFENCE''}
                     then m\<lparr>m_emulator := uc_emu_stop uc (m_emulator m)\<rparr> else m
                 | None \<Rightarrow> m)
        in if mc_max_spec_window cf < m_speculation_window m
           then m\<lparr>m_emulator := uc_emu_stop uc (m_emulator m)\<rparr> else m
      else m)"

definition spec_trace_instruction :: "('u, 'c) unicorn \<Rightarrow> capstone \<Rightarrow> model_conf \<Rightarrow> int \<Rightarrow> nat \<Rightarrow>
    ('u, 'c) x86_model \<Rightarrow> ('u, 'c) x86_model res" where
  "spec_trace_instruction uc cs cf address sz m =
     res_bind (seq_trace_instruction uc cs cf address (advance_window uc cf m))
       (speculate_instruction uc cf address sz)"

definition instruction_hook :: "('u, 'c) unicorn \<Rightarrow> capstone \<Rightarrow> model_conf \<Rightarrow> int \<Rightarrow> nat \<Rightarrow>
    ('u, 'c) x86_model \<Rightarrow> ('u, 'c) x86_model res" where
  "instruction_hook uc cs cf address sz m =
     (case mc_address_map cf (address - mc_code_start cf) of
        None \<Rightarrow> Inl KeyError
      | Some i \<Rightarrow>
          let m = m\<lparr>m_current_instruction := Some i\<rparr>
          in if mc_execution cf = Seq then seq_trace_instruction uc cs cf address m
             else spec_trace_instruction uc cs cf address sz m)"

definition trace_mem_access :: "('u, 'c) unicorn \<Rightarrow> capstone \<Rightarrow> model_conf \<Rightarrow> mem_access \<Rightarrow> int \<Rightarrow> nat \<Rightarrow> int \<Rightarrow>
    ('u, 'c) x86_model \<Rightarrow> ('u, 'c) x86_model res" where
  "trace_mem_access uc cs cf access address sz value m =
     (if mc_execution cf = Seq then seq_trace_mem_access uc cs cf access address sz value m
      else spec_trace_mem_access uc cs cf access address sz value m)"

subsection \<open>Running a test case on an input\<close>

text \<open>\<open>reset_model\<close> leaves \<open>store_logs\<close> and \<open>previous_store\<close> alone.\<close>

definition reset_model :: "('u, 'c) unicorn \<Rightarrow> model_conf \<Rightarrow> ('u, 'c) x86_model \<Rightarrow> ('u, 'c) x86_model" where
  "reset_model uc cf m =
     (let m = m\<lparr>m_checkpoints := [], m_in_speculation := False, m_speculation_window := 0,
                m_tracer := reset_trace uc (m_emulator m) (m_tracer m),
                m_taint := (if mc_tainting_enabled cf
                  then TaintTracker (new_taint_tracker (mc_initial_taints cf) (mc_sandbox_base cf))
                  else DummyTaintTracker)\<rparr>
      in if mc_execution cf = Seq then m else m\<lparr>m_latest_rollback_address := 0\<rparr>)"

definition load_registers :: "string list" where
  "load_registers = [''RAX'', ''RBX'', ''RCX'', ''RDX'', ''RSI'', ''RDI'', ''EFLAGS'']"

definition load_input :: "('u, 'c) unicorn \<Rightarrow> model_conf \<Rightarrow> input_layout \<Rightarrow> nat list \<Rightarrow> 'u \<Rightarrow> 'u res" where
  "load_input uc cf il inp u =
     (let main_region = mc_sandbox_base cf + 4096;
          upper_overflow_base = main_region + mc_main_region_size cf + mc_assist_region_size cf;
          stack_base = mc_sandbox_base cf + mc_main_region_size cf - 8;
          u = uc_mem_write uc u (mc_sandbox_base cf) (replicate 4096 0);
          u = uc_mem_write uc u upper_overflow_base (replicate 4096 0);
          u = uc_mem_write uc u (mc_sandbox_base cf) (concat (map (\<lambda>w. little_bytes 8 (int w)) inp))
      in res_bind (res_fold (\<lambda>(i, value) u.
             res_bind (py_nth load_registers i) (\<lambda>reg.
               let value = (if reg = ''EFLAGS'' then (int value AND 2263) OR 2 else int value)
               in Inr (uc_reg_write uc u reg value)))
           (enumerate 0 (get_registers il inp)) u) (\<lambda>u.
         let u = uc_reg_write uc u ''RSP'' stack_base;
             u = uc_reg_write uc u ''RBP'' stack_base
         in Inr (uc_reg_write uc u ''R14'' (mc_sandbox_base cf))))"

text \<open>
  \<open>emu address m\<close> stands for \<open>emulator.emu_start(address, code_end)\<close> with the two hooks installed: the
  model after the hooks ran, and whether the emulator raised \<open>UcError\<close>; an exception of a hook is
  passed on. The loop of the residual rollbacks ends when no checkpoint is left.
\<close>

partial_function (option) rollback_loop :: "('u, 'c) unicorn \<Rightarrow>
    (int \<Rightarrow> ('u, 'c) x86_model \<Rightarrow> (('u, 'c) x86_model \<times> bool) res) \<Rightarrow> ('u, 'c) x86_model \<Rightarrow>
    ('u, 'c) x86_model res option" where
  "rollback_loop uc emu m =
     (if \<not> m_in_speculation m then Some (Inr m)
      else case spec_rollback uc m of
        Inl e \<Rightarrow> Some (Inl e)
      | Inr (m, next_instr) \<Rightarrow>
          (case emu next_instr m of
             Inl e \<Rightarrow> Some (Inl e)
           | Inr (m, uc_error) \<Rightarrow> rollback_loop uc emu m))"

definition execute_input :: "('u, 'c) unicorn \<Rightarrow> model_conf \<Rightarrow> input_layout \<Rightarrow>
    (int \<Rightarrow> ('u, 'c) x86_model \<Rightarrow> (('u, 'c) x86_model \<times> bool) res) \<Rightarrow> nat list \<Rightarrow> ('u, 'c) x86_model \<Rightarrow>
    ('u, 'c) x86_model res option" where
  "execute_input uc cf il emu inp m =
     (let m = reset_model uc cf m
      in case load_input uc cf il inp (m_emulator m) of
           Inl e \<Rightarrow> Some (Inl e)
         | Inr u \<Rightarrow>
             (let m = reset_model uc cf (m\<lparr>m_emulator := u\<rparr>)
              in case emu (mc_code_start cf) m of
                   Inl e \<Rightarrow> Some (Inl e)
                 | Inr (m, uc_error) \<Rightarrow>
                     if uc_error \<and> \<not> m_in_speculation m then Some (Inl SystemExit)
                     else rollback_loop uc emu m))"

text \<open>
  The results of one input: contract trace, execution trace and taint. The array of the dummy
  tracker is not initialised by the code, and its callers drop it; here it is all \<open>False\<close>.
\<close>

definition tracker_taint :: "input_layout \<Rightarrow> taint_tracker \<Rightarrow> (taint_tracker \<times> bool list) res" where
  "tracker_taint il tt =
     (case tt of
        DummyTaintTracker \<Rightarrow> Inr (DummyTaintTracker, replicate (data_size il) False)
      | TaintTracker t \<Rightarrow>
          res_bind (get_taint (data_size il) ((il_main il + il_assist il) div 8) t)
            (\<lambda>(t, taint). Inr (TaintTracker t, taint)))"

fun execute_test_case :: "('u, 'c) unicorn \<Rightarrow> model_conf \<Rightarrow> input_layout \<Rightarrow> (string \<Rightarrow> int) \<Rightarrow>
    (int \<Rightarrow> ('u, 'c) x86_model \<Rightarrow> (('u, 'c) x86_model \<times> bool) res) \<Rightarrow> nat list list \<Rightarrow> ('u, 'c) x86_model \<Rightarrow>
    (('u, 'c) x86_model \<times> (int \<times> traced_instruction list \<times> bool list) list) res option" where
  "execute_test_case uc cf il xxh32 emu [] m = Some (Inr (m, []))"
| "execute_test_case uc cf il xxh32 emu (inp # inputs) m =
     (case execute_input uc cf il emu inp m of
        None \<Rightarrow> None
      | Some (Inl e) \<Rightarrow> Some (Inl e)
      | Some (Inr m) \<Rightarrow>
          (case res_bind (get_contract_trace xxh32 (m_tracer m)) (\<lambda>ctrace.
                res_bind (tracker_taint il (m_taint m)) (\<lambda>(tt, taint).
                Inr (m\<lparr>m_taint := tt\<rparr>, (ctrace, tr_execution_trace (m_tracer m), taint)))) of
             Inl e \<Rightarrow> Some (Inl e)
           | Inr (m, r) \<Rightarrow>
               (case execute_test_case uc cf il xxh32 emu inputs m of
                  None \<Rightarrow> None
                | Some (Inl e) \<Rightarrow> Some (Inl e)
                | Some (Inr (m, rs)) \<Rightarrow> Some (Inr (m, r # rs)))))"

text \<open>\<open>get_model\<close>: the clauses selected by the configuration strings.\<close>

definition select_execution :: "string list \<Rightarrow> execution_clause res" where
  "select_execution clauses =
     (if ''cond'' \<in> set clauses \<and> ''bpas'' \<in> set clauses then Inr CondBpas
      else if ''cond'' \<in> set clauses then Inr Cond
      else if ''bpas'' \<in> set clauses then Inr Bpas
      else if ''cond-bpas'' \<in> set clauses then Inr CondBpas
      else if ''null-injection'' \<in> set clauses then Inr Null
      else if ''seq'' \<in> set clauses then Inr Seq
      else Inl ConfigException)"

definition select_observation :: "string \<Rightarrow> observation_clause res" where
  "select_observation clause =
     (if clause = ''l1d'' then Inr L1D
      else if clause = ''pc'' then Inr PC
      else if clause = ''memory'' then Inr MEMORY
      else if clause = ''ct'' then Inr CT
      else if clause = ''ctx'' then Inr CTX
      else if clause = ''ct-nonspecstore'' then Inr CT_NONSPECSTORE
      else if clause = ''ctr'' then Inr CTR
      else if clause = ''arch'' then Inr ARCH
      else if clause = ''prot'' then Inr PROT
      else if clause = ''cts'' then Inr CTS
      else Inl ConfigException)"

definition get_model :: "string \<Rightarrow> string list \<Rightarrow> string \<Rightarrow> (execution_clause \<times> observation_clause) res" where
  "get_model model execution observation =
     (if model = ''x86-unicorn'' then
        res_bind (select_execution execution) (\<lambda>e.
        res_bind (select_observation observation) (\<lambda>obs. Inr (e, obs)))
      else Inl ConfigException)"

definition initial_taints :: "observation_clause \<Rightarrow> string list" where
  "initial_taints obs =
     (if obs = CTR \<or> obs = ARCH
      then [''A'', ''B'', ''C'', ''D'', ''SI'', ''DI'', ''RSP'', ''CF'', ''PF'', ''AF'', ''ZF'', ''SF'', ''TF'',
            ''IF'', ''DF'', ''OF'', ''AC'']
      else [])"

subsection \<open>What the hooks keep\<close>

lemma disasm_no_change: "ctx_observe_instruction uc cs cf address m = Inr m' \<Longrightarrow> keeps m m'"
  unfolding ctx_observe_instruction_def res_bind_Inr_iff
  using keeps_trans pc_observe_keeps expose_regs_keeps by blast

definition keeps_core :: "('u, 'c) x86_model \<Rightarrow> ('u, 'c) x86_model \<Rightarrow> bool" where
  "keeps_core m m' \<longleftrightarrow> m_emulator m' = m_emulator m \<and> m_current_instruction m' = m_current_instruction m \<and>
     m_in_speculation m' = m_in_speculation m \<and> m_speculation_window m' = m_speculation_window m \<and>
     m_checkpoints m' = m_checkpoints m \<and> m_store_logs m' = m_store_logs m \<and>
     m_previous_store m' = m_previous_store m \<and>
     m_latest_rollback_address m' = m_latest_rollback_address m \<and>
     m_instruction_address m' = m_instruction_address m \<and> taint_depth (m_taint m') = taint_depth (m_taint m)"

lemma keeps_core_trans: "keeps_core m m1 \<Longrightarrow> keeps_core m1 m2 \<Longrightarrow> keeps_core m m2"
  by (simp add: keeps_core_def)

lemma keeps_is_core: "keeps m m' \<Longrightarrow> keeps_core m m'"
  by (simp add: keeps_core_def keeps_def)

lemma upd_tracer_core: "keeps_core m (upd_tracer f m)"
  by (simp add: keeps_core_def upd_tracer_def)

lemma prot_observe_core: "prot_observe_instruction uc cs cf address m = Inr m' \<Longrightarrow> keeps_core m m'"
  unfolding prot_observe_instruction_def res_bind_Inr_iff Let_def
  by (elim exE conjE; simp only: split: if_splits; elim exE conjE sum.inject(2) [THEN iffD1, elim_format];
      meson keeps_core_trans keeps_is_core pc_observe_keeps expose_regs_keeps upd_tracer_core)

lemma cts_observe_core: "cts_observe_instruction uc cs cf address m = Inr m' \<Longrightarrow> keeps_core m m'"
proof -
  assume "cts_observe_instruction uc cs cf address m = Inr m'"
  then obtain insns succs u m1 m2 where
    a: "(case tr_analysis (m_tracer m) of
         Some a \<Rightarrow> Inr (a, m)
       | None \<Rightarrow> res_bind (cts_analysis uc cs address m) (\<lambda>a.
           Inr (a, upd_tracer (\<lambda>tr. tr\<lparr>tr_analysis := Some a\<rparr>) m))) = Inr ((insns, succs, u), m1)"
    and m2: "ctx_observe_instruction uc cs cf address m1 = Inr m2"
    and m': "(case lookup_insn insns address of None \<Rightarrow> Inr m2
      | Some insn \<Rightarrow> res_fold (expose_reg uc cs) (cs_set_order cs (get_set (un_pre u) (ci_address insn))) m2) = Inr m'"
    unfolding cts_observe_instruction_def by (auto simp: res_bind_Inr_iff)
  have "keeps_core m m1" using a upd_tracer_core
    by (auto simp: res_bind_Inr_iff keeps_core_def split: option.splits)
  moreover have "keeps_core m1 m2" by (rule keeps_is_core [OF disasm_no_change [OF m2]])
  moreover have "keeps_core m2 m'"
    using m' by (auto split: option.splits intro: keeps_is_core keeps_refl expose_regs_keeps)
  ultimately show ?thesis by (blast intro: keeps_core_trans)
qed

lemma observe_instruction_core: "observe_instruction uc cs cf address m = Inr m' \<Longrightarrow> keeps_core m m'"
  unfolding observe_instruction_def
  by (cases "tr_clause (m_tracer m)")
    (auto intro: keeps_is_core prot_observe_core cts_observe_core base_observe_keeps(1) pc_observe_keeps
      disasm_no_change)

lemma prot_observe_mem_core:
  "prot_observe_mem_access uc cf access address sz value m = Inr m' \<Longrightarrow> keeps_core m m'"
  by (auto simp: prot_observe_mem_access_def res_bind_Inr_iff Let_def split: if_splits option.splits
      intro: keeps_is_core ct_observe_keeps keeps_trans [OF ct_observe_keeps expose_mem_keeps])

lemma arch_observe_mem_keeps:
  assumes "res_bind (if access = UC_MEM_READ then expose_mem uc address sz m else Inr m) (\<lambda>m.
      res_bind (add_mem_address_to_trace address m) (ct_observe_mem_access uc cf access address sz value)) = Inr m'"
  shows "keeps m m'"
proof -
  from assms obtain m1 m2 where "(if access = UC_MEM_READ then expose_mem uc address sz m else Inr m) = Inr m1"
    and m2: "add_mem_address_to_trace address m1 = Inr m2" "ct_observe_mem_access uc cf access address sz value m2 = Inr m'"
    by (auto simp: res_bind_Inr_iff)
  then have "keeps m m1" by (auto split: if_splits intro: keeps_refl expose_mem_keeps)
  with add_mem_address_keeps [OF m2(1)] ct_observe_keeps [OF m2(2)] show ?thesis by (blast intro: keeps_trans)
qed

lemma nonspecstore_observe_keeps:
  assumes "res_bind (if b then add_mem_address_to_trace address m else Inr m)
      (base_observe_mem_access uc cf access address sz value) = Inr m'"
  shows "keeps m m'"
proof -
  from assms obtain m1 where "(if b then add_mem_address_to_trace address m else Inr m) = Inr m1"
    and m': "base_observe_mem_access uc cf access address sz value m1 = Inr m'"
    by (auto simp: res_bind_Inr_iff)
  then have "keeps m m1" by (auto split: if_splits intro: keeps_refl add_mem_address_keeps)
  with base_observe_keeps(2) [OF m'] show ?thesis by (blast intro: keeps_trans)
qed

lemma ctx_observe_mem_keeps:
  "ctx_observe_mem_access uc cs cf access address sz value m = Inr m' \<Longrightarrow> keeps m m'"
  by (auto simp: ctx_observe_mem_access_def res_bind_Inr_iff intro: ct_observe_keeps)

lemma observe_mem_access_core:
  "observe_mem_access uc cs cf access address sz value m = Inr m' \<Longrightarrow> keeps_core m m'"
  unfolding observe_mem_access_def
  by (cases "tr_clause (m_tracer m)")
    (auto intro: keeps_is_core prot_observe_mem_core base_observe_keeps(2) ct_observe_keeps
      arch_observe_mem_keeps nonspecstore_observe_keeps ctx_observe_mem_keeps)

lemma with_taint_only: "with_taint f m = Inr m' \<Longrightarrow> \<exists>tt. m' = m\<lparr>m_taint := tt\<rparr>"
  by (auto simp: with_taint_def res_bind_Inr_iff)

lemma seq_instruction_core: "seq_trace_instruction uc cs cf address m = Inr m' \<Longrightarrow> keeps_core m m'"
  unfolding seq_trace_instruction_def
  by (auto simp: res_bind_Inr_iff split: option.splits
      intro: keeps_core_trans [OF keeps_is_core [OF with_taint_keeps_ok [OF depth_ok_start]] observe_instruction_core])

lemma seq_mem_access_core: "seq_trace_mem_access uc cs cf access address sz value m = Inr m' \<Longrightarrow> keeps_core m m'"
  unfolding seq_trace_mem_access_def
  by (auto simp: res_bind_Inr_iff
      intro: keeps_core_trans [OF keeps_is_core [OF with_taint_keeps(5)] observe_mem_access_core])

subsection \<open>The speculation state\<close>

text \<open>
  Checkpoints, store logs and the checkpoints of the taint tracker are stacks of the same height, the
  model is in speculation exactly when they are not empty, and the height is bounded by the
  configured nesting.
\<close>

definition spec_inv :: "model_conf \<Rightarrow> ('u, 'c) x86_model \<Rightarrow> bool" where
  "spec_inv cf m \<longleftrightarrow> length (m_store_logs m) = length (m_checkpoints m) \<and>
     (m_in_speculation m \<longleftrightarrow> m_checkpoints m \<noteq> []) \<and> length (m_checkpoints m) \<le> mc_nesting cf \<and>
     taint_depth (m_taint m) \<in> {None, Some (length (m_checkpoints m))} \<and>
     (mc_execution cf = Seq \<longrightarrow> m_checkpoints m = [])"

lemma keeps_core_inv: "keeps_core m m' \<Longrightarrow> spec_inv cf m' \<longleftrightarrow> spec_inv cf m"
  by (simp add: keeps_core_def spec_inv_def)

lemma checkpoint_result:
  assumes "spec_checkpoint uc next m = Inr m'"
  shows "m_checkpoints m' = (uc_context_save uc (m_emulator m), next,
      uc_reg_read uc (m_emulator m) ''EFLAGS'', m_speculation_window m) # m_checkpoints m"
    and "m_store_logs m' = [] # m_store_logs m" and "m_in_speculation m'" and "m_emulator m' = m_emulator m"
    and "m_previous_store m' = m_previous_store m"
    and "taint_depth (m_taint m') = map_option Suc (taint_depth (m_taint m))"
  using assms
  by (auto simp: spec_checkpoint_def with_taint_def lift_taint_def taint_depth_def taint_checkpoint_def
      finalize_pending_def res_bind_Inr_iff Let_def split: taint_tracker.splits)

lemma log_store_result:
  assumes "log_store e m = Inr m'"
  obtains log logs where "m_store_logs m = log # logs" and "m' = m\<lparr>m_store_logs := (e # log) # logs\<rparr>"
  using assms by (auto simp: log_store_def split: list.splits)

lemma log_store_inv: "log_store e m = Inr m' \<Longrightarrow> spec_inv cf m' \<longleftrightarrow> spec_inv cf m"
  by (erule log_store_result) (simp add: spec_inv_def)

lemma inv_updates [simp]:
  "spec_inv cf (m\<lparr>m_emulator := u\<rparr>) = spec_inv cf m"
  "spec_inv cf (m\<lparr>m_previous_store := ps\<rparr>) = spec_inv cf m"
  "spec_inv cf (m\<lparr>m_instruction_address := ia\<rparr>) = spec_inv cf m"
  "spec_inv cf (m\<lparr>m_current_instruction := ci\<rparr>) = spec_inv cf m"
  "spec_inv cf (m\<lparr>m_speculation_window := w\<rparr>) = spec_inv cf m"
  by (simp_all add: spec_inv_def)

lemma checkpoint_inv:
  assumes "spec_checkpoint uc next m = Inr m'" and "spec_inv cf m"
    and "length (m_checkpoints m) < mc_nesting cf" and "mc_execution cf \<noteq> Seq"
  shows "spec_inv cf m'"
  using assms(2-4) checkpoint_result [OF assms(1)] by (auto simp: spec_inv_def)

lemma cond_inv:
  assumes "cond_speculate_instruction uc cf address sz m = Inr m'" and "spec_inv cf m" and "mc_execution cf \<noteq> Seq"
  shows "spec_inv cf m'"
  using assms
  by (auto simp: cond_speculate_instruction_def mispredict_def res_bind_Inr_iff Let_def split: if_splits prod.splits
      dest!: checkpoint_inv)

lemma bpas_inv:
  assumes "bpas_speculate_instruction uc cf address m = Inr m'" and "spec_inv cf m" and "mc_execution cf \<noteq> Seq"
  shows "spec_inv cf m'"
  using assms
  by (auto simp: bpas_speculate_instruction_def res_bind_Inr_iff Let_def log_store_inv split: if_splits prod.splits
      dest!: checkpoint_inv)

lemma speculate_instruction_inv:
  assumes "speculate_instruction uc cf address sz m = Inr m'" and "spec_inv cf m"
  shows "spec_inv cf m'"
proof (cases "mc_execution cf")
  case CondBpas
  with assms(1) obtain m1 where "cond_speculate_instruction uc cf address sz m = Inr m1"
    "bpas_speculate_instruction uc cf address m1 = Inr m'"
    by (auto simp: speculate_instruction_def res_bind_Inr_iff)
  with CondBpas assms(2) show ?thesis using cond_inv bpas_inv by fastforce
qed (use assms in \<open>auto simp: speculate_instruction_def null_speculate_instruction_def intro: cond_inv bpas_inv\<close>)

lemma speculate_mem_inv:
  assumes "speculate_mem_access uc cf access address sz value m = Inr m'" and "spec_inv cf m"
  shows "spec_inv cf m'"
  using assms
  by (auto simp: speculate_mem_access_def bpas_speculate_mem_access_def null_speculate_mem_access_def
      res_bind_Inr_iff Let_def log_store_inv split: execution_clause.splits if_splits option.splits
      dest!: checkpoint_inv)

lemma advance_window_inv [simp]: "spec_inv cf (advance_window uc cf' m) = spec_inv cf m"
  by (auto simp: advance_window_def Let_def split: option.splits)

lemma instruction_hook_inv:
  assumes "instruction_hook uc cs cf address sz m = Inr m'" and "spec_inv cf m"
  shows "spec_inv cf m'"
proof -
  from assms(1) obtain i where i: "mc_address_map cf (address - mc_code_start cf) = Some i"
    by (auto simp: instruction_hook_def split: option.splits)
  show ?thesis
  proof (cases "mc_execution cf = Seq")
    case True
    with assms(1) i have "keeps_core (m\<lparr>m_current_instruction := Some i\<rparr>) m'"
      by (auto simp: instruction_hook_def intro: seq_instruction_core)
    from keeps_core_inv [OF this] assms(2) show ?thesis by simp
  next
    case False
    let ?m1 = "advance_window uc cf (m\<lparr>m_current_instruction := Some i\<rparr>)"
    from False assms(1) i obtain m2 where m2: "seq_trace_instruction uc cs cf address ?m1 = Inr m2"
      and m': "speculate_instruction uc cf address sz m2 = Inr m'"
      by (auto simp: instruction_hook_def spec_trace_instruction_def res_bind_Inr_iff)
    have m1: "spec_inv cf ?m1" using assms(2) by simp
    from speculate_instruction_inv [OF m'] keeps_core_inv [OF seq_instruction_core [OF m2]] m1
    show ?thesis by simp
  qed
qed

lemma mem_hook_inv:
  assumes "trace_mem_access uc cs cf access address sz value m = Inr m'" and "spec_inv cf m"
  shows "spec_inv cf m'"
proof (cases "mc_execution cf = Seq")
  case True
  with assms have "keeps_core m m'" by (auto simp: trace_mem_access_def intro: seq_mem_access_core)
  from keeps_core_inv [OF this] assms(2) show ?thesis by simp
next
  case False
  with assms obtain m1 m2 where l: "(if access = UC_MEM_WRITE \<and> m_store_logs m \<noteq> []
        then log_store (address, uc_mem_read uc (m_emulator m) address 8) m else Inr m) = Inr m1"
    and m2: "seq_trace_mem_access uc cs cf access address sz value m1 = Inr m2"
    and m': "speculate_mem_access uc cf access address sz value m2 = Inr m'"
    by (auto simp: trace_mem_access_def spec_trace_mem_access_def res_bind_Inr_iff)
  from l assms(2) have m1: "spec_inv cf m1" by (auto simp: log_store_inv split: if_splits)
  from speculate_mem_inv [OF m'] keeps_core_inv [OF seq_mem_access_core [OF m2]] m1 show ?thesis by simp
qed

lemma rollback_inv:
  assumes "spec_rollback uc m = Inr (m', next)" and "spec_inv cf m"
  shows "spec_inv cf m' \<and> length (m_checkpoints m) = Suc (length (m_checkpoints m'))"
  using assms
  by (auto simp: spec_rollback_def spec_inv_def with_taint_def lift_taint_def taint_depth_def taint_rollback_def
      finalize_pending_def res_bind_Inr_iff Let_def split: list.splits prod.splits if_splits taint_tracker.splits)

subsection \<open>Memory and the emulator\<close>

text \<open>
  What the code relies on in Unicorn, from its documentation: reads and writes address a byte
  array, writing a register or restoring a context does not touch memory, and a restored
  context has the registers of the saved one.
\<close>

definition write_bytes :: "int \<Rightarrow> nat list \<Rightarrow> (int \<Rightarrow> nat) \<Rightarrow> int \<Rightarrow> nat" where
  "write_bytes a bs M x = (if a \<le> x \<and> x < a + int (length bs) then bs ! nat (x - a) else M x)"

definition read_bytes :: "(int \<Rightarrow> nat) \<Rightarrow> int \<Rightarrow> nat \<Rightarrow> nat list" where
  "read_bytes M a n = map (\<lambda>i. M (a + int i)) [0..<n]"

definition undo_log :: "(int \<times> nat list) list \<Rightarrow> (int \<Rightarrow> nat) \<Rightarrow> (int \<Rightarrow> nat)" where
  "undo_log log M = fold (\<lambda>(a, bs) M. write_bytes a bs M) log M"

text \<open>The memories to which the pending rollbacks will return, the next one first.\<close>

fun restore_points :: "(int \<times> nat list) list list \<Rightarrow> (int \<Rightarrow> nat) \<Rightarrow> (int \<Rightarrow> nat) list" where
  "restore_points [] M = []"
| "restore_points (log # logs) M = undo_log log M # restore_points logs (undo_log log M)"

text \<open>The memory after a store hook: the bytes of the store are written, nothing else changes.\<close>

definition store_effect :: "mem_access \<Rightarrow> int \<Rightarrow> nat \<Rightarrow> int \<Rightarrow> (int \<Rightarrow> nat) \<Rightarrow> (int \<Rightarrow> nat)" where
  "store_effect access a sz value M =
     (if access = UC_MEM_WRITE then write_bytes a (little_bytes sz value) M else M)"

lemma length_little_bytes [simp]: "length (little_bytes n v) = n"
  by (induction n arbitrary: v) auto

lemma write_read_same: "write_bytes a (read_bytes M a n) M = M"
  by (auto simp: write_bytes_def read_bytes_def fun_eq_iff)

lemma length_read_bytes [simp]: "length (read_bytes M a n) = n"
  by (simp add: read_bytes_def)

text \<open>Eight saved bytes undo every store of at most eight bytes at the same address.\<close>

lemma write_bytes_undo:
  assumes "length bs \<le> n"
  shows "write_bytes a (read_bytes M a n) (write_bytes a bs M) = M"
  using assms by (auto simp: write_bytes_def read_bytes_def fun_eq_iff)

lemma write_bytes_redo:
  assumes "read_bytes M a (length bs) = bs" and "length old = length bs"
  shows "write_bytes a bs (write_bytes a old M) = M"
proof
  fix x
  show "write_bytes a bs (write_bytes a old M) x = M x"
  proof (cases "a \<le> x \<and> x < a + int (length bs)")
    case True
    then have k: "nat (x - a) < length bs" by linarith
    have "bs ! nat (x - a) = read_bytes M a (length bs) ! nat (x - a)" using assms(1) by simp
    also have "\<dots> = M (a + int (nat (x - a)))" using k by (simp add: read_bytes_def)
    finally have "bs ! nat (x - a) = M (a + int (nat (x - a)))" .
    with True show ?thesis by (simp add: write_bytes_def)
  qed (use assms(2) in \<open>auto simp: write_bytes_def\<close>)
qed

lemma read_write_same:
  "read_bytes (write_bytes a bs M) a (length bs) = bs"
  by (rule nth_equalityI) (auto simp: read_bytes_def write_bytes_def)

lemma cond_speculate_cases:
  assumes "cond_speculate_instruction uc cf address sz m = Inr m'"
  shows "m' = m \<or> (\<exists>u nxt m1 rip.
    (u = m_emulator m \<or> (\<exists>v. u = uc_reg_write uc (m_emulator m) ''RCX'' v)) \<and>
    spec_checkpoint uc nxt (m\<lparr>m_emulator := u\<rparr>) = Inr m1 \<and>
    m' = m1\<lparr>m_emulator := uc_reg_write uc (m_emulator m1) ''RIP'' rip\<rparr>)"
proof (cases "mc_nesting cf \<le> length (m_checkpoints m)")
  case True
  with assms show ?thesis by (simp add: cond_speculate_instruction_def)
next
  case False
  with assms obtain decoded where "mispredict uc address sz (uc_reg_read uc (m_emulator m) ''RCX'') decoded m = Inr m'"
    by (auto simp: cond_speculate_instruction_def res_bind_Inr_iff Let_def)
  moreover obtain t w l where d: "decoded = (t, w, l)" by (cases decoded)
  moreover define u where "u = (if l
    then uc_reg_write uc (m_emulator m) ''RCX'' (uc_reg_read uc (m_emulator m) ''RCX'' - 1) else m_emulator m)"
  ultimately have "m' = m \<or> (\<exists>m1. spec_checkpoint uc (if w then address + int sz + t else address + int sz)
      (m\<lparr>m_emulator := u\<rparr>) = Inr m1 \<and>
    m' = m1\<lparr>m_emulator := uc_reg_write uc (m_emulator m1) ''RIP''
      (if w then address + int sz else address + int sz + t)\<rparr>)"
    unfolding mispredict_def Let_def d prod.case u_def [symmetric]
    by (cases "t = 0") (auto simp only: simp_thms if_True if_False res_bind_Inr_iff sum.inject)
  moreover have "u = m_emulator m \<or> (\<exists>v. u = uc_reg_write uc (m_emulator m) ''RCX'' v)"
    by (auto simp: u_def)
  ultimately show ?thesis by blast
qed

text \<open>
  The steps of an emulated run: the emulator reaches the next instruction (only registers change) and
  calls the code hook; it announces a memory access of at most eight bytes to the memory hook
  and then performs it, still at the same opcode; or, having stopped, the model rolls back.
  \<open>depth\<close> is a number of checkpoints that the run does not go below.
\<close>

definition opcode_at :: "('u, 'c) unicorn \<Rightarrow> ('u \<Rightarrow> int \<Rightarrow> nat) \<Rightarrow> 'u \<Rightarrow> nat" where
  "opcode_at uc mem u = mem u (uc_reg_read uc u ''RIP'')"

inductive spec_run :: "('u, 'c) unicorn \<Rightarrow> capstone \<Rightarrow> model_conf \<Rightarrow> ('u \<Rightarrow> int \<Rightarrow> nat) \<Rightarrow> nat \<Rightarrow>
    ('u, 'c) x86_model \<Rightarrow> ('u, 'c) x86_model \<Rightarrow> bool"
  for uc cs cf mem depth m0 where
  start: "spec_run uc cs cf mem depth m0 m0"
| instruction: "spec_run uc cs cf mem depth m0 m \<Longrightarrow> mem u = mem (m_emulator m) \<Longrightarrow>
    instruction_hook uc cs cf address sz (m\<lparr>m_emulator := u\<rparr>) = Inr m' \<Longrightarrow>
    spec_run uc cs cf mem depth m0 m'"
| access: "spec_run uc cs cf mem depth m0 m \<Longrightarrow>
    trace_mem_access uc cs cf access address sz v m = Inr m' \<Longrightarrow> sz \<le> 8 \<Longrightarrow>
    mem u = store_effect access address sz v (mem (m_emulator m')) \<Longrightarrow>
    opcode_at uc mem u = opcode_at uc mem (m_emulator m) \<Longrightarrow>
    spec_run uc cs cf mem depth m0 (m'\<lparr>m_emulator := u\<rparr>)"
| rollback: "spec_run uc cs cf mem depth m0 m \<Longrightarrow> depth < length (m_checkpoints m) \<Longrightarrow>
    spec_rollback uc m = Inr (m', nxt) \<Longrightarrow> spec_run uc cs cf mem depth m0 m'"

lemma spec_run_inv:
  assumes "spec_run uc cs cf mem depth m0 m" and "spec_inv cf m0"
  shows "spec_inv cf m"
  using assms
proof (induction rule: spec_run.induct)
  case (instruction m u address sz m')
  then show ?case using instruction_hook_inv by fastforce
next
  case (access m acc address sz v m' u)
  then show ?case using mem_hook_inv by fastforce
next
  case (rollback m m' nxt)
  then show ?case using rollback_inv by blast
qed

locale unicorn_memory =
  fixes uc :: "('u, 'c) unicorn"
    and mem :: "'u \<Rightarrow> int \<Rightarrow> nat"
  assumes mem_read: "uc_mem_read uc u a n = read_bytes (mem u) a n"
    and mem_write: "mem (uc_mem_write uc u a bs) = write_bytes a bs (mem u)"
    and reg_write_mem: "mem (uc_reg_write uc u r v) = mem u"
    and context_restore_mem: "mem (uc_context_restore uc u c) = mem u"
    and emu_stop_mem: "mem (uc_emu_stop uc u) = mem u"
    and mem_write_regs: "uc_reg_read uc (uc_mem_write uc u a bs) r = uc_reg_read uc u r"
    and reg_write_same: "uc_reg_read uc (uc_reg_write uc u ''EFLAGS'' v) ''EFLAGS'' = v"
    and context_regs: "uc_reg_read uc (uc_context_restore uc u (uc_context_save uc w)) r = uc_reg_read uc w r"
begin

abbreviation memory :: "('u, 'c) x86_model \<Rightarrow> int \<Rightarrow> nat" where
  "memory m \<equiv> mem (m_emulator m)"

abbreviation points :: "('u, 'c) x86_model \<Rightarrow> (int \<Rightarrow> nat) list" where
  "points m \<equiv> restore_points (m_store_logs m) (memory m)"

text \<open>
  The store that may be bypassed next is in memory, and was made by an instruction whose opcode is not
  one of the ignored ones; the other clauses have no such store.
\<close>

definition pending_mem :: "model_conf \<Rightarrow> ('u, 'c) x86_model \<Rightarrow> bool" where
  "pending_mem cf m \<longleftrightarrow>
     (case m_previous_store m of (a, sz, old, v) \<Rightarrow>
        a \<noteq> 0 \<and> length (m_checkpoints m) < mc_nesting cf \<longrightarrow>
        length old = sz \<and> read_bytes (memory m) a sz = little_bytes sz v)"

definition pending_ok :: "model_conf \<Rightarrow> ('u, 'c) x86_model \<Rightarrow> bool" where
  "pending_ok cf m \<longleftrightarrow>
     (if mc_execution cf \<in> {Bpas, CondBpas}
      then pending_mem cf m \<and> (fst (m_previous_store m) \<noteq> 0 \<and> length (m_checkpoints m) < mc_nesting cf \<longrightarrow>
        opcode_at uc mem (m_emulator m) \<notin> set call_opcodes)
      else fst (m_previous_store m) = 0)"

lemma undo_stores_mem: "mem (undo_stores uc log u) = undo_log log (mem u)"
  unfolding undo_stores_def undo_log_def
  by (induction log arbitrary: u) (auto simp: mem_write)

text \<open>A rollback brings back the first restore point and keeps the others.\<close>

lemma rollback_memory:
  assumes "spec_rollback uc m = Inr (m', next)"
  shows "points m = memory m' # points m' \<and> m_previous_store m' = (0, 0, [], 0)"
  using assms
  by (auto simp: spec_rollback_def Let_def res_bind_Inr_iff undo_stores_mem reg_write_mem context_restore_mem
      split: list.splits prod.splits if_splits dest!: with_taint_only)

lemma checkpoint_points:
  assumes "spec_checkpoint uc next m = Inr m'"
  shows "points m' = memory m # points m" and "memory m' = memory m"
  using checkpoint_result [OF assms] by (simp_all add: undo_log_def)

text \<open>
  Each speculation step adds restore points that are the memory before it, and keeps the
  others: \<open>adds_points\<close>.
\<close>

definition adds_points :: "('u, 'c) x86_model \<Rightarrow> ('u, 'c) x86_model \<Rightarrow> bool" where
  "adds_points m m' \<longleftrightarrow> (\<exists>k. length (m_checkpoints m') = k + length (m_checkpoints m) \<and>
     points m' = replicate k (memory m) @ points m)"

lemma adds_points_same:
  "points m' = points m \<Longrightarrow> m_checkpoints m' = m_checkpoints m \<Longrightarrow> adds_points m m'"
  by (auto simp: adds_points_def intro!: exI [of _ 0])

lemma cond_points:
  assumes "cond_speculate_instruction uc cf address sz m = Inr m'"
  shows "adds_points m m' \<and> memory m' = memory m \<and> m_previous_store m' = m_previous_store m"
proof (cases "m' = m")
  case True
  then show ?thesis by (simp add: adds_points_same)
next
  case False
  then obtain u nxt m1 rip where u: "u = m_emulator m \<or> (\<exists>v. u = uc_reg_write uc (m_emulator m) ''RCX'' v)"
    and m1: "spec_checkpoint uc nxt (m\<lparr>m_emulator := u\<rparr>) = Inr m1"
    and m': "m' = m1\<lparr>m_emulator := uc_reg_write uc (m_emulator m1) ''RIP'' rip\<rparr>"
    using cond_speculate_cases [OF assms] by blast
  have "mem u = memory m" using u by (auto simp: reg_write_mem)
  with checkpoint_points [OF m1] checkpoint_result [OF m1] have
    "points m1 = memory m # points m" "memory m1 = memory m" "length (m_checkpoints m1) = 1 + length (m_checkpoints m)"
    "m_previous_store m1 = m_previous_store m"
    by simp_all
  with m' show ?thesis by (auto simp: adds_points_def reg_write_mem intro!: exI [of _ 1])
qed

lemma bpas_points:
  assumes "bpas_speculate_instruction uc cf address m = Inr m'" and "pending_mem cf m"
  shows "adds_points m m' \<and> (length (m_checkpoints m) < mc_nesting cf \<longrightarrow> fst (m_previous_store m') = 0)"
proof (cases "mc_nesting cf \<le> length (m_checkpoints m)")
  case True
  with assms(1) show ?thesis by (auto simp: bpas_speculate_instruction_def adds_points_same)
next
  case False
  obtain a sz old v where ps: "m_previous_store m = (a, sz, old, v)" by (cases "m_previous_store m") auto
  show ?thesis
  proof (cases "a = 0")
    case True
    with False ps assms(1) show ?thesis by (auto simp: bpas_speculate_instruction_def adds_points_same)
  next
    case a: False
    with False ps assms(1) obtain new m1 m2 where new: "to_bytes sz v = Inr new"
      and m1: "spec_checkpoint uc address m = Inr m1"
      and m2: "log_store (a, new) (m1\<lparr>m_emulator := uc_mem_write uc (m_emulator m1) a old\<rparr>) = Inr m2"
      and m': "m' = m2\<lparr>m_previous_store := (0, 0, [], 0)\<rparr>"
      by (auto simp: bpas_speculate_instruction_def res_bind_Inr_iff)
    from new have new': "new = little_bytes sz v" by (auto simp: to_bytes_def split: if_splits)
    note c = checkpoint_result [OF m1]
    from m2 c(2) have logs: "m_store_logs m2 = [(a, new)] # m_store_logs m"
      and m2': "m_emulator m2 = uc_mem_write uc (m_emulator m1) a old" "m_checkpoints m2 = m_checkpoints m1"
      by (auto elim!: log_store_result)
    have "write_bytes a new (write_bytes a old (memory m)) = memory m"
      using assms(2) ps a False new' by (intro write_bytes_redo) (auto simp: pending_mem_def)
    then have "points m' = memory m # points m"
      using m' logs m2' c(4) by (simp add: undo_log_def mem_write)
    then show ?thesis using m' m2' c(1) by (auto simp: adds_points_def intro!: exI [of _ 1])
  qed
qed

lemma adds_points_trans:
  "adds_points m m1 \<Longrightarrow> adds_points m1 m2 \<Longrightarrow> memory m1 = memory m \<Longrightarrow> adds_points m m2"
proof -
  assume "adds_points m m1" "adds_points m1 m2" "memory m1 = memory m"
  then obtain k j where "length (m_checkpoints m2) = (j + k) + length (m_checkpoints m)"
    "points m2 = replicate (j + k) (memory m) @ points m"
    by (auto simp: adds_points_def replicate_add)
  then show ?thesis by (auto simp: adds_points_def)
qed

lemma adds_points_cong:
  "m_store_logs m1 = m_store_logs m \<Longrightarrow> memory m1 = memory m \<Longrightarrow> m_checkpoints m1 = m_checkpoints m \<Longrightarrow>
   adds_points m1 m' = adds_points m m'"
  by (simp add: adds_points_def)

lemma pending_mem_cong:
  "memory m1 = memory m \<Longrightarrow> m_checkpoints m1 = m_checkpoints m \<Longrightarrow> m_previous_store m1 = m_previous_store m \<Longrightarrow>
   pending_mem cf m1 = pending_mem cf m"
  by (simp add: pending_mem_def)

lemma keeps_core_points:
  "keeps_core m m' \<Longrightarrow> m_store_logs m' = m_store_logs m \<and> memory m' = memory m \<and> m_checkpoints m' = m_checkpoints m \<and>
     m_previous_store m' = m_previous_store m"
  by (simp add: keeps_core_def)

lemma advance_window_points:
  "m_store_logs (advance_window uc cf m) = m_store_logs m \<and> memory (advance_window uc cf m) = memory m \<and>
   m_checkpoints (advance_window uc cf m) = m_checkpoints m \<and>
   m_previous_store (advance_window uc cf m) = m_previous_store m"
  by (auto simp: advance_window_def Let_def emu_stop_mem split: option.splits)

lemma speculate_instruction_points:
  assumes "speculate_instruction uc cf address sz m = Inr m'" and "mc_execution cf \<noteq> Seq"
    and "if mc_execution cf \<in> {Bpas, CondBpas} then pending_mem cf m else fst (m_previous_store m) = 0"
  shows "adds_points m m' \<and> pending_ok cf m'"
proof (cases "mc_execution cf")
  case CondBpas
  with assms(1) obtain m1 where m1: "cond_speculate_instruction uc cf address sz m = Inr m1"
    and m': "bpas_speculate_instruction uc cf address m1 = Inr m'"
    by (auto simp: speculate_instruction_def res_bind_Inr_iff)
  note c = cond_points [OF m1]
  then have "pending_mem cf m1" using assms(3) CondBpas
    by (auto simp: pending_mem_def adds_points_def split: prod.splits)
  note b = bpas_points [OF m' this]
  then have "length (m_checkpoints m1) \<le> length (m_checkpoints m')" by (auto simp: adds_points_def)
  with b c CondBpas show ?thesis
    by (auto simp: pending_ok_def pending_mem_def intro: adds_points_trans split: prod.splits)
next
  case Bpas
  with assms have m': "bpas_speculate_instruction uc cf address m = Inr m'" and p: "pending_mem cf m"
    by (auto simp: speculate_instruction_def)
  note b = bpas_points [OF this]
  then have "length (m_checkpoints m) \<le> length (m_checkpoints m')" by (auto simp: adds_points_def)
  with b Bpas show ?thesis by (auto simp: pending_ok_def pending_mem_def split: prod.splits)
next
  case Cond
  with assms cond_points show ?thesis by (auto simp: speculate_instruction_def pending_ok_def)
next
  case Null
  with assms show ?thesis
    by (auto simp: speculate_instruction_def null_speculate_instruction_def pending_ok_def intro: adds_points_same)
qed (use assms in simp)

lemma instruction_hook_points:
  assumes "instruction_hook uc cs cf address sz (m\<lparr>m_emulator := u\<rparr>) = Inr m'" and "mem u = memory m"
    and "pending_ok cf m"
  shows "adds_points m m' \<and> pending_ok cf m'"
proof -
  let ?m = "m\<lparr>m_emulator := u\<rparr>"
  from assms(1) obtain i where i: "mc_address_map cf (address - mc_code_start cf) = Some i"
    by (auto simp: instruction_hook_def split: option.splits)
  let ?m1 = "?m\<lparr>m_current_instruction := Some i\<rparr>"
  show ?thesis
  proof (cases "mc_execution cf = Seq")
    case True
    with assms(1) i have "keeps_core ?m1 m'" by (auto simp: instruction_hook_def intro: seq_instruction_core)
    from keeps_core_points [OF this] assms(2,3) True show ?thesis
      by (auto simp: pending_ok_def intro: adds_points_same)
  next
    case False
    with assms(1) i obtain m3 where m3: "seq_trace_instruction uc cs cf address (advance_window uc cf ?m1) = Inr m3"
      and m': "speculate_instruction uc cf address sz m3 = Inr m'"
      by (auto simp: instruction_hook_def spec_trace_instruction_def res_bind_Inr_iff)
    from keeps_core_points [OF seq_instruction_core [OF m3]] advance_window_points [of cf ?m1] assms(2)
    have same: "m_store_logs m3 = m_store_logs m" "memory m3 = memory m" "m_checkpoints m3 = m_checkpoints m"
      "m_previous_store m3 = m_previous_store m" by simp_all
    with assms(3) have "if mc_execution cf \<in> {Bpas, CondBpas} then pending_mem cf m3 else fst (m_previous_store m3) = 0"
      using pending_mem_cong [of m3 m cf] by (auto simp: pending_ok_def)
    from speculate_instruction_points [OF m' False this] adds_points_cong [OF same(1-3)] show ?thesis by simp
  qed
qed

text \<open>A logged store does not move any restore point.\<close>

lemma logged_store_points:
  assumes "m_store_logs m1 = ((a, read_bytes (memory m) a 8) # log) # logs" and "m_store_logs m = log # logs"
    and "mem u = store_effect UC_MEM_WRITE a sz v (memory m)" and "sz \<le> 8"
  shows "restore_points (m_store_logs m1) (mem u) = points m"
  using assms by (simp add: undo_log_def store_effect_def write_bytes_undo)

lemma null_points:
  assumes "null_speculate_mem_access uc cf access address sz m = Inr m'" and "sz \<le> 8"
  shows "adds_points m m' \<and> m_previous_store m' = m_previous_store m"
proof (cases "m' = m")
  case True
  then show ?thesis by (simp add: adds_points_same)
next
  case False
  with assms(1) obtain nxt m1 m2 where m1: "spec_checkpoint uc nxt m = Inr m1"
    and m2: "log_store (address, uc_mem_read uc (m_emulator m1) address 8) m1 = Inr m2"
    and m': "m' = m2\<lparr>m_emulator := uc_mem_write uc (m_emulator m2) address (replicate sz 0)\<rparr>"
    by (auto simp: null_speculate_mem_access_def res_bind_Inr_iff split: if_splits option.splits)
  note c = checkpoint_result [OF m1]
  from m2 c have e: "m_store_logs m2 = [(address, read_bytes (memory m) address 8)] # m_store_logs m"
    "m_emulator m2 = m_emulator m" "m_checkpoints m2 = m_checkpoints m1" "m_previous_store m2 = m_previous_store m"
    by (auto simp: mem_read elim!: log_store_result)
  have "points m' = memory m # points m"
    using m' e assms(2) by (simp add: undo_log_def mem_write write_bytes_undo)
  with m' e c(1) show ?thesis by (auto simp: adds_points_def intro!: exI [of _ 1])
qed

lemma write_speculation:
  assumes "speculate_mem_access uc cf access address sz v m = Inr m'" and "access = UC_MEM_WRITE"
    and "mc_execution cf \<noteq> Seq"
  shows "m_emulator m' = m_emulator m \<and> m_checkpoints m' = m_checkpoints m \<and> m_store_logs m' = m_store_logs m \<and>
    m_previous_store m' =
      (if mc_execution cf \<in> {Bpas, CondBpas} \<and> opcode_at uc mem (m_emulator m) \<notin> set call_opcodes
       then (address, sz, read_bytes (memory m) address sz, v) else m_previous_store m)"
  using assms
  by (auto simp: speculate_mem_access_def bpas_speculate_mem_access_def null_speculate_mem_access_def Let_def
      mem_read read_bytes_def opcode_at_def split: execution_clause.splits if_splits)

lemma mem_hook_points:
  assumes h: "trace_mem_access uc cs cf access address sz v m = Inr m'" and sz: "sz \<le> 8"
    and u: "mem u = store_effect access address sz v (memory m')"
    and op: "opcode_at uc mem u = opcode_at uc mem (m_emulator m)"
    and inv: "spec_inv cf m" and p: "pending_ok cf m"
  shows "adds_points m (m'\<lparr>m_emulator := u\<rparr>) \<and> pending_ok cf (m'\<lparr>m_emulator := u\<rparr>)"
proof (cases "mc_execution cf = Seq")
  case True
  with h have "keeps_core m m'" by (auto simp: trace_mem_access_def intro: seq_mem_access_core)
  with True inv p show ?thesis
    by (auto simp: spec_inv_def keeps_core_def pending_ok_def intro!: adds_points_same)
next
  case False
  with h obtain m1 m2 where l: "(if access = UC_MEM_WRITE \<and> m_store_logs m \<noteq> []
        then log_store (address, uc_mem_read uc (m_emulator m) address 8) m else Inr m) = Inr m1"
    and m2: "seq_trace_mem_access uc cs cf access address sz v m1 = Inr m2"
    and m': "speculate_mem_access uc cf access address sz v m2 = Inr m'"
    by (auto simp: trace_mem_access_def spec_trace_mem_access_def res_bind_Inr_iff)
  show ?thesis
  proof (cases access)
    case UC_MEM_READ
    with l have m1: "m1 = m" by simp
    note same = keeps_core_points [OF seq_mem_access_core [OF m2 [unfolded m1]]]
    have u': "mem u = memory m'" using u UC_MEM_READ by (simp add: store_effect_def)
    show ?thesis
    proof (cases "mc_execution cf = Null")
      case True
      with m' UC_MEM_READ null_points [OF _ sz] have n: "adds_points m2 m'" "m_previous_store m' = m_previous_store m2"
        by (auto simp: speculate_mem_access_def)
      from n(1) adds_points_cong [of m2 m m'] same have "adds_points m m'" by simp
      moreover have "adds_points m (m'\<lparr>m_emulator := u\<rparr>) = adds_points m m'" using u' by (simp add: adds_points_def)
      ultimately show ?thesis using n(2) same p True by (simp add: pending_ok_def)
    next
      case False
      with m' UC_MEM_READ \<open>mc_execution cf \<noteq> Seq\<close> have "m' = m2"
        by (auto simp: speculate_mem_access_def bpas_speculate_mem_access_def split: execution_clause.splits)
      with same u' op p show ?thesis
        by (auto simp: pending_ok_def pending_mem_def intro!: adds_points_same)
    qed
  next
    case UC_MEM_WRITE
    have emu1: "m_emulator m1 = m_emulator m" "m_checkpoints m1 = m_checkpoints m" "m_previous_store m1 = m_previous_store m"
      using l by (auto split: if_splits elim!: log_store_result)
    note core = seq_mem_access_core [OF m2, unfolded keeps_core_def]
    from write_speculation [OF m' UC_MEM_WRITE False] core emu1 have
      emu': "m_emulator m' = m_emulator m" "m_checkpoints m' = m_checkpoints m" "m_store_logs m' = m_store_logs m1"
      and prev: "m_previous_store m' =
        (if mc_execution cf \<in> {Bpas, CondBpas} \<and> opcode_at uc mem (m_emulator m) \<notin> set call_opcodes
         then (address, sz, read_bytes (memory m) address sz, v) else m_previous_store m)"
      by simp_all
    have "restore_points (m_store_logs m1) (mem u) = points m"
    proof (cases "m_store_logs m")
      case Nil
      with l show ?thesis by simp
    next
      case (Cons log logs)
      with l UC_MEM_WRITE have "m_store_logs m1 = ((address, read_bytes (memory m) address 8) # log) # logs"
        by (auto simp: log_store_def mem_read)
      from logged_store_points [OF this Cons _ sz] u UC_MEM_WRITE emu' show ?thesis by simp
    qed
    with emu' have "adds_points m (m'\<lparr>m_emulator := u\<rparr>)" by (intro adds_points_same) simp_all
    moreover have "read_bytes (mem u) address sz = little_bytes sz v"
      using u UC_MEM_WRITE read_write_same [of address "little_bytes sz v"] by (simp add: store_effect_def)
    ultimately show ?thesis using prev op p emu'
      by (auto simp: pending_ok_def pending_mem_def split: if_splits prod.splits)
  qed
qed

lemma length_points: "length (restore_points logs M) = length logs"
  by (induction logs arbitrary: M) auto

lemma adds_points_drop:
  assumes "adds_points m m'" and "depth \<le> length (m_checkpoints m)"
  shows "depth \<le> length (m_checkpoints m') \<and>
    drop (length (m_checkpoints m') - depth) (points m') = drop (length (m_checkpoints m) - depth) (points m)"
  using assms by (auto simp: adds_points_def drop_append)

text \<open>A run that does not go below \<open>depth\<close> checkpoints keeps the lowest \<open>depth\<close> restore points.\<close>

lemma run_points:
  assumes "spec_run uc cs cf mem depth m0 m" and "spec_inv cf m0" and "pending_ok cf m0"
    and "depth \<le> length (m_checkpoints m0)"
  shows "pending_ok cf m \<and> depth \<le> length (m_checkpoints m) \<and>
    drop (length (m_checkpoints m) - depth) (points m) = drop (length (m_checkpoints m0) - depth) (points m0)"
  using assms
proof (induction rule: spec_run.induct)
  case start
  then show ?case by simp
next
  case (instruction m u address sz m')
  then show ?case
    using instruction_hook_points [OF instruction.hyps(3,2)] adds_points_drop by fastforce
next
  case (access m acc address sz v m' u)
  have "spec_inv cf m" using spec_run_inv [OF access.hyps(1)] access.prems by simp
  then show ?case
    using mem_hook_points [OF access.hyps(2-5)] adds_points_drop [of m "m'\<lparr>m_emulator := u\<rparr>" depth] access by simp
next
  case (rollback m m' nxt)
  have inv: "spec_inv cf m" using spec_run_inv [OF rollback.hyps(1)] rollback.prems by simp
  note r = rollback_memory [OF rollback.hyps(3)] and l = rollback_inv [OF rollback.hyps(3) inv]
  have "length (m_checkpoints m) - depth = Suc (length (m_checkpoints m') - depth)"
    using rollback.hyps(2) l by simp
  with r l rollback show ?case by (auto simp: pending_ok_def pending_mem_def)
qed

text \<open>A hook that takes a checkpoint makes the memory before it the topmost restore point.\<close>

lemma hook_restore:
  assumes a: "adds_points m m1" and inv: "spec_inv cf m" "spec_inv cf m1" and p: "pending_ok cf m1"
    and n: "length (m_checkpoints m) < length (m_checkpoints m1)"
    and run: "spec_run uc cs cf mem (Suc (length (m_checkpoints m))) m1 m2"
    and len: "length (m_checkpoints m2) = Suc (length (m_checkpoints m))"
    and rb: "spec_rollback uc m2 = Inr (m3, nxt)"
  shows "memory m3 = memory m \<and> points m3 = points m"
proof -
  let ?n = "length (m_checkpoints m)"
  have d: "drop (length (m_checkpoints m2) - Suc ?n) (points m2) = drop (length (m_checkpoints m1) - Suc ?n) (points m1)"
    using run_points [OF run inv(2) p] n by simp
  from a obtain k where k: "length (m_checkpoints m1) = k + ?n" "points m1 = replicate k (memory m) @ points m"
    by (auto simp: adds_points_def)
  with n obtain j where "k = Suc j" by (cases k) auto
  with k have "drop (length (m_checkpoints m1) - Suc ?n) (points m1) = memory m # points m"
    by (simp add: replicate_append_same [symmetric])
  with d len have "points m2 = memory m # points m" by simp
  moreover have "points m2 = memory m3 # points m3" using rollback_memory [OF rb] by blast
  ultimately have "memory m3 # points m3 = memory m # points m" by (simp only:)
  then show ?thesis unfolding list.inject .
qed

end

definition clean_model :: "('u, 'c) x86_model \<Rightarrow> bool" where
  "clean_model m \<longleftrightarrow> m_checkpoints m = [] \<and> m_store_logs m = [] \<and> \<not> m_in_speculation m \<and>
     fst (m_previous_store m) = 0 \<and> taint_depth (m_taint m) \<in> {None, Some 0}"

lemma clean_model_inv: "clean_model m \<Longrightarrow> spec_inv cf m"
  by (auto simp: clean_model_def spec_inv_def)

text \<open>One hook with what the emulator does around it, as in \<open>spec_run\<close>.\<close>

definition hook_step :: "('u, 'c) unicorn \<Rightarrow> capstone \<Rightarrow> model_conf \<Rightarrow> ('u \<Rightarrow> int \<Rightarrow> nat) \<Rightarrow>
    ('u, 'c) x86_model \<Rightarrow> ('u, 'c) x86_model \<Rightarrow> bool" where
  "hook_step uc cs cf mem m m' \<longleftrightarrow>
     (\<exists>u address sz. mem u = mem (m_emulator m) \<and>
        instruction_hook uc cs cf address sz (m\<lparr>m_emulator := u\<rparr>) = Inr m') \<or>
     (\<exists>m1 u access address sz v. trace_mem_access uc cs cf access address sz v m = Inr m1 \<and> sz \<le> 8 \<and>
        mem u = store_effect access address sz v (mem (m_emulator m1)) \<and>
        opcode_at uc mem u = opcode_at uc mem (m_emulator m) \<and> m' = m1\<lparr>m_emulator := u\<rparr>)"

subsection \<open>Properties\<close>

text \<open>
  C1. Speculation is undone in memory, for every execution clause: when a hook takes a checkpoint (a mispredicted
  branch, a bypassed store, a zeroed load), then whatever the emulator executes on the wrong
  path, with nested checkpoints and rollbacks, and however many stores of up to eight bytes
  it makes, the rollback of that checkpoint leaves the memory exactly as it was when the hook was
  called.
\<close>

theorem speculation_restores_memory:
  assumes "unicorn_memory uc mem" and "clean_model m0" and "spec_run uc cs cf mem 0 m0 m"
    and "hook_step uc cs cf mem m m1" and "length (m_checkpoints m) < length (m_checkpoints m1)"
    and "spec_run uc cs cf mem (Suc (length (m_checkpoints m))) m1 m2"
    and "length (m_checkpoints m2) = Suc (length (m_checkpoints m))"
    and "spec_rollback uc m2 = Inr (m3, nxt)"
  shows "mem (m_emulator m3) = mem (m_emulator m) \<and> length (m_checkpoints m3) = length (m_checkpoints m)"
proof -
  note inv0 = clean_model_inv [OF assms(2)]
  have p0: "unicorn_memory.pending_ok uc mem cf m0"
    using assms(2) by (auto simp: unicorn_memory.pending_ok_def [OF assms(1)]
        unicorn_memory.pending_mem_def [OF assms(1)] clean_model_def)
  have inv: "spec_inv cf m" by (rule spec_run_inv [OF assms(3) inv0])
  have p: "unicorn_memory.pending_ok uc mem cf m"
    using unicorn_memory.run_points [OF assms(1,3) inv0 p0] by simp
  have a: "unicorn_memory.adds_points mem m m1 \<and> unicorn_memory.pending_ok uc mem cf m1 \<and> spec_inv cf m1"
    using assms(4) unfolding hook_step_def
  proof (elim disjE exE conjE)
    fix u address sz
    assume "mem u = mem (m_emulator m)" "instruction_hook uc cs cf address sz (m\<lparr>m_emulator := u\<rparr>) = Inr m1"
    then show ?thesis
      using unicorn_memory.instruction_hook_points [OF assms(1) _ _ p] instruction_hook_inv inv by fastforce
  next
    fix m1' u access address sz v
    assume "trace_mem_access uc cs cf access address sz v m = Inr m1'" "sz \<le> 8"
      "mem u = store_effect access address sz v (mem (m_emulator m1'))"
      "opcode_at uc mem u = opcode_at uc mem (m_emulator m)" "m1 = m1'\<lparr>m_emulator := u\<rparr>"
    then show ?thesis
      using unicorn_memory.mem_hook_points [OF assms(1) _ _ _ _ inv p] mem_hook_inv [OF _ inv] by fastforce
  qed
  from unicorn_memory.hook_restore [OF assms(1) _ inv _ _ assms(5-8)] a
  have "mem (m_emulator m3) = mem (m_emulator m)" by blast
  moreover have "spec_inv cf m2" using spec_run_inv [OF assms(6)] a by blast
  then have "length (m_checkpoints m3) = length (m_checkpoints m)"
    using rollback_inv [OF assms(8)] assms(7) by simp
  ultimately show ?thesis by simp
qed

text \<open>An emulator with one register file and one byte array, for the examples.\<close>

record flat =
  fl_regs :: "string \<Rightarrow> int"
  fl_ram :: "int \<Rightarrow> nat"

definition flat_uc :: "(flat, string \<Rightarrow> int) unicorn" where
  "flat_uc = \<lparr>uc_has_reg = \<lambda>_. True, uc_reg_read = fl_regs,
     uc_reg_write = \<lambda>u r v. u\<lparr>fl_regs := (fl_regs u)(r := v)\<rparr>,
     uc_mem_read = \<lambda>u a n. read_bytes (fl_ram u) a n,
     uc_mem_write = \<lambda>u a bs. u\<lparr>fl_ram := write_bytes a bs (fl_ram u)\<rparr>,
     uc_context_save = fl_regs, uc_context_restore = \<lambda>u c. u\<lparr>fl_regs := c\<rparr>, uc_emu_stop = \<lambda>u. u\<rparr>"

interpretation flat: unicorn_memory flat_uc fl_ram
  by unfold_locales (simp_all add: flat_uc_def)

text \<open>The example: a taken \<open>JZ +5\<close> at \<open>0x100\<close>, and on the wrong path a store of eight bytes at \<open>0x1000\<close>.\<close>

definition ex_flat :: flat where
  "ex_flat = \<lparr>fl_regs = (\<lambda>_. 0)(''EFLAGS'' := 0x40, ''RIP'' := 0x100),
     fl_ram = (\<lambda>_. 0)(0x100 := 0x74, 0x101 := 5)\<rparr>"

definition ex_spec_conf :: model_conf where
  "ex_spec_conf = ex_conf\<lparr>mc_execution := Cond\<rparr>"

definition ex_spec_model :: "(flat, string \<Rightarrow> int) x86_model" where
  "ex_spec_model = \<lparr>m_emulator = ex_flat, m_tracer = new_tracer CT, m_taint = DummyTaintTracker,
     m_current_instruction = None, m_in_speculation = False, m_speculation_window = 0,
     m_checkpoints = [], m_store_logs = [], m_previous_store = (0, 0, [], 0),
     m_latest_rollback_address = 0, m_instruction_address = None\<rparr>"

lemma ex_jz_code: "uc_mem_read flat_uc ex_flat 0x100 2 = [0x74, 5]"
  by (simp add: flat_uc_def ex_flat_def read_bytes_def upt_rec numeral_2_eq_2)

lemma ex_jz_decode: "decode [0x74, 5] 0x40 r = Inr (5, True, False)"
  by (simp add: decode_def jumps_def FLAGS_ZF_def)

lemma ex_jz_hook:
  "\<exists>m1. instruction_hook flat_uc ex_cs ex_spec_conf 0x100 2 ex_spec_model = Inr m1 \<and>
     m_checkpoints m1 = [((fl_regs ex_flat), 0x107, 0x40, 0)] \<and> m_store_logs m1 = [[]] \<and>
     m_in_speculation m1 \<and> m_taint m1 = DummyTaintTracker \<and> tr_clause (m_tracer m1) = CT \<and>
     fl_ram (m_emulator m1) = fl_ram ex_flat \<and> fl_regs (m_emulator m1) ''RIP'' = 0x102 \<and> m_previous_store m1 = (0, 0, [], 0)"
proof -
  have r: "uc_reg_read flat_uc ex_flat ''EFLAGS'' = 0x40" by (simp add: flat_uc_def ex_flat_def)
  show ?thesis
    by (simp add: instruction_hook_def ex_spec_conf_def ex_conf_def spec_trace_instruction_def advance_window_def
        ex_spec_model_def seq_trace_instruction_def observe_defs new_tracer_def trace_append_def upd_tracer_def
        speculate_instruction_def cond_speculate_instruction_def ex_jz_code ex_jz_decode r mispredict_def
        spec_checkpoint_def)
      (simp add: flat_uc_def)
qed

lemma ex_store_hook:
  assumes "m_taint m1 = DummyTaintTracker" "tr_clause (m_tracer m1) = CT" "m_store_logs m1 = [[]]" "m_in_speculation m1"
  shows "\<exists>m2. trace_mem_access flat_uc ex_cs ex_spec_conf UC_MEM_WRITE 0x1000 8 7 m1 = Inr m2 \<and>
    m_checkpoints m2 = m_checkpoints m1 \<and> m_emulator m2 = m_emulator m1 \<and> m_taint m2 = DummyTaintTracker \<and>
    m_store_logs m2 = [[(0x1000, read_bytes (fl_ram (m_emulator m1)) 0x1000 8)]]"
  using assms
  by (simp add: trace_mem_access_def ex_spec_conf_def ex_conf_def spec_trace_mem_access_def log_store_def
      seq_trace_mem_access_def observe_defs trace_append_def upd_tracer_def speculate_mem_access_def)
    (simp add: flat_uc_def)

theorem speculation_restores_memory_witness:
  "\<exists>m1 m2 m3 nxt.
     instruction_hook flat_uc ex_cs ex_spec_conf 0x100 2 ex_spec_model = Inr m1 \<and>
     spec_run flat_uc ex_cs ex_spec_conf fl_ram 1 m1 m2 \<and> fl_ram (m_emulator m2) 0x1000 = 7 \<and>
     spec_rollback flat_uc m2 = Inr (m3, nxt) \<and> fl_ram (m_emulator m3) = fl_ram ex_flat"
proof -
  obtain m1 where h: "instruction_hook flat_uc ex_cs ex_spec_conf 0x100 2 ex_spec_model = Inr m1"
    and m1: "m_checkpoints m1 = [((fl_regs ex_flat), 0x107, 0x40, 0)]" "m_store_logs m1 = [[]]"
      "m_in_speculation m1" "m_taint m1 = DummyTaintTracker" "tr_clause (m_tracer m1) = CT"
      "fl_ram (m_emulator m1) = fl_ram ex_flat" "fl_regs (m_emulator m1) ''RIP'' = 0x102"
    using ex_jz_hook by blast
  obtain m2 where s: "trace_mem_access flat_uc ex_cs ex_spec_conf UC_MEM_WRITE 0x1000 8 7 m1 = Inr m2"
    and m2: "m_checkpoints m2 = m_checkpoints m1" "m_emulator m2 = m_emulator m1" "m_taint m2 = DummyTaintTracker"
      "m_store_logs m2 = [[(0x1000, read_bytes (fl_ram (m_emulator m1)) 0x1000 8)]]"
    using ex_store_hook [of m1] m1 by blast
  let ?u = "(m_emulator m2)\<lparr>fl_ram := write_bytes 0x1000 (little_bytes 8 7) (fl_ram (m_emulator m2))\<rparr>"
  define m2' where "m2' = m2\<lparr>m_emulator := ?u\<rparr>"
  have op: "opcode_at flat_uc fl_ram ?u = opcode_at flat_uc fl_ram (m_emulator m1)"
    using m1(7) m2(2) by (simp add: opcode_at_def flat_uc_def write_bytes_def)
  have run: "spec_run flat_uc ex_cs ex_spec_conf fl_ram 1 m1 m2'"
    unfolding m2'_def by (rule spec_run.access [OF spec_run.start s _ _ op]) (simp_all add: store_effect_def)
  have len: "length (m_checkpoints m2') = 1" using m2 m1 by (simp add: m2'_def)
  have stored: "fl_ram (m_emulator m2') 0x1000 = 7"
    by (simp add: m2'_def write_bytes_def numeral_eq_Suc)
  have "\<exists>m3 nxt. spec_rollback flat_uc m2' = Inr (m3, nxt)"
    using m1 m2 by (simp add: m2'_def spec_rollback_def with_taint_def lift_taint_def)
  then obtain m3 nxt where rb: "spec_rollback flat_uc m2' = Inr (m3, nxt)" by blast
  have clean: "clean_model ex_spec_model"
    by (simp add: clean_model_def ex_spec_model_def taint_depth_def)
  have start: "spec_run flat_uc ex_cs ex_spec_conf fl_ram 0 ex_spec_model ex_spec_model"
    by (rule spec_run.start)
  have step: "hook_step flat_uc ex_cs ex_spec_conf fl_ram ex_spec_model m1"
    unfolding hook_step_def using h
    by (intro disjI1 exI [of _ ex_flat] exI [of _ "0x100"] exI [of _ 2]) (simp add: ex_spec_model_def)
  have "fl_ram (m_emulator m3) = fl_ram (m_emulator ex_spec_model)"
    using speculation_restores_memory [OF flat.unicorn_memory_axioms clean start step, of m2' m3 nxt] run len rb m1(1)
    by (simp add: ex_spec_model_def)
  then have "fl_ram (m_emulator m3) = fl_ram ex_flat" by (simp add: ex_spec_model_def)
  with h run stored rb show ?thesis by blast
qed

text \<open>
  C11. The speculation state stays consistent in every run of every execution clause: there is a store log
  (and a checkpoint of the taint tracker, when tainting is on) for every checkpoint, the model
  is in speculation exactly when there is a checkpoint, and there are never more
  checkpoints than the configured nesting allows.
\<close>

theorem speculation_state_invariant:
  assumes "clean_model m0" and "spec_run uc cs cf mem 0 m0 m"
  shows "length (m_store_logs m) = length (m_checkpoints m) \<and>
    (m_in_speculation m \<longleftrightarrow> m_checkpoints m \<noteq> []) \<and> length (m_checkpoints m) \<le> mc_nesting cf \<and>
    taint_depth (m_taint m) \<in> {None, Some (length (m_checkpoints m))}"
  using spec_run_inv [OF assms(2) clean_model_inv [OF assms(1)]] by (simp add: spec_inv_def)

theorem speculation_state_invariant_witness:
  "\<exists>m. spec_run flat_uc ex_cs ex_spec_conf fl_ram 0 ex_spec_model m \<and> m_in_speculation m \<and>
     length (m_store_logs m) = 1"
proof -
  obtain m1 where h: "instruction_hook flat_uc ex_cs ex_spec_conf 0x100 2 ex_spec_model = Inr m1"
    and m1: "m_checkpoints m1 = [((fl_regs ex_flat), 0x107, 0x40, 0)]"
    using ex_jz_hook by blast
  have "spec_run flat_uc ex_cs ex_spec_conf fl_ram 0 ex_spec_model m1"
    by (rule spec_run.instruction [OF spec_run.start, of _ ex_flat]) (use h in \<open>simp_all add: ex_spec_model_def\<close>)
  moreover have "clean_model ex_spec_model"
    by (simp add: clean_model_def ex_spec_model_def taint_depth_def)
  ultimately show ?thesis
    using speculation_state_invariant [of ex_spec_model flat_uc ex_cs ex_spec_conf fl_ram m1] m1 by auto
qed

text \<open>
  C14. Nothing of the speculation of one input is left for the next one: if the emulator only changes the
  model through the hooks, then every run of an input that returns leaves no checkpoint, no
  store log and no speculation, whether or not the emulation itself ended on a wrong path.
\<close>

lemma rollback_loop_clean:
  assumes "rollback_loop uc emu m = Some r"
  shows "(\<forall>a m m' b. spec_inv cf m \<longrightarrow> emu a m = Inr (m', b) \<longrightarrow> spec_inv cf m') \<longrightarrow> spec_inv cf m \<longrightarrow>
    (\<forall>m'. r = Inr m' \<longrightarrow> spec_inv cf m' \<and> \<not> m_in_speculation m')"
proof (rule rollback_loop.raw_induct [OF _ assms], goal_cases)
  case (1 rec uc emu m r)
  show ?case
  proof (intro impI)
    assume emu: "\<forall>a m m' b. spec_inv cf m \<longrightarrow> emu a m = Inr (m', b) \<longrightarrow> spec_inv cf m'" and inv: "spec_inv cf m"
    show "\<forall>m'. r = Inr m' \<longrightarrow> spec_inv cf m' \<and> \<not> m_in_speculation m'"
    proof (cases "m_in_speculation m")
      case False
      with 1(2) inv show ?thesis by auto
    next
      case True
      show ?thesis
      proof (cases "spec_rollback uc m")
        case (Inr p)
        obtain m2 nxt where p: "p = (m2, nxt)" by (cases p)
        with Inr rollback_inv inv have inv2: "spec_inv cf m2" by blast
        show ?thesis
        proof (cases "emu nxt m2")
          case (Inr q)
          obtain m3 b where q: "q = (m3, b)" by (cases q)
          with Inr emu inv2 have "spec_inv cf m3" by blast
          moreover have "rec uc emu m3 = Some r"
            using 1(2) True \<open>spec_rollback uc m = Inr p\<close> p Inr q by simp
          ultimately show ?thesis using 1(1) emu by blast
        qed (use 1(2) True \<open>spec_rollback uc m = Inr p\<close> p in auto)
      qed (use 1(2) True in auto)
    qed
  qed
qed

theorem execute_input_clean:
  assumes "\<And>a m m' b. spec_inv cf m \<Longrightarrow> emu a m = Inr (m', b) \<Longrightarrow> spec_inv cf m'"
    and "m_store_logs m = []" and "execute_input uc cf il emu inp m = Some (Inr m')"
  shows "m_checkpoints m' = [] \<and> m_store_logs m' = [] \<and> \<not> m_in_speculation m'"
proof -
  have r: "spec_inv cf (reset_model uc cf n)" if "m_store_logs n = []" for n :: "('a, 'b) x86_model"
    using that by (simp add: reset_model_def spec_inv_def taint_depth_def new_taint_tracker_def Let_def)
  obtain u m1 b where m1: "emu (mc_code_start cf) (reset_model uc cf ((reset_model uc cf m)\<lparr>m_emulator := u\<rparr>)) = Inr (m1, b)"
    and loop: "rollback_loop uc emu m1 = Some (Inr m')"
    using assms(3) by (auto simp: execute_input_def Let_def split: sum.splits if_splits)
  have "m_store_logs ((reset_model uc cf m)\<lparr>m_emulator := u\<rparr>) = []"
    using assms(2) by (simp add: reset_model_def Let_def)
  from assms(1) [OF r [OF this] m1] have "spec_inv cf m1" .
  with rollback_loop_clean [OF loop, of cf] assms(1) have "spec_inv cf m'" "\<not> m_in_speculation m'" by blast+
  then show ?thesis by (auto simp: spec_inv_def)
qed

text \<open>The example: an emulation that runs no instruction.\<close>

definition ex_layout :: input_layout where
  "ex_layout = \<lparr>il_main = 4096, il_assist = 4096, il_register = 64\<rparr>"

theorem execute_input_clean_witness:
  "\<exists>m'. execute_input flat_uc ex_spec_conf ex_layout (\<lambda>_ m. Inr (m, False)) [] ex_spec_model = Some (Inr m') \<and>
     m_store_logs m' = []"
proof -
  have "\<exists>m'. execute_input flat_uc ex_spec_conf ex_layout (\<lambda>_ m. Inr (m, False)) [] ex_spec_model = Some (Inr m')"
    by (simp add: execute_input_def load_input_def get_registers_def Let_def)
      (simp add: reset_model_def ex_spec_conf_def ex_conf_def Let_def rollback_loop.simps)
  then obtain m' where m': "execute_input flat_uc ex_spec_conf ex_layout (\<lambda>_ m. Inr (m, False)) [] ex_spec_model
      = Some (Inr m')" by blast
  have "m_store_logs ex_spec_model = []" by (simp add: ex_spec_model_def)
  from execute_input_clean [OF _ this m'] m' show ?thesis by auto
qed

text \<open>
  C22. A store of the previous input can leak into the next one under store bypass: \<open>reset_model\<close> keeps
  \<open>previous_store\<close>, so if the last instruction of a run was a store, the first instruction of
  the next run takes a checkpoint for it, executes with the old value of the previous run in
  memory, and the rollback writes the value that the previous run stored into the memory of the
  new input.
\<close>

theorem previous_store_leaks:
  assumes "unicorn_memory uc mem" and "mc_execution cf = Bpas" and "0 < mc_nesting cf"
    and "m_previous_store m = (a, sz, old, v)" and "a \<noteq> 0" and "to_bytes sz v = Inr new"
    and "m_store_logs m = []" and "speculate_instruction uc cf address isz (reset_model uc cf m) = Inr m1"
  shows "mem (m_emulator m1) = write_bytes a old (mem (m_emulator m)) \<and>
    (\<exists>m2 nxt. spec_rollback uc m1 = Inr (m2, nxt) \<and>
       mem (m_emulator m2) = write_bytes a new (write_bytes a old (mem (m_emulator m))))"
proof -
  let ?r = "reset_model uc cf m"
  have r: "m_checkpoints ?r = []" "m_previous_store ?r = (a, sz, old, v)" "m_store_logs ?r = []"
    "m_emulator ?r = m_emulator m" "taint_depth (m_taint ?r) \<in> {None, Some 0}"
    using assms(4,7) by (simp_all add: reset_model_def taint_depth_def new_taint_tracker_def Let_def)
  from assms(8) assms(2,3,5,6) r obtain m0 log logs where m0: "spec_checkpoint uc address ?r = Inr m0"
    and m0l: "m_store_logs m0 = log # logs"
    and m1: "m1 = m0\<lparr>m_emulator := uc_mem_write uc (m_emulator m0) a old,
      m_store_logs := ((a, new) # log) # logs, m_previous_store := (0, 0, [], 0)\<rparr>"
    by (auto simp: speculate_instruction_def bpas_speculate_instruction_def res_bind_Inr_iff elim!: log_store_result)
  note c = checkpoint_result [OF m0]
  from m1 m0l c(2) r(3) have l: "m_store_logs m1 = [[(a, new)]]" "m_emulator m1 = uc_mem_write uc (m_emulator m0) a old"
    "m_checkpoints m1 = m_checkpoints m0" "m_taint m1 = m_taint m0" by simp_all
  have e1: "mem (m_emulator m1) = write_bytes a old (mem (m_emulator m))"
    using l(2) c(4) r(4) by (simp add: unicorn_memory.mem_write [OF assms(1)])
  have "\<exists>m2 nxt. spec_rollback uc m1 = Inr (m2, nxt)"
    using l c(1,6) r(1,5) by (auto simp: spec_rollback_def with_taint_def lift_taint_def taint_depth_def
        taint_rollback_def py_assert_def finalize_pending_def Let_def split: taint_tracker.splits list.splits)
  then obtain m2 nxt where rb: "spec_rollback uc m1 = Inr (m2, nxt)" by blast
  have "restore_points (m_store_logs m1) (mem (m_emulator m1)) = mem (m_emulator m2) # restore_points (m_store_logs m2) (mem (m_emulator m2))"
    using unicorn_memory.rollback_memory [OF assms(1) rb] by blast
  then have "mem (m_emulator m2) = write_bytes a new (mem (m_emulator m1))"
    using l(1) by (simp add: undo_log_def)
  with e1 rb show ?thesis by auto
qed

definition ex_leak_model :: "(flat, string \<Rightarrow> int) x86_model" where
  "ex_leak_model = ex_spec_model\<lparr>m_previous_store := (0x1000, 1, [5], 9)\<rparr>"

definition ex_bpas_conf :: model_conf where
  "ex_bpas_conf = ex_conf\<lparr>mc_execution := Bpas\<rparr>"

theorem previous_store_leaks_witness:
  "\<exists>m1 m2 nxt. speculate_instruction flat_uc ex_bpas_conf 0x100 2 (reset_model flat_uc ex_bpas_conf ex_leak_model) = Inr m1 \<and>
     spec_rollback flat_uc m1 = Inr (m2, nxt) \<and> fl_ram (m_emulator ex_leak_model) 0x1000 = 0 \<and>
     fl_ram (m_emulator m2) 0x1000 = 9"
proof -
  have c: "mc_execution ex_bpas_conf = Bpas" "0 < mc_nesting ex_bpas_conf" "\<not> mc_tainting_enabled ex_bpas_conf"
    by (simp_all add: ex_bpas_conf_def ex_conf_def)
  have m: "m_previous_store ex_leak_model = (0x1000, 1, [5], 9)" "m_store_logs ex_leak_model = []"
    by (simp_all add: ex_leak_model_def ex_spec_model_def)
  have b: "to_bytes 1 9 = Inr [9]" by (simp add: to_bytes_def)
  have "\<exists>m1. speculate_instruction flat_uc ex_bpas_conf 0x100 2 (reset_model flat_uc ex_bpas_conf ex_leak_model) = Inr m1"
    using c m b by (simp add: speculate_instruction_def bpas_speculate_instruction_def reset_model_def
        spec_checkpoint_def with_taint_def lift_taint_def log_store_def Let_def)
  then obtain m1 where m1: "speculate_instruction flat_uc ex_bpas_conf 0x100 2
      (reset_model flat_uc ex_bpas_conf ex_leak_model) = Inr m1" by blast
  from previous_store_leaks [OF flat.unicorn_memory_axioms c(1,2) m(1) _ b m(2) m1]
  obtain m2 nxt where "spec_rollback flat_uc m1 = Inr (m2, nxt)"
    "fl_ram (m_emulator m2) = write_bytes 0x1000 [9] (write_bytes 0x1000 [5] (fl_ram (m_emulator ex_leak_model)))"
    by auto
  moreover have "fl_ram (m_emulator ex_leak_model) 0x1000 = 0"
    by (simp add: ex_leak_model_def ex_spec_model_def ex_flat_def)
  ultimately show ?thesis using m1 by (auto simp: write_bytes_def)
qed

end
