(* ===== verification/Input_Gen.thy ===== *)
theory Input_Gen
  imports Taint
begin

text \<open>
  The random input generator (\<^verbatim>\<open>src/src/input_generator.py\<close>) and the loading of inputs: a
  32-bit linear congruential generator fills the words of an input, and \<open>extend_equivalence_classes\<close>
  makes new inputs that keep the tainted words of the old ones. Words are \<open>64 word\<close>
  (\<open>numpy.uint64\<close>, wrapping, as NumPy 2 adds a Python integer to it; the releases before
  promote to a double, which is exact for the 3 and 16 bits of entropy that the
  configuration files use).
\<close>

subsection \<open>Generator\<close>

definition POW32 :: nat where
  "POW32 = 2 ^ 32"

definition lcg :: "nat \<Rightarrow> nat" where
  "lcg randint = ((randint * 2891336453) mod POW32 + 54321) mod POW32"

definition input_mask :: "nat \<Rightarrow> nat" where
  "input_mask entropy_bits = 2 ^ (entropy_bits mod 33) - 1"

definition masked_rvalue :: "nat \<Rightarrow> nat \<Rightarrow> nat" where
  "masked_rvalue imask randint = push_bit 6 ((randint XOR drop_bit 16 randint) AND imask)"

text \<open>
  One word: the first value goes to the upper half, the second is added. Storing a Python integer that does
  not fit into 64 bits raises \<open>OverflowError\<close>.
\<close>

definition to_uint64 :: "nat \<Rightarrow> 64 word res" where
  "to_uint64 n = (if n < 2 ^ 64 then Inr (word_of_nat n) else Inl OverflowError)"

definition gen_word :: "nat \<Rightarrow> nat \<Rightarrow> (64 word \<times> nat) res" where
  "gen_word imask randint =
     (let r1 = lcg randint in
      res_bind (to_uint64 (push_bit 32 (masked_rvalue imask r1))) (\<lambda>hi.
      let r2 = lcg r1 in
      res_bind (to_uint64 (masked_rvalue imask r2)) (\<lambda>lo.
      Inr (hi + lo, r2))))"

fun gen_words :: "nat \<Rightarrow> nat \<Rightarrow> nat \<Rightarrow> (64 word list \<times> nat) res" where
  "gen_words imask 0 randint = Inr ([], randint)"
| "gen_words imask (Suc n) randint =
     res_bind (gen_word imask randint) (\<lambda>(w, r).
     res_bind (gen_words imask n r) (\<lambda>(ws, r'). Inr (w # ws, r')))"

record input =
  in_words :: "64 word list"
  in_seed :: nat

text \<open>
  The array of \<open>Input\<close> has \<open>aligned_size\<close> words, of which the generator fills the first
  \<open>data_size\<close>; the rest is not initialised and is the argument \<open>padding\<close>. The last loop reduces the
  words at negative indices, that is at the end of the array.
\<close>

definition mask_tail :: "nat \<Rightarrow> 64 word list \<Rightarrow> 64 word list res" where
  "mask_tail n ws =
     (if n \<le> length ws
      then Inr (take (length ws - n) ws @ map (\<lambda>w. w mod word_of_nat POW32) (drop (length ws - n) ws))
      else Inl IndexError)"

definition generate_one :: "input_layout \<Rightarrow> nat \<Rightarrow> 64 word list \<Rightarrow> nat \<Rightarrow> (input \<times> nat) res" where
  "generate_one il imask padding seed =
     res_bind (gen_words imask (data_size il) seed) (\<lambda>(ws, randint).
     res_bind (mask_tail (il_register il div 8) (ws @ padding)) (\<lambda>ws.
     Inr (\<lparr>in_words = ws, in_seed = seed\<rparr>, randint)))"

fun generate_loop :: "input_layout \<Rightarrow> nat \<Rightarrow> 64 word list \<Rightarrow> nat \<Rightarrow> nat \<Rightarrow> input list res" where
  "generate_loop il imask padding 0 seed = Inr []"
| "generate_loop il imask padding (Suc count) seed =
     res_bind (generate_one il imask padding seed) (\<lambda>(i, seed).
     res_bind (generate_loop il imask padding count seed) (\<lambda>is. Inr (i # is)))"

text \<open>\<open>rand\<close> is the value of \<open>random.randint(0, 2 ** 32 - 1)\<close>, drawn when the seed is 0.\<close>

definition generate :: "input_layout \<Rightarrow> nat \<Rightarrow> 64 word list \<Rightarrow> nat \<Rightarrow> nat \<Rightarrow> nat \<Rightarrow> input list res" where
  "generate il imask padding rand seed count =
     generate_loop il imask padding count (if seed = 0 then rand else seed)"

text \<open>The loop that copies the tainted words.\<close>

definition copy_tainted :: "nat \<Rightarrow> bool list \<Rightarrow> 64 word list \<Rightarrow> 64 word list \<Rightarrow> 64 word list res" where
  "copy_tainted n taint old new =
     res_fold (\<lambda>j new.
       res_bind (py_nth taint j) (\<lambda>t.
       if t then res_bind (py_nth old j) (\<lambda>w.
         if j < length new then Inr (new[j := w]) else Inl IndexError)
       else Inr new)) [0..<n] new"

fun extend_loop :: "input_layout \<Rightarrow> nat \<Rightarrow> 64 word list \<Rightarrow> (input \<times> bool list) list \<Rightarrow> nat \<Rightarrow> input list res" where
  "extend_loop il imask padding [] seed = Inr []"
| "extend_loop il imask padding ((i, taint) # rest) seed =
     res_bind (generate_one il imask padding seed) (\<lambda>(new_input, seed).
     res_bind (copy_tainted (data_size il) taint (in_words i) (in_words new_input)) (\<lambda>ws.
     res_bind (extend_loop il imask padding rest seed) (\<lambda>is.
     Inr (new_input\<lparr>in_words := ws\<rparr> # is))))"

definition extend_equivalence_classes ::
    "input_layout \<Rightarrow> nat \<Rightarrow> 64 word list \<Rightarrow> input list \<Rightarrow> bool list list \<Rightarrow> input list res" where
  "extend_equivalence_classes il imask padding inputs taints =
     (if length inputs \<noteq> length taints then Inl PyException
      else res_bind (py_index inputs (-1)) (\<lambda>final.
           res_bind (generate_one il imask padding (in_seed final)) (\<lambda>(_, seed).
           extend_loop il imask padding (zip inputs taints) seed)))"

subsection \<open>Facts\<close>

text \<open>With at most 26 bits of entropy every word fits.\<close>

lemma masked_rvalue_bound:
  assumes "e \<le> 26"
  shows "masked_rvalue (input_mask e) r < 2 ^ 32"
proof -
  have "(r XOR drop_bit 16 r) AND input_mask e \<le> input_mask e" by (rule nat_and_le)
  also have "input_mask e < 2 ^ e" using assms by (simp add: input_mask_def)
  also have "(2::nat) ^ e \<le> 2 ^ 26" using assms by (rule power_increasing) simp
  finally show ?thesis by (simp add: masked_rvalue_def push_bit_eq_mult)
qed

lemma copy_tainted_result:
  assumes "length taint \<ge> n" and "length old \<ge> n" and "length new \<ge> n"
  shows "copy_tainted n taint old new =
    Inr (map (\<lambda>j. if j < n \<and> taint ! j then old ! j else new ! j) [0..<length new])"
  using assms
proof (induction n)
  case 0
  then show ?case by (simp add: copy_tainted_def map_nth)
next
  case (Suc n)
  let ?f = "\<lambda>j new. res_bind (py_nth taint j) (\<lambda>t. if t then res_bind (py_nth old j) (\<lambda>w.
         if j < length new then Inr (new[j := w]) else Inl IndexError) else Inr new)"
  let ?ws = "map (\<lambda>j. if j < n \<and> taint ! j then old ! j else new ! j) [0..<length new]"
  have "copy_tainted (Suc n) taint old new = res_bind (copy_tainted n taint old new) (?f n)"
    by (simp add: copy_tainted_def res_fold_append)
  also have "\<dots> = ?f n ?ws" using Suc by simp
  also have "\<dots> = Inr (map (\<lambda>j. if j < Suc n \<and> taint ! j then old ! j else new ! j) [0..<length new])"
    using Suc.prems by (auto simp: less_Suc_eq nth_list_update intro!: nth_equalityI)
  finally show ?case .
qed

text \<open>Results of a successful generation; \<open>padded\<close> says that the array has its full length.\<close>

abbreviation padded :: "input_layout \<Rightarrow> 64 word list \<Rightarrow> bool" where
  "padded il padding \<equiv> int (data_size il + length padding) = aligned_size il \<and>
     il_register il div 8 \<le> length padding"

lemma gen_word_total:
  assumes "e \<le> 26"
  shows "gen_word (input_mask e) r =
    Inr (word_of_nat (push_bit 32 (masked_rvalue (input_mask e) (lcg r))) +
         word_of_nat (masked_rvalue (input_mask e) (lcg (lcg r))), lcg (lcg r))"
proof -
  note b = masked_rvalue_bound [OF assms]
  from b [of "lcg r"] have "push_bit 32 (masked_rvalue (input_mask e) (lcg r)) < 2 ^ 64"
    by (simp add: push_bit_eq_mult)
  with b [of "lcg (lcg r)"] show ?thesis by (simp add: gen_word_def to_uint64_def Let_def)
qed

lemma gen_words_total:
  assumes "e \<le> 26"
  obtains ws where "gen_words (input_mask e) n r = Inr (ws, (lcg ^^ (2 * n)) r)" and "length ws = n"
proof -
  have "\<exists>ws. gen_words (input_mask e) n r = Inr (ws, (lcg ^^ (2 * n)) r) \<and> length ws = n"
  proof (induction n arbitrary: r)
    case (Suc n)
    from Suc [of "lcg (lcg r)"] show ?case
      by (auto simp: gen_word_total [OF assms] funpow_swap1)
  qed simp
  with that show thesis by blast
qed

lemma generate_one_total:
  assumes "e \<le> 26" and "padded il padding"
  obtains ws where "gen_words (input_mask e) (data_size il) seed = Inr (ws, (lcg ^^ (2 * data_size il)) seed)"
    and "length ws = data_size il"
    and "generate_one il (input_mask e) padding seed =
      Inr (\<lparr>in_words = ws @ take (length padding - il_register il div 8) padding @
                map (\<lambda>w. w mod word_of_nat POW32) (drop (length padding - il_register il div 8) padding),
            in_seed = seed\<rparr>, (lcg ^^ (2 * data_size il)) seed)"
proof -
  obtain ws where ws: "gen_words (input_mask e) (data_size il) seed = Inr (ws, (lcg ^^ (2 * data_size il)) seed)"
    "length ws = data_size il" by (rule gen_words_total [OF assms(1)])
  moreover have "data_size il + length padding - il_register il div 8 - data_size il =
      length padding - il_register il div 8" by simp
  moreover have "data_size il \<le> data_size il + length padding - il_register il div 8"
    using assms(2) by linarith
  ultimately show thesis
    using assms(2) by (intro that [of ws]) (simp_all add: generate_one_def mask_tail_def)
qed

lemma generate_one_shape:
  assumes "e \<le> 26" and "padded il padding"
  obtains i where "generate_one il (input_mask e) padding seed = Inr (i, (lcg ^^ (2 * data_size il)) seed)"
    and "in_seed i = seed" and "int (length (in_words i)) = aligned_size il"
    and "data_size il \<le> length (in_words i)"
  using generate_one_total [OF assms, of seed] assms(2) by (metis (no_types, lifting) input.select_convs
      length_append length_map append_take_drop_id le_add1)

text \<open>What one extended input has in common with the old one.\<close>

definition extends :: "input_layout \<Rightarrow> input \<times> bool list \<Rightarrow> input \<Rightarrow> bool" where
  "extends il p new \<longleftrightarrow> int (length (in_words new)) = aligned_size il \<and>
     (\<forall>j < data_size il. snd p ! j \<longrightarrow> in_words new ! j = in_words (fst p) ! j)"

lemma extend_loop_extends:
  assumes "e \<le> 26" and "padded il padding"
    and "\<forall>(i, taint) \<in> set ps. data_size il \<le> length (in_words i) \<and> data_size il \<le> length taint"
  shows "\<exists>outs. extend_loop il (input_mask e) padding ps seed = Inr outs \<and> list_all2 (extends il) ps outs"
  using assms(3)
proof (induction ps arbitrary: seed)
  case (Cons p ps)
  obtain i taint where p: "p = (i, taint)" by fastforce
  obtain n where n: "generate_one il (input_mask e) padding seed = Inr (n, (lcg ^^ (2 * data_size il)) seed)"
    "int (length (in_words n)) = aligned_size il" "data_size il \<le> length (in_words n)"
    by (rule generate_one_shape [OF assms(1,2)])
  let ?ws = "map (\<lambda>j. if j < data_size il \<and> taint ! j then in_words i ! j else in_words n ! j)
    [0..<length (in_words n)]"
  have c: "copy_tainted (data_size il) taint (in_words i) (in_words n) = Inr ?ws"
    using Cons.prems n(3) by (intro copy_tainted_result) (auto simp: p)
  have "extends il p (n\<lparr>in_words := ?ws\<rparr>)" using n(2,3) by (auto simp: extends_def p)
  moreover obtain outs where "extend_loop il (input_mask e) padding ps ((lcg ^^ (2 * data_size il)) seed) = Inr outs"
    "list_all2 (extends il) ps outs" using Cons by fastforce
  ultimately show ?case by (simp add: p n(1) c)
qed simp

lemma extend_equivalence_classes_extends:
  assumes "e \<le> 26" and "padded il padding" and "inputs \<noteq> []" and "length inputs = length taints"
    and "\<forall>i \<in> set inputs. data_size il \<le> length (in_words i)" and "\<forall>t \<in> set taints. data_size il \<le> length t"
  shows "\<exists>outs. extend_equivalence_classes il (input_mask e) padding inputs taints = Inr outs \<and>
    list_all2 (extends il) (zip inputs taints) outs"
proof -
  obtain f where "py_index inputs (-1) = Inr f" using assms(3) by (simp add: py_index_def Suc_le_eq)
  moreover obtain n s where "generate_one il (input_mask e) padding (in_seed f) = Inr (n, s)"
    by (rule generate_one_shape [OF assms(1,2)])
  moreover have "\<exists>outs. extend_loop il (input_mask e) padding (zip inputs taints) s = Inr outs \<and>
      list_all2 (extends il) (zip inputs taints) outs"
    using assms(5,6) by (intro extend_loop_extends [OF assms(1,2)]) (auto dest: set_zip_leftD set_zip_rightD)
  ultimately show ?thesis using assms(4) by (simp add: extend_equivalence_classes_def)
qed

lemma lcg_inverse:
  assumes "x < POW32"
  shows "((lcg x + (POW32 - 54321)) * 3694381517) mod POW32 = x"
proof -
  have "((lcg x + (POW32 - 54321)) * 3694381517) mod POW32 =
      ((x * 2891336453 + 54321 + (POW32 - 54321)) * 3694381517) mod POW32"
    unfolding lcg_def mod_add_left_eq by (rule mod_mult_cong [OF mod_add_left_eq refl])
  also have "(x * 2891336453 + 54321 + (POW32 - 54321)) * 3694381517 =
      x + (x * 2487027075 + 3694381517) * POW32"
    by (simp add: POW32_def algebra_simps)
  finally show ?thesis using assms by simp
qed

lemma lcg_inj: "inj_on lcg {..<POW32}"
  by (metis inj_onI lcg_inverse lessThan_iff)

text \<open>
  The last loop of \<open>_generate_one\<close> does not reach the registers: the words it reduces are
  padding, and all \<open>data_size\<close> words of the input keep the 64 bits that were drawn.
\<close>

lemma registers_not_reduced:
  assumes "e \<le> 26" and "padded il padding" and "generate_one il (input_mask e) padding seed = Inr (i, s)"
  shows "gen_words (input_mask e) (data_size il) seed = Inr (take (data_size il) (in_words i), s)"
proof -
  obtain ws where "gen_words (input_mask e) (data_size il) seed = Inr (ws, (lcg ^^ (2 * data_size il)) seed)"
    and "length ws = data_size il" and "generate_one il (input_mask e) padding seed =
      Inr (\<lparr>in_words = ws @ take (length padding - il_register il div 8) padding @
                map (\<lambda>w. w mod word_of_nat POW32) (drop (length padding - il_register il div 8) padding),
            in_seed = seed\<rparr>, (lcg ^^ (2 * data_size il)) seed)"
    by (rule generate_one_total [OF assms(1,2)])
  with assms(3) show ?thesis by auto
qed

subsection \<open>Properties\<close>

text \<open>
  C23. Boosting keeps what the taint says it must: with at most 26 bits of entropy and arrays of
  the full length, \<open>extend_equivalence_classes\<close> raises nothing, returns one new input per old input,
  and each new input has, at every tainted position, the word of its original.
\<close>

theorem extend_keeps_tainted:
  assumes "e \<le> 26" and "padded il padding" and "inputs \<noteq> []" and "length inputs = length taints"
    and "\<forall>i \<in> set inputs. data_size il \<le> length (in_words i)"
    and "\<forall>t \<in> set taints. data_size il \<le> length t"
  shows "\<exists>outs. extend_equivalence_classes il (input_mask e) padding inputs taints = Inr outs \<and>
    length outs = length inputs \<and>
    (\<forall>k < length inputs. int (length (in_words (outs ! k))) = aligned_size il \<and>
      (\<forall>j < data_size il. taints ! k ! j \<longrightarrow> in_words (outs ! k) ! j = in_words (inputs ! k) ! j))"
proof -
  from extend_equivalence_classes_extends [OF assms] obtain outs where
    "extend_equivalence_classes il (input_mask e) padding inputs taints = Inr outs"
    "list_all2 (extends il) (zip inputs taints) outs" by blast
  then show ?thesis using assms(4)
    by (intro exI [of _ outs]) (auto simp: list_all2_conv_all_nth extends_def)
qed

definition ex_layout :: input_layout where
  "ex_layout = \<lparr>il_main = 8, il_assist = 0, il_register = 64\<rparr>"

definition ex_padding :: "64 word list" where
  "ex_padding = replicate 504 0"

definition ex_inputs :: "input list" where
  "ex_inputs = [\<lparr>in_words = replicate 9 7, in_seed = 5\<rparr>]"

definition ex_taints :: "bool list list" where
  "ex_taints = [[True, False, False, False, True, False, False, False, False]]"

lemma ex_layout_padded: "padded ex_layout ex_padding"
  by (simp add: ex_layout_def ex_padding_def data_size_def aligned_size_def)

theorem extend_keeps_tainted_witness:
  "\<exists>outs. extend_equivalence_classes ex_layout (input_mask 16) ex_padding ex_inputs ex_taints = Inr outs \<and>
    in_words (outs ! 0) ! 0 = 7 \<and> in_words (outs ! 0) ! 4 = 7"
proof -
  have d: "data_size ex_layout = 9" by (simp add: ex_layout_def data_size_def)
  from extend_keeps_tainted [of 16 ex_layout ex_padding ex_inputs ex_taints] ex_layout_padded
  obtain outs where "extend_equivalence_classes ex_layout (input_mask 16) ex_padding ex_inputs ex_taints = Inr outs"
    "\<forall>j < 9. ex_taints ! 0 ! j \<longrightarrow> in_words (outs ! 0) ! j = in_words (ex_inputs ! 0) ! j"
    unfolding d by (auto simp: ex_inputs_def ex_taints_def)
  moreover have "ex_taints ! 0 ! 0" "ex_taints ! 0 ! 4" by (simp_all add: ex_taints_def)
  moreover have "in_words (ex_inputs ! 0) ! 0 = 7" "in_words (ex_inputs ! 0) ! 4 = 7"
    by (simp_all add: ex_inputs_def)
  ultimately show ?thesis by (intro exI [of _ outs]) simp
qed

text \<open>
  Generation is total and advances the seed by a fixed number of steps of the generator: with at
  most 26 bits of entropy \<open>generate\<close> returns \<open>count\<close> inputs of the full length, the \<open>k\<close>-th of
  them with the seed \<open>lcg\<close> iterated \<open>2 * data_size * k\<close> times. The step is injective on 32-bit
  values, so distinct seeds never merge.
\<close>

lemma generate_seeds:
  assumes "e \<le> 26" and "padded il padding" and "seed \<noteq> 0"
  shows "(\<exists>outs. generate il (input_mask e) padding rand seed count = Inr outs \<and> length outs = count \<and>
      (\<forall>k < count. in_seed (outs ! k) = (lcg ^^ (2 * data_size il * k)) seed \<and>
        int (length (in_words (outs ! k))) = aligned_size il)) \<and>
    inj_on lcg {..<POW32} \<and> lcg ` {..<POW32} \<subseteq> {..<POW32}"
proof -
  let ?ok = "\<lambda>outs seed count. length outs = count \<and>
      (\<forall>k < count. in_seed (outs ! k) = (lcg ^^ (2 * data_size il * k)) seed \<and>
        int (length (in_words (outs ! k))) = aligned_size il)"
  have "\<exists>outs. generate_loop il (input_mask e) padding count seed = Inr outs \<and> ?ok outs seed count"
  proof (induction count arbitrary: seed)
    case (Suc count)
    let ?s = "(lcg ^^ (2 * data_size il)) seed"
    obtain n where n: "generate_one il (input_mask e) padding seed = Inr (n, ?s)"
      "in_seed n = seed" "int (length (in_words n)) = aligned_size il"
      by (rule generate_one_shape [OF assms(1,2)])
    moreover from Suc obtain outs where
      "generate_loop il (input_mask e) padding count ?s = Inr outs" "?ok outs ?s count" by blast
    moreover from this have "?ok (n # outs) seed (Suc count)"
      using n(2,3) by (auto simp: nth_Cons' less_Suc_eq_0_disj funpow_add [THEN fun_cong, symmetric, unfolded o_def]
          algebra_simps)
    ultimately show ?case by (intro exI [of _ "n # outs"]) simp
  qed simp
  moreover have "lcg ` {..<POW32} \<subseteq> {..<POW32}" by (auto simp: lcg_def POW32_def)
  ultimately show ?thesis using assms(3) lcg_inj by (simp add: generate_def)
qed

lemma generate_seeds_example:
  "\<exists>outs. generate ex_layout (input_mask 3) ex_padding 0 10 2 = Inr outs \<and>
     in_seed (outs ! 1) = (lcg ^^ 18) 10"
  using generate_seeds [of 3 ex_layout ex_padding 10 0 2] ex_layout_padded
  by (auto simp: ex_layout_def data_size_def)

end
