(* ===== verification/Rng.thy ===== *)
theory Rng
  imports Prelude "HOL-Library.List_Lexorder" "HOL-Library.Char_ord"
begin

text \<open>
  Python's \<open>random\<close> module and decimal conversion. The generator of random numbers is a tape of
  natural numbers with a position; every draw consumes one entry, so the order in which the
  program draws is kept and a theorem about all tapes is a theorem about all random
  choices. A step that draws and may raise is an \<open>'a rg\<close>; \<open>rg_ok m P\<close> is total correctness
  of such a step: on every tape it returns, and its result satisfies \<open>P\<close>.
\<close>

subsection \<open>Draws\<close>

record rng =
  rg_tape :: "nat \<Rightarrow> nat"
  rg_pos :: nat

type_synonym 'a rg = "rng \<Rightarrow> ('a \<times> rng) res"

definition draw :: "nat \<Rightarrow> rng \<Rightarrow> nat \<times> rng" where
  "draw n r = (rg_tape r (rg_pos r) mod n, r\<lparr>rg_pos := Suc (rg_pos r)\<rparr>)"

definition rg_return :: "'a \<Rightarrow> 'a rg" where
  "rg_return x r = Inr (x, r)"

definition rg_raise :: "py_error \<Rightarrow> 'a rg" where
  "rg_raise e r = Inl e"

definition rg_bind :: "'a rg \<Rightarrow> ('a \<Rightarrow> 'b rg) \<Rightarrow> 'b rg" where
  "rg_bind m f r = res_bind (m r) (\<lambda>(x, r'). f x r')"

definition rg_lift :: "'a res \<Rightarrow> 'a rg" where
  "rg_lift v r = res_bind v (\<lambda>x. Inr (x, r))"

fun rg_map :: "('a \<Rightarrow> 'b rg) \<Rightarrow> 'a list \<Rightarrow> 'b list rg" where
  "rg_map f [] = rg_return []"
| "rg_map f (x # xs) = rg_bind (f x) (\<lambda>y. rg_bind (rg_map f xs) (\<lambda>ys. rg_return (y # ys)))"

fun rg_fold :: "('a \<Rightarrow> 's \<Rightarrow> 's rg) \<Rightarrow> 'a list \<Rightarrow> 's \<Rightarrow> 's rg" where
  "rg_fold f [] s = rg_return s"
| "rg_fold f (x # xs) s = rg_bind (f x s) (rg_fold f xs)"

text \<open>\<open>random.randint(lo, hi)\<close>, \<open>random.choice(xs)\<close> and \<open>random.getrandbits(k)\<close>.\<close>

definition randint :: "int \<Rightarrow> int \<Rightarrow> int rg" where
  "randint lo hi r =
     (if hi < lo then Inl ValueError
      else let (k, r') = draw (nat (hi - lo + 1)) r in Inr (lo + int k, r'))"

definition choice :: "'a list \<Rightarrow> 'a rg" where
  "choice xs r =
     (if xs = [] then Inl IndexError else let (k, r') = draw (length xs) r in Inr (xs ! k, r'))"

definition getrandbits :: "nat \<Rightarrow> nat rg" where
  "getrandbits k r = (let (v, r') = draw (2 ^ k) r in Inr (v, r'))"

text \<open>
  \<open>random.random() < a / b\<close>: \<open>random\<close> returns a multiple of \<open>2 ^ -53\<close> below 1. The quotient is
  compared exactly, without the rounding of the division.
\<close>

definition random_below :: "int \<Rightarrow> int \<Rightarrow> bool rg" where
  "random_below a b r =
     (if b = 0 then Inl ZeroDivisionError
      else let (v, r') = draw (2 ^ 53) r in Inr (int v * abs b < a * sgn b * 2 ^ 53, r'))"

subsection \<open>Total correctness\<close>

definition rg_ok :: "'a rg \<Rightarrow> ('a \<Rightarrow> bool) \<Rightarrow> bool" where
  "rg_ok m P \<longleftrightarrow> (\<forall>r. \<exists>x r'. m r = Inr (x, r') \<and> P x)"

lemma rg_okE:
  assumes "rg_ok m P"
  obtains x r' where "m r = Inr (x, r')" and "P x"
  using assms unfolding rg_ok_def by blast

lemma rg_ok_return [intro]: "P x \<Longrightarrow> rg_ok (rg_return x) P"
  by (simp add: rg_ok_def rg_return_def)

lemma rg_ok_lift: "v = Inr x \<Longrightarrow> P x \<Longrightarrow> rg_ok (rg_lift v) P"
  by (simp add: rg_ok_def rg_lift_def)

lemma rg_ok_bind [intro?]:
  assumes "rg_ok m P" and "\<And>x. P x \<Longrightarrow> rg_ok (f x) Q"
  shows "rg_ok (rg_bind m f) Q"
  unfolding rg_ok_def rg_bind_def
proof
  fix r
  obtain x r' where x: "m r = Inr (x, r')" "P x" by (rule rg_okE [OF assms(1)])
  obtain y r'' where "f x r' = Inr (y, r'')" "Q y" by (rule rg_okE [OF assms(2) [OF x(2)]])
  with x(1) show "\<exists>x r'. res_bind (m r) (\<lambda>(x, r'). f x r') = Inr (x, r') \<and> Q x" by simp
qed

lemma rg_ok_weaken: "rg_ok m P \<Longrightarrow> (\<And>x. P x \<Longrightarrow> Q x) \<Longrightarrow> rg_ok m Q"
  unfolding rg_ok_def by blast

lemma rg_ok_result: "rg_ok m P \<Longrightarrow> m r = Inr (x, r') \<Longrightarrow> P x"
  unfolding rg_ok_def by (metis Inr_inject prod.inject)

lemma rg_ok_map:
  assumes "\<And>x. x \<in> set xs \<Longrightarrow> rg_ok (f x) (P x)"
  shows "rg_ok (rg_map f xs) (list_all2 P xs)"
  using assms
proof (induction xs)
  case (Cons x xs)
  have "rg_ok (rg_map f xs) (list_all2 P xs)" by (rule Cons.IH) (simp add: Cons.prems)
  then show ?case
    by (auto intro!: rg_ok_bind [OF Cons.prems] rg_ok_bind [of "rg_map f xs" "list_all2 P xs"])
qed auto

lemma rg_ok_fold:
  assumes "P s" and "\<And>x s. x \<in> set xs \<Longrightarrow> P s \<Longrightarrow> rg_ok (f x s) P"
  shows "rg_ok (rg_fold f xs s) P"
  using assms
proof (induction xs arbitrary: s)
  case (Cons x xs)
  show ?case unfolding rg_fold.simps
    by (rule rg_ok_bind [OF Cons.prems(2) [of x s]]) (use Cons in auto)
qed auto

lemma rg_ok_randint: "lo \<le> hi \<Longrightarrow> rg_ok (randint lo hi) (\<lambda>x. lo \<le> x \<and> x \<le> hi)"
  unfolding rg_ok_def randint_def draw_def Let_def
  by (simp add: nat_less_iff [symmetric] pos_mod_bound)
    (smt (verit) mod_less_divisor nat_int zless_nat_conj of_nat_mod int_nat_eq pos_mod_bound)

lemma rg_ok_choice: "xs \<noteq> [] \<Longrightarrow> rg_ok (choice xs) (\<lambda>x. x \<in> set xs)"
  by (simp add: rg_ok_def choice_def draw_def)

lemma rg_ok_getrandbits: "rg_ok (getrandbits k) (\<lambda>x. x < 2 ^ k)"
  by (simp add: rg_ok_def getrandbits_def draw_def)

lemma rg_ok_random_below: "b \<noteq> 0 \<Longrightarrow> rg_ok (random_below a b) (\<lambda>_. True)"
  by (simp add: rg_ok_def random_below_def draw_def)

text \<open>Any element of a non-empty list is drawn on some tape.\<close>

lemma choice_possible: "x \<in> set xs \<Longrightarrow> \<exists>k. \<forall>r. rg_tape r (rg_pos r) = k \<longrightarrow> (\<exists>r'. choice xs r = Inr (x, r'))"
proof -
  assume "x \<in> set xs"
  then obtain k where "k < length xs" "xs ! k = x" by (metis in_set_conv_nth)
  then show ?thesis by (intro exI [of _ k]) (auto simp: choice_def draw_def)
qed

subsection \<open>Decimal strings\<close>

fun nat_str :: "nat \<Rightarrow> string" where
  "nat_str n = (if n < 10 then [char_of (48 + n)] else nat_str (n div 10) @ [char_of (48 + n mod 10)])"

declare nat_str.simps [simp del]

definition int_str :: "int \<Rightarrow> string" where
  "int_str i = (if i < 0 then ''-'' @ nat_str (nat (- i)) else nat_str (nat i))"

definition read_decimal :: "string \<Rightarrow> nat" where
  "read_decimal s = foldl (\<lambda>a c. 10 * a + (of_char c - 48)) 0 s"

lemma read_decimal_nat_str [simp]: "read_decimal (nat_str n) = n"
proof (induction n rule: nat_str.induct)
  case (1 n)
  show ?case
  proof (cases "n < 10")
    case True
    then show ?thesis by (subst nat_str.simps) (simp add: read_decimal_def)
  next
    case False
    have "n mod 10 < 10" by simp
    then have "48 + n mod 10 < 256" by linarith
    moreover from 1 False have "foldl (\<lambda>a c. 10 * a + (of_char c - 48)) 0 (nat_str (n div 10)) = n div 10"
      by (simp add: read_decimal_def)
    ultimately show ?thesis using False by (subst nat_str.simps) (simp add: read_decimal_def)
  qed
qed

lemma nat_str_inj [simp]: "nat_str m = nat_str n \<longleftrightarrow> m = n"
  by (metis read_decimal_nat_str)

lemma nat_str_digits: "c \<in> set (nat_str n) \<Longrightarrow> 48 \<le> (of_char c :: nat) \<and> (of_char c :: nat) \<le> 57"
proof (induction n rule: nat_str.induct)
  case (1 n)
  have "n mod 10 < 10" by simp
  then have "n mod 10 \<le> 9" by linarith
  with 1 show ?case by (subst (asm) nat_str.simps) (auto split: if_splits)
qed

lemma nat_str_nonempty [simp]: "nat_str n \<noteq> []"
  by (subst nat_str.simps) simp

end
