(* ===== verification/Generator.thy ===== *)
theory Generator
  imports Rng Interfaces
begin

text \<open>
  The random test case generator, from \<^verbatim>\<open>src/src/generator.py\<close>: the x86 register set, the
  generation of operands and instructions from their specifications, the random graph of
  basic blocks of a function, its terminators and the filling of its blocks. Objects that
  the Python code shares are values here: a block's successors are the names of the
  blocks (which are unique in a function), and its body is the list of its instructions,
  the list view that theory \<open>Basic_Block\<close> shows the linked list to implement. \<open>CONF\<close> is the
  record \<open>gen_conf\<close>.
\<close>

subsection \<open>Test cases\<close>

record bblock =
  bk_name :: string
  bk_successors :: "string list"
  bk_body :: "instruction list"
  bk_terminators :: "instruction list"

definition new_bblock :: "string \<Rightarrow> bblock" where
  "new_bblock name = \<lparr>bk_name = name, bk_successors = [], bk_body = [], bk_terminators = []\<rparr>"

text \<open>The list \<open>_all_bb\<close> of a function is its entry, the inserted blocks and its exit.\<close>

record tfunc =
  tf_name :: string
  tf_entry :: bblock
  tf_blocks :: "bblock list"
  tf_exit :: bblock

definition tf_all :: "tfunc \<Rightarrow> bblock list" where
  "tf_all f = tf_entry f # tf_blocks f @ [tf_exit f]"

definition new_tfunc :: "string \<Rightarrow> tfunc" where
  "new_tfunc name =
     (let stripped_name = dropWhile (\<lambda>c. c \<in> set ''.function_'') name
      in \<lparr>tf_name = name, tf_entry = new_bblock (''.bb_'' @ stripped_name @ ''.entry''),
          tf_blocks = [], tf_exit = new_bblock (''.bb_'' @ stripped_name @ ''.exit'')\<rparr>)"

subsection \<open>Configuration and register set\<close>

record gen_conf =
  gc_min_bb_per_function :: int
  gc_max_bb_per_function :: int
  gc_avoid_data_dependencies :: bool
  gc_test_case_size :: nat
  gc_avg_mem_accesses :: nat
  gc_generate_memory_accesses_in_pairs :: bool
  gc_gpr_blocklist :: "string list"
  gc_input_main_region_size :: nat
  gc_memory_access_zeroed_bits :: nat

definition x86_registers :: "(nat, string list) dict" where
  "x86_registers =
     [(8, [''AL'', ''BL'', ''CL'', ''DL'', ''SIL'', ''DIL'', ''R8B'', ''R9B'', ''R10B'', ''R11B'', ''R12B'', ''R13B'',
           ''R14B'', ''R15B'']),
      (16, [''AX'', ''BX'', ''CX'', ''DX'', ''SI'', ''DI'', ''R8W'', ''R9W'', ''R10W'', ''R11W'', ''R12W'', ''R13W'',
            ''R14W'', ''R15W'']),
      (32, [''EAX'', ''EBX'', ''ECX'', ''EDX'', ''ESI'', ''EDI'', ''R8D'', ''R9D'', ''R10D'', ''R11D'', ''R12D'',
            ''R13D'', ''R14D'', ''R15D'']),
      (64, [''RAX'', ''RBX'', ''RCX'', ''RDX'', ''RSI'', ''RDI'', ''R8'', ''R9'', ''R10'', ''R11'', ''R12'', ''R13'',
            ''R14'', ''R15'', ''RSP'', ''RBP'', ''RIP''])]"

definition x86_simd_registers :: "(nat, string list) dict" where
  "x86_simd_registers =
     [(64, map (\<lambda>i. ''MM'' @ nat_str i) [0..<8]),
      (128, map (\<lambda>i. ''XMM'' @ nat_str i) [0..<32]),
      (256, map (\<lambda>i. ''YMM'' @ nat_str i) [0..<32]),
      (512, map (\<lambda>i. ''ZMM'' @ nat_str i) [0..<32])]"

text \<open>\<open>X86Registers.__init__\<close> removes the blocked registers from a copy of the table.\<close>

definition filtered_decoding :: "gen_conf \<Rightarrow> (nat, string list) dict" where
  "filtered_decoding conf =
     map (\<lambda>(sz, registers). (sz, filter (\<lambda>register. register \<notin> set (gc_gpr_blocklist conf)) registers))
       x86_registers"

record instruction_set =
  iset_instructions :: "instruction_spec list"
  iset_has_conditional_branch :: bool
  iset_has_unconditional_branch :: bool
  iset_has_reads :: bool
  iset_has_writes :: bool

definition control_flow_instructions :: "instruction_set \<Rightarrow> instruction_spec list" where
  "control_flow_instructions is = filter is_control_flow (iset_instructions is)"

definition non_control_flow_instructions :: "instruction_set \<Rightarrow> instruction_spec list" where
  "non_control_flow_instructions is = filter (\<lambda>i. \<not> is_control_flow i) (iset_instructions is)"

subsection \<open>Operands\<close>

definition reg_choices :: "gen_conf \<Rightarrow> operand_spec \<Rightarrow> string list res" where
  "reg_choices conf spec =
     res_bind (py_nth (os_values spec) 0) (\<lambda>reg_type.
       if reg_type = ''GPR'' then dict_get (filtered_decoding conf) (os_width spec)
       else if reg_type = ''SIMD'' then dict_get x86_simd_registers (os_width spec)
       else Inr (os_values spec))"

definition generate_reg_operand :: "gen_conf \<Rightarrow> operand_spec \<Rightarrow> instruction \<Rightarrow> (operand \<times> instruction) rg" where
  "generate_reg_operand conf spec parent =
     rg_bind (rg_lift (reg_choices conf spec)) (\<lambda>choices.
       let choices = sort choices in
       if \<not> gc_avoid_data_dependencies conf
       then rg_bind (choice choices) (\<lambda>reg.
         rg_return (new_RegisterOperand reg (os_width spec) (os_src spec) (os_dest spec), parent))
       else case i_latest_reg_operand parent of
         Some latest \<Rightarrow>
           if op_value latest \<in> set choices then rg_return (latest, parent)
           else rg_bind (choice choices) (\<lambda>reg.
             let op = new_RegisterOperand reg (os_width spec) (os_src spec) (os_dest spec)
             in rg_return (op, parent\<lparr>i_latest_reg_operand := Some op\<rparr>))
       | None \<Rightarrow> rg_bind (choice choices) (\<lambda>reg.
           let op = new_RegisterOperand reg (os_width spec) (os_src spec) (os_dest spec)
           in rg_return (op, parent\<lparr>i_latest_reg_operand := Some op\<rparr>)))"

definition generate_mem_operand :: "gen_conf \<Rightarrow> operand_spec \<Rightarrow> operand rg" where
  "generate_mem_operand conf spec =
     rg_bind (if os_values spec \<noteq> [] then choice (sort (os_values spec))
              else rg_bind (rg_lift (dict_get (filtered_decoding conf) 64)) (\<lambda>rs. choice (sort rs)))
       (\<lambda>address_reg. rg_return (new_MemoryOperand address_reg (os_width spec) (os_src spec) (os_dest spec)))"

text \<open>For a width of 0 the bounds are not integers and \<open>randint\<close> raises.\<close>

definition generate_imm_operand :: "operand_spec \<Rightarrow> operand rg" where
  "generate_imm_operand spec =
     rg_bind (case os_values spec of
         v # _ \<Rightarrow> rg_return v
       | [] \<Rightarrow> if os_width spec = 0 then rg_raise ValueError
               else rg_bind (randint (- (2 ^ (os_width spec - 1))) (2 ^ (os_width spec - 1) - 1))
                 (\<lambda>value. rg_return (int_str value)))
       (\<lambda>value. rg_return (new_ImmediateOperand value (os_width spec)))"

definition generate_label_operand :: "operand rg" where
  "generate_label_operand = rg_raise NotSupportedException"

definition generate_agen_operand :: "gen_conf \<Rightarrow> operand_spec \<Rightarrow> operand rg" where
  "generate_agen_operand conf spec =
     rg_bind (randint 1 3) (\<lambda>n_operands.
     rg_bind (rg_lift (dict_get (filtered_decoding conf) 64)) (\<lambda>rs.
     rg_bind (choice (sort rs)) (\<lambda>reg1.
     if n_operands = 1 then rg_return (new_AgenOperand reg1 (os_width spec))
     else rg_bind (choice (sort rs)) (\<lambda>reg2.
       if n_operands = 2 then rg_return (new_AgenOperand (reg1 @ '' + '' @ reg2) (os_width spec))
       else rg_bind (randint 0 (2 ^ 16 - 1)) (\<lambda>imm.
         rg_return (new_AgenOperand (reg1 @ '' + '' @ reg2 @ '' + '' @ int_str imm) (os_width spec)))))))"

definition generate_flags_operand :: "operand_spec \<Rightarrow> operand rg" where
  "generate_flags_operand spec = rg_lift (new_FlagsOperand (os_values spec))"

definition with_parent :: "instruction \<Rightarrow> operand rg \<Rightarrow> (operand \<times> instruction) rg" where
  "with_parent parent m = rg_bind m (\<lambda>op. rg_return (op, parent))"

definition generate_operand :: "gen_conf \<Rightarrow> operand_spec \<Rightarrow> instruction \<Rightarrow> (operand \<times> instruction) rg" where
  "generate_operand conf spec parent =
     (case os_type spec of
        OT_REG \<Rightarrow> generate_reg_operand conf spec parent
      | OT_MEM \<Rightarrow> with_parent parent (generate_mem_operand conf spec)
      | OT_IMM \<Rightarrow> with_parent parent (generate_imm_operand spec)
      | OT_LABEL \<Rightarrow> with_parent parent generate_label_operand
      | OT_AGEN \<Rightarrow> with_parent parent (generate_agen_operand conf spec)
      | OT_FLAGS \<Rightarrow> with_parent parent (generate_flags_operand spec)
      | OT_COND \<Rightarrow> rg_raise KeyError)"

definition add_generated :: "gen_conf \<Rightarrow> bool \<Rightarrow> operand_spec \<Rightarrow> instruction \<Rightarrow> instruction rg" where
  "add_generated conf implicit spec inst =
     rg_bind (generate_operand conf spec inst) (\<lambda>(operand, inst).
       rg_return (add_op inst operand implicit))"

definition generate_instruction :: "gen_conf \<Rightarrow> instruction_spec \<Rightarrow> instruction rg" where
  "generate_instruction conf spec =
     rg_bind (rg_fold (add_generated conf False) (is_operands spec) (from_spec spec False)) (\<lambda>inst.
       rg_fold (add_generated conf True) (is_implicit_operands spec) inst)"

subsection \<open>The graph of basic blocks\<close>

text \<open>
  The successors of block \<open>i\<close> of \<open>n\<close>. \<open>options.remove(target)\<close> removes the first occurrence; \<open>names\<close> are the
  names of the nodes and \<open>exit\<close> the name of the exit block.
\<close>

fun pick_targets :: "nat \<Rightarrow> string list \<Rightarrow> string list rg" where
  "pick_targets 0 options = rg_return []"
| "pick_targets (Suc k) options =
     rg_bind (choice options) (\<lambda>target.
     rg_bind (pick_targets k (remove1 target options)) (\<lambda>ts. rg_return (target # ts)))"

definition node_successors :: "int \<Rightarrow> string list \<Rightarrow> string \<Rightarrow> nat \<Rightarrow> string list rg" where
  "node_successors max_successors names exit i =
     (let node_count = length names in
      if i = node_count - 1 then rg_return [exit]
      else rg_bind (randint 1 max_successors) (\<lambda>successor_count.
        let successor_count =
              (if successor_count + int i > int node_count then int node_count - int i else successor_count)
        in rg_bind (pick_targets (nat (successor_count - 1)) (drop (i + 2) names @ [exit])) (\<lambda>ts.
           rg_return (names ! (i + 1) # ts))))"

definition remove_prefix :: "string \<Rightarrow> string \<Rightarrow> string" where
  "remove_prefix text prefix = (if starts_with text prefix then drop (length prefix) text else text)"

definition get_return_instruction :: instruction where
  "get_return_instruction = new_instruction ''RET'' False '''' True"

definition get_unconditional_jump_instruction :: instruction where
  "get_unconditional_jump_instruction = new_instruction ''JMP'' False ''UNCOND_BR'' True"

definition node_names :: "string \<Rightarrow> nat \<Rightarrow> string list" where
  "node_names label node_count =
     map (\<lambda>i. ''.bb_'' @ remove_prefix label ''.function_'' @ ''.'' @ nat_str i) [0..<node_count]"

definition generate_function :: "gen_conf \<Rightarrow> instruction_set \<Rightarrow> string \<Rightarrow> tfunc rg" where
  "generate_function conf is label =
     (let func = new_tfunc label;
          max_successors = (if iset_has_conditional_branch is then 2 else 1)
      in rg_bind (randint (gc_min_bb_per_function conf) (gc_max_bb_per_function conf)) (\<lambda>node_count.
         let names = node_names label (nat node_count) in
         rg_bind (rg_map (\<lambda>i. rg_bind (node_successors max_successors names (bk_name (tf_exit func)) i)
             (\<lambda>ss. rg_return ((new_bblock (names ! i))\<lparr>bk_successors := ss\<rparr>))) [0..<length names]) (\<lambda>nodes.
         rg_bind (rg_lift (py_nth nodes 0)) (\<lambda>first.
         let func = func\<lparr>tf_entry := (tf_entry func)\<lparr>bk_successors := [bk_name first]\<rparr>\<rparr>;
             func = (if label \<noteq> ''.function_main''
                     then func\<lparr>tf_exit := (tf_exit func)\<lparr>bk_terminators := [get_return_instruction]\<rparr>\<rparr>
                     else func)
         in rg_return (func\<lparr>tf_blocks := tf_blocks func @ nodes\<rparr>)))))"

subsection \<open>Terminators\<close>

definition jump_to :: "string \<Rightarrow> instruction" where
  "jump_to target = get_unconditional_jump_instruction\<lparr>i_operands := [LabelOperand target]\<rparr>"

definition conditional_jump :: "instruction_spec \<Rightarrow> string \<Rightarrow> instruction res" where
  "conditional_jump spec target =
     (let terminator = (from_spec spec False)\<lparr>i_operands := [LabelOperand target]\<rparr> in
      case filter (\<lambda>op. os_type op = OT_FLAGS) (is_implicit_operands spec) of
        [] \<Rightarrow> Inr terminator
      | op # _ \<Rightarrow> res_bind (new_FlagsOperand (os_values op)) (\<lambda>flags.
          Inr (terminator\<lparr>i_implicit_operands := [flags]\<rparr>)))"

definition add_terminators :: "instruction_set \<Rightarrow> string \<Rightarrow> bblock \<Rightarrow> bblock rg" where
  "add_terminators is exit bb =
     (case bk_successors bb of
        [] \<Rightarrow> rg_return bb
      | [s] \<Rightarrow> rg_return (if s = exit then bb else bb\<lparr>bk_terminators := bk_terminators bb @ [jump_to s]\<rparr>)
      | [s, t] \<Rightarrow>
          rg_bind (choice (control_flow_instructions is)) (\<lambda>spec.
          rg_bind (rg_lift (conditional_jump spec s)) (\<lambda>terminator.
          rg_return (bb\<lparr>bk_terminators := bk_terminators bb @ [terminator, jump_to t]\<rparr>)))
      | _ \<Rightarrow> rg_raise NotSupportedException)"

definition add_terminators_in_function :: "instruction_set \<Rightarrow> tfunc \<Rightarrow> tfunc rg" where
  "add_terminators_in_function is func =
     (let exit = bk_name (tf_exit func) in
      rg_bind (add_terminators is exit (tf_entry func)) (\<lambda>en.
      rg_bind (rg_map (add_terminators is exit) (tf_blocks func)) (\<lambda>bs.
      rg_bind (add_terminators is exit (tf_exit func)) (\<lambda>ex.
      rg_return (func\<lparr>tf_entry := en, tf_blocks := bs, tf_exit := ex\<rparr>)))))"

subsection \<open>Filling the blocks\<close>

text \<open>
  The loop that draws specifications until one fits may run forever: it is a partial
  function into \<open>option\<close>, with \<open>None\<close> for a run that does not end.
\<close>

definition fits :: "bool \<Rightarrow> bool \<Rightarrow> instruction_spec \<Rightarrow> bool" where
  "fits search_for_memory_access search_for_store spec \<longleftrightarrow>
     (if search_for_memory_access
      then is_has_mem_operand spec \<and> is_has_write spec = search_for_store
      else \<not> is_has_mem_operand spec)"

partial_function (option) pick_loop ::
    "instruction_spec list \<Rightarrow> bool \<Rightarrow> bool \<Rightarrow> rng \<Rightarrow> (instruction_spec \<times> rng) res option" where
  "pick_loop specs mem store r =
     (case choice specs r of
        Inl e \<Rightarrow> Some (Inl e)
      | Inr (spec, r') \<Rightarrow> if fits mem store spec then Some (Inr (spec, r')) else pick_loop specs mem store r')"

text \<open>
  \<open>had_recent_memory_access\<close> is the state of the generator object. The probability is
  \<open>avg / size\<close>, or in pairs mode 1 after an unpaired access and \<open>(avg / 2) / (size - avg / 2)\<close> otherwise.
\<close>

definition memory_access_drawn :: "gen_conf \<Rightarrow> bool \<Rightarrow> bool rg" where
  "memory_access_drawn conf recent =
     (let avg = int (gc_avg_mem_accesses conf); sz = int (gc_test_case_size conf) in
      if sz = 0 then rg_raise ZeroDivisionError
      else if gc_generate_memory_accesses_in_pairs conf
      then if recent then random_below 1 1 else random_below avg (2 * sz - avg)
      else random_below avg sz)"

definition pick_random_instruction_spec ::
    "gen_conf \<Rightarrow> instruction_set \<Rightarrow> bool \<Rightarrow> rng \<Rightarrow> ((instruction_spec \<times> bool) \<times> rng) res option" where
  "pick_random_instruction_spec conf is recent r =
     (case memory_access_drawn conf recent r of
        Inl e \<Rightarrow> Some (Inl e)
      | Inr (mem, r) \<Rightarrow>
          let recent = (if mem then \<not> recent else recent) in
          case random_below 1 2 r of
            Inl e \<Rightarrow> Some (Inl e)
          | Inr (store, r) \<Rightarrow>
              map_option (\<lambda>v. res_bind v (\<lambda>(spec, r). Inr ((spec, recent), r)))
                (pick_loop (non_control_flow_instructions is) mem store r))"

text \<open>One round of the filling loop: a random block gets a random instruction at its end.\<close>

definition fill_round ::
    "gen_conf \<Rightarrow> instruction_set \<Rightarrow> bblock list \<times> bool \<Rightarrow> rng \<Rightarrow> ((bblock list \<times> bool) \<times> rng) res option" where
  "fill_round conf is = (\<lambda>(bbs, recent) r.
     case choice [0..<length bbs] r of
       Inl e \<Rightarrow> Some (Inl e)
     | Inr (k, r) \<Rightarrow>
         (case pick_random_instruction_spec conf is recent r of
            None \<Rightarrow> None
          | Some (Inl e) \<Rightarrow> Some (Inl e)
          | Some (Inr ((spec, recent), r)) \<Rightarrow>
              Some (res_bind (generate_instruction conf spec r) (\<lambda>(inst, r).
                Inr ((bbs[k := (bbs ! k)\<lparr>bk_body := bk_body (bbs ! k) @ [inst]\<rparr>], recent), r)))))"

fun fill_loop ::
    "gen_conf \<Rightarrow> instruction_set \<Rightarrow> nat \<Rightarrow> bblock list \<times> bool \<Rightarrow> rng \<Rightarrow>
     ((bblock list \<times> bool) \<times> rng) res option" where
  "fill_loop conf is 0 s r = Some (Inr (s, r))"
| "fill_loop conf is (Suc n) s r =
     (case fill_round conf is s r of
        None \<Rightarrow> None
      | Some (Inl e) \<Rightarrow> Some (Inl e)
      | Some (Inr (s, r)) \<Rightarrow> fill_loop conf is n s r)"

definition add_instructions_in_function ::
    "gen_conf \<Rightarrow> instruction_set \<Rightarrow> bool \<Rightarrow> tfunc \<Rightarrow> rng \<Rightarrow> ((tfunc \<times> bool) \<times> rng) res option" where
  "add_instructions_in_function conf is recent func r =
     map_option (\<lambda>v. res_bind v (\<lambda>((bbs, recent), r). Inr ((func\<lparr>tf_blocks := bbs\<rparr>, recent), r)))
       (fill_loop conf is (gc_test_case_size conf) (tf_blocks func, recent) r)"

subsection \<open>Facts on the graph\<close>

definition edges :: "tfunc \<Rightarrow> (string \<times> string) set" where
  "edges f = {(bk_name b, s) |b s. b \<in> set (tf_all f) \<and> s \<in> set (bk_successors b)}"

text \<open>
  A graph whose edges go forward in the layout, in which every block but the last has the next
  one as its first successor and no block has more than two.
\<close>

definition forward_graph :: "tfunc \<Rightarrow> bool" where
  "forward_graph f \<longleftrightarrow> distinct (map bk_name (tf_all f)) \<and> bk_successors (tf_exit f) = [] \<and>
     (\<forall>i < length (tf_all f) - 1.
        let b = tf_all f ! i in
        (\<exists>ss. bk_successors b = bk_name (tf_all f ! Suc i) # ss \<and> length ss \<le> 1 \<and>
           set ss \<subseteq> bk_name ` set (drop (i + 2) (tf_all f))))"

lemma forward_graph_edge:
  assumes "forward_graph f" and "(a, s) \<in> edges f"
  shows "\<exists>i j. i < j \<and> j < length (tf_all f) \<and> bk_name (tf_all f ! i) = a \<and> bk_name (tf_all f ! j) = s"
proof -
  from assms(2) obtain i where i: "i < length (tf_all f)" "bk_name (tf_all f ! i) = a"
    "s \<in> set (bk_successors (tf_all f ! i))" by (auto simp: edges_def in_set_conv_nth)
  have "tf_all f ! i \<noteq> tf_exit f" using i(3) assms(1) by (auto simp: forward_graph_def)
  then have "i \<noteq> length (tf_all f) - 1" by (auto simp: tf_all_def nth_append)
  with i(1) have l: "i < length (tf_all f) - 1" by simp
  with assms(1) obtain ss where ss: "bk_successors (tf_all f ! i) = bk_name (tf_all f ! Suc i) # ss"
    "set ss \<subseteq> bk_name ` set (drop (i + 2) (tf_all f))" by (auto simp: forward_graph_def Let_def)
  show ?thesis
  proof (cases "s \<in> set ss")
    case True
    with ss(2) obtain b where "b \<in> set (drop (i + 2) (tf_all f))" "bk_name b = s" by blast
    then obtain k where "k < length (tf_all f) - (i + 2)" "bk_name (tf_all f ! (i + 2 + k)) = s"
      by (auto simp: in_set_conv_nth)
    then have "i + 2 + k < length (tf_all f)" "bk_name (tf_all f ! (i + 2 + k)) = s" by linarith+
    with i show ?thesis by (intro exI [of _ i] exI [of _ "i + 2 + k"]) simp
  next
    case False
    with i ss l show ?thesis by (intro exI [of _ i] exI [of _ "Suc i"]) auto
  qed
qed

lemma forward_graph_acyclic:
  assumes "forward_graph f"
  shows "acyclic (edges f)"
proof -
  define rank where "rank a = (THE i. i < length (tf_all f) \<and> bk_name (tf_all f ! i) = a)" for a
  have d: "distinct (map bk_name (tf_all f))" using assms by (simp add: forward_graph_def)
  have rank: "rank (bk_name (tf_all f ! i)) = i" if "i < length (tf_all f)" for i
    unfolding rank_def using that d by (intro the_equality) (auto simp: distinct_conv_nth)
  have "edges f \<subseteq> inv_image less_than rank"
    using forward_graph_edge [OF assms] rank by (fastforce simp: inv_image_def)
  then have "wf (edges f)" by (rule wf_subset [rotated]) (rule wf_inv_image [OF wf_less_than])
  then show ?thesis by (rule wf_acyclic)
qed

lemma forward_graph_path:
  assumes "forward_graph f" and "i \<le> j" and "j < length (tf_all f)"
  shows "(bk_name (tf_all f ! i), bk_name (tf_all f ! j)) \<in> (edges f)\<^sup>*"
  using assms(2,3)
proof (induction j rule: dec_induct)
  case (step n)
  then have "n < length (tf_all f) - 1" by simp
  with assms(1) obtain ss where "bk_successors (tf_all f ! n) = bk_name (tf_all f ! Suc n) # ss"
    by (auto simp: forward_graph_def Let_def)
  then have "(bk_name (tf_all f ! n), bk_name (tf_all f ! Suc n)) \<in> edges f"
    using step.prems by (auto simp: edges_def intro!: exI [of _ "tf_all f ! n"])
  with step show ?case by (meson Suc_lessD rtrancl.rtrancl_into_rtrancl)
qed simp

lemma forward_graph_reachable:
  assumes "forward_graph f" and "b \<in> set (tf_all f)"
  shows "(bk_name (tf_entry f), bk_name b) \<in> (edges f)\<^sup>*"
    and "(bk_name b, bk_name (tf_exit f)) \<in> (edges f)\<^sup>*"
proof -
  from assms(2) obtain i where i: "i < length (tf_all f)" "b = tf_all f ! i" by (auto simp: in_set_conv_nth)
  have e: "tf_all f ! 0 = tf_entry f" "tf_all f ! (length (tf_all f) - 1) = tf_exit f"
    by (auto simp: tf_all_def nth_append)
  show "(bk_name (tf_entry f), bk_name b) \<in> (edges f)\<^sup>*"
    using forward_graph_path [OF assms(1), of 0 i] i e by simp
  show "(bk_name b, bk_name (tf_exit f)) \<in> (edges f)\<^sup>*"
    using forward_graph_path [OF assms(1), of i "length (tf_all f) - 1"] i e by simp
qed

text \<open>The successors drawn for a node.\<close>

lemma pick_targets_ok:
  "k \<le> length options \<Longrightarrow> rg_ok (pick_targets k options) (\<lambda>ts. length ts = k \<and> set ts \<subseteq> set options)"
proof (induction k arbitrary: options)
  case (Suc k)
  have "rg_ok (choice options) (\<lambda>t. t \<in> set options)" using Suc.prems by (intro rg_ok_choice) auto
  moreover have "rg_ok (pick_targets k (remove1 t options)) (\<lambda>ts. length ts = k \<and> set ts \<subseteq> set options)"
    if "t \<in> set options" for t
  proof (rule rg_ok_weaken)
    show "rg_ok (pick_targets k (remove1 t options))
        (\<lambda>ts. length ts = k \<and> set ts \<subseteq> set (remove1 t options))"
      using Suc.prems that by (intro Suc.IH) (simp add: length_remove1)
  qed (use set_remove1_subset in fastforce)
  ultimately show ?case unfolding pick_targets.simps
    by (auto intro!: rg_ok_bind [of "choice options" "\<lambda>t. t \<in> set options"]
        rg_ok_bind [of "pick_targets k _" "\<lambda>ts. length ts = k \<and> set ts \<subseteq> set options"] rg_ok_return)
qed auto

lemma node_successors_ok:
  assumes "i < length names" and "1 \<le> m" and "m \<le> 2"
  shows "rg_ok (node_successors m names exit i) (\<lambda>ss. \<exists>ts. ss = (names @ [exit]) ! Suc i # ts \<and>
    length ts \<le> 1 \<and> set ts \<subseteq> set (drop (i + 2) (names @ [exit])))"
proof (cases "i = length names - 1")
  case True
  with assms show ?thesis by (auto simp: node_successors_def Let_def nth_append intro!: rg_ok_return)
next
  case False
  let ?P = "\<lambda>ss. \<exists>ts. ss = (names @ [exit]) ! Suc i # ts \<and> length ts \<le> 1 \<and>
    set ts \<subseteq> set (drop (i + 2) (names @ [exit]))"
  have opts: "drop (i + 2) (names @ [exit]) = drop (i + 2) names @ [exit]" using False assms by simp
  show ?thesis unfolding node_successors_def Let_def using False
  proof (simp only: if_False, intro rg_ok_bind [OF rg_ok_randint [OF assms(2)]], goal_cases)
    case (1 c)
    then have n: "\<not> c + int i > int (length names)" using False assms by linarith
    have "nat (c - 1) \<le> 1" using 1 assms by linarith
    then have "rg_ok (pick_targets (nat (c - 1)) (drop (i + 2) names @ [exit]))
        (\<lambda>ts. length ts = nat (c - 1) \<and> set ts \<subseteq> set (drop (i + 2) names @ [exit]))"
      by (intro pick_targets_ok) simp
    then show ?case unfolding if_not_P [OF n]
      by (rule rg_ok_bind) (use \<open>nat (c - 1) \<le> 1\<close> False assms opts in \<open>auto simp: nth_append intro!: rg_ok_return\<close>)
  qed
qed

lemma node_names_last: "x \<in> set (node_names label n) \<Longrightarrow> last x \<noteq> CHR ''y'' \<and> last x \<noteq> CHR ''t''"
proof -
  assume "x \<in> set (node_names label n)"
  then obtain i where "x = ''.bb_'' @ remove_prefix label ''.function_'' @ ''.'' @ nat_str i"
    by (auto simp: node_names_def)
  then have "last x = last (nat_str i)" by simp
  with nat_str_digits [of "last (nat_str i)" i] show ?thesis by (auto simp: of_char_def)
qed

lemma distinct_node_names: "distinct (node_names label n)"
  by (auto simp: node_names_def distinct_map inj_on_def)

lemma new_tfunc_names:
  "distinct (bk_name (tf_entry (new_tfunc label)) # node_names label n @ [bk_name (tf_exit (new_tfunc label))])"
proof -
  have "last (bk_name (tf_entry (new_tfunc label))) = CHR ''y''" "last (bk_name (tf_exit (new_tfunc label))) = CHR ''t''"
    by (simp_all add: new_tfunc_def new_bblock_def Let_def)
  then show ?thesis using node_names_last [of _ label n] distinct_node_names by force
qed

text \<open>The function assembled from nodes with admissible successors is a forward graph.\<close>

lemma forward_graphI:
  fixes nodes :: "bblock list"
  assumes "distinct (bk_name en # map bk_name nodes @ [bk_name ex])" and "nodes \<noteq> []"
    and "bk_successors en = [bk_name (nodes ! 0)]" and "bk_successors ex = []"
    and "\<And>i. i < length nodes \<Longrightarrow> \<exists>ts. bk_successors (nodes ! i) = (map bk_name nodes @ [bk_name ex]) ! Suc i # ts \<and>
      length ts \<le> 1 \<and> set ts \<subseteq> set (drop (i + 2) (map bk_name nodes @ [bk_name ex]))"
    and f: "tf_entry f = en" "tf_blocks f = nodes" "tf_exit f = ex"
  shows "forward_graph f"
  unfolding forward_graph_def
proof (intro conjI allI impI)
  show "distinct (map bk_name (tf_all f))" using assms(1) f by (simp add: tf_all_def)
  show "bk_successors (tf_exit f) = []" using assms(4) f by simp
  have names: "map bk_name (drop k (nodes @ [ex])) = drop k (map bk_name nodes @ [bk_name ex])" for k
    by (metis drop_map list.simps(8,9) map_append)
  fix i
  assume "i < length (tf_all f) - 1"
  then have i: "i \<le> length nodes" using f by (simp add: tf_all_def)
  show "let b = tf_all f ! i in \<exists>ss. bk_successors b = bk_name (tf_all f ! Suc i) # ss \<and>
      length ss \<le> 1 \<and> set ss \<subseteq> bk_name ` set (drop (i + 2) (tf_all f))"
  proof (cases i)
    case 0
    then show ?thesis using assms(2,3) f by (simp add: tf_all_def nth_append)
  next
    case (Suc k)
    then have k: "k < length nodes" using i by simp
    have "(map bk_name nodes @ [bk_name ex]) ! Suc k = bk_name ((nodes @ [ex]) ! Suc k)"
      using k by (auto simp: nth_append)
    moreover have "bk_name ` set (drop (k + 2) (nodes @ [ex])) = set (drop (k + 2) (map bk_name nodes @ [bk_name ex]))"
      using names [of "k + 2"] by (metis set_map)
    ultimately show ?thesis using assms(5) [OF k] Suc k f by (simp add: tf_all_def nth_append)
  qed
qed

definition nodes_ok :: "string list \<Rightarrow> string \<Rightarrow> bblock list \<Rightarrow> bool" where
  "nodes_ok names exit nodes \<longleftrightarrow> map bk_name nodes = names \<and>
     (\<forall>i < length names. \<exists>ts. bk_successors (nodes ! i) = (names @ [exit]) ! Suc i # ts \<and>
        length ts \<le> 1 \<and> set ts \<subseteq> set (drop (i + 2) (names @ [exit]))) \<and>
     (\<forall>b \<in> set nodes. bk_body b = [] \<and> bk_terminators b = [])"

lemma nodes_ok_generated:
  assumes "1 \<le> m" and "m \<le> 2"
  shows "rg_ok (rg_map (\<lambda>i. rg_bind (node_successors m names exit i)
      (\<lambda>ss. rg_return ((new_bblock (names ! i))\<lparr>bk_successors := ss\<rparr>))) [0..<length names]) (nodes_ok names exit)"
proof (rule rg_ok_weaken [OF rg_ok_map])
  fix i
  assume "i \<in> set [0..<length names]"
  then have i: "i < length names" by simp
  show "rg_ok (rg_bind (node_successors m names exit i)
      (\<lambda>ss. rg_return ((new_bblock (names ! i))\<lparr>bk_successors := ss\<rparr>)))
    (\<lambda>b. bk_name b = names ! i \<and> bk_body b = [] \<and> bk_terminators b = [] \<and>
      (\<exists>ts. bk_successors b = (names @ [exit]) ! Suc i # ts \<and> length ts \<le> 1 \<and>
        set ts \<subseteq> set (drop (i + 2) (names @ [exit]))))"
    by (rule rg_ok_bind [OF node_successors_ok [OF i assms]]) (auto simp: new_bblock_def intro!: rg_ok_return)
next
  fix nodes :: "bblock list"
  assume *: "list_all2 (\<lambda>i b. bk_name b = names ! i \<and> bk_body b = [] \<and> bk_terminators b = [] \<and>
      (\<exists>ts. bk_successors b = (names @ [exit]) ! Suc i # ts \<and> length ts \<le> 1 \<and>
        set ts \<subseteq> set (drop (i + 2) (names @ [exit])))) [0..<length names] nodes"
  then have "length nodes = length names" by (simp add: list_all2_lengthD [symmetric])
  with * show "nodes_ok names exit nodes"
    by (auto simp: nodes_ok_def list_all2_conv_all_nth in_set_conv_nth intro: nth_equalityI)
qed

text \<open>What \<open>generate_function\<close> returns, on every tape.\<close>

definition generated :: "gen_conf \<Rightarrow> string \<Rightarrow> tfunc \<Rightarrow> bool" where
  "generated conf label f \<longleftrightarrow> tf_name f = label \<and> forward_graph f \<and>
     gc_min_bb_per_function conf \<le> int (length (tf_blocks f)) \<and>
     int (length (tf_blocks f)) \<le> gc_max_bb_per_function conf \<and>
     (\<forall>b \<in> set (tf_entry f # tf_blocks f). bk_body b = [] \<and> bk_terminators b = []) \<and>
     bk_terminators (tf_exit f) = (if label = ''.function_main'' then [] else [get_return_instruction])"

lemma generate_function_ok:
  assumes "1 \<le> gc_min_bb_per_function conf" and "gc_min_bb_per_function conf \<le> gc_max_bb_per_function conf"
  shows "rg_ok (generate_function conf is label) (generated conf label)"
  unfolding generate_function_def Let_def
proof (intro rg_ok_bind [OF rg_ok_randint [OF assms(2)]], goal_cases)
  case (1 n)
  let ?names = "node_names label (nat n)" and ?exit = "bk_name (tf_exit (new_tfunc label))"
  let ?m = "if iset_has_conditional_branch is then 2 else 1 :: int"
  have m: "1 \<le> ?m" "?m \<le> 2" by auto
  have len: "length ?names = nat n" by (simp add: node_names_def)
  show ?case
  proof (rule rg_ok_bind [OF nodes_ok_generated [OF m]], goal_cases)
    case (1 nodes)
    then have ok: "map bk_name nodes = ?names" and ln: "length nodes = nat n"
      using len by (auto simp: nodes_ok_def dest: arg_cong [of _ _ length])
    then have ne: "nodes \<noteq> []" using \<open>gc_min_bb_per_function conf \<le> n \<and> _\<close> assms(1) by auto
    show ?case
    proof (rule rg_ok_bind [of _ "\<lambda>x. x = nodes ! 0"], goal_cases)
      case 1
      show ?case using ne by (intro rg_ok_lift [of _ "nodes ! 0"]) simp_all
    next
      case (2 first)
      define f where "f = (let func = (new_tfunc label)\<lparr>tf_entry := (tf_entry (new_tfunc label))\<lparr>bk_successors := [bk_name first]\<rparr>\<rparr>;
             func = (if label \<noteq> ''.function_main''
                     then func\<lparr>tf_exit := (tf_exit func)\<lparr>bk_terminators := [get_return_instruction]\<rparr>\<rparr>
                     else func) in func\<lparr>tf_blocks := tf_blocks func @ nodes\<rparr>)"
      have fs: "tf_blocks f = nodes" "bk_name (tf_entry f) = bk_name (tf_entry (new_tfunc label))"
        "bk_name (tf_exit f) = ?exit" "bk_successors (tf_entry f) = [bk_name (nodes ! 0)]"
        "bk_successors (tf_exit f) = []" "bk_body (tf_entry f) = []" "bk_terminators (tf_entry f) = []"
        "bk_terminators (tf_exit f) = (if label = ''.function_main'' then [] else [get_return_instruction])"
        "tf_name f = label"
        using 2 by (auto simp: f_def Let_def new_tfunc_def new_bblock_def)
      have "forward_graph f"
        using new_tfunc_names [of label "nat n"] ok \<open>nodes_ok _ _ nodes\<close> ln len ne
        by (intro forward_graphI [where en = "tf_entry f" and ex = "tf_exit f" and nodes = nodes])
          (simp_all add: fs nodes_ok_def)
      moreover have "gc_min_bb_per_function conf \<le> int (length nodes) \<and> int (length nodes) \<le> gc_max_bb_per_function conf"
        using \<open>gc_min_bb_per_function conf \<le> n \<and> _\<close> ln assms(1) by simp
      ultimately have "generated conf label f"
        using \<open>nodes_ok _ _ nodes\<close> by (simp add: generated_def fs nodes_ok_def)
      then show ?case unfolding f_def Let_def by (rule rg_ok_return)
    qed
  qed
qed

subsection \<open>Facts on operands\<close>

text \<open>\<open>wf_spec\<close>: the operand can be generated; \<open>conforms\<close>: an operand is of the kind the specification asks for.\<close>

fun choices_of :: "gen_conf \<Rightarrow> operand_spec \<Rightarrow> string list" where
  "choices_of conf spec = (case reg_choices conf spec of Inl _ \<Rightarrow> [] | Inr cs \<Rightarrow> cs)"

definition gpr64 :: "gen_conf \<Rightarrow> string list" where
  "gpr64 conf = filter (\<lambda>r. r \<notin> set (gc_gpr_blocklist conf))
     [''RAX'', ''RBX'', ''RCX'', ''RDX'', ''RSI'', ''RDI'', ''R8'', ''R9'', ''R10'', ''R11'', ''R12'', ''R13'',
      ''R14'', ''R15'', ''RSP'', ''RBP'', ''RIP'']"

definition wf_spec :: "gen_conf \<Rightarrow> operand_spec \<Rightarrow> bool" where
  "wf_spec conf spec \<longleftrightarrow>
     (case os_type spec of
        OT_REG \<Rightarrow> choices_of conf spec \<noteq> []
      | OT_MEM \<Rightarrow> os_values spec \<noteq> [] \<or> gpr64 conf \<noteq> []
      | OT_IMM \<Rightarrow> os_values spec \<noteq> [] \<or> 0 < os_width spec
      | OT_AGEN \<Rightarrow> gpr64 conf \<noteq> []
      | OT_FLAGS \<Rightarrow> length (os_values spec) = 9
      | _ \<Rightarrow> False)"

definition imm_in_range :: "nat \<Rightarrow> string \<Rightarrow> bool" where
  "imm_in_range w v \<longleftrightarrow> (\<exists>i. v = lower (int_str i) \<and> - (2 ^ (w - 1)) \<le> i \<and> i < 2 ^ (w - 1))"

definition conforms :: "gen_conf \<Rightarrow> operand_spec \<Rightarrow> operand \<Rightarrow> bool" where
  "conforms conf spec op \<longleftrightarrow> op_type op = os_type spec \<and>
     (case op of
        RegisterOperand v w s d \<Rightarrow> v \<in> upper ` set (choices_of conf spec) \<and> w = os_width spec \<and>
          s = os_src spec \<and> d = os_dest spec
      | MemoryOperand v w s d \<Rightarrow>
          v \<in> upper ` set (if os_values spec \<noteq> [] then os_values spec else gpr64 conf) \<and> w = os_width spec \<and>
          s = os_src spec \<and> d = os_dest spec
      | ImmediateOperand v w \<Rightarrow> w = os_width spec \<and>
          (if os_values spec \<noteq> [] then v = lower (hd (os_values spec)) else imm_in_range w v)
      | AgenOperand v w \<Rightarrow> w = os_width spec
      | FlagsOperand vs \<Rightarrow> vs = os_values spec
      | LabelOperand v \<Rightarrow> False)"

lemma filtered_64 [simp]: "dict_get (filtered_decoding conf) 64 = Inr (gpr64 conf)"
  by (simp add: dict_get_def filtered_decoding_def x86_registers_def gpr64_def)

lemma rg_ok_choice_sorted: "xs \<noteq> [] \<Longrightarrow> rg_ok (choice (sort xs)) (\<lambda>x. x \<in> set xs)"
proof -
  assume "xs \<noteq> []"
  then have "sort xs \<noteq> []" by (metis set_empty set_sort)
  from rg_ok_choice [OF this] show ?thesis by simp
qed

lemma with_parent_ok: "rg_ok m P \<Longrightarrow> rg_ok (with_parent parent m) (\<lambda>(op, p). P op \<and> p = parent)"
  unfolding with_parent_def by (erule rg_ok_bind) (auto intro: rg_ok_return)

lemma generate_reg_operand_ok:
  assumes "wf_spec conf spec" and "os_type spec = OT_REG" and "\<not> gc_avoid_data_dependencies conf"
  shows "rg_ok (generate_reg_operand conf spec parent) (\<lambda>(op, p). conforms conf spec op \<and> p = parent)"
proof -
  from assms(1,2) obtain cs where cs: "reg_choices conf spec = Inr cs" "cs \<noteq> []"
    by (auto simp: wf_spec_def split: sum.splits)
  show ?thesis unfolding generate_reg_operand_def Let_def
  proof (rule rg_ok_bind [of _ "\<lambda>x. x = cs"], goal_cases)
    case (2 x)
    then show ?case using assms(2,3) cs
      by (auto intro!: rg_ok_bind [OF rg_ok_choice_sorted] rg_ok_return simp: conforms_def new_RegisterOperand_def)
  qed (simp add: cs(1) rg_ok_lift)
qed

lemma generate_mem_operand_ok:
  assumes "wf_spec conf spec" and "os_type spec = OT_MEM"
  shows "rg_ok (generate_mem_operand conf spec) (conforms conf spec)"
  unfolding generate_mem_operand_def
proof (rule rg_ok_bind [of _ "\<lambda>x. x \<in> set (if os_values spec \<noteq> [] then os_values spec else gpr64 conf)"])
  show "rg_ok (if os_values spec \<noteq> [] then choice (sort (os_values spec))
      else rg_bind (rg_lift (dict_get (filtered_decoding conf) 64)) (\<lambda>rs. choice (sort rs)))
    (\<lambda>x. x \<in> set (if os_values spec \<noteq> [] then os_values spec else gpr64 conf))"
    using assms by (auto simp: wf_spec_def intro!: rg_ok_choice_sorted
      rg_ok_bind [OF rg_ok_lift [of _ "gpr64 conf" "\<lambda>x. x = gpr64 conf"]])
qed (use assms in \<open>auto intro!: rg_ok_return simp: conforms_def new_MemoryOperand_def\<close>)

lemma generate_imm_operand_ok:
  assumes "wf_spec conf spec" and "os_type spec = OT_IMM"
  shows "rg_ok (generate_imm_operand spec) (conforms conf spec)"
proof (cases "os_values spec")
  case Nil
  let ?w = "os_width spec"
  have w: "0 < ?w" using assms Nil by (simp add: wf_spec_def)
  have "(- (2 ^ (?w - 1)) :: int) \<le> 2 ^ (?w - 1) - 1"
    using zero_less_power [of "2 :: int" "?w - 1"] by linarith
  from rg_ok_randint [OF this] show ?thesis
    unfolding generate_imm_operand_def using Nil w assms(2)
    by (auto intro!: rg_ok_bind [of _ "\<lambda>v. imm_in_range ?w (lower v)"] rg_ok_bind [of "randint _ _"] rg_ok_return
        simp: conforms_def new_ImmediateOperand_def imm_in_range_def)
next
  case (Cons v vs)
  then show ?thesis unfolding generate_imm_operand_def using assms(2)
    by (auto intro!: rg_ok_bind [of _ "\<lambda>x. x = v"] rg_ok_return simp: conforms_def new_ImmediateOperand_def)
qed

lemma generate_agen_operand_ok:
  assumes "wf_spec conf spec" and "os_type spec = OT_AGEN"
  shows "rg_ok (generate_agen_operand conf spec) (conforms conf spec)"
proof -
  have g: "gpr64 conf \<noteq> []" using assms by (simp add: wf_spec_def)
  have c: "conforms conf spec (new_AgenOperand v (os_width spec))" for v
    using assms(2) by (simp add: conforms_def new_AgenOperand_def)
  show ?thesis unfolding generate_agen_operand_def
    by (auto intro!: rg_ok_bind [OF rg_ok_randint] rg_ok_bind [OF rg_ok_choice_sorted [OF g]] rg_ok_return
        rg_ok_bind [OF rg_ok_lift [of _ "gpr64 conf" "\<lambda>x. x = gpr64 conf"]] c)
qed

lemma generate_flags_operand_ok:
  assumes "wf_spec conf spec" and "os_type spec = OT_FLAGS"
  shows "rg_ok (generate_flags_operand spec) (conforms conf spec)"
proof -
  have "new_FlagsOperand (os_values spec) = Inr (FlagsOperand (os_values spec))"
    using assms by (simp add: wf_spec_def new_FlagsOperand_def flag_names_def py_assert_def)
  moreover have "conforms conf spec (FlagsOperand (os_values spec))"
    using assms by (auto simp: conforms_def)
  ultimately show ?thesis unfolding generate_flags_operand_def by (rule rg_ok_lift)
qed

lemma generate_operand_ok:
  assumes "wf_spec conf spec" and "\<not> gc_avoid_data_dependencies conf"
  shows "rg_ok (generate_operand conf spec parent) (\<lambda>(op, p). conforms conf spec op \<and> p = parent)"
  using assms generate_reg_operand_ok generate_mem_operand_ok generate_imm_operand_ok
    generate_agen_operand_ok generate_flags_operand_ok
  unfolding generate_operand_def
  by (cases "os_type spec") (auto simp: wf_spec_def intro: with_parent_ok)

lemma add_generated_ok:
  assumes "\<forall>spec \<in> set specs. wf_spec conf spec" and "\<not> gc_avoid_data_dependencies conf"
  shows "rg_ok (rg_fold (add_generated conf implicit) specs inst) (\<lambda>i. \<exists>ops. list_all2 (conforms conf) specs ops \<and>
    i = (if implicit then inst\<lparr>i_implicit_operands := i_implicit_operands inst @ ops\<rparr>
         else inst\<lparr>i_operands := i_operands inst @ ops\<rparr>))"
  using assms(1)
proof (induction specs arbitrary: inst)
  case Nil
  show ?case by (auto intro!: rg_ok_return)
next
  case (Cons spec specs)
  show ?case unfolding rg_fold.simps
  proof (rule rg_ok_bind [of _ "\<lambda>i. \<exists>op. conforms conf spec op \<and> i = add_op inst op implicit"], goal_cases)
    case 1
    show ?case unfolding add_generated_def
      by (rule rg_ok_bind [OF generate_operand_ok]) (use Cons.prems assms(2) in \<open>auto intro!: rg_ok_return\<close>)
  next
    case (2 i)
    then obtain op where op: "conforms conf spec op" "i = add_op inst op implicit" by blast
    show ?case
      by (rule rg_ok_weaken [OF Cons.IH]) (use Cons.prems op in \<open>auto simp: add_op_def\<close>)
  qed
qed

subsection \<open>Facts on terminators\<close>

text \<open>
  The blocks control can reach from a block in the printed layout: the targets of its
  terminators, or the next block if it has none.
\<close>

definition labels_of :: "instruction \<Rightarrow> string list" where
  "labels_of i = map op_value (filter (\<lambda>op. op_type op = OT_LABEL) (i_operands i))"

definition layout_targets :: "string \<Rightarrow> bblock \<Rightarrow> string list" where
  "layout_targets next_name bb =
     (if bk_terminators bb = [] then [next_name] else concat (map labels_of (bk_terminators bb)))"

definition branch_spec_ok :: "instruction_spec \<Rightarrow> bool" where
  "branch_spec_ok spec \<longleftrightarrow> (\<forall>op \<in> set (is_implicit_operands spec). os_type op = OT_FLAGS \<longrightarrow> length (os_values op) = 9)"

lemma conditional_jump_ok:
  assumes "branch_spec_ok spec"
  shows "\<exists>i. conditional_jump spec target = Inr i \<and> labels_of i = [target]"
proof -
  have "length (os_values op) = 9" if "filter (\<lambda>op. os_type op = OT_FLAGS) (is_implicit_operands spec) = op # ops" for op ops
    using assms that by (metis (mono_tags, lifting) branch_spec_ok_def filter_eq_ConsD in_set_conv_decomp)
  then show ?thesis
    by (auto simp: conditional_jump_def Let_def labels_of_def new_FlagsOperand_def flag_names_def py_assert_def
        split: list.split)
qed

lemma add_terminators_ok:
  assumes "bk_terminators bb = []" and "bk_successors bb = n # ss" and "length ss \<le> 1"
    and "ss \<noteq> [] \<Longrightarrow> control_flow_instructions is \<noteq> []"
    and "\<forall>spec \<in> set (control_flow_instructions is). branch_spec_ok spec"
  shows "rg_ok (add_terminators is exit bb) (\<lambda>b. bk_name b = bk_name bb \<and> bk_successors b = bk_successors bb \<and>
    bk_body b = bk_body bb \<and> layout_targets n b = bk_successors bb)"
proof (cases ss)
  case Nil
  then show ?thesis using assms(1,2)
    by (auto intro!: rg_ok_return simp: add_terminators_def layout_targets_def jump_to_def labels_of_def)
next
  case (Cons t ts)
  then have ss: "ss = [t]" using assms(3) by simp
  have jt: "labels_of (jump_to t) = [t]" by (simp add: labels_of_def jump_to_def)
  show ?thesis unfolding add_terminators_def assms(2) ss
  proof (simp, rule rg_ok_bind [OF rg_ok_choice], goal_cases)
    case (2 spec)
    then obtain i where i: "conditional_jump spec n = Inr i" "labels_of i = [n]"
      using conditional_jump_ok assms(5) by blast
    show ?case
      by (rule rg_ok_bind [OF rg_ok_lift [of _ i "\<lambda>x. x = i"]])
        (use i jt assms(1,2) ss in \<open>auto intro!: rg_ok_return simp: layout_targets_def\<close>)
  qed (use assms(4) ss in simp)
qed

lemma add_terminators_exit: "bk_successors bb = [] \<Longrightarrow> rg_ok (add_terminators is exit bb) (\<lambda>b. b = bb)"
  by (auto simp: add_terminators_def intro: rg_ok_return)

subsection \<open>Facts on the selection loop\<close>

definition advance :: "nat \<Rightarrow> rng \<Rightarrow> rng" where
  "advance n r = r\<lparr>rg_pos := rg_pos r + n\<rparr>"

definition drawn :: "'a list \<Rightarrow> rng \<Rightarrow> nat \<Rightarrow> 'a" where
  "drawn xs r n = xs ! (rg_tape r (rg_pos r + n) mod length xs)"

lemma choice_drawn: "xs \<noteq> [] \<Longrightarrow> choice xs r = Inr (drawn xs r 0, advance 1 r)"
  by (simp add: choice_def draw_def drawn_def advance_def)

lemma drawn_advance [simp]: "drawn xs (advance m r) n = drawn xs r (m + n)"
  by (simp add: drawn_def advance_def add.assoc)

lemma advance_advance [simp]: "advance n (advance m r) = advance (m + n) r"
  by (simp add: advance_def add.assoc)

lemma pick_loop_first:
  assumes "specs \<noteq> []" and "fits mem store (drawn specs r n)" and "\<forall>k < n. \<not> fits mem store (drawn specs r k)"
  shows "pick_loop specs mem store r = Some (Inr (drawn specs r n, advance (Suc n) r))"
  using assms
proof (induction n arbitrary: r)
  case 0
  then show ?case by (subst pick_loop.simps) (simp add: choice_drawn)
next
  case (Suc n)
  have "pick_loop specs mem store (advance 1 r) = Some (Inr (drawn specs (advance 1 r) n, advance (Suc n) (advance 1 r)))"
    using Suc.prems by (intro Suc.IH) auto
  moreover have "\<not> fits mem store (drawn specs r 0)" using Suc.prems(3) by blast
  ultimately show ?case using Suc.prems(1) by (subst pick_loop.simps) (simp add: choice_drawn)
qed

lemma pick_loop_returns:
  assumes "pick_loop specs mem store r = Some v" and "specs \<noteq> []"
  shows "\<exists>n. fits mem store (drawn specs r n)"
  using assms(2)
proof (induction rule: pick_loop.raw_induct [OF _ assms(1)])
  case (1 pick specs mem store r v)
  show ?case
  proof (cases "fits mem store (drawn specs r 0)")
    case False
    then have "pick specs mem store (advance 1 r) = Some v"
      using 1(2,3) by (simp add: choice_drawn)
    from 1(1) [OF this 1(3)] show ?thesis by auto
  qed blast
qed

subsection \<open>Properties\<close>

text \<open>
  C24. The control flow of a generated function is a directed acyclic graph without dead code.
  Whatever is drawn, \<open>generate_function\<close> returns; the number of blocks is within the
  configured bounds, no path revisits a block (so the test case terminates), every block
  is reachable from the entry, the exit is reachable from every block, block names are
  unique and no block has more than two successors.
\<close>

theorem generated_function_acyclic:
  assumes "1 \<le> gc_min_bb_per_function conf" and "gc_min_bb_per_function conf \<le> gc_max_bb_per_function conf"
  shows "\<exists>f r'. generate_function conf is label r = Inr (f, r') \<and>
    gc_min_bb_per_function conf \<le> int (length (tf_blocks f)) \<and>
    int (length (tf_blocks f)) \<le> gc_max_bb_per_function conf \<and>
    distinct (map bk_name (tf_all f)) \<and> acyclic (edges f) \<and>
    (\<forall>b \<in> set (tf_all f). length (bk_successors b) \<le> 2 \<and>
       (bk_name (tf_entry f), bk_name b) \<in> (edges f)\<^sup>* \<and> (bk_name b, bk_name (tf_exit f)) \<in> (edges f)\<^sup>*)"
proof -
  obtain f r' where f: "generate_function conf is label r = Inr (f, r')" "generated conf label f"
    by (rule rg_okE [OF generate_function_ok [OF assms]])
  then have fg: "forward_graph f" by (simp add: generated_def)
  have "length (bk_successors b) \<le> 2" if "b \<in> set (tf_all f)" for b
  proof -
    from that obtain i where i: "i < length (tf_all f)" "b = tf_all f ! i" by (auto simp: in_set_conv_nth)
    show ?thesis
    proof (cases "i < length (tf_all f) - 1")
      case True
      with fg i show ?thesis by (fastforce simp: forward_graph_def Let_def)
    next
      case False
      with i have "b = tf_exit f" by (auto simp: tf_all_def nth_append nth_Cons')
      with fg show ?thesis by (simp add: forward_graph_def)
    qed
  qed
  with f fg forward_graph_acyclic [OF fg] forward_graph_reachable [OF fg] show ?thesis
    by (auto simp: generated_def forward_graph_def)
qed

definition ex_conf :: gen_conf where
  "ex_conf = \<lparr>gc_min_bb_per_function = 2, gc_max_bb_per_function = 3, gc_avoid_data_dependencies = False,
     gc_test_case_size = 2, gc_avg_mem_accesses = 1, gc_generate_memory_accesses_in_pairs = False,
     gc_gpr_blocklist = [''RSP''], gc_input_main_region_size = 4096, gc_memory_access_zeroed_bits = 0\<rparr>"

definition ex_jz :: instruction_spec where
  "ex_jz = new_instruction_spec\<lparr>is_name := ''JZ'', is_category := ''BASE-COND_BR'', is_control_flow := True,
     is_implicit_operands := [new_operand_spec ['''', '''', '''', ''r'', '''', '''', '''', '''', ''''] OT_FLAGS False False]\<rparr>"

definition ex_add :: instruction_spec where
  "ex_add = new_instruction_spec\<lparr>is_name := ''ADD'', is_category := ''BASE-BINARY'',
     is_operands := [(new_operand_spec [''GPR''] OT_REG True True)\<lparr>os_width := 64\<rparr>,
                     (new_operand_spec [] OT_IMM True False)\<lparr>os_width := 8\<rparr>],
     is_implicit_operands := [new_operand_spec [''w'', ''w'', ''w'', ''w'', ''w'', '''', '''', '''', ''w''] OT_FLAGS False False]\<rparr>"

definition ex_iset :: instruction_set where
  "ex_iset = \<lparr>iset_instructions = [ex_jz, ex_add], iset_has_conditional_branch = True,
     iset_has_unconditional_branch = True, iset_has_reads = False, iset_has_writes = False\<rparr>"

definition ex_rng :: rng where
  "ex_rng = \<lparr>rg_tape = (\<lambda>n. n), rg_pos = 0\<rparr>"

theorem generated_function_acyclic_witness:
  "\<exists>f r'. generate_function ex_conf ex_iset ''.function_main'' ex_rng = Inr (f, r') \<and> acyclic (edges f)"
  using generated_function_acyclic [of ex_conf ex_iset "''.function_main''" ex_rng] by (auto simp: ex_conf_def)



text \<open>Every jump and every fall-through of the layout follows the graph.\<close>

definition layout_follows :: "tfunc \<Rightarrow> bool" where
  "layout_follows f \<longleftrightarrow> (\<forall>i < length (tf_all f) - 1.
     layout_targets (bk_name (tf_all f ! Suc i)) (tf_all f ! i) = bk_successors (tf_all f ! i))"

definition terminated :: "tfunc \<Rightarrow> nat \<Rightarrow> bblock \<Rightarrow> bool" where
  "terminated f i b \<longleftrightarrow> bk_name b = bk_name (tf_all f ! i) \<and>
     layout_targets (bk_name (tf_all f ! Suc i)) b = bk_successors b"

lemma layout_followsI:
  assumes "length bs = length (tf_blocks f)" and "terminated f 0 en"
    and "\<And>i. i < length bs \<Longrightarrow> terminated f (Suc i) (bs ! i)"
  shows "layout_follows (f\<lparr>tf_entry := en, tf_blocks := bs, tf_exit := tf_exit f\<rparr>)"
proof -
  let ?f = "f\<lparr>tf_entry := en, tf_blocks := bs, tf_exit := tf_exit f\<rparr>"
  have all: "tf_all ?f = (en # bs) @ [tf_exit f]" "tf_all f = (tf_entry f # tf_blocks f) @ [tf_exit f]"
    by (simp_all add: tf_all_def)
  have t: "terminated f i (tf_all ?f ! i)" if "i < length (en # bs)" for i
    unfolding all(1) using assms that by (cases i) (simp_all add: nth_append)
  have n: "bk_name (tf_all ?f ! k) = bk_name (tf_all f ! k)" if "k < length (tf_all f)" for k
  proof (cases "k < length (en # bs)")
    case True
    with t show ?thesis by (simp add: terminated_def)
  next
    case False
    with that have "k = length (en # bs)" using assms(1) unfolding all by simp
    then show ?thesis unfolding all using assms(1) by (simp add: nth_append)
  qed
  show ?thesis unfolding layout_follows_def
  proof (intro allI impI)
    fix i
    assume "i < length (tf_all ?f) - 1"
    then have "i < length (en # bs)" "Suc i < length (tf_all f)" using assms(1) unfolding all by simp_all
    with t n show "layout_targets (bk_name (tf_all ?f ! Suc i)) (tf_all ?f ! i) = bk_successors (tf_all ?f ! i)"
      by (simp add: terminated_def)
  qed
qed

lemma rg_map_map: "rg_map h (map g xs) = rg_map (\<lambda>i. h (g i)) xs"
  by (induction xs) auto

lemma rg_map_nth: "rg_map h xs = rg_map (\<lambda>i. h (xs ! i)) [0..<length xs]"
  using rg_map_map [of h "\<lambda>i. xs ! i" "[0..<length xs]"] by (simp add: map_nth)

lemma block_terminated:
  assumes "generated conf label f" and "control_flow_instructions is \<noteq> []"
    and "\<forall>spec \<in> set (control_flow_instructions is). branch_spec_ok spec" and "i < Suc (length (tf_blocks f))"
  shows "rg_ok (add_terminators is exit (tf_all f ! i)) (terminated f i)"
proof -
  have i: "i < length (tf_all f) - 1" "tf_all f ! i \<in> set (tf_entry f # tf_blocks f)"
    using assms(4) by (auto simp: tf_all_def nth_append nth_Cons')
  then obtain ss where "bk_successors (tf_all f ! i) = bk_name (tf_all f ! Suc i) # ss" "length ss \<le> 1"
    using assms(1) by (auto simp: generated_def forward_graph_def Let_def)
  moreover have "bk_terminators (tf_all f ! i) = []" using assms(1) i(2) by (auto simp: generated_def)
  ultimately show ?thesis
    by (intro rg_ok_weaken [OF add_terminators_ok]) (use assms(2,3) in \<open>auto simp: terminated_def\<close>)
qed

lemma add_terminators_in_function_ok:
  assumes "generated conf label f" and "control_flow_instructions is \<noteq> []"
    and "\<forall>spec \<in> set (control_flow_instructions is). branch_spec_ok spec"
  shows "rg_ok (add_terminators_in_function is f) layout_follows"
proof -
  let ?exit = "bk_name (tf_exit f)"
  note bt = block_terminated [OF assms]
  have "tf_all f ! Suc i = tf_blocks f ! i" if "i < length (tf_blocks f)" for i
    using that by (simp add: tf_all_def nth_append)
  then have "rg_ok (rg_map (add_terminators is ?exit) (tf_blocks f))
      (list_all2 (\<lambda>i. terminated f (Suc i)) [0..<length (tf_blocks f)])"
    unfolding rg_map_nth [of _ "tf_blocks f"] using bt [of "Suc _"] by (intro rg_ok_map) simp
  moreover have "rg_ok (add_terminators is ?exit (tf_exit f)) (\<lambda>b. b = tf_exit f)"
    using assms(1) by (intro add_terminators_exit) (simp add: generated_def forward_graph_def)
  moreover have "rg_ok (add_terminators is ?exit (tf_entry f)) (terminated f 0)"
    using bt [of 0] by (simp add: tf_all_def)
  moreover have "layout_follows (f\<lparr>tf_entry := en, tf_blocks := bs, tf_exit := tf_exit f\<rparr>)"
    if "terminated f 0 en" "list_all2 (\<lambda>i. terminated f (Suc i)) [0..<length (tf_blocks f)] bs" for en bs
    using that by (intro layout_followsI) (auto simp: list_all2_conv_all_nth)
  ultimately show ?thesis unfolding add_terminators_in_function_def Let_def
    by (blast intro: rg_ok_bind rg_ok_return)
qed

text \<open>
  C30. Terminators realise the graph: in the function that \<open>generate_function\<close> and
  \<open>add_terminators_in_function\<close> build, the blocks that control can reach from a block of
  the printed layout (through its jumps, or by falling through to the next block) are
  exactly its successors in the graph, in order.
\<close>

theorem terminators_follow_graph:
  assumes "1 \<le> gc_min_bb_per_function conf" and "gc_min_bb_per_function conf \<le> gc_max_bb_per_function conf"
    and "control_flow_instructions is \<noteq> []"
    and "\<forall>spec \<in> set (control_flow_instructions is). branch_spec_ok spec"
  shows "\<exists>f r'. rg_bind (generate_function conf is label) (add_terminators_in_function is) r = Inr (f, r') \<and>
    (\<forall>i < length (tf_all f) - 1.
       layout_targets (bk_name (tf_all f ! Suc i)) (tf_all f ! i) = bk_successors (tf_all f ! i))"
proof -
  have "rg_ok (rg_bind (generate_function conf is label) (add_terminators_in_function is)) layout_follows"
    using assms by (intro rg_ok_bind [OF generate_function_ok] add_terminators_in_function_ok)
  then show ?thesis unfolding rg_ok_def layout_follows_def by blast
qed

theorem terminators_follow_graph_witness:
  "\<exists>f r'. rg_bind (generate_function ex_conf ex_iset ''.function_main'') (add_terminators_in_function ex_iset) ex_rng =
    Inr (f, r') \<and> layout_targets (bk_name (tf_all f ! 1)) (tf_all f ! 0) = bk_successors (tf_all f ! 0)"
proof -
  have c: "control_flow_instructions ex_iset = [ex_jz]"
    by (simp add: control_flow_instructions_def ex_iset_def ex_jz_def ex_add_def new_instruction_spec_def)
  have "branch_spec_ok ex_jz" by (simp add: branch_spec_ok_def ex_jz_def new_operand_spec_def)
  with terminators_follow_graph [of ex_conf ex_iset "''.function_main''" ex_rng] show ?thesis
    unfolding c by (fastforce simp: ex_conf_def tf_all_def)
qed


end
