(* ===== verification/Passes.thy ===== *)
theory Passes
  imports Generator
begin

text \<open>
  The instrumentation passes of \<^verbatim>\<open>src/src/generator.py\<close>: sandboxing of memory accesses,
  divisions, bit tests, repeated instructions and shifts, fences, the patch for bit
  scans and the random protection prefixes. A pass walks over a block and inserts next to,
  changes or deletes the instructions it has collected before. During a pass an
  instruction of the block is known by its tag (its index when the pass started);
  instructions that the pass inserts are never looked up again and have no tag. The
  main lemma shows that the phases of the sandbox pass together expand every instruction
  on its own, in place; the properties then show what the expansion guarantees.
\<close>

subsection \<open>Tagged bodies\<close>

type_synonym tagged = "(nat option \<times> instruction) list"

definition number :: "instruction list \<Rightarrow> tagged" where
  "number body = map (\<lambda>(k, i). (Some k, i)) (enumerate 0 body)"

fun insert_before_tag :: "nat \<Rightarrow> instruction \<Rightarrow> tagged \<Rightarrow> tagged" where
  "insert_before_tag k new [] = []"
| "insert_before_tag k new ((t, i) # xs) =
     (if t = Some k then (None, new) # (t, i) # xs else (t, i) # insert_before_tag k new xs)"

fun insert_after_tag :: "nat \<Rightarrow> instruction \<Rightarrow> tagged \<Rightarrow> tagged" where
  "insert_after_tag k new [] = []"
| "insert_after_tag k new ((t, i) # xs) =
     (if t = Some k then (t, i) # (None, new) # xs else (t, i) # insert_after_tag k new xs)"

fun delete_tag :: "nat \<Rightarrow> tagged \<Rightarrow> tagged" where
  "delete_tag k [] = []"
| "delete_tag k ((t, i) # xs) = (if t = Some k then xs else (t, i) # delete_tag k xs)"

fun update_tag :: "nat \<Rightarrow> instruction \<Rightarrow> tagged \<Rightarrow> tagged" where
  "update_tag k new [] = []"
| "update_tag k new ((t, i) # xs) = (if t = Some k then (t, new) # xs else (t, i) # update_tag k new xs)"

definition lookup_tag :: "nat \<Rightarrow> tagged \<Rightarrow> instruction res" where
  "lookup_tag k xs = (case map_of xs (Some k) of Some i \<Rightarrow> Inr i | None \<Rightarrow> Inl PyException)"

text \<open>
  What a sandboxing method does with one instruction: the instructions it inserts before
  it, in order, the instruction as it is afterwards (\<open>None\<close> if it is deleted), and the
  instructions inserted directly after it.
\<close>

record patch =
  p_before :: "instruction list"
  p_self :: "instruction option"
  p_after :: "instruction list"

definition apply_patch :: "nat \<Rightarrow> patch \<Rightarrow> tagged \<Rightarrow> tagged" where
  "apply_patch k p xs =
     (let xs = fold (insert_before_tag k) (p_before p) xs;
          xs = fold (insert_after_tag k) (p_after p) xs
      in case p_self p of Some i \<Rightarrow> update_tag k i xs | None \<Rightarrow> delete_tag k xs)"

subsection \<open>Sandboxing\<close>

text \<open>\<open>int(math.log(n, 2))\<close> for a positive \<open>n\<close>, and the mask in binary notation.\<close>

fun ilog2 :: "nat \<Rightarrow> nat" where
  "ilog2 n = (if n < 2 then 0 else Suc (ilog2 (n div 2)))"

declare ilog2.simps [simp del]

definition sandbox_address_mask :: "gen_conf \<Rightarrow> string" where
  "sandbox_address_mask conf =
     ''0b'' @ replicate (ilog2 (gc_input_main_region_size conf) - gc_memory_access_zeroed_bits conf) (CHR ''1'') @
     replicate (gc_memory_access_zeroed_bits conf) (CHR ''0'')"

definition mask_3bits :: string where
  "mask_3bits = ''0b111''"

definition bit_test_names :: "string list" where
  "bit_test_names = [''BT'', ''BTC'', ''BTR'', ''BTS'', ''LOCK BT'', ''LOCK BTC'', ''LOCK BTR'', ''LOCK BTS'']"

definition instrument :: "string \<Rightarrow> operand list \<Rightarrow> instruction" where
  "instrument name ops = fold (\<lambda>op i. add_op i op False) ops (new_instruction name True '''' False)"

fun set_first_mem :: "string \<Rightarrow> operand list \<Rightarrow> operand list" where
  "set_first_mem v [] = []"
| "set_first_mem v (MemoryOperand a w s d # ops) = MemoryOperand v w s d # ops"
| "set_first_mem v (op # ops) = op # set_first_mem v ops"

definition sandbox_memory_access :: "string \<Rightarrow> instruction \<Rightarrow> patch res" where
  "sandbox_memory_access amask instr =
     (let mem_operands = get_mem_operands instr;
          implicit_mem_operands = get_implicit_mem_operands instr
      in if mem_operands \<noteq> [] \<and> implicit_mem_operands = [] then
           res_bind (py_assert (length mem_operands = 1)) (\<lambda>_.
             let mem_operand = hd mem_operands;
                 address_reg = op_value mem_operand;
                 imm_width = (if op_width mem_operand \<le> 32 then op_width mem_operand else 32);
                 apply_mask = instrument ''AND''
                   [new_RegisterOperand address_reg (op_width mem_operand) True True,
                    new_ImmediateOperand amask imm_width]
             in Inr \<lparr>p_before = [apply_mask],
                     p_self = Some (instr\<lparr>i_operands := set_first_mem (''R14 + '' @ address_reg) (i_operands instr)\<rparr>),
                     p_after = []\<rparr>)
         else if implicit_mem_operands \<noteq> [] then
           res_bind (py_assert (length implicit_mem_operands = 1)) (\<lambda>_.
             let mem_operand = hd implicit_mem_operands;
                 address_reg = op_value mem_operand;
                 imm_width = (if op_width mem_operand \<le> 32 then op_width mem_operand else 32);
                 apply_mask = instrument ''AND''
                   [new_RegisterOperand address_reg (op_width mem_operand) True True,
                    new_ImmediateOperand amask imm_width];
                 add_base = instrument ''ADD''
                   [new_RegisterOperand address_reg (op_width mem_operand) True True,
                    new_RegisterOperand ''R14'' 64 True False]
             in Inr \<lparr>p_before = [apply_mask, add_base], p_self = Some instr, p_after = []\<rparr>)
         else Inl GeneratorException)"

definition sandbox_division :: "instruction \<Rightarrow> patch res" where
  "sandbox_division inst =
     res_bind (py_nth (i_operands inst) 0) (\<lambda>divisor.
     let or_one = instrument ''OR'' [divisor, new_ImmediateOperand ''1'' 8] in
     if op_width divisor = 8 then
       if \<not> contains (op_value divisor) ''RAX''
       then Inr \<lparr>p_before = [or_one, instrument ''MOV'' [new_RegisterOperand ''AX'' 16 False True,
                                                       new_ImmediateOperand ''1'' 16]],
                 p_self = Some inst, p_after = []\<rparr>
       else Inr \<lparr>p_before = [or_one], p_self = None, p_after = []\<rparr>
     else if op_width divisor = 64 then Inr \<lparr>p_before = [or_one], p_self = None, p_after = []\<rparr>
     else if op_value divisor \<in> {''RDX'', ''EDX'', ''DX'', ''DH'', ''DL''} \<or> contains (op_value divisor) ''RDX''
     then Inr \<lparr>p_before = [or_one], p_self = None, p_after = []\<rparr>
     else res_bind (dict_get [(64, ''RDX''), (32, ''EDX''), (16, ''DX'')] (op_width divisor)) (\<lambda>d_register.
       Inr \<lparr>p_before = [or_one,
              instrument ''AND'' [new_RegisterOperand d_register (op_width divisor) False True, divisor],
              instrument ''SHR'' [new_RegisterOperand d_register (op_width divisor) False True,
                                new_ImmediateOperand ''1'' 8]],
            p_self = Some inst, p_after = []\<rparr>))"

text \<open>A bit test with an immediate offset draws a new one from 0 to 7.\<close>

definition sandbox_bit_test :: "instruction \<Rightarrow> patch rg" where
  "sandbox_bit_test inst =
     rg_bind (rg_lift (py_nth (i_operands inst) 0)) (\<lambda>address.
     if is_register_operand address then rg_return \<lparr>p_before = [], p_self = Some inst, p_after = []\<rparr>
     else rg_bind (rg_lift (py_nth (i_operands inst) 1)) (\<lambda>offset.
       case offset of
         ImmediateOperand v w \<Rightarrow>
           rg_bind (randint 0 7) (\<lambda>n.
             rg_return \<lparr>p_before = [],
               p_self = Some (inst\<lparr>i_operands := (i_operands inst)[1 := ImmediateOperand (int_str n) w]\<rparr>),
               p_after = []\<rparr>)
       | _ \<Rightarrow>
           if op_value address \<noteq> op_value offset
           then rg_return \<lparr>p_before = [instrument ''AND'' [offset, new_ImmediateOperand mask_3bits 8]],
                           p_self = Some inst, p_after = []\<rparr>
           else rg_return \<lparr>p_before = [], p_self = None, p_after = []\<rparr>))"

definition sandbox_repeated_instruction :: "instruction \<Rightarrow> patch" where
  "sandbox_repeated_instruction inst =
     \<lparr>p_before = [instrument ''AND'' [new_RegisterOperand ''RCX'' 64 True True, new_ImmediateOperand ''0xff'' 8],
                  instrument ''ADD'' [new_RegisterOperand ''RCX'' 64 True True, new_ImmediateOperand ''1'' 1]],
      p_self = Some inst, p_after = []\<rparr>"

definition sandbox_corrupted_cf :: "instruction \<Rightarrow> patch" where
  "sandbox_corrupted_cf inst = \<lparr>p_before = [], p_self = Some inst, p_after = [instrument ''STC'' []]\<rparr>"

text \<open>The collected lists are exclusive, by the \<open>elif\<close> chain, except for the memory accesses.\<close>

definition is_division :: "instruction \<Rightarrow> bool" where
  "is_division inst \<longleftrightarrow> i_name inst \<in> {''DIV'', ''REX DIV''}"

definition is_bit_test :: "instruction \<Rightarrow> bool" where
  "is_bit_test inst \<longleftrightarrow> \<not> is_division inst \<and> i_name inst \<in> set bit_test_names"

definition is_repeated :: "instruction \<Rightarrow> bool" where
  "is_repeated inst \<longleftrightarrow> \<not> is_division inst \<and> \<not> is_bit_test inst \<and> contains (i_name inst) ''REP''"

definition is_shift :: "instruction \<Rightarrow> bool" where
  "is_shift inst \<longleftrightarrow> \<not> is_division inst \<and> \<not> is_bit_test inst \<and> \<not> is_repeated inst \<and>
     (i_category inst = ''BASE-ROTATE'' \<or> i_category inst = ''BASE-SHIFT'')"

definition collect :: "(instruction \<Rightarrow> bool) \<Rightarrow> instruction list \<Rightarrow> nat list" where
  "collect P body = filter (\<lambda>k. P (body ! k)) [0..<length body]"

definition phase :: "(instruction \<Rightarrow> patch rg) \<Rightarrow> nat list \<Rightarrow> tagged \<Rightarrow> tagged rg" where
  "phase f = rg_fold (\<lambda>k xs.
     rg_bind (rg_lift (lookup_tag k xs)) (\<lambda>inst.
     rg_bind (f inst) (\<lambda>p. rg_return (apply_patch k p xs))))"

definition sandbox_block :: "string \<Rightarrow> instruction list \<Rightarrow> instruction list rg" where
  "sandbox_block amask body =
     rg_bind (phase (\<lambda>i. rg_lift (sandbox_memory_access amask i)) (collect (\<lambda>i. has_mem_operand i True) body)
       (number body)) (\<lambda>xs.
     rg_bind (phase (\<lambda>i. rg_lift (sandbox_division i)) (collect is_division body) xs) (\<lambda>xs.
     rg_bind (phase sandbox_bit_test (collect is_bit_test body) xs) (\<lambda>xs.
     rg_bind (phase (\<lambda>i. rg_return (sandbox_repeated_instruction i)) (collect is_repeated body) xs) (\<lambda>xs.
     rg_bind (phase (\<lambda>i. rg_return (sandbox_corrupted_cf i)) (collect is_shift body) xs) (\<lambda>xs.
     rg_return (map snd xs))))))"

text \<open>The pass over a function leaves the entry block alone.\<close>

definition run_blocks :: "(instruction list \<Rightarrow> instruction list rg) \<Rightarrow> bblock list \<Rightarrow> bblock list rg" where
  "run_blocks f = rg_map (\<lambda>bb. rg_bind (f (bk_body bb)) (\<lambda>body. rg_return (bb\<lparr>bk_body := body\<rparr>)))"

definition sandbox_function :: "gen_conf \<Rightarrow> tfunc \<Rightarrow> tfunc rg" where
  "sandbox_function conf func =
     rg_bind (run_blocks (sandbox_block (sandbox_address_mask conf)) (tf_blocks func @ [tf_exit func])) (\<lambda>bbs.
       rg_return (func\<lparr>tf_blocks := butlast bbs, tf_exit := last bbs\<rparr>))"

definition requires_sandbox :: "instruction_spec \<Rightarrow> bool" where
  "requires_sandbox spec \<longleftrightarrow> is_has_mem_operand spec \<or> is_name spec \<in> {''DIV'', ''REX DIV''} \<or>
     is_name spec \<in> set bit_test_names \<or> is_category spec \<in> {''BASE-SHIFT'', ''BASE-ROTATE''}"

subsection \<open>The other passes\<close>

text \<open>\<open>X86LFENCEPass\<close>: a fence after every instruction.\<close>

definition lfence_block :: "instruction list \<Rightarrow> instruction list" where
  "lfence_block body =
     map snd (fold (\<lambda>k. insert_after_tag k (instrument ''LFENCE'' [])) [0..<length body] (number body))"

text \<open>\<open>bin(1 << (w - 1))\<close>, replaced by a 31-bit constant for the widths 32 and 64.\<close>

definition bit_scan_mask :: "nat \<Rightarrow> string \<times> nat" where
  "bit_scan_mask w =
     (if w \<in> {64, 32} then (''0b1000000000000000000000000000000'', 32)
      else (''0b'' @ CHR ''1'' # replicate (w - 1) (CHR ''0''), w))"

definition patch_bit_scan :: "instruction \<Rightarrow> patch res" where
  "patch_bit_scan inst =
     res_bind (py_nth (i_operands inst) 1) (\<lambda>source.
     res_bind (if op_width source = 0 then Inl ValueError else Inr (bit_scan_mask (op_width source))) (\<lambda>(m, mask_size).
     Inr \<lparr>p_before = [instrument ''OR'' [source, new_ImmediateOperand m mask_size]], p_self = Some inst,
          p_after = []\<rparr>))"

definition bit_scan_block :: "instruction list \<Rightarrow> instruction list rg" where
  "bit_scan_block body =
     rg_bind (phase (\<lambda>i. rg_lift (patch_bit_scan i)) (collect (\<lambda>i. i_name i \<in> {''BSF'', ''BSR''}) body) (number body))
       (\<lambda>xs. rg_return (map snd xs))"

text \<open>
  \<open>X86RandomProtectPass\<close> inserts the prefix while it walks: the new object is linked before the
  current one, so the walk goes on with the old successor.
\<close>

fun protect_block :: "instruction list \<Rightarrow> instruction list rg" where
  "protect_block [] = rg_return []"
| "protect_block (inst # body) =
     rg_bind (getrandbits 2) (\<lambda>v.
     rg_bind (protect_block body) (\<lambda>ys.
     rg_return ((if v = 0 then [new_instruction ''.byte 0x36'' False '''' False] else []) @ inst # ys)))"

subsection \<open>Segments\<close>

text \<open>
  A body during a pass as the list of what has become of each instruction: a segment holds
  the instructions inserted before it, itself (unless deleted) and those inserted after it.
\<close>

type_synonym segment = "instruction list \<times> instruction option \<times> instruction list"

definition flat_segment :: "nat \<Rightarrow> segment \<Rightarrow> tagged" where
  "flat_segment k s = (case s of (b, i, a) \<Rightarrow>
     map (Pair None) b @ (case i of Some i \<Rightarrow> [(Some k, i)] | None \<Rightarrow> []) @ map (Pair None) a)"

definition flat_from :: "nat \<Rightarrow> segment list \<Rightarrow> tagged" where
  "flat_from n segs = concat (map (\<lambda>(k, s). flat_segment k s) (enumerate n segs))"

abbreviation flat :: "segment list \<Rightarrow> tagged" where
  "flat \<equiv> flat_from 0"

definition plain_segment :: "segment \<Rightarrow> instruction list" where
  "plain_segment s = (case s of (b, i, a) \<Rightarrow> b @ (case i of Some i \<Rightarrow> [i] | None \<Rightarrow> []) @ a)"

text \<open>The effect of a patch on a segment whose instruction is still there.\<close>

definition patch_segment :: "patch \<Rightarrow> segment \<Rightarrow> segment" where
  "patch_segment p s = (case s of (b, i, a) \<Rightarrow> (b @ p_before p, p_self p, rev (p_after p) @ a))"

lemma flat_from_simps [simp]:
  "flat_from n [] = []"
  "flat_from n (s # segs) = flat_segment n s @ flat_from (Suc n) segs"
  by (simp_all add: flat_from_def)

lemma flat_from_append: "flat_from n (xs @ ys) = flat_from n xs @ flat_from (n + length xs) ys"
  by (induction xs arbitrary: n) simp_all

lemma map_snd_flat_from: "map snd (flat_from n segs) = concat (map plain_segment segs)"
  by (induction segs arbitrary: n) (auto simp: flat_segment_def plain_segment_def comp_def split: option.split)

lemma number_flat: "number body = flat (map (\<lambda>i. ([], Some i, [])) body)"
proof -
  have "map (\<lambda>(k, i). (Some k, i)) (enumerate n body) = flat_from n (map (\<lambda>i. ([], Some i, [])) body)" for n
    by (induction body arbitrary: n) (simp_all add: flat_segment_def)
  then show ?thesis by (simp add: number_def)
qed

lemma tag_in_flat_from: "(Some k, i) \<in> set (flat_from n segs) \<Longrightarrow> n \<le> k \<and> k < n + length segs"
  by (induction segs arbitrary: n) (force simp: flat_segment_def split: option.splits prod.splits)+

text \<open>Operations at a tag that does not occur in the front part.\<close>

lemma tag_ops_append:
  assumes "Some k \<notin> fst ` set xs"
  shows "insert_before_tag k new (xs @ ys) = xs @ insert_before_tag k new ys"
    and "insert_after_tag k new (xs @ ys) = xs @ insert_after_tag k new ys"
    and "update_tag k new (xs @ ys) = xs @ update_tag k new ys"
    and "delete_tag k (xs @ ys) = xs @ delete_tag k ys"
    and "map_of (xs @ ys) (Some k) = map_of ys (Some k)"
  using assms by (induction xs) auto

lemma fold_insert_before_tag:
  assumes "Some k \<notin> fst ` set xs"
  shows "fold (insert_before_tag k) new (xs @ (Some k, i) # ys) = xs @ map (Pair None) new @ (Some k, i) # ys"
  using assms
proof (induction new arbitrary: xs)
  case (Cons n new)
  have "insert_before_tag k n (xs @ (Some k, i) # ys) = (xs @ [(None, n)]) @ (Some k, i) # ys"
    using Cons.prems by (simp add: tag_ops_append)
  with Cons.IH [of "xs @ [(None, n)]"] Cons.prems show ?case by simp
qed simp

lemma fold_insert_after_tag:
  assumes "Some k \<notin> fst ` set xs"
  shows "fold (insert_after_tag k) new (xs @ (Some k, i) # ys) = xs @ (Some k, i) # map (Pair None) (rev new) @ ys"
  using assms by (induction new arbitrary: ys) (simp_all add: tag_ops_append)

lemma apply_patch_at:
  assumes "Some k \<notin> fst ` set xs"
  shows "apply_patch k p (xs @ (Some k, i) # ys) =
    xs @ map (Pair None) (p_before p) @ (case p_self p of Some j \<Rightarrow> [(Some k, j)] | None \<Rightarrow> []) @
      map (Pair None) (rev (p_after p)) @ ys"
proof -
  have no: "Some k \<notin> fst ` set (xs @ map (Pair None) (p_before p))" using assms by auto
  have "fold (insert_after_tag k) (p_after p) (fold (insert_before_tag k) (p_before p) (xs @ (Some k, i) # ys)) =
      (xs @ map (Pair None) (p_before p)) @ (Some k, i) # map (Pair None) (rev (p_after p)) @ ys"
    using fold_insert_before_tag [OF assms] fold_insert_after_tag [OF no] by simp
  then show ?thesis unfolding apply_patch_def Let_def using tag_ops_append [OF no]
    by (cases "p_self p") simp_all
qed

lemma flat_split:
  assumes "k < length segs" and "segs ! k = (b, Some i, a)"
  obtains xs ys where "flat segs = xs @ (Some k, i) # ys" and "Some k \<notin> fst ` set xs"
    and "\<And>c j d. flat (segs[k := (b @ c, j, d @ a)]) =
      xs @ map (Pair None) c @ (case j of Some j \<Rightarrow> [(Some k, j)] | None \<Rightarrow> []) @ map (Pair None) d @ ys"
proof
  let ?xs = "flat (take k segs) @ map (Pair None) b" and ?ys = "map (Pair None) a @ flat_from (Suc k) (drop (Suc k) segs)"
  have segs: "segs = take k segs @ (b, Some i, a) # drop (Suc k) segs" using assms id_take_nth_drop by metis
  have l: "length (take k segs) = k" using assms(1) by simp
  show "flat segs = ?xs @ (Some k, i) # ?ys"
    by (subst segs) (use l in \<open>simp add: flat_from_append flat_segment_def\<close>)
  show "Some k \<notin> fst ` set ?xs" using tag_in_flat_from [of k _ 0 "take k segs"] l by force
  show "flat (segs[k := (b @ c, j, d @ a)]) = ?xs @ map (Pair None) c @
      (case j of Some j \<Rightarrow> [(Some k, j)] | None \<Rightarrow> []) @ map (Pair None) d @ ?ys" for c j d
  proof -
    have "segs[k := (b @ c, j, d @ a)] = take k segs @ (b @ c, j, d @ a) # drop (Suc k) segs"
      using assms(1) by (simp add: upd_conv_take_nth_drop)
    then show ?thesis using l by (simp add: flat_from_append flat_segment_def)
  qed
qed

lemma lookup_flat:
  assumes "k < length segs" and "segs ! k = (b, Some i, a)"
  shows "lookup_tag k (flat segs) = Inr i"
proof -
  obtain xs ys where f: "flat segs = xs @ (Some k, i) # ys" and n: "Some k \<notin> fst ` set xs"
    by (rule flat_split [OF assms]) blast
  show ?thesis unfolding lookup_tag_def f tag_ops_append(5) [OF n] by simp
qed

lemma apply_patch_flat:
  assumes "k < length segs" and "segs ! k = (b, Some i, a)"
  shows "apply_patch k p (flat segs) = flat (segs[k := patch_segment p (segs ! k)])"
proof -
  obtain xs ys where f: "flat segs = xs @ (Some k, i) # ys" and n: "Some k \<notin> fst ` set xs"
    and u: "\<And>c j d. flat (segs[k := (b @ c, j, d @ a)]) =
      xs @ map (Pair None) c @ (case j of Some j \<Rightarrow> [(Some k, j)] | None \<Rightarrow> []) @ map (Pair None) d @ ys"
    by (rule flat_split [OF assms]) blast
  show ?thesis unfolding f apply_patch_at [OF n] using u assms(2) by (simp add: patch_segment_def)
qed

text \<open>One phase changes the segments with the collected tags, each on its own.\<close>

definition phase_result ::
    "(instruction \<Rightarrow> patch \<Rightarrow> bool) \<Rightarrow> nat list \<Rightarrow> segment list \<Rightarrow> segment list \<Rightarrow> bool" where
  "phase_result R ks segs segs' \<longleftrightarrow> length segs' = length segs \<and>
     (\<forall>k < length segs. if k \<in> set ks
        then \<exists>b i a p. segs ! k = (b, Some i, a) \<and> R i p \<and> segs' ! k = patch_segment p (segs ! k)
        else segs' ! k = segs ! k)"

lemma phase_ok:
  assumes "distinct ks" and "\<And>k. k \<in> set ks \<Longrightarrow> k < length segs"
    and "\<And>k. k \<in> set ks \<Longrightarrow> \<exists>b i a. segs ! k = (b, Some i, a) \<and> rg_ok (f i) (R i)"
  shows "rg_ok (phase f ks (flat segs)) (\<lambda>xs. \<exists>segs'. xs = flat segs' \<and> phase_result R ks segs segs')"
  using assms
proof (induction ks arbitrary: segs)
  case Nil
  then show ?case by (auto simp: phase_def phase_result_def intro!: rg_ok_return)
next
  case (Cons k ks)
  let ?Q = "\<lambda>xs. \<exists>segs'. xs = flat segs' \<and> phase_result R (k # ks) segs segs'"
  obtain b i a where i: "segs ! k = (b, Some i, a)" "rg_ok (f i) (R i)" using Cons.prems(3) by force
  have k: "k < length segs" using Cons.prems(2) by simp
  have rest: "rg_ok (phase f ks (flat (segs[k := patch_segment p (segs ! k)]))) ?Q" if p: "R i p" for p
  proof (rule rg_ok_weaken [OF Cons.IH])
    fix xs
    assume "\<exists>segs'. xs = flat segs' \<and> phase_result R ks (segs[k := patch_segment p (segs ! k)]) segs'"
    then obtain segs' where s: "xs = flat segs'" "phase_result R ks (segs[k := patch_segment p (segs ! k)]) segs'"
      by blast
    have "phase_result R (k # ks) segs segs'" unfolding phase_result_def
    proof (intro conjI allI impI)
      show "length segs' = length segs" using s(2) by (simp add: phase_result_def)
      fix j
      assume j: "j < length segs"
      then show "if j \<in> set (k # ks)
        then \<exists>b i a p. segs ! j = (b, Some i, a) \<and> R i p \<and> segs' ! j = patch_segment p (segs ! j)
        else segs' ! j = segs ! j"
      proof (cases "j = k")
        case True
        then have "segs' ! j = patch_segment p (segs ! k)"
          using s(2) j Cons.prems(1) by (simp add: phase_result_def)
        with True i(1) p show ?thesis by (simp only: list.set insert_iff simp_thms if_True) blast
      next
        case False
        then have "segs[k := patch_segment p (segs ! k)] ! j = segs ! j" by simp
        moreover have "if j \<in> set ks
          then \<exists>b i a q. segs[k := patch_segment p (segs ! k)] ! j = (b, Some i, a) \<and> R i q \<and>
            segs' ! j = patch_segment q (segs[k := patch_segment p (segs ! k)] ! j)
          else segs' ! j = segs[k := patch_segment p (segs ! k)] ! j"
          using s(2) j unfolding phase_result_def length_list_update by blast
        ultimately show ?thesis using False by (simp only: list.set insert_iff simp_thms)
      qed
    qed
    with s(1) show "?Q xs" by blast
  qed (use Cons.prems in \<open>auto simp: nth_list_update\<close>)
  have "rg_ok (rg_bind (rg_lift (lookup_tag k (flat segs))) (\<lambda>inst. rg_bind (f inst) (\<lambda>p. rg_return (apply_patch k p (flat segs)))))
      (\<lambda>xs. \<exists>p. R i p \<and> xs = flat (segs[k := patch_segment p (segs ! k)]))"
    unfolding lookup_flat [OF k i(1)] apply_patch_flat [OF k i(1)]
    by (rule rg_ok_bind [OF rg_ok_lift [of _ i "\<lambda>x. x = i"]]) (auto intro!: rg_ok_bind [OF i(2)] rg_ok_return)
  then show ?case unfolding phase_def rg_fold.simps
    by (rule rg_ok_bind) (use rest in \<open>auto simp: phase_def\<close>)
qed

subsection \<open>The expansion of one instruction\<close>

definition keep :: "instruction \<Rightarrow> patch" where
  "keep i = \<lparr>p_before = [], p_self = Some i, p_after = []\<rparr>"

text \<open>The patch of a bit test when the value \<open>v\<close> is drawn.\<close>

definition bit_test_patch :: "nat \<Rightarrow> instruction \<Rightarrow> patch res" where
  "bit_test_patch v inst =
     res_bind (py_nth (i_operands inst) 0) (\<lambda>address.
     if is_register_operand address then Inr (keep inst)
     else res_bind (py_nth (i_operands inst) 1) (\<lambda>offset.
       case offset of
         ImmediateOperand u w \<Rightarrow>
           Inr (keep (inst\<lparr>i_operands := (i_operands inst)[1 := ImmediateOperand (nat_str v) w]\<rparr>))
       | _ \<Rightarrow> if op_value address \<noteq> op_value offset
           then Inr ((keep inst)\<lparr>p_before := [instrument ''AND'' [offset, new_ImmediateOperand mask_3bits 8]]\<rparr>)
           else Inr ((keep inst)\<lparr>p_self := None\<rparr>)))"

definition memory_patch :: "string \<Rightarrow> instruction \<Rightarrow> patch res" where
  "memory_patch amask i = (if has_mem_operand i True then sandbox_memory_access amask i else Inr (keep i))"

definition class_patch :: "nat \<Rightarrow> instruction \<Rightarrow> patch res" where
  "class_patch v i =
     (if is_division i then sandbox_division i
      else if is_bit_test i then bit_test_patch v i
      else if is_repeated i then Inr (sandbox_repeated_instruction i)
      else if is_shift i then Inr (sandbox_corrupted_cf i)
      else Inr (keep i))"

definition expand :: "string \<Rightarrow> nat \<Rightarrow> instruction \<Rightarrow> instruction list res" where
  "expand amask v i =
     res_bind (memory_patch amask i) (\<lambda>p.
       case p_self p of
         None \<Rightarrow> Inr (p_before p)
       | Some j \<Rightarrow> res_bind (class_patch v j) (\<lambda>q.
           Inr (plain_segment (patch_segment q (p_before p, Some j, rev (p_after p))))))"

lemma memory_patch_self:
  assumes "memory_patch amask i = Inr p"
  obtains j where "p_self p = Some j" and "i_name j = i_name i" and "i_category j = i_category i"
    and "p_after p = []" and "is_division j = is_division i" and "is_bit_test j = is_bit_test i"
    and "is_repeated j = is_repeated i" and "is_shift j = is_shift i"
proof -
  from assms obtain j where "p_self p = Some j" "i_name j = i_name i" "i_category j = i_category i" "p_after p = []"
    by (auto simp: memory_patch_def sandbox_memory_access_def keep_def Let_def res_bind_Inr_iff split: if_splits)
  then show thesis
    by (intro that [of j]) (simp_all add: is_division_def is_bit_test_def is_repeated_def is_shift_def)
qed

lemma bit_test_ok:
  assumes "bit_test_patch 0 i = Inr p0"
  shows "rg_ok (sandbox_bit_test i) (\<lambda>p. \<exists>v \<le> 7. bit_test_patch v i = Inr p)"
proof -
  from assms obtain address where a: "py_nth (i_operands i) 0 = Inr address"
    by (auto simp: bit_test_patch_def res_bind_Inr_iff)
  show ?thesis
  proof (cases "is_register_operand address")
    case True
    then show ?thesis unfolding sandbox_bit_test_def a
      by (auto intro!: rg_ok_bind [OF rg_ok_lift [of _ address "\<lambda>x. x = address"]] rg_ok_return
          simp: bit_test_patch_def a keep_def)
  next
    case False
    then obtain offset where o: "py_nth (i_operands i) 1 = Inr offset"
      using assms a by (auto simp: bit_test_patch_def res_bind_Inr_iff)
    have s: "int_str n = nat_str (nat n)" "nat n \<le> 7" if "0 \<le> n \<and> n \<le> 7" for n :: int
      using that by (simp_all add: int_str_def nat_le_iff)
    note o' = o [unfolded One_nat_def]
    have bt: "bit_test_patch v i = Inr (keep (i\<lparr>i_operands := (i_operands i)[1 := ImmediateOperand (nat_str v) w]\<rparr>))"
      if "offset = ImmediateOperand u w" for v u w
      using that False by (simp add: bit_test_patch_def a o')
    have imm: "rg_ok (rg_bind (randint 0 7) (\<lambda>n. rg_return \<lparr>p_before = [],
          p_self = Some (i\<lparr>i_operands := (i_operands i)[1 := ImmediateOperand (int_str n) w]\<rparr>), p_after = []\<rparr>))
        (\<lambda>p. \<exists>v \<le> 7. bit_test_patch v i = Inr p)" if "offset = ImmediateOperand u w" for u w
    proof (rule rg_ok_bind [OF rg_ok_randint])
      fix n :: int
      assume "0 \<le> n \<and> n \<le> 7"
      with bt [OF that, of "nat n"] s [of n] show "rg_ok (rg_return \<lparr>p_before = [],
          p_self = Some (i\<lparr>i_operands := (i_operands i)[1 := ImmediateOperand (int_str n) w]\<rparr>), p_after = []\<rparr>)
        (\<lambda>p. \<exists>v \<le> 7. bit_test_patch v i = Inr p)"
        by (intro rg_ok_return exI [of _ "nat n"]) (simp add: keep_def)
    qed simp
    show ?thesis unfolding sandbox_bit_test_def a
      by (rule rg_ok_bind [OF rg_ok_lift [of _ address "\<lambda>x. x = address"]];
          (simp add: False o)?;
          (rule rg_ok_bind [OF rg_ok_lift [of _ offset "\<lambda>x. x = offset"]])?)
        (use imm False in \<open>auto intro!: rg_ok_return simp: bit_test_patch_def a o' keep_def split: operand.split\<close>)
  qed
qed

lemma phase_collect:
  assumes "phase_result R (collect P body) segs segs'" and "length segs = length body" and "k < length body"
  shows "if P (body ! k)
    then \<exists>b i a p. segs ! k = (b, Some i, a) \<and> R i p \<and> segs' ! k = patch_segment p (segs ! k)
    else segs' ! k = segs ! k"
proof -
  have "k \<in> set (collect P body) \<longleftrightarrow> P (body ! k)" using assms(3) by (simp add: collect_def)
  moreover have "if k \<in> set (collect P body)
    then \<exists>b i a p. segs ! k = (b, Some i, a) \<and> R i p \<and> segs' ! k = patch_segment p (segs ! k)
    else segs' ! k = segs ! k"
    using assms unfolding phase_result_def by metis
  ultimately show ?thesis by (simp only:)
qed

text \<open>After the first phase, and what the later phases find.\<close>

definition after_memory :: "string \<Rightarrow> instruction list \<Rightarrow> segment list \<Rightarrow> bool" where
  "after_memory amask body segs \<longleftrightarrow> length segs = length body \<and>
     (\<forall>k < length body. \<exists>p. memory_patch amask (body ! k) = Inr p \<and>
        segs ! k = (p_before p, p_self p, []))"

lemma memory_phase_ok:
  assumes "\<forall>i \<in> set body. \<exists>p. memory_patch amask i = Inr p"
  shows "rg_ok (phase (\<lambda>i. rg_lift (sandbox_memory_access amask i)) (collect (\<lambda>i. has_mem_operand i True) body)
      (number body)) (\<lambda>xs. \<exists>segs. xs = flat segs \<and> after_memory amask body segs)"
proof (unfold number_flat, rule rg_ok_weaken [OF phase_ok [where R = "\<lambda>i p. sandbox_memory_access amask i = Inr p"]])
  let ?s0 = "map (\<lambda>i. ([], Some i, [])) body :: segment list"
  show "distinct (collect (\<lambda>i. has_mem_operand i True) body)" by (simp add: collect_def)
  show "k < length ?s0" if "k \<in> set (collect (\<lambda>i. has_mem_operand i True) body)" for k
    using that by (simp add: collect_def)
  show "\<exists>b i a. ?s0 ! k = (b, Some i, a) \<and>
      rg_ok (rg_lift (sandbox_memory_access amask i)) (\<lambda>p. sandbox_memory_access amask i = Inr p)"
    if k: "k \<in> set (collect (\<lambda>i. has_mem_operand i True) body)" for k
  proof -
    from k have "k < length body" "has_mem_operand (body ! k) True" by (simp_all add: collect_def)
    moreover from this assms have "\<exists>p. memory_patch amask (body ! k) = Inr p" by simp
    ultimately obtain p where "sandbox_memory_access amask (body ! k) = Inr p"
      by (auto simp: memory_patch_def)
    with \<open>k < length body\<close> show ?thesis by (auto intro: rg_ok_lift)
  qed
  fix xs
  assume "\<exists>segs'. xs = flat segs' \<and>
    phase_result (\<lambda>i p. sandbox_memory_access amask i = Inr p) (collect (\<lambda>i. has_mem_operand i True) body) ?s0 segs'"
  then obtain segs where s: "xs = flat segs"
    "phase_result (\<lambda>i p. sandbox_memory_access amask i = Inr p) (collect (\<lambda>i. has_mem_operand i True) body) ?s0 segs"
    by blast
  have "\<exists>p. memory_patch amask (body ! k) = Inr p \<and> segs ! k = (p_before p, p_self p, [])" if "k < length body" for k
  proof -
    have "\<exists>p. memory_patch amask (body ! k) = Inr p \<and> segs ! k = patch_segment p ([], Some (body ! k), [])"
    proof (cases "has_mem_operand (body ! k) True")
      case True
      with phase_collect [OF s(2) _ that] that show ?thesis by (auto simp: memory_patch_def)
    next
      case False
      with phase_collect [OF s(2) _ that] that show ?thesis
        by (intro exI [of _ "keep (body ! k)"]) (simp add: memory_patch_def keep_def patch_segment_def)
    qed
    then obtain p where p: "memory_patch amask (body ! k) = Inr p"
      "segs ! k = patch_segment p ([], Some (body ! k), [])" by blast
    from memory_patch_self [OF p(1)] have "p_after p = []" by metis
    with p show ?thesis by (auto simp: patch_segment_def)
  qed
  with s show "\<exists>segs. xs = flat segs \<and> after_memory amask body segs"
    by (auto simp: after_memory_def phase_result_def)
qed

lemma later_phase_ok:
  assumes "length segs = length body"
    and "\<And>k. k < length body \<Longrightarrow> P (body ! k) \<Longrightarrow> \<exists>b i a. segs ! k = (b, Some i, a) \<and> rg_ok (f i) (R i)"
  shows "rg_ok (phase f (collect P body) (flat segs))
    (\<lambda>xs. \<exists>segs'. xs = flat segs' \<and> phase_result R (collect P body) segs segs')"
  using assms by (intro phase_ok) (auto simp: collect_def)

definition class_done :: "instruction list \<Rightarrow> segment list \<Rightarrow> segment list \<Rightarrow> bool" where
  "class_done body segs1 segs \<longleftrightarrow> length segs = length body \<and>
     (\<forall>k < length body. \<exists>b i v q. segs1 ! k = (b, Some i, []) \<and> v \<le> 7 \<and> class_patch v i = Inr q \<and>
        segs ! k = patch_segment q (segs1 ! k))"

text \<open>The four later phases treat disjoint sets of instructions.\<close>

lemma class_phases_done:
  assumes len: "length s1 = length body"
    and kinds: "\<And>k. k < length body \<Longrightarrow> \<exists>b i. s1 ! k = (b, Some i, []) \<and> is_division i = is_division (body ! k) \<and>
      is_bit_test i = is_bit_test (body ! k) \<and> is_repeated i = is_repeated (body ! k) \<and> is_shift i = is_shift (body ! k)"
    and p2: "phase_result (\<lambda>i p. sandbox_division i = Inr p) (collect is_division body) s1 s2"
    and p3: "phase_result (\<lambda>i p. \<exists>v \<le> 7. bit_test_patch v i = Inr p) (collect is_bit_test body) s2 s3"
    and p4: "phase_result (\<lambda>i p. p = sandbox_repeated_instruction i) (collect is_repeated body) s3 s4"
    and p5: "phase_result (\<lambda>i p. p = sandbox_corrupted_cf i) (collect is_shift body) s4 s5"
  shows "class_done body s1 s5"
proof -
  have l: "length s2 = length body" "length s3 = length body" "length s4 = length body" "length s5 = length body"
    using len p2 p3 p4 p5 by (simp_all add: phase_result_def)
  have "\<exists>b i v q. s1 ! k = (b, Some i, []) \<and> v \<le> 7 \<and> class_patch v i = Inr q \<and> s5 ! k = patch_segment q (s1 ! k)"
    if k: "k < length body" for k
  proof -
    obtain b i where i: "s1 ! k = (b, Some i, [])" "is_division i = is_division (body ! k)"
      "is_bit_test i = is_bit_test (body ! k)" "is_repeated i = is_repeated (body ! k)" "is_shift i = is_shift (body ! k)"
      using kinds [OF k] by blast
    note c2 = phase_collect [OF p2 len k] and c3 = phase_collect [OF p3 l(1) k]
      and c4 = phase_collect [OF p4 l(2) k] and c5 = phase_collect [OF p5 l(3) k]
    consider (div) "is_division i" | (bit) "is_bit_test i" "\<not> is_division i"
      | (rep) "is_repeated i" "\<not> is_division i" "\<not> is_bit_test i"
      | (shift) "is_shift i" "\<not> is_division i" "\<not> is_bit_test i" "\<not> is_repeated i"
      | (none) "\<not> is_division i" "\<not> is_bit_test i" "\<not> is_repeated i" "\<not> is_shift i" by blast
    then have "\<exists>v q. v \<le> 7 \<and> class_patch v i = Inr q \<and> s5 ! k = patch_segment q (s1 ! k)"
    proof cases
      case div
      then have "\<not> is_bit_test i" "\<not> is_repeated i" "\<not> is_shift i"
        by (simp_all add: is_bit_test_def is_repeated_def is_shift_def)
      with div i c2 c3 c4 c5 show ?thesis by (intro exI [of _ 0]) (auto simp: class_patch_def)
    next
      case bit
      then have "\<not> is_repeated i" "\<not> is_shift i" by (simp_all add: is_repeated_def is_shift_def)
      with bit i c2 c3 c4 c5 show ?thesis by (auto simp: class_patch_def)
    next
      case rep
      then have "\<not> is_shift i" by (simp add: is_shift_def)
      with rep i c2 c3 c4 c5 show ?thesis by (intro exI [of _ 0]) (auto simp: class_patch_def)
    next
      case shift
      with i c2 c3 c4 c5 show ?thesis by (intro exI [of _ 0]) (auto simp: class_patch_def)
    next
      case none
      with i c2 c3 c4 c5 show ?thesis
        by (intro exI [of _ 0] exI [of _ "keep i"]) (auto simp: class_patch_def keep_def patch_segment_def)
    qed
    with i(1) show ?thesis by blast
  qed
  with l(4) show ?thesis unfolding class_done_def by blast
qed

lemma class_done_expand:
  assumes "after_memory amask body s1" and "class_done body s1 s5"
  shows "\<exists>segs. concat (map plain_segment s5) = concat segs \<and>
    list_all2 (\<lambda>i seg. \<exists>v \<le> 7. expand amask v i = Inr seg) body segs"
proof (intro exI conjI)
  show "list_all2 (\<lambda>i seg. \<exists>v \<le> 7. expand amask v i = Inr seg) body (map plain_segment s5)"
    unfolding list_all2_conv_all_nth
  proof (intro conjI allI impI)
    show "length body = length (map plain_segment s5)" using assms(2) by (simp add: class_done_def)
    fix k
    assume k: "k < length body"
    then obtain p where p: "memory_patch amask (body ! k) = Inr p" "s1 ! k = (p_before p, p_self p, [])"
      using assms(1) by (auto simp: after_memory_def)
    have "p_after p = []" using memory_patch_self [OF p(1)] by metis
    moreover obtain b i v q where "s1 ! k = (b, Some i, [])" "v \<le> 7" "class_patch v i = Inr q"
      "s5 ! k = patch_segment q (s1 ! k)" using assms(2) k unfolding class_done_def by blast
    moreover have "k < length s5" using k assms(2) by (simp add: class_done_def)
    ultimately show "\<exists>v \<le> 7. expand amask v (body ! k) = Inr (map plain_segment s5 ! k)"
      using p by (intro exI [of _ v]) (simp add: expand_def)
  qed
qed simp

definition expandable :: "string \<Rightarrow> instruction \<Rightarrow> bool" where
  "expandable amask i \<longleftrightarrow> (\<exists>seg. expand amask 0 i = Inr seg)"

lemma sandbox_block_ok:
  assumes "\<forall>i \<in> set body. expandable amask i"
  shows "rg_ok (sandbox_block amask body) (\<lambda>ys. \<exists>segs. ys = concat segs \<and>
    list_all2 (\<lambda>i seg. \<exists>v \<le> 7. expand amask v i = Inr seg) body segs)"
  unfolding sandbox_block_def
proof (rule rg_ok_bind [OF memory_phase_ok], goal_cases)
  case 1
  show ?case using assms by (auto simp: expandable_def expand_def res_bind_Inr_iff)
next
  case (2 xs1)
  then obtain s1 where s1: "xs1 = flat s1" "after_memory amask body s1" by blast
  then have len: "length s1 = length body" by (simp add: after_memory_def)
  have kinds: "\<exists>b i. s1 ! k = (b, Some i, []) \<and> is_division i = is_division (body ! k) \<and>
      is_bit_test i = is_bit_test (body ! k) \<and> is_repeated i = is_repeated (body ! k) \<and>
      is_shift i = is_shift (body ! k) \<and> (\<exists>q. class_patch 0 i = Inr q)" if k: "k < length body" for k
  proof -
    obtain p where p: "memory_patch amask (body ! k) = Inr p" "s1 ! k = (p_before p, p_self p, [])"
      using s1(2) k by (auto simp: after_memory_def)
    obtain j where "p_self p = Some j" "is_division j = is_division (body ! k)"
      "is_bit_test j = is_bit_test (body ! k)" "is_repeated j = is_repeated (body ! k)"
      "is_shift j = is_shift (body ! k)" by (rule memory_patch_self [OF p(1)])
    moreover from assms nth_mem [OF k] obtain seg where "expand amask 0 (body ! k) = Inr seg"
      unfolding expandable_def by blast
    moreover from calculation have "\<exists>q. class_patch 0 j = Inr q"
      by (auto simp: expand_def p(1) res_bind_Inr_iff)
    ultimately show ?thesis using p(2) by auto
  qed
  have same: "s' ! k = s ! k" if "phase_result R (collect P body) s s'" "length s = length body" "k < length body"
    "\<not> P (body ! k)" for R P s s' k
    using phase_collect [OF that(1-3)] that(4) by simp
  have div: "\<exists>b i a. s1 ! k = (b, Some i, a) \<and> rg_ok (rg_lift (sandbox_division i)) (\<lambda>p. sandbox_division i = Inr p)"
    if "k < length body" "is_division (body ! k)" for k
    using kinds [OF that(1)] that(2) by (auto simp: class_patch_def intro: rg_ok_lift)
  show ?case unfolding s1(1)
  proof (rule rg_ok_bind [OF later_phase_ok [OF len div]], assumption, assumption, goal_cases)
    case (1 xs2)
    then obtain s2 where s2: "xs2 = flat s2"
      "phase_result (\<lambda>i p. sandbox_division i = Inr p) (collect is_division body) s1 s2" by blast
    then have l2: "length s2 = length body" using len by (simp add: phase_result_def)
    have bit: "\<exists>b i a. s2 ! k = (b, Some i, a) \<and> rg_ok (sandbox_bit_test i) (\<lambda>p. \<exists>v \<le> 7. bit_test_patch v i = Inr p)"
      if k: "k < length body" and t: "is_bit_test (body ! k)" for k
    proof -
      have nd: "\<not> is_division (body ! k)" using t by (simp add: is_bit_test_def)
      obtain b i q where i: "s1 ! k = (b, Some i, [])" "class_patch 0 i = Inr q" "\<not> is_division i" "is_bit_test i"
        using kinds [OF k] nd t by blast
      then have "bit_test_patch 0 i = Inr q" by (simp add: class_patch_def)
      from bit_test_ok [OF this] i(1) same [OF s2(2) len k nd] show ?thesis by simp
    qed
    show ?case unfolding s2(1)
    proof (rule rg_ok_bind [OF later_phase_ok [OF l2 bit]], assumption, assumption, goal_cases)
      case (1 xs3)
      then obtain s3 where s3: "xs3 = flat s3"
        "phase_result (\<lambda>i p. \<exists>v \<le> 7. bit_test_patch v i = Inr p) (collect is_bit_test body) s2 s3" by blast
      then have l3: "length s3 = length body" using l2 by (simp add: phase_result_def)
      have rep: "\<exists>b i a. s3 ! k = (b, Some i, a) \<and> rg_ok (rg_return (sandbox_repeated_instruction i))
          (\<lambda>p. p = sandbox_repeated_instruction i)" if "k < length body" "is_repeated (body ! k)" for k
      proof -
        have "\<not> is_division (body ! k)" "\<not> is_bit_test (body ! k)" using that(2) by (simp_all add: is_repeated_def)
        with kinds [OF that(1)] same [OF s2(2) len that(1)] same [OF s3(2) l2 that(1)] show ?thesis by auto
      qed
      show ?case unfolding s3(1)
      proof (rule rg_ok_bind [OF later_phase_ok [OF l3 rep]], assumption, assumption, goal_cases)
        case (1 xs4)
        then obtain s4 where s4: "xs4 = flat s4"
          "phase_result (\<lambda>i p. p = sandbox_repeated_instruction i) (collect is_repeated body) s3 s4" by blast
        then have l4: "length s4 = length body" using l3 by (simp add: phase_result_def)
        have sh: "\<exists>b i a. s4 ! k = (b, Some i, a) \<and> rg_ok (rg_return (sandbox_corrupted_cf i))
            (\<lambda>p. p = sandbox_corrupted_cf i)" if "k < length body" "is_shift (body ! k)" for k
        proof -
          have "\<not> is_division (body ! k)" "\<not> is_bit_test (body ! k)" "\<not> is_repeated (body ! k)"
            using that(2) by (simp_all add: is_shift_def)
          with kinds [OF that(1)] same [OF s2(2) len that(1)] same [OF s3(2) l2 that(1)] same [OF s4(2) l3 that(1)]
          show ?thesis by auto
        qed
        show ?case unfolding s4(1)
        proof (rule rg_ok_bind [OF later_phase_ok [OF l4 sh]], assumption, assumption, goal_cases)
          case (1 xs5)
          then obtain s5 where s5: "xs5 = flat s5"
            "phase_result (\<lambda>i p. p = sandbox_corrupted_cf i) (collect is_shift body) s4 s5" by blast
          have "class_done body s1 s5"
            using kinds by (intro class_phases_done [OF len _ s2(2) s3(2) s4(2) s5(2)]) blast
          from class_done_expand [OF s1(2) this] show ?case
            unfolding s5(1) map_snd_flat_from by (intro rg_ok_return) blast
        qed
      qed
    qed
  qed
qed

subsection \<open>What the instrumentation computes\<close>

text \<open>
  The instrumentation uses five instructions. Their effect is given on valuations of operand
  texts: a register or memory operand holds the number of its text, an immediate its
  value. (Two texts are different locations; the lemmas below name the overlaps they exclude.)
\<close>

type_synonym valuation = "string \<Rightarrow> nat"

definition hex_digit_val :: "char \<Rightarrow> nat" where
  "hex_digit_val c = (let n = of_char c in if n \<le> 57 then n - 48 else n - 87)"

definition read_base :: "nat \<Rightarrow> string \<Rightarrow> nat" where
  "read_base b s = foldl (\<lambda>a c. b * a + hex_digit_val c) 0 s"

definition read_imm :: "string \<Rightarrow> nat" where
  "read_imm s = (if starts_with s ''0b'' then read_base 2 (drop 2 s)
     else if starts_with s ''0x'' then read_base 16 (drop 2 s) else read_base 10 s)"

definition operand_val :: "valuation \<Rightarrow> operand \<Rightarrow> nat" where
  "operand_val vals op = (if is_immediate_operand op then read_imm (op_value op) else vals (op_value op))"

definition exec_instrumentation :: "instruction \<Rightarrow> valuation \<Rightarrow> valuation" where
  "exec_instrumentation i vals =
     (case i_operands i of
        [d, s] \<Rightarrow>
          let x = vals (op_value d); y = operand_val vals s in
          if i_name i = ''AND'' then vals(op_value d := x AND y)
          else if i_name i = ''OR'' then vals(op_value d := x OR y)
          else if i_name i = ''SHR'' then vals(op_value d := drop_bit y x)
          else if i_name i = ''ADD'' then vals(op_value d := (x + y) mod 2 ^ op_width d)
          else if i_name i = ''MOV'' then vals(op_value d := y)
          else vals
      | _ \<Rightarrow> vals)"

lemma instrument_simps [simp]:
  "i_name (instrument name ops) = name" "i_operands (instrument name ops) = ops"
proof -
  have "fold (\<lambda>op i. add_op i op False) ops j = j\<lparr>i_operands := i_operands j @ ops\<rparr>" for j
    by (induction ops arbitrary: j) (simp_all add: add_op_def)
  then show "i_name (instrument name ops) = name" "i_operands (instrument name ops) = ops"
    by (simp_all add: instrument_def new_instruction_def)
qed

lemma foldl_append_char: "foldl f a (s @ [c]) = f (foldl f a s) c" by simp

lemma read_base_append [simp]: "read_base b (s @ [c]) = b * read_base b s + hex_digit_val c"
  by (simp add: read_base_def)

lemma read_binary_ones: "Suc (read_base 2 (replicate n (CHR ''1''))) = 2 ^ n"
proof (induction n)
  case (Suc n)
  have "replicate (Suc n) (CHR ''1'') = replicate n (CHR ''1'') @ [CHR ''1'']" by (simp add: replicate_append_same)
  then have "read_base 2 (replicate (Suc n) (CHR ''1'')) = 2 * read_base 2 (replicate n (CHR ''1'')) + 1"
    by (simp only: read_base_append) (simp add: hex_digit_val_def)
  with Suc show ?case by simp
qed (simp add: read_base_def)

lemma read_binary_zeros: "read_base 2 (s @ replicate n (CHR ''0'')) = 2 ^ n * read_base 2 s"
proof (induction n)
  case (Suc n)
  have "s @ replicate (Suc n) (CHR ''0'') = (s @ replicate n (CHR ''0'')) @ [CHR ''0'']"
    by (simp add: replicate_append_same)
  then have "read_base 2 (s @ replicate (Suc n) (CHR ''0'')) = 2 * read_base 2 (s @ replicate n (CHR ''0''))"
    by (simp only: read_base_append) (simp add: hex_digit_val_def)
  with Suc show ?case by simp
qed simp

lemma lower_mask: "lower (sandbox_address_mask conf) = sandbox_address_mask conf"
  by (simp add: sandbox_address_mask_def lower_def lower_char_def)

lemma sandbox_mask_value:
  "read_imm (sandbox_address_mask conf) =
     push_bit (gc_memory_access_zeroed_bits conf)
       (2 ^ (ilog2 (gc_input_main_region_size conf) - gc_memory_access_zeroed_bits conf) - 1)"
  using read_binary_ones [of "ilog2 (gc_input_main_region_size conf) - gc_memory_access_zeroed_bits conf"]
  by (simp add: read_imm_def sandbox_address_mask_def read_binary_zeros push_bit_eq_mult)

lemma ilog2_bound: "0 < n \<Longrightarrow> 2 ^ ilog2 n \<le> n"
proof (induction n rule: ilog2.induct)
  case (1 n)
  show ?case
  proof (cases "n < 2")
    case True
    with 1 show ?thesis by (simp add: ilog2.simps)
  next
    case False
    then have "2 ^ ilog2 (n div 2) \<le> n div 2" using 1 by simp
    with False show ?thesis by (subst ilog2.simps) simp
  qed
qed

lemma masked_offset:
  fixes x z a :: nat
  shows "2 ^ z dvd x AND push_bit z (2 ^ a - 1)" and "(x AND push_bit z (2 ^ a - 1)) + 2 ^ z \<le> 2 ^ (a + z)"
proof -
  have "x AND push_bit z (2 ^ a - 1) = push_bit z (drop_bit z x AND (2 ^ a - 1))"
    by (auto intro!: bit_eqI simp: bit_and_iff bit_push_bit_iff bit_drop_bit_eq)
  then show "2 ^ z dvd x AND push_bit z (2 ^ a - 1)" by (simp add: push_bit_eq_mult)
  have "x AND push_bit z (2 ^ a - 1) \<le> push_bit z (2 ^ a - 1)" by (rule nat_and_le)
  also have "\<dots> = 2 ^ (a + z) - 2 ^ z" by (simp add: push_bit_eq_mult power_add diff_mult_distrib)
  finally have "x AND push_bit z (2 ^ a - 1) \<le> 2 ^ (a + z) - 2 ^ z" .
  moreover have "(2 :: nat) ^ z \<le> 2 ^ (a + z)" by (rule power_increasing) simp_all
  ultimately show "(x AND push_bit z (2 ^ a - 1)) + 2 ^ z \<le> 2 ^ (a + z)" by linarith
qed

lemma division_quotient_bound:
  fixes d v a w :: nat
  assumes "0 < v" and "a < 2 ^ w"
  shows "(drop_bit 1 (d AND v) * 2 ^ w + a) div v < 2 ^ w"
proof -
  have "drop_bit 1 (d AND v) \<le> v div 2" using nat_and_le [of d v] by (simp add: drop_bit_eq_div div_le_mono)
  also have "\<dots> < v" using assms(1) by simp
  finally have "Suc (drop_bit 1 (d AND v)) \<le> v" by simp
  then have "Suc (drop_bit 1 (d AND v)) * 2 ^ w \<le> v * 2 ^ w" by (rule mult_le_mono1)
  with assms(2) have "drop_bit 1 (d AND v) * 2 ^ w + a < v * 2 ^ w" by simp
  then show ?thesis using assms(1) by (simp add: less_mult_imp_div_less mult.commute)
qed

lemma or_one_positive: "0 < (x :: nat) OR 1"
proof -
  have "odd (x OR 1)" by (simp add: even_or_iff)
  then show ?thesis by (rule odd_pos)
qed

lemma read_imm_one: "read_imm ''1'' = 1"
  by (simp add: read_imm_def read_base_def hex_digit_val_def)

definition the_patch :: "patch res \<Rightarrow> patch" where
  "the_patch r = (case r of Inr p \<Rightarrow> p | Inl _ \<Rightarrow> \<lparr>p_before = [], p_self = None, p_after = []\<rparr>)"

lemma lower_one: "lower ''1'' = ''1''"
  by (simp add: lower_def lower_char_def)

subsection \<open>Properties\<close>

text \<open>
  C25. The sandbox pass is a local expansion. Its five phases run over the block one after the
  other, inserting around, changing and deleting instructions of the linked list; the
  result is nevertheless the concatenation, in the order of the block, of the expansion
  of every single instruction (for some offset from 0 to 7 drawn for an immediate bit
  test). On every tape the pass returns when every instruction can be expanded.
\<close>

theorem sandbox_pass_expands:
  assumes "\<forall>i \<in> set body. expandable amask i"
  shows "\<exists>ys r' segs. sandbox_block amask body r = Inr (ys, r') \<and> ys = concat segs \<and>
    list_all2 (\<lambda>i seg. \<exists>v \<le> 7. expand amask v i = Inr seg) body segs"
  using sandbox_block_ok [OF assms] unfolding rg_ok_def by blast

definition ex_div_mem :: instruction where
  "ex_div_mem = (new_instruction ''DIV'' False ''BASE-BINARY'' False)\<lparr>i_operands := [MemoryOperand ''RBX'' 32 True False]\<rparr>"

definition ex_shl :: instruction where
  "ex_shl = (new_instruction ''SHL'' False ''BASE-SHIFT'' False)\<lparr>i_operands := [RegisterOperand ''RAX'' 64 True True]\<rparr>"

theorem sandbox_pass_expands_witness:
  "\<exists>ys r' segs. sandbox_block ''0b111'' [ex_div_mem, ex_shl] ex_rng = Inr (ys, r') \<and> ys = concat segs \<and>
    list_all2 (\<lambda>i seg. \<exists>v \<le> 7. expand ''0b111'' v i = Inr seg) [ex_div_mem, ex_shl] segs"
proof (rule sandbox_pass_expands, intro ballI)
  fix i
  assume "i \<in> set [ex_div_mem, ex_shl]"
  then consider "i = ex_div_mem" | "i = ex_shl" by auto
  then show "expandable ''0b111'' i"
  proof cases
    case 1
    show ?thesis unfolding 1 expandable_def
      by (simp add: ex_div_mem_def new_instruction_def expand_def memory_patch_def has_mem_operand_def
          sandbox_memory_access_def get_mem_operands_def get_implicit_mem_operands_def Let_def py_assert_def
          class_patch_def is_division_def sandbox_division_def dict_get_def)
  next
    case 2
    show ?thesis unfolding 2 expandable_def
      by (simp add: ex_shl_def new_instruction_def expand_def memory_patch_def has_mem_operand_def keep_def
          class_patch_def is_division_def is_bit_test_def bit_test_names_def is_repeated_def is_shift_def)
  qed
qed

text \<open>
  C26. Divisions do not fault: when \<open>sandbox_division\<close> keeps a division by a register or memory
  operand, then after the instrumentation inserted before it the divisor is positive
  and the quotient fits, for every value of the lower half of the dividend: 8-bit
  divisions divide 1, 16- and 32-bit ones have an upper half below the divisor. (The
  divisors AX, AL and AH, which overlap the instrumented AX, are excluded.)
\<close>

theorem sandboxed_division_no_fault:
  assumes "sandbox_division inst = Inr p" and "p_self p = Some inst'"
    and "i_operands inst = op # ops" and "is_register_operand op \<or> is_memory_operand op"
    and "op_value op \<notin> {''AX'', ''AL'', ''AH''}"
    and "after = fold exec_instrumentation (p_before p) vals"
  shows "inst' = inst \<and> 0 < after (op_value op) \<and>
    (op_width op = 8 \<and> after ''AX'' div after (op_value op) < 2 ^ 8 \<or>
     (\<exists>d. (op_width op = 16 \<and> d = ''DX'' \<or> op_width op = 32 \<and> d = ''EDX'') \<and>
        (\<forall>low < 2 ^ op_width op. (after d * 2 ^ op_width op + low) div after (op_value op) < 2 ^ op_width op)))"
proof -
  have imm: "\<not> is_immediate_operand op" using assms(4) by (cases op) auto
  note ev = exec_instrumentation_def operand_val_def Let_def new_ImmediateOperand_def new_RegisterOperand_def
    lower_one read_imm_one upper_def upper_char_def imm
  consider (byte) "op_width op = 8" | (wide) d where "op_width op \<noteq> 8" "op_width op \<noteq> 64"
    "op_width op = 16 \<and> d = ''DX'' \<or> op_width op = 32 \<and> d = ''EDX''" "op_value op \<noteq> d"
    using assms(1-3) by (auto simp: sandbox_division_def Let_def dict_get_def split: if_splits)
  then show ?thesis
  proof cases
    case byte
    then have p: "p_before p = [instrument ''OR'' [op, new_ImmediateOperand ''1'' 8],
        instrument ''MOV'' [new_RegisterOperand ''AX'' 16 False True, new_ImmediateOperand ''1'' 16]]" "inst' = inst"
      using assms(1-3) by (auto simp: sandbox_division_def Let_def split: if_splits)
    have "after ''AX'' = 1" "after (op_value op) = vals (op_value op) OR 1"
      using assms(5) unfolding assms(6) p by (simp_all add: ev)
    with or_one_positive [of "vals (op_value op)"] byte p(2) show ?thesis
      by (auto intro!: le_less_trans [OF div_le_dividend])
  next
    case (wide d)
    then have p: "p_before p = [instrument ''OR'' [op, new_ImmediateOperand ''1'' 8],
        instrument ''AND'' [new_RegisterOperand d (op_width op) False True, op],
        instrument ''SHR'' [new_RegisterOperand d (op_width op) False True, new_ImmediateOperand ''1'' 8]]" "inst' = inst"
      using assms(1-3) by (auto simp: sandbox_division_def Let_def dict_get_def split: if_splits)
    have u: "upper d = d" using wide(3) by (auto simp: upper_def upper_char_def)
    have "after (op_value op) = vals (op_value op) OR 1"
      "after d = drop_bit 1 (vals d AND (vals (op_value op) OR 1))"
      using wide(4) unfolding assms(6) p
      by (simp_all add: exec_instrumentation_def operand_val_def Let_def new_ImmediateOperand_def
          new_RegisterOperand_def lower_one read_imm_one u imm)
    with or_one_positive [of "vals (op_value op)"] division_quotient_bound [of "vals (op_value op) OR 1" _ "op_width op" "vals d"]
      wide(3) p(2) show ?thesis by auto
  qed
qed

theorem sandboxed_division_no_fault_witness:
  "let p = the_patch (sandbox_division ex_div_mem);
       after = fold exec_instrumentation (p_before p) (\<lambda>_. 6)
   in 0 < after ''RBX'' \<and> (after ''EDX'' * 2 ^ 32 + 5) div after ''RBX'' < 2 ^ 32"
proof -
  let ?op = "MemoryOperand ''RBX'' 32 True False"
  obtain p where p: "sandbox_division ex_div_mem = Inr p" "p_self p = Some ex_div_mem"
    by (simp add: sandbox_division_def ex_div_mem_def Let_def dict_get_def)
  have "the_patch (sandbox_division ex_div_mem) = p" by (simp add: p(1) the_patch_def)
  moreover have "i_operands ex_div_mem = [?op]" by (simp add: ex_div_mem_def)
  ultimately show ?thesis
    using sandboxed_division_no_fault [OF p _ _ _ refl, of ?op "[]" "\<lambda>_. 6"] by (auto simp: Let_def)
qed



end
