(* ===== verification/Flags_Pass.thy ===== *)
theory Flags_Pass
  imports Passes
begin

text \<open>
  \<open>X86PatchUndefinedFlagsPass\<close> of \<^verbatim>\<open>src/src/generator.py\<close>: a backward walk over a block that finds
  instructions leaving a flag undefined that a later instruction reads, and inserts
  instructions that overwrite the flag. The lemmas give the forward reading: from which
  undefined flags a sequence of instructions can be run without reading an undefined flag.
  The set \<open>flags_to_set\<close> is a list without duplicates; the code uses its order nowhere.
\<close>

subsection \<open>Patch candidates\<close>

definition spec_flag_modes :: "instruction_spec \<Rightarrow> string list" where
  "spec_flag_modes spec =
     concat (map os_values (filter (\<lambda>op. os_type op = OT_FLAGS) (is_operands spec @ is_implicit_operands spec)))"

definition is_patch_candidate :: "instruction_spec \<Rightarrow> bool" where
  "is_patch_candidate spec \<longleftrightarrow> \<not> is_control_flow spec \<and> \<not> requires_sandbox spec \<and>
     (let modes = spec_flag_modes spec
      in \<not> list_ex (\<lambda>f. f \<in> {''r'', ''r/w'', ''r/cw''}) modes \<and> list_ex (\<lambda>f. f = ''w'') modes)"

definition patch_candidates :: "instruction_set \<Rightarrow> instruction_spec list res" where
  "patch_candidates is =
     (let cs = filter is_patch_candidate (iset_instructions is)
      in if cs = [] then Inl GeneratorException else Inr cs)"

subsection \<open>Finding patches\<close>

fun find_loop ::
    "gen_conf \<Rightarrow> string list \<Rightarrow> instruction_spec list \<Rightarrow> string list \<Rightarrow> (instruction list \<times> string list) rg" where
  "find_loop conf flags_to_set [] undef_flags = rg_return ([], undef_flags)"
| "find_loop conf flags_to_set (spec # specs) undef_flags =
     rg_bind (generate_instruction conf spec) (\<lambda>patch.
     case get_flags_operand patch of
       None \<Rightarrow> rg_raise AssertionError
     | Some patch_flags \<Rightarrow>
         let new_undef_flags = filter (\<lambda>i. i \<notin> set undef_flags \<and> i \<in> set flags_to_set) (get_undef_flags patch_flags);
             not_patched_flags = filter (\<lambda>i. i \<notin> set (get_write_flags patch_flags)) undef_flags
         in if new_undef_flags = [] \<and> not_patched_flags \<noteq> undef_flags
            then if not_patched_flags = [] then rg_return ([patch], [])
                 else rg_bind (find_loop conf flags_to_set specs not_patched_flags) (\<lambda>(ps, u).
                   rg_return (patch # ps, u))
            else find_loop conf flags_to_set specs undef_flags)"

definition find_flags_patch ::
    "gen_conf \<Rightarrow> instruction_spec list \<Rightarrow> string list \<Rightarrow> string list \<Rightarrow> instruction list rg" where
  "find_flags_patch conf candidates undef_flags flags_to_set =
     rg_bind (find_loop conf flags_to_set candidates undef_flags) (\<lambda>(patches, undef_flags).
       if undef_flags \<noteq> [] then rg_raise GeneratorException else rg_return patches)"

subsection \<open>The pass over a block\<close>

definition set_add :: "string list \<Rightarrow> string \<Rightarrow> string list" where
  "set_add xs f = (if f \<in> set xs then xs else xs @ [f])"

definition set_discard :: "string list \<Rightarrow> string \<Rightarrow> string list" where
  "set_discard xs f = filter (\<lambda>g. g \<noteq> f) xs"

definition write_flags :: "instruction \<Rightarrow> string list" where
  "write_flags i = (case get_flags_operand i of None \<Rightarrow> [] | Some fs \<Rightarrow> get_write_flags fs)"

definition read_flags :: "instruction \<Rightarrow> string list" where
  "read_flags i = (case get_flags_operand i of None \<Rightarrow> [] | Some fs \<Rightarrow> get_read_flags fs)"

definition undef_flags_of :: "instruction \<Rightarrow> string list" where
  "undef_flags_of i = (case get_flags_operand i of None \<Rightarrow> [] | Some fs \<Rightarrow> get_undef_flags fs)"

definition as_instrumentation :: "instruction \<Rightarrow> instruction" where
  "as_instrumentation i = i\<lparr>i_is_instrumentation := True\<rparr>"

text \<open>
  Each patch is linked directly after the instruction, so a later patch comes before an earlier
  one. The conditional terminator has no tag: it is the first to be looked at, when no flag
  is needed yet, so nothing is ever inserted after it.
\<close>

definition insert_patch :: "nat option \<Rightarrow> instruction \<Rightarrow> string list \<times> tagged \<Rightarrow> string list \<times> tagged" where
  "insert_patch t patch = (\<lambda>(flags_to_set, xs).
     (fold (\<lambda>f fs. set_discard fs f) (write_flags patch) flags_to_set,
      case t of Some k \<Rightarrow> insert_after_tag k (as_instrumentation patch) xs | None \<Rightarrow> xs))"

definition flags_step ::
    "gen_conf \<Rightarrow> instruction_spec list \<Rightarrow> nat option \<times> instruction \<Rightarrow> string list \<times> tagged \<Rightarrow>
     (string list \<times> tagged) rg" where
  "flags_step conf candidates = (\<lambda>(t, inst) (flags_to_set, xs).
     case get_flags_operand inst of
       None \<Rightarrow> rg_return (flags_to_set, xs)
     | Some flags \<Rightarrow>
         let undef_flags = filter (\<lambda>i. i \<in> set flags_to_set) (get_undef_flags flags) in
         rg_bind (if undef_flags = [] then rg_return (flags_to_set, xs)
                  else rg_bind (find_flags_patch conf candidates undef_flags flags_to_set) (\<lambda>patches.
                    rg_return (fold (insert_patch t) patches (flags_to_set, xs))))
           (\<lambda>(flags_to_set, xs).
              let flags_to_set = fold (\<lambda>f fs. set_discard fs f) (get_write_flags flags) flags_to_set;
                  flags_to_set = fold (\<lambda>f fs. set_add fs f) (get_read_flags flags) flags_to_set
              in rg_return (flags_to_set, xs)))"

text \<open>The stack \<open>all_instructions\<close> is popped from its end.\<close>

definition all_instructions :: "instruction list \<Rightarrow> instruction list \<Rightarrow> (nat option \<times> instruction) list" where
  "all_instructions body terminators =
     number body @ (if length terminators = 2 then [(None, terminators ! 0)] else [])"

definition flags_block ::
    "gen_conf \<Rightarrow> instruction_spec list \<Rightarrow> instruction list \<Rightarrow> instruction list \<Rightarrow> instruction list rg" where
  "flags_block conf candidates body terminators =
     rg_bind (rg_fold (flags_step conf candidates) (rev (all_instructions body terminators)) ([], number body))
       (\<lambda>(flags_to_set, xs).
        if flags_to_set = [] then rg_return (map snd xs)
        else rg_bind (find_flags_patch conf candidates flags_to_set flags_to_set) (\<lambda>patches.
          rg_return (fold (\<lambda>patch ys. as_instrumentation patch # ys) patches (map snd xs))))"

definition flags_function :: "gen_conf \<Rightarrow> instruction_spec list \<Rightarrow> tfunc \<Rightarrow> tfunc rg" where
  "flags_function conf candidates func =
     rg_bind (rg_map (\<lambda>bb. rg_bind (flags_block conf candidates (bk_body bb) (bk_terminators bb)) (\<lambda>body.
         rg_return (bb\<lparr>bk_body := body\<rparr>))) (tf_all func)) (\<lambda>bbs.
       rg_return (func\<lparr>tf_entry := hd bbs, tf_blocks := butlast (tl bbs), tf_exit := last bbs\<rparr>))"

subsection \<open>Reading flags forward\<close>

fun flags_safe :: "string set \<Rightarrow> instruction list \<Rightarrow> bool" where
  "flags_safe U [] \<longleftrightarrow> True"
| "flags_safe U (i # is) \<longleftrightarrow> set (read_flags i) \<inter> U = {} \<and>
     flags_safe ((U - set (write_flags i)) \<union> set (undef_flags_of i)) is"

definition flags_after :: "string set \<Rightarrow> instruction list \<Rightarrow> string set" where
  "flags_after U is = fold (\<lambda>i U. (U - set (write_flags i)) \<union> set (undef_flags_of i)) is U"

lemma flags_safe_append: "flags_safe U (xs @ ys) \<longleftrightarrow> flags_safe U xs \<and> flags_safe (flags_after U xs) ys"
  by (induction xs arbitrary: U) (simp_all add: flags_after_def)

lemma get_flags_as_instrumentation [simp]: "get_flags_operand (as_instrumentation i) = get_flags_operand i"
  by (simp add: as_instrumentation_def get_flags_operand_def split: option.split)

lemma flags_as_instrumentation [simp]:
  "write_flags (as_instrumentation i) = write_flags i" "read_flags (as_instrumentation i) = read_flags i"
  "undef_flags_of (as_instrumentation i) = undef_flags_of i"
  by (simp_all add: write_flags_def read_flags_def undef_flags_of_def)

lemma set_fold_discard [simp]: "set (fold (\<lambda>f fs. set_discard fs f) gs xs) = set xs - set gs"
  by (induction gs arbitrary: xs) (auto simp: set_discard_def)

lemma set_fold_add [simp]: "set (fold (\<lambda>f fs. set_add fs f) gs xs) = set xs \<union> set gs"
  by (induction gs arbitrary: xs) (auto simp: set_add_def)

lemma rg_bind_Inr_iff:
  "rg_bind m f r = Inr (y, r'') \<longleftrightarrow> (\<exists>x r'. m r = Inr (x, r') \<and> f x r' = Inr (y, r''))"
  by (auto simp: rg_bind_def res_bind_Inr_iff)

lemma rg_simps_Inr [simp]:
  "rg_return x r = Inr (y, r') \<longleftrightarrow> y = x \<and> r' = r" "rg_raise e r \<noteq> Inr z"
  "rg_lift v r = Inr (y, r') \<longleftrightarrow> v = Inr y \<and> r' = r"
  by (auto simp: rg_return_def rg_raise_def rg_lift_def res_bind_Inr_iff)

subsection \<open>Patches come from their candidates\<close>

text \<open>The flags operands of a generated instruction are those of its specification.\<close>

definition spec_flags :: "instruction_spec \<Rightarrow> string list set" where
  "spec_flags spec = os_values ` {op \<in> set (is_operands spec @ is_implicit_operands spec). os_type op = OT_FLAGS}"

definition flags_from :: "string list set \<Rightarrow> instruction \<Rightarrow> bool" where
  "flags_from V i \<longleftrightarrow> (\<forall>vs. FlagsOperand vs \<in> set (i_operands i @ i_implicit_operands i) \<longrightarrow> vs \<in> V) \<and>
     (\<forall>op. i_latest_reg_operand i = Some op \<longrightarrow> \<not> is_flags_operand op)"

lemma generate_reg_operand_result:
  assumes "generate_reg_operand conf spec parent r = Inr ((op, p), r')"
  shows "i_operands p = i_operands parent \<and> i_implicit_operands p = i_implicit_operands parent \<and>
    (is_register_operand op \<or> i_latest_reg_operand parent = Some op) \<and>
    (i_latest_reg_operand p = i_latest_reg_operand parent \<or> i_latest_reg_operand p = Some op \<and> is_register_operand op)"
proof -
  from assms obtain cs r1 where "(if \<not> gc_avoid_data_dependencies conf
       then rg_bind (choice (sort cs)) (\<lambda>reg.
         rg_return (new_RegisterOperand reg (os_width spec) (os_src spec) (os_dest spec), parent))
       else case i_latest_reg_operand parent of
         Some latest \<Rightarrow>
           if op_value latest \<in> set (sort cs) then rg_return (latest, parent)
           else rg_bind (choice (sort cs)) (\<lambda>reg.
             let op = new_RegisterOperand reg (os_width spec) (os_src spec) (os_dest spec)
             in rg_return (op, parent\<lparr>i_latest_reg_operand := Some op\<rparr>))
       | None \<Rightarrow> rg_bind (choice (sort cs)) (\<lambda>reg.
           let op = new_RegisterOperand reg (os_width spec) (os_src spec) (os_dest spec)
           in rg_return (op, parent\<lparr>i_latest_reg_operand := Some op\<rparr>))) r1 = Inr ((op, p), r')"
    unfolding generate_reg_operand_def rg_bind_Inr_iff [of "rg_lift _"] by (auto simp: Let_def)
  then show ?thesis
    by (cases "i_latest_reg_operand parent")
      (auto simp: rg_bind_Inr_iff new_RegisterOperand_def Let_def simp del: set_sort split: if_splits)
qed

lemma generate_operand_flags:
  assumes "generate_operand conf spec parent r = Inr ((op, parent'), r')" and "flags_from V parent"
  shows "flags_from V parent' \<and> (op = FlagsOperand vs \<longrightarrow> os_type spec = OT_FLAGS \<and> vs = os_values spec)"
proof (cases "os_type spec")
  case OT_REG
  with assms(1) have "generate_reg_operand conf spec parent r = Inr ((op, parent'), r')"
    by (simp add: generate_operand_def)
  from generate_reg_operand_result [OF this] assms(2) show ?thesis
    by (cases op) (auto simp: flags_from_def)
next
  case OT_MEM
  with assms show ?thesis
    by (auto simp: generate_operand_def with_parent_def generate_mem_operand_def rg_bind_Inr_iff new_MemoryOperand_def)
next
  case OT_IMM
  with assms show ?thesis
    by (auto simp: generate_operand_def with_parent_def generate_imm_operand_def rg_bind_Inr_iff new_ImmediateOperand_def)
next
  case OT_AGEN
  with assms show ?thesis
    by (auto simp: generate_operand_def with_parent_def generate_agen_operand_def rg_bind_Inr_iff new_AgenOperand_def
        split: if_splits)
next
  case OT_FLAGS
  with assms show ?thesis
    by (auto simp: generate_operand_def with_parent_def generate_flags_operand_def rg_bind_Inr_iff new_FlagsOperand_def
        res_bind_Inr_iff)
qed (use assms in \<open>simp_all add: generate_operand_def with_parent_def generate_label_operand_def rg_bind_Inr_iff\<close>)

lemma add_generated_flags:
  assumes "rg_fold (add_generated conf implicit) specs inst r = Inr (i, r')" and "flags_from V inst"
    and "os_values ` {op \<in> set specs. os_type op = OT_FLAGS} \<subseteq> V"
  shows "flags_from V i"
  using assms
proof (induction specs arbitrary: inst r)
  case (Cons spec specs)
  from Cons.prems(1) obtain j r1 where j: "add_generated conf implicit spec inst r = Inr (j, r1)"
    and rest: "rg_fold (add_generated conf implicit) specs j r1 = Inr (i, r')"
    by (auto simp: rg_bind_Inr_iff)
  from j obtain op p where g: "generate_operand conf spec inst r = Inr ((op, p), r1)"
    and j': "j = add_op p op implicit" by (auto simp: add_generated_def rg_bind_Inr_iff)
  have "vs \<in> V" if "op = FlagsOperand vs" for vs
  proof -
    from generate_operand_flags [OF g Cons.prems(2)] that have "os_type spec = OT_FLAGS" "vs = os_values spec"
      by blast+
    with Cons.prems(3) show ?thesis by auto
  qed
  moreover have "flags_from V p" using generate_operand_flags [OF g Cons.prems(2)] by blast
  ultimately have "flags_from V (add_op p op implicit)" by (auto simp: flags_from_def add_op_def)
  with Cons.IH [OF rest] Cons.prems(3) j' show ?case by auto
qed simp

lemma generate_instruction_flags:
  assumes "generate_instruction conf spec r = Inr (i, r')"
  shows "flags_from (spec_flags spec) i"
proof -
  from assms obtain j r1 where
    g1: "rg_fold (add_generated conf False) (is_operands spec) (from_spec spec False) r = Inr (j, r1)" and
    g2: "rg_fold (add_generated conf True) (is_implicit_operands spec) j r1 = Inr (i, r')"
    by (auto simp: generate_instruction_def rg_bind_Inr_iff)
  have "flags_from (spec_flags spec) (from_spec spec False)"
    by (simp add: flags_from_def from_spec_def new_instruction_def)
  moreover have f: "os_values ` {op \<in> set (is_operands spec). os_type op = OT_FLAGS} \<subseteq> spec_flags spec"
    "os_values ` {op \<in> set (is_implicit_operands spec). os_type op = OT_FLAGS} \<subseteq> spec_flags spec"
    by (auto simp: spec_flags_def)
  ultimately have "flags_from (spec_flags spec) j" by (intro add_generated_flags [OF g1])
  from add_generated_flags [OF g2 this f(2)] show ?thesis .
qed

lemma first_flags_in: "first_flags ops = Some vs \<Longrightarrow> FlagsOperand vs \<in> set ops"
  by (induction ops rule: first_flags.induct) auto

lemma get_flags_operand_in:
  "get_flags_operand i = Some vs \<Longrightarrow> FlagsOperand vs \<in> set (i_operands i @ i_implicit_operands i)"
  by (auto simp: get_flags_operand_def dest: first_flags_in split: option.splits)

text \<open>A patch made from a candidate: it reads no flag, and its undefined flags are those of the candidate.\<close>

definition spec_undef_flags :: "instruction_spec \<Rightarrow> string set" where
  "spec_undef_flags spec = (\<Union>vs \<in> spec_flags spec. set (get_undef_flags vs))"

lemma get_flag_list_modes: "f \<in> set (get_flag_list vs types) \<Longrightarrow> \<exists>m \<in> set vs. m \<in> set types"
  by (auto simp: get_flag_list_def dest: set_zip_rightD)

lemma patch_flags:
  assumes "generate_instruction conf spec r = Inr (i, r')" and "is_patch_candidate spec"
  shows "read_flags i = [] \<and> set (undef_flags_of i) \<subseteq> spec_undef_flags spec"
proof (cases "get_flags_operand i")
  case (Some vs)
  then have vs: "vs \<in> spec_flags spec"
    using generate_instruction_flags [OF assms(1)] get_flags_operand_in [OF Some] by (auto simp: flags_from_def)
  then have "set vs \<subseteq> set (spec_flag_modes spec)" by (auto simp: spec_flags_def spec_flag_modes_def)
  then have "m \<notin> {''r'', ''r/w'', ''r/cw''}" if "m \<in> set vs" for m
    using assms(2) that by (auto simp: is_patch_candidate_def Let_def list_ex_iff)
  then have "f \<notin> set (get_read_flags vs)" for f
    using get_flag_list_modes [of f vs "[''r'', ''r/w'', ''r/cw'']"] unfolding get_read_flags_def by auto
  then have "get_read_flags vs = []" by (metis list.set_intros(1) neq_Nil_conv)
  with vs Some show ?thesis by (auto simp: read_flags_def undef_flags_of_def spec_undef_flags_def)
qed (simp add: read_flags_def undef_flags_of_def)

text \<open>What \<open>find_flags_patch\<close> returns: patches from candidates that together write every flag asked for.\<close>

definition patches_for :: "instruction_spec list \<Rightarrow> string set \<Rightarrow> instruction list \<Rightarrow> bool" where
  "patches_for candidates flags patches \<longleftrightarrow>
     flags \<subseteq> (\<Union>p \<in> set patches. set (write_flags p)) \<and>
     (\<forall>p \<in> set patches. read_flags p = [] \<and> (\<exists>spec \<in> set candidates. set (undef_flags_of p) \<subseteq> spec_undef_flags spec))"

lemma find_loop_result:
  assumes "find_loop conf F specs undef r = Inr ((ps, u), r')" and "\<forall>spec \<in> set specs. is_patch_candidate spec"
  shows "patches_for specs (set undef - set u) ps"
  using assms
proof (induction specs arbitrary: undef r ps)
  case (Cons spec specs)
  from Cons.prems(1) obtain patch r1 where g: "generate_instruction conf spec r = Inr (patch, r1)"
    by (auto simp: rg_bind_Inr_iff)
  with Cons.prems(1) obtain fl where fl: "get_flags_operand patch = Some fl"
    by (auto simp: rg_bind_Inr_iff split: option.splits)
  let ?np = "filter (\<lambda>i. i \<notin> set (get_write_flags fl)) undef"
  let ?nu = "filter (\<lambda>i. i \<notin> set undef \<and> i \<in> set F) (get_undef_flags fl)"
  have pf: "read_flags patch = []" "set (undef_flags_of patch) \<subseteq> spec_undef_flags spec"
    using patch_flags [OF g] Cons.prems(2) by simp_all
  have w: "set (write_flags patch) = set (get_write_flags fl)" using fl by (simp add: write_flags_def)
  have ext: "patches_for (spec # specs) A qs" if "patches_for specs A qs" for A qs
    using that by (auto simp: patches_for_def)
  consider (fin) "?nu = []" "?np \<noteq> undef" "?np = []" "ps = [patch]" "u = []"
    | (more) qs where "?nu = []" "?np \<noteq> undef" "ps = patch # qs" "find_loop conf F specs ?np r1 = Inr ((qs, u), r')"
    | (skip) "find_loop conf F specs undef r1 = Inr ((ps, u), r')"
    using Cons.prems(1) g fl by (auto simp: rg_bind_Inr_iff Let_def split: if_splits)
  then show ?case
  proof cases
    case fin
    then have "set undef \<subseteq> set (write_flags patch)" unfolding w by (auto simp: filter_empty_conv)
    with fin pf show ?thesis by (auto simp: patches_for_def)
  next
    case more
    from Cons.IH [OF more(4)] Cons.prems(2) have "patches_for specs (set ?np - set u) qs" by simp
    from ext [OF this] pf w more(3) show ?thesis by (auto simp: patches_for_def)
  next
    case skip
    from ext [OF Cons.IH [OF skip]] Cons.prems(2) show ?thesis by simp
  qed
qed (simp add: patches_for_def)

lemma find_flags_patch_result:
  assumes "find_flags_patch conf candidates undef F r = Inr (ps, r')"
    and "\<forall>spec \<in> set candidates. is_patch_candidate spec"
  shows "patches_for candidates (set undef) ps"
proof -
  from assms(1) obtain r1 where "find_loop conf F candidates undef r = Inr ((ps, []), r1)"
    by (auto simp: find_flags_patch_def rg_bind_Inr_iff split: if_splits)
  from find_loop_result [OF this assms(2)] show ?thesis by simp
qed

text \<open>
  If the candidates leave no flag of \<open>F\<close> undefined, patches in any order define the flags they
  write and disturb no other flag of \<open>F\<close>.
\<close>

lemma patches_safe:
  assumes "\<forall>p \<in> set ps. read_flags p = [] \<and> set (undef_flags_of p) \<inter> F = {}"
    and "U \<inter> (F - (\<Union>p \<in> set ps. set (write_flags p))) = {}"
  shows "flags_safe U ps \<and> flags_after U ps \<inter> F = {}"
  using assms
proof (induction ps arbitrary: U)
  case (Cons p ps)
  have "flags_safe ((U - set (write_flags p)) \<union> set (undef_flags_of p)) ps \<and>
      flags_after ((U - set (write_flags p)) \<union> set (undef_flags_of p)) ps \<inter> F = {}"
    using Cons.prems by (intro Cons.IH) auto
  with Cons.prems(1) show ?case by (simp add: flags_after_def)
qed (simp add: flags_after_def)

subsection \<open>The backward walk\<close>

definition safe_from :: "string set \<Rightarrow> instruction list \<Rightarrow> bool" where
  "safe_from F is \<longleftrightarrow> (\<forall>U. U \<inter> F = {} \<longrightarrow> flags_safe U is)"

definition clean_candidates :: "instruction_spec list \<Rightarrow> string set \<Rightarrow> bool" where
  "clean_candidates candidates R \<longleftrightarrow>
     (\<forall>spec \<in> set candidates. is_patch_candidate spec \<and> spec_undef_flags spec \<inter> R = {})"

lemma fold_insert_patch:
  assumes "Some k \<notin> fst ` set front"
  shows "\<exists>F'. fold (insert_patch (Some k)) ps (F, front @ (Some k, i) # S) =
      (F', front @ (Some k, i) # map (\<lambda>p. (None, as_instrumentation p)) (rev ps) @ S) \<and>
    set F' = set F - (\<Union>p \<in> set ps. set (write_flags p))"
  using assms
proof (induction ps arbitrary: F S)
  case (Cons p ps)
  let ?F = "fold (\<lambda>f fs. set_discard fs f) (write_flags p) F"
  have "insert_patch (Some k) p (F, front @ (Some k, i) # S) =
      (?F, front @ (Some k, i) # (None, as_instrumentation p) # S)"
    using Cons.prems by (simp add: insert_patch_def tag_ops_append)
  with Cons.IH [OF Cons.prems, of ?F "(None, as_instrumentation p) # S"] show ?case by auto
qed simp

lemma patches_before_safe:
  assumes "patches_for candidates A ps" and "clean_candidates candidates R" and "F \<subseteq> R" and "safe_from F is"
  shows "safe_from (F - (\<Union>p \<in> set ps. set (write_flags p))) (map as_instrumentation (rev ps) @ is)"
  unfolding safe_from_def
proof (intro allI impI)
  fix U
  assume "U \<inter> (F - (\<Union>p \<in> set ps. set (write_flags p))) = {}"
  moreover have "\<forall>p \<in> set ps. read_flags p = [] \<and> set (undef_flags_of p) \<inter> F = {}"
    using assms(1-3) by (fastforce simp: patches_for_def clean_candidates_def)
  ultimately have "flags_safe U (map as_instrumentation (rev ps)) \<and>
      flags_after U (map as_instrumentation (rev ps)) \<inter> F = {}"
    by (intro patches_safe) auto
  with assms(4) show "flags_safe U (map as_instrumentation (rev ps) @ is)"
    by (simp add: flags_safe_append safe_from_def)
qed

lemma instruction_before_safe:
  assumes "safe_from F is" and "set (undef_flags_of i) \<inter> F = {}"
  shows "safe_from ((F - set (write_flags i)) \<union> set (read_flags i)) (i # is)"
  unfolding safe_from_def
proof (intro allI impI)
  fix U
  assume U: "U \<inter> ((F - set (write_flags i)) \<union> set (read_flags i)) = {}"
  have "((U - set (write_flags i)) \<union> set (undef_flags_of i)) \<inter> F = {}" using U assms(2) by blast
  with assms(1) U show "flags_safe U (i # is)" by (auto simp: safe_from_def)
qed

lemma flags_step_safe:
  assumes "flags_step conf candidates (Some k, i) (F, front @ (Some k, i) # S) r = Inr ((F', xs), r')"
    and "Some k \<notin> fst ` set front" and "clean_candidates candidates R" and "set F \<subseteq> R" and "set (read_flags i) \<subseteq> R"
    and "safe_from (set F) (map snd S @ T)"
  shows "\<exists>S'. xs = front @ (Some k, i) # S' \<and> set F' \<subseteq> R \<and> safe_from (set F') (map snd ((Some k, i) # S') @ T)"
proof (cases "get_flags_operand i")
  case None
  then have s: "F' = F" "xs = front @ (Some k, i) # S" using assms(1) by (simp_all add: flags_step_def)
  have "safe_from (set F) (i # map snd S @ T)"
    using instruction_before_safe [OF assms(6), of i] None
    by (simp add: undef_flags_of_def write_flags_def read_flags_def)
  with s assms(4) show ?thesis by simp
next
  case (Some fl)
  note ops = write_flags_def read_flags_def undef_flags_of_def Some
  let ?undef = "filter (\<lambda>f. f \<in> set F) (get_undef_flags fl)"
  obtain F1 xs1 r1 where m: "(if ?undef = [] then rg_return (F, front @ (Some k, i) # S)
      else rg_bind (find_flags_patch conf candidates ?undef F) (\<lambda>patches.
        rg_return (fold (insert_patch (Some k)) patches (F, front @ (Some k, i) # S)))) r = Inr ((F1, xs1), r1)"
    and F': "set F' = (set F1 - set (write_flags i)) \<union> set (read_flags i)" "xs = xs1"
    using assms(1) Some by (auto simp: flags_step_def Let_def rg_bind_Inr_iff ops)
  have "\<exists>S'. xs1 = front @ (Some k, i) # S' \<and> set F1 \<subseteq> R \<and> safe_from (set F1) (map snd S' @ T) \<and>
      set (undef_flags_of i) \<inter> set F1 = {}"
  proof (cases "?undef = []")
    case True
    then have "set (undef_flags_of i) \<inter> set F = {}" by (auto simp: ops filter_empty_conv)
    with True m assms(4,6) show ?thesis by auto
  next
    case False
    then obtain ps where fp: "find_flags_patch conf candidates ?undef F r = Inr (ps, r1)"
      and xs1: "fold (insert_patch (Some k)) ps (F, front @ (Some k, i) # S) = (F1, xs1)"
      using m by (auto simp: rg_bind_Inr_iff)
    have ps: "patches_for candidates (set ?undef) ps"
      by (rule find_flags_patch_result [OF fp]) (use assms(3) in \<open>simp add: clean_candidates_def\<close>)
    from fold_insert_patch [OF assms(2), of ps F i S] xs1
    have f1: "set F1 = set F - (\<Union>p \<in> set ps. set (write_flags p))"
      and x1: "xs1 = front @ (Some k, i) # map (\<lambda>p. (None, as_instrumentation p)) (rev ps) @ S" by auto
    have "safe_from (set F1) (map as_instrumentation (rev ps) @ map snd S @ T)"
      unfolding f1 by (rule patches_before_safe [OF ps assms(3,4,6)])
    moreover have "set (undef_flags_of i) \<inter> set F1 = {}"
      using ps unfolding f1 by (auto simp: patches_for_def ops)
    ultimately show ?thesis using x1 f1 assms(4) by (auto simp: comp_def)
  qed
  then obtain S' where S': "xs1 = front @ (Some k, i) # S'" "set F1 \<subseteq> R" "safe_from (set F1) (map snd S' @ T)"
    "set (undef_flags_of i) \<inter> set F1 = {}" by blast
  from instruction_before_safe [OF S'(3,4)] S' F' assms(5) show ?thesis by auto
qed

lemma number_snoc: "number (body @ [i]) = number body @ [(Some (length body), i)]"
  by (simp add: number_def enumerate_append_eq)

lemma number_tags: "Some k \<in> fst ` set (number body) \<Longrightarrow> k < length body"
  by (force simp: number_def in_set_enumerate_eq)

lemma flags_walk_safe:
  assumes "rg_fold (flags_step conf candidates) (rev (number body)) (F, number body @ S) r = Inr ((F', xs), r')"
    and "clean_candidates candidates R" and "set F \<subseteq> R" and "\<forall>i \<in> set body. set (read_flags i) \<subseteq> R"
    and "safe_from (set F) (map snd S @ T)"
  shows "set F' \<subseteq> R \<and> safe_from (set F') (map snd xs @ T)"
  using assms
proof (induction body arbitrary: F S r rule: rev_induct)
  case Nil
  then show ?case by (simp add: number_def)
next
  case (snoc i body)
  let ?k = "length body"
  from snoc.prems(1) obtain F1 xs1 r1 where
    s: "flags_step conf candidates (Some ?k, i) (F, number body @ (Some ?k, i) # S) r = Inr ((F1, xs1), r1)" and
    rest: "rg_fold (flags_step conf candidates) (rev (number body)) (F1, xs1) r1 = Inr ((F', xs), r')"
    by (auto simp: number_snoc rg_bind_Inr_iff)
  have "Some ?k \<notin> fst ` set (number body)" using number_tags by blast
  from flags_step_safe [OF s this snoc.prems(2,3) _ snoc.prems(5)] snoc.prems(4)
  obtain S' where "xs1 = number body @ (Some ?k, i) # S'" "set F1 \<subseteq> R"
    "safe_from (set F1) (map snd ((Some ?k, i) # S') @ T)" by auto
  with snoc.IH [OF _ snoc.prems(2), of F1 "(Some ?k, i) # S'" r1] rest snoc.prems(4) show ?case by simp
qed

definition conditional_terminator :: "instruction list \<Rightarrow> instruction list" where
  "conditional_terminator terminators = (if length terminators = 2 then [terminators ! 0] else [])"

lemma terminator_step:
  "flags_step conf candidates (None, t) ([], xs) r = Inr ((F, ys), r') \<Longrightarrow> set F = set (read_flags t) \<and> ys = xs"
  by (auto simp: flags_step_def Let_def rg_bind_Inr_iff read_flags_def split: option.splits)

subsection \<open>Properties\<close>


text \<open>
  Examples: \<open>AND\<close> leaves \<open>AF\<close> undefined, \<open>INC\<close> defines it; \<open>SHL\<close> leaves \<open>AF\<close> and \<open>OF\<close> undefined, \<open>LAHF\<close>
  reads \<open>AF\<close> and \<open>JO\<close> reads \<open>OF\<close>. The order of the modes is that of \<open>flag_names\<close>.
\<close>

definition flags_op :: "string list \<Rightarrow> operand_spec" where
  "flags_op modes = new_operand_spec modes OT_FLAGS False False"

definition fixed_reg :: "string \<Rightarrow> operand_spec" where
  "fixed_reg reg = (new_operand_spec [reg] OT_REG True True)\<lparr>os_width := 64\<rparr>"

definition ex_and :: instruction_spec where
  "ex_and = new_instruction_spec\<lparr>is_name := ''AND'', is_category := ''BASE-LOGICAL'',
     is_operands := [fixed_reg ''RAX'', fixed_reg ''RBX''],
     is_implicit_operands := [flags_op [''w'', ''w'', ''undef'', ''w'', ''w'', '''', '''', '''', ''w'']]\<rparr>"

definition ex_inc :: instruction_spec where
  "ex_inc = new_instruction_spec\<lparr>is_name := ''INC'', is_category := ''BASE-BINARY'',
     is_operands := [fixed_reg ''RAX''],
     is_implicit_operands := [flags_op ['''', ''w'', ''w'', ''w'', ''w'', '''', '''', '''', ''w'']]\<rparr>"

definition ex_flag_inst :: "string \<Rightarrow> string list \<Rightarrow> instruction" where
  "ex_flag_inst name modes = (new_instruction name False '''' False)\<lparr>i_implicit_operands := [FlagsOperand modes]\<rparr>"

definition ex_shl_cl :: instruction where
  "ex_shl_cl = ex_flag_inst ''SHL'' [''w'', ''w'', ''undef'', ''w'', ''w'', '''', '''', '''', ''undef'']"

definition ex_lahf :: instruction where
  "ex_lahf = ex_flag_inst ''LAHF'' [''r'', ''r'', ''r'', ''r'', ''r'', '''', '''', '''', '''']"

definition ex_jo :: instruction where
  "ex_jo = ex_flag_inst ''JO'' ['''', '''', '''', '''', '''', '''', '''', '''', ''r'']"

text \<open>The instruction that a specification with fixed registers generates, on every tape.\<close>

definition ex_generated :: "instruction_spec \<Rightarrow> instruction" where
  "ex_generated spec = (from_spec spec False)\<lparr>
     i_operands := map (\<lambda>op. RegisterOperand (hd (os_values op)) 64 True True) (is_operands spec),
     i_implicit_operands := map (\<lambda>op. FlagsOperand (os_values op)) (is_implicit_operands spec)\<rparr>"

lemma choice_single [simp]: "choice [x] r = Inr (x, advance 1 r)"
  by (simp add: choice_def draw_def advance_def)

lemma generate_fixed_reg:
  assumes "reg \<notin> {''GPR'', ''SIMD''}" and "upper reg = reg"
  shows "generate_operand ex_conf (fixed_reg reg) i r = Inr ((RegisterOperand reg 64 True True, i), advance 1 r)"
  using assms by (simp add: generate_operand_def fixed_reg_def new_operand_spec_def generate_reg_operand_def
      reg_choices_def ex_conf_def rg_bind_def rg_lift_def rg_return_def new_RegisterOperand_def)

lemma generate_flags_op:
  "length modes = 9 \<Longrightarrow> generate_operand conf (flags_op modes) i r = Inr ((FlagsOperand modes, i), r)"
  by (simp add: generate_operand_def flags_op_def new_operand_spec_def with_parent_def generate_flags_operand_def
      new_FlagsOperand_def flag_names_def py_assert_def rg_bind_def rg_lift_def rg_return_def)

lemma generate_ex_and: "\<exists>r'. generate_instruction ex_conf ex_and r = Inr (ex_generated ex_and, r')"
  by (simp add: generate_instruction_def ex_and_def ex_generated_def new_instruction_spec_def from_spec_def
      new_instruction_def add_generated_def generate_fixed_reg generate_flags_op rg_bind_def rg_return_def add_op_def
      upper_def upper_char_def) (simp add: fixed_reg_def flags_op_def new_operand_spec_def)

lemma generate_ex_inc: "\<exists>r'. generate_instruction ex_conf ex_inc r = Inr (ex_generated ex_inc, r')"
  by (simp add: generate_instruction_def ex_inc_def ex_generated_def new_instruction_spec_def from_spec_def
      new_instruction_def add_generated_def generate_fixed_reg generate_flags_op rg_bind_def rg_return_def add_op_def
      upper_def upper_char_def) (simp add: fixed_reg_def flags_op_def new_operand_spec_def)

lemma ex_flags:
  "get_flags_operand (ex_generated ex_and) = Some [''w'', ''w'', ''undef'', ''w'', ''w'', '''', '''', '''', ''w'']"
  "get_flags_operand (ex_generated ex_inc) = Some ['''', ''w'', ''w'', ''w'', ''w'', '''', '''', '''', ''w'']"
  "get_flags_operand (ex_flag_inst name modes) = Some modes"
  by (simp_all add: get_flags_operand_def ex_generated_def ex_and_def ex_inc_def ex_flag_inst_def
      new_instruction_spec_def flags_op_def new_operand_spec_def from_spec_def new_instruction_def)

lemmas flag_eval = get_undef_flags_def get_write_flags_def get_read_flags_def get_flag_list_def flag_names_def
  write_flags_def read_flags_def undef_flags_of_def ex_flags

lemma find_ex_patches:
  "\<exists>r'. find_flags_patch ex_conf [ex_and, ex_inc] [''AF'', ''OF''] F r =
     Inr ([ex_generated ex_and, ex_generated ex_inc], r')"
proof -
  obtain r1 where 1: "generate_instruction ex_conf ex_and r = Inr (ex_generated ex_and, r1)"
    using generate_ex_and by blast
  obtain r2 where 2: "generate_instruction ex_conf ex_inc r1 = Inr (ex_generated ex_inc, r2)"
    using generate_ex_inc by blast
  show ?thesis
    by (simp add: find_flags_patch_def rg_bind_def 1 2 flag_eval rg_return_def Let_def)
qed

lemma ex_clean: "clean_candidates [ex_inc] R"
proof -
  have "spec_flags ex_inc \<subseteq> {['''', ''w'', ''w'', ''w'', ''w'', '''', '''', '''', ''w'']}"
    by (auto simp: spec_flags_def ex_inc_def fixed_reg_def flags_op_def new_operand_spec_def)
  moreover have "get_undef_flags ['''', ''w'', ''w'', ''w'', ''w'', '''', '''', '''', ''w''] = []"
    by (simp add: flag_eval)
  ultimately have "spec_undef_flags ex_inc = {}" by (auto simp: spec_undef_flags_def)
  moreover have "is_patch_candidate ex_inc"
    by (simp add: is_patch_candidate_def ex_inc_def new_instruction_spec_def requires_sandbox_def bit_test_names_def
        spec_flag_modes_def fixed_reg_def flags_op_def new_operand_spec_def)
  ultimately show ?thesis by (simp add: clean_candidates_def)
qed


text \<open>
  Several patches are linked in the wrong order. \<open>find_flags_patch\<close> may return a patch that
  leaves one of the remaining flags undefined and a second patch that defines it: run in
  the order found they are safe. The pass links each of them directly after the
  instruction, so the second one runs first: for \<open>SHL; LAHF; JO\<close> with the candidates \<open>AND\<close> and \<open>INC\<close> the
  result is \<open>SHL; INC; AND; LAHF; JO\<close>, and \<open>LAHF\<close> reads the \<open>AF\<close> that \<open>AND\<close> leaves undefined.
\<close>

lemma flags_patches_reversed:
  "\<exists>r'. flags_block ex_conf [ex_and, ex_inc] [ex_shl_cl, ex_lahf] [ex_jo, jump_to target] r =
     Inr ([ex_shl_cl, as_instrumentation (ex_generated ex_inc), as_instrumentation (ex_generated ex_and), ex_lahf], r') \<and>
   flags_safe {} [ex_shl_cl, ex_generated ex_and, ex_generated ex_inc, ex_lahf, ex_jo] \<and>
   \<not> flags_safe {} [ex_shl_cl, ex_generated ex_inc, ex_generated ex_and, ex_lahf, ex_jo]"
proof -
  let ?F = "[''OF'', ''CF'', ''PF'', ''AF'', ''ZF'', ''SF'']"
  obtain r1 where 1: "find_flags_patch ex_conf [ex_and, ex_inc] [''AF'', ''OF''] ?F r =
     Inr ([ex_generated ex_and, ex_generated ex_inc], r1)" using find_ex_patches by blast
  have "flags_block ex_conf [ex_and, ex_inc] [ex_shl_cl, ex_lahf] [ex_jo, jump_to target] r =
     Inr ([ex_shl_cl, as_instrumentation (ex_generated ex_inc), as_instrumentation (ex_generated ex_and), ex_lahf], r1)"
    by (simp add: flags_block_def all_instructions_def number_def flags_step_def ex_jo_def ex_shl_cl_def ex_lahf_def
        flag_eval rg_bind_def rg_return_def set_add_def set_discard_def 1 insert_patch_def Let_def)
  moreover have "flags_safe {} [ex_shl_cl, ex_generated ex_and, ex_generated ex_inc, ex_lahf, ex_jo]"
    "\<not> flags_safe {} [ex_shl_cl, ex_generated ex_inc, ex_generated ex_and, ex_lahf, ex_jo]"
    by (simp_all add: ex_jo_def ex_shl_cl_def ex_lahf_def flag_eval)
  ultimately show ?thesis by blast
qed

end
