(* ===== verification/Asm_Text.thy ===== *)
theory Asm_Text
  imports Flags_Pass
begin

text \<open>
  The textual side of \<^verbatim>\<open>src/src/generator.py\<close>: the assembly printer, the parser of existing test
  cases, the map from code addresses to instructions and \<open>create_test_case\<close>, which puts the
  generator and its passes together. A file is the list of its lines (without the line
  ends); the assembler together with the disassembler is a parameter that gives the
  addresses of the instructions of a text.
\<close>

subsection \<open>Python string operations\<close>

definition is_space :: "char \<Rightarrow> bool" where
  "is_space c \<longleftrightarrow> of_char c \<in> {32, 9, 10, 11, 12, 13 :: nat}"

definition strip :: "string \<Rightarrow> string" where
  "strip s = rev (dropWhile is_space (rev (dropWhile is_space s)))"

text \<open>\<open>s.split()\<close> at runs of white space, and \<open>s.split(c)\<close> at every occurrence of a character.\<close>

fun split_words :: "string \<Rightarrow> string \<Rightarrow> string list" where
  "split_words w [] = (if w = [] then [] else [rev w])"
| "split_words w (c # s) =
     (if is_space c then (if w = [] then split_words [] s else rev w # split_words [] s)
      else split_words (c # w) s)"

fun split_at :: "char \<Rightarrow> string \<Rightarrow> string list" where
  "split_at d [] = [[]]"
| "split_at d (c # s) =
     (if c = d then [] # split_at d s
      else case split_at d s of w # ws \<Rightarrow> (c # w) # ws | [] \<Rightarrow> [[c]])"

definition ends_with :: "string \<Rightarrow> string \<Rightarrow> bool" where
  "ends_with s p = starts_with (rev s) (rev p)"

fun join :: "string \<Rightarrow> string list \<Rightarrow> string" where
  "join sep [] = []"
| "join sep [w] = w"
| "join sep (w # v # ws) = w @ sep @ join sep (v # ws)"

text \<open>The part before the last occurrence of a character, if there is one.\<close>

definition before_last :: "char \<Rightarrow> string \<Rightarrow> string option" where
  "before_last c s = (if c \<in> set s then Some (rev (tl (dropWhile (\<lambda>d. d \<noteq> c) (rev s)))) else None)"

subsection \<open>Printer\<close>

definition memory_prefixes :: "(nat, string) dict" where
  "memory_prefixes = [(8, ''byte ptr''), (16, ''word ptr''), (32, ''dword ptr''), (64, ''qword ptr''), (512, '''')]"

definition operand_to_str :: "operand \<Rightarrow> string res" where
  "operand_to_str op =
     (case op of
        MemoryOperand v w s d \<Rightarrow> res_bind (dict_get memory_prefixes w) (\<lambda>prefix. Inr (prefix @ '' ['' @ v @ '']''))
      | AgenOperand v w \<Rightarrow> res_bind (dict_get memory_prefixes w) (\<lambda>prefix. Inr (prefix @ '' ['' @ v @ '']''))
      | _ \<Rightarrow> Inr (op_value op))"

definition instruction_to_str :: "instruction \<Rightarrow> string res" where
  "instruction_to_str inst =
     res_bind (res_map operand_to_str (i_operands inst)) (\<lambda>ops.
       Inr (i_name inst @ '' '' @ join '', '' ops @ '' '' @
            (if i_is_instrumentation inst then ''# instrumentation'' else '''')))"

definition print_basic_block :: "bblock \<Rightarrow> string list res" where
  "print_basic_block bb =
     res_bind (res_map instruction_to_str (bk_body bb)) (\<lambda>body.
     res_bind (res_map instruction_to_str (bk_terminators bb)) (\<lambda>terms.
     Inr ((bk_name bb @ '':'') # body @ terms)))"

definition prologue_template :: "string \<Rightarrow> string list" where
  "prologue_template cache_line_offset =
     [''.intel_syntax noprefix'', ''LEA R14, [R14 + '' @ cache_line_offset @ ''] # instrumentation'',
      ''MFENCE # instrumentation'', ''.test_case_enter:'']"

definition epilogue_template :: "string \<Rightarrow> string list" where
  "epilogue_template cache_line_offset =
     [''.test_case_exit:'', ''MFENCE # instrumentation'',
      ''LEA R14, [R14 - '' @ cache_line_offset @ ''] # instrumentation'']"

record test_case =
  tc_functions :: "tfunc list"
  tc_address_map :: "(nat, instruction) dict"
  tc_last_address :: nat
  tc_num_prologue_instructions :: nat

definition new_test_case :: test_case where
  "new_test_case = \<lparr>tc_functions = [], tc_address_map = [], tc_last_address = 0, tc_num_prologue_instructions = 0\<rparr>"

definition print_function :: "tfunc \<Rightarrow> string list res" where
  "print_function func =
     res_bind (res_map print_basic_block (tf_all func)) (\<lambda>bbs. Inr ((tf_name func @ '':'') # concat bbs))"

text \<open>The last loop counts the lines of the prologue that start with a dot.\<close>

definition print_test_case :: "bool \<Rightarrow> test_case \<Rightarrow> (string list \<times> test_case) rg" where
  "print_test_case randomized_mem_alignment test_case =
     rg_bind (if randomized_mem_alignment then randint 0 15 else rg_return 0) (\<lambda>n.
     let cache_line_offset = int_str (n * 4) in
     rg_bind (rg_lift (res_map print_function (tc_functions test_case))) (\<lambda>funcs.
     rg_return (prologue_template cache_line_offset @ concat funcs @ epilogue_template cache_line_offset,
       test_case\<lparr>tc_num_prologue_instructions := tc_num_prologue_instructions test_case +
         length (filter (\<lambda>i. i ! 0 = CHR ''.'') (prologue_template cache_line_offset))\<rparr>)))"

subsection \<open>Addresses\<close>

definition real_instructions :: "test_case \<Rightarrow> instruction list" where
  "real_instructions tc =
     filter (\<lambda>i. i_name i \<noteq> ''.byte 0x36'')
       (concat (map (\<lambda>bb. bk_body bb @ bk_terminators bb) (concat (map tf_all (tc_functions tc)))))"

text \<open>\<open>address_list\<close> holds what the disassembler finds in the assembled file.\<close>

definition map_addresses :: "test_case \<Rightarrow> nat list \<Rightarrow> test_case res" where
  "map_addresses tc address_list =
     res_bind (res_fold (\<lambda>inst (address_map, counter).
         res_bind (py_nth address_list counter) (\<lambda>address.
         Inr (AList.update address inst address_map, counter + 1)))
       (real_instructions tc) ([], tc_num_prologue_instructions tc)) (\<lambda>(address_map, _).
     res_bind (py_index address_list (-1)) (\<lambda>last_address.
     Inr (tc\<lparr>tc_last_address := last_address,
             tc_address_map := fold (\<lambda>address m.
               if address \<in> fst ` set m then m
               else AList.update address (new_instruction ''UNMAPPED'' True '''' False) m) address_list address_map\<rparr>)))"

subsection \<open>Creating a test case\<close>

datatype pass = SandboxPass | PatchUndefinedFlagsPass | PatchUndefinedResultPass | RandomProtectPass

definition bit_scan_function :: "tfunc \<Rightarrow> tfunc rg" where
  "bit_scan_function func =
     rg_bind (run_blocks bit_scan_block (tf_blocks func @ [tf_exit func])) (\<lambda>bbs.
       rg_return (func\<lparr>tf_blocks := butlast bbs, tf_exit := last bbs\<rparr>))"

definition protect_function :: "tfunc \<Rightarrow> tfunc rg" where
  "protect_function func =
     rg_bind (run_blocks protect_block (tf_all func)) (\<lambda>bbs.
       rg_return (func\<lparr>tf_entry := hd bbs, tf_blocks := butlast (tl bbs), tf_exit := last bbs\<rparr>))"

definition run_pass :: "gen_conf \<Rightarrow> instruction_spec list \<Rightarrow> pass \<Rightarrow> tfunc \<Rightarrow> tfunc rg" where
  "run_pass conf candidates p func =
     (case p of
        SandboxPass \<Rightarrow> sandbox_function conf func
      | PatchUndefinedFlagsPass \<Rightarrow> flags_function conf candidates func
      | PatchUndefinedResultPass \<Rightarrow> bit_scan_function func
      | RandomProtectPass \<Rightarrow> protect_function func)"

definition x86_passes :: "bool \<Rightarrow> pass list" where
  "x86_passes prot = [SandboxPass, PatchUndefinedFlagsPass, PatchUndefinedResultPass] @
     (if prot then [RandomProtectPass] else [])"

definition finish_test_case ::
    "gen_conf \<Rightarrow> instruction_spec list \<Rightarrow> pass list \<Rightarrow> bool \<Rightarrow> (string list \<Rightarrow> nat list) \<Rightarrow> tfunc \<Rightarrow>
     (test_case \<times> string list) rg" where
  "finish_test_case conf candidates passes alignment assemble func =
     rg_bind (rg_fold (run_pass conf candidates) passes func) (\<lambda>func.
     rg_bind (print_test_case alignment (new_test_case\<lparr>tc_functions := [func]\<rparr>)) (\<lambda>(text, tc).
     rg_bind (rg_lift (map_addresses tc (assemble text))) (\<lambda>tc. rg_return (tc, text))))"

definition create_test_case ::
    "gen_conf \<Rightarrow> instruction_set \<Rightarrow> instruction_spec list \<Rightarrow> pass list \<Rightarrow> bool \<Rightarrow> (string list \<Rightarrow> nat list) \<Rightarrow> bool \<Rightarrow>
     rng \<Rightarrow> (((test_case \<times> string list) \<times> bool) \<times> rng) res option" where
  "create_test_case conf is candidates passes alignment assemble recent r =
     (case rg_bind (generate_function conf is ''.function_main'') (add_terminators_in_function is) r of
        Inl e \<Rightarrow> Some (Inl e)
      | Inr (func, r) \<Rightarrow>
          (case add_instructions_in_function conf is recent func r of
             None \<Rightarrow> None
           | Some (Inl e) \<Rightarrow> Some (Inl e)
           | Some (Inr ((func, recent), r)) \<Rightarrow>
               Some (res_bind (finish_test_case conf candidates passes alignment assemble func r) (\<lambda>(tc, r).
                 Inr ((tc, recent), r)))))"

subsection \<open>Parsing an instruction\<close>

definition memory_sizes :: "(string, nat) dict" where
  "memory_sizes = [(''byte'', 8), (''word'', 16), (''dword'', 32), (''qword'', 64)]"

definition asm_prefixes :: "string list" where
  "asm_prefixes = [''LOCK'', ''REX'', ''REP'', ''REPE'', ''REPNE'']"

definition asm_synonyms :: "(string, string) dict" where
  "asm_synonyms =
     [(''JE'', ''JZ''), (''JNE'', ''JNZ''), (''JNAE'', ''JB''), (''JC'', ''JB''), (''JAE'', ''JNB''), (''JNC'', ''JNB''),
      (''JNA'', ''JBE''), (''JA'', ''JNBE''), (''JNGE'', ''JL''), (''JGE'', ''JNL''), (''JNG'', ''JLE''), (''JG'', ''JNLE''),
      (''JPE'', ''JP''), (''JPO'', ''JNP''), (''CMOVE'', ''CMOVZ''), (''CMOVNE'', ''CMOVNZ''), (''CMOVNAE'', ''CMOVB''),
      (''CMOVC'', ''CMOVB''), (''CMOVAE'', ''CMOVNB''), (''CMOVNC'', ''CMOVNB''), (''CMOVNA'', ''CMOVBE''),
      (''CMOVA'', ''CMOVNBE''), (''CMOVNGE'', ''CMOVL''), (''CMOVGE'', ''CMOVNL''), (''CMOVNG'', ''CMOVLE''),
      (''CMOVG'', ''CMOVNLE''), (''CMOVPE'', ''CMOVP''), (''CMOVPO'', ''CMOVNP'')]"

definition parser_assert :: "bool \<Rightarrow> nat \<Rightarrow> unit res" where
  "parser_assert condition line_number = (if condition then Inr () else Inl (AsmParserException line_number))"

type_synonym instruction_map = "(string, instruction_spec list) dict"

definition build_instruction_map :: "instruction_set \<Rightarrow> instruction_map" where
  "build_instruction_map is =
     fold (\<lambda>spec m. AList.update (is_name spec) (dict_default m [] (is_name spec) @ [spec]) m) (iset_instructions is) []"

fun find_specs :: "instruction_map \<Rightarrow> string \<Rightarrow> string list \<Rightarrow> instruction_spec list \<times> string" where
  "find_specs m name [] = ([], name)"
| "find_specs m name (word # words) =
     (if word \<in> set asm_prefixes then find_specs m (name @ word @ '' '') words
      else let key = (case map_of asm_synonyms (upper word) of
                        Some syn \<Rightarrow> upper name @ syn
                      | None \<Rightarrow> upper (name @ word))
           in (dict_default m [] key, name @ word))"

text \<open>The four patterns of an immediate.\<close>

definition is_digit :: "char \<Rightarrow> bool" where
  "is_digit c \<longleftrightarrow> 48 \<le> (of_char c :: nat) \<and> (of_char c :: nat) \<le> 57"

definition is_hex_digit :: "char \<Rightarrow> bool" where
  "is_hex_digit c \<longleftrightarrow> is_digit c \<or> (97 \<le> (of_char c :: nat) \<and> (of_char c :: nat) \<le> 102)"

definition drop_minus :: "string \<Rightarrow> string" where
  "drop_minus s = (case s of c # cs \<Rightarrow> if c = CHR ''-'' then cs else s | [] \<Rightarrow> [])"

definition is_sum :: "string \<Rightarrow> bool" where
  "is_sum s \<longleftrightarrow>
     (let u = dropWhile (\<lambda>c. c = CHR '' '') (dropWhile is_digit s)
      in takeWhile is_digit s \<noteq> [] \<and> u \<noteq> [] \<and> hd u \<in> {CHR ''+'', CHR ''-''} \<and>
         (let t = dropWhile (\<lambda>c. c = CHR '' '') (tl u) in t \<noteq> [] \<and> list_all is_digit t))"

definition is_immediate_text :: "string \<Rightarrow> bool" where
  "is_immediate_text s \<longleftrightarrow>
     (let t = drop_minus s in
      (t \<noteq> [] \<and> list_all is_digit t) \<or>
      (starts_with t ''0x'' \<and> drop 2 t \<noteq> [] \<and> list_all is_hex_digit (drop 2 t)) \<or>
      (starts_with t ''0b'' \<and> drop 2 t \<noteq> [] \<and> list_all (\<lambda>c. c \<in> {CHR ''0'', CHR ''1''}) (drop 2 t)) \<or>
      is_sum t)"

text \<open>
  One operand against its specification: \<open>Some True\<close> goes on with the next operand, \<open>Some False\<close> stops
  without a match, \<open>None\<close> is the last branch, which records the mismatch but goes on.
\<close>

definition match_operand ::
    "(nat, string list) dict \<Rightarrow> nat \<Rightarrow> operand_spec \<Rightarrow> string \<Rightarrow> bool option res" where
  "match_operand registers li op_spec op_raw =
     res_bind (py_nth op_raw 0) (\<lambda>c.
     if c = CHR ''.'' then Inr (Some (os_type op_spec = OT_LABEL))
     else if CHR ''['' \<in> set op_raw then
       if os_type op_spec \<notin> {OT_AGEN, OT_MEM} then Inr (Some False)
       else res_bind (py_nth (split_words [] op_raw) 0) (\<lambda>access_size.
         res_bind (parser_assert (access_size \<in> fst ` set memory_sizes) li) (\<lambda>_.
         res_bind (dict_get memory_sizes access_size) (\<lambda>w. Inr (Some (os_width op_spec = w)))))
     else if is_immediate_text op_raw then Inr (Some (os_type op_spec = OT_IMM))
     else if os_type op_spec = OT_REG then
       res_bind (dict_get registers (os_width op_spec)) (\<lambda>rs. Inr (Some (upper op_raw \<in> set rs)))
     else Inr None)"

fun match_operands ::
    "(nat, string list) dict \<Rightarrow> nat \<Rightarrow> bool \<Rightarrow> (operand_spec \<times> string) list \<Rightarrow> bool res" where
  "match_operands registers li b [] = Inr b"
| "match_operands registers li b ((op_spec, op_raw) # rest) =
     res_bind (match_operand registers li op_spec op_raw) (\<lambda>v.
       case v of
         Some True \<Rightarrow> match_operands registers li b rest
       | Some False \<Rightarrow> Inr False
       | None \<Rightarrow> match_operands registers li False rest)"

definition matching_specs ::
    "(nat, string list) dict \<Rightarrow> nat \<Rightarrow> instruction_spec list \<Rightarrow> string list \<Rightarrow> instruction_spec list res" where
  "matching_specs registers li specs operands_raw =
     res_fold (\<lambda>spec acc.
       if length (is_operands spec) \<noteq> length operands_raw then Inr acc
       else res_bind (match_operands registers li True (zip (is_operands spec) operands_raw)) (\<lambda>b.
         Inr (if b then acc @ [spec] else acc))) specs []"

text \<open>The text between the first opening and the last closing bracket.\<close>

definition bracketed :: "string \<Rightarrow> string option" where
  "bracketed s = (case dropWhile (\<lambda>c. c \<noteq> CHR ''['') s of [] \<Rightarrow> None | c # t \<Rightarrow> before_last (CHR '']'') t)"

definition parse_operand :: "nat \<Rightarrow> bool \<Rightarrow> operand_spec \<Rightarrow> string \<Rightarrow> operand res" where
  "parse_operand li control_flow op_spec op_raw =
     (case os_type op_spec of
        OT_REG \<Rightarrow> Inr (new_RegisterOperand op_raw (os_width op_spec) (os_src op_spec) (os_dest op_spec))
      | OT_MEM \<Rightarrow> (case bracketed op_raw of
          None \<Rightarrow> Inl (AsmParserException li)
        | Some address \<Rightarrow> Inr (new_MemoryOperand address (os_width op_spec) (os_src op_spec) (os_dest op_spec)))
      | OT_IMM \<Rightarrow> Inr (new_ImmediateOperand op_raw (os_width op_spec))
      | OT_LABEL \<Rightarrow> res_bind (py_assert control_flow) (\<lambda>_. Inr (LabelOperand op_raw))
      | _ \<Rightarrow> Inr (new_AgenOperand op_raw (os_width op_spec)))"

definition is_protect_prefix :: "string \<Rightarrow> bool" where
  "is_protect_prefix line \<longleftrightarrow>
     (let s = dropWhile is_space line; t = drop 5 s
      in starts_with s ''.byte'' \<and> t \<noteq> [] \<and> is_space (hd t) \<and> starts_with (dropWhile is_space t) ''0x36'')"

definition operands_of_line :: "string \<Rightarrow> string \<Rightarrow> string list" where
  "operands_of_line name line =
     (let line = (case before_last (CHR ''#'') line of Some l \<Rightarrow> strip l | None \<Rightarrow> line);
          operands_raw = split_at (CHR '','') (remove_prefix line name)
      in if operands_raw = [''''] then [] else map strip operands_raw)"

definition parse_instruction ::
    "gen_conf \<Rightarrow> string \<Rightarrow> nat \<Rightarrow> instruction_map \<Rightarrow> instruction rg" where
  "parse_instruction conf line li m =
     (if is_protect_prefix line then rg_return (new_instruction ''.byte 0x36'' False '''' False)
      else let (specs, name) = find_specs m '''' (split_words [] line) in
        if specs = [] then rg_raise (AsmParserException li)
        else let operands_raw = operands_of_line name line in
          rg_bind (rg_lift (matching_specs (filtered_decoding conf) li specs operands_raw)) (\<lambda>matching.
          rg_bind (rg_lift (parser_assert (matching \<noteq> []) li)) (\<lambda>_.
          let magic = filter is_has_magic_value matching;
              matching = (if 1 < length matching \<and> magic \<noteq> [] then magic else matching);
              spec = hd matching
          in rg_bind (rg_lift (res_map (\<lambda>(op_spec, op_raw). parse_operand li (is_control_flow spec) op_spec op_raw)
                 (zip (is_operands spec) operands_raw))) (\<lambda>ops.
             rg_fold (add_generated conf True) (is_implicit_operands spec)
               ((from_spec spec (ends_with line ''# instrumentation''))\<lparr>i_operands := ops\<rparr>)))))"

subsection \<open>Parsing a test case\<close>

text \<open>The first pass collects functions and blocks; the current function is the last of the list.\<close>

record parse_state =
  ps_functions :: "tfunc list"
  ps_started :: bool
  ps_num_prologue :: nat

definition insert_block :: "bblock \<Rightarrow> tfunc list \<Rightarrow> tfunc list" where
  "insert_block bb fs = butlast fs @ [(last fs)\<lparr>tf_blocks := tf_blocks (last fs) @ [bb]\<rparr>]"

definition is_trivial :: "string \<Rightarrow> bool" where
  "is_trivial line \<longleftrightarrow> line = [] \<or> hd line \<in> {CHR ''#'', CHR ''/''}"

definition collect_label :: "string \<Rightarrow> parse_state \<Rightarrow> parse_state" where
  "collect_label line s =
     (let name = butlast line in
      if starts_with line ''.function_'' then
        if name = ''.function_main'' then s
        else s\<lparr>ps_functions := ps_functions s @ [new_tfunc name]\<rparr>
      else if ends_with name ''entry'' \<or> ends_with name ''exit'' then s
      else s\<lparr>ps_functions := insert_block (new_bblock name) (ps_functions s)\<rparr>)"

fun collect_lines :: "string list \<Rightarrow> parse_state \<Rightarrow> parse_state" where
  "collect_lines [] s = s"
| "collect_lines (l # ls) s =
     (let line = strip l in
      if is_trivial line then collect_lines ls s
      else if \<not> ps_started s then
        collect_lines ls (s\<lparr>ps_started := (line = ''.test_case_enter:''),
          ps_num_prologue := ps_num_prologue s + (if hd line \<noteq> CHR ''.'' then 1 else 0)\<rparr>)
      else if line = ''.test_case_exit:'' then s
      else if hd line \<noteq> CHR ''.'' \<or> starts_with (tl line) ''byte'' then collect_lines ls s
      else collect_lines ls (collect_label line s))"

text \<open>
  A block is named by the index of its function and its index in \<open>tf_all\<close>; \<open>bb_names\<close> maps
  the name of a block to it, a later block replacing an earlier one of the same name.
\<close>

type_synonym bb_ref = "nat \<times> nat"

definition bb_names :: "tfunc list \<Rightarrow> (string, bb_ref) dict" where
  "bb_names fs = fold (\<lambda>(k, f) d. fold (\<lambda>(j, bb) d. AList.update (bk_name bb) (k, j) d) (enumerate 0 (tf_all f)) d)
     (enumerate 0 fs) []"

definition update_all :: "nat \<Rightarrow> (bblock \<Rightarrow> bblock) \<Rightarrow> tfunc \<Rightarrow> tfunc" where
  "update_all j g f =
     (if j = 0 then f\<lparr>tf_entry := g (tf_entry f)\<rparr>
      else if j = Suc (length (tf_blocks f)) then f\<lparr>tf_exit := g (tf_exit f)\<rparr>
      else f\<lparr>tf_blocks := (tf_blocks f)[j - 1 := g (tf_blocks f ! (j - 1))]\<rparr>)"

definition update_bb :: "bb_ref \<Rightarrow> (bblock \<Rightarrow> bblock) \<Rightarrow> tfunc list \<Rightarrow> tfunc list" where
  "update_bb r g fs = fs[fst r := update_all (snd r) g (fs ! fst r)]"

definition place_instruction ::
    "nat \<Rightarrow> instruction \<Rightarrow> bb_ref \<Rightarrow> bool \<Rightarrow> tfunc list \<Rightarrow> (bool \<times> tfunc list) res" where
  "place_instruction li inst current_bb terminators_started fs =
     (if i_control_flow inst \<and> i_category inst \<noteq> ''BASE-CALL''
      then Inr (True, update_bb current_bb (\<lambda>bb. bb\<lparr>bk_terminators := bk_terminators bb @ [inst]\<rparr>) fs)
      else res_bind (parser_assert (\<not> terminators_started) li) (\<lambda>_.
        Inr (terminators_started, update_bb current_bb (\<lambda>bb. bb\<lparr>bk_body := bk_body bb @ [inst]\<rparr>) fs)))"

fun parse_lines ::
    "gen_conf \<Rightarrow> instruction_map \<Rightarrow> (string, bb_ref) dict \<Rightarrow> nat \<Rightarrow> string list \<Rightarrow> bool \<Rightarrow> bb_ref \<Rightarrow> bool \<Rightarrow>
     tfunc list \<Rightarrow> tfunc list rg" where
  "parse_lines conf m names i [] started cur ts fs = rg_return fs"
| "parse_lines conf m names i (l # ls) started cur ts fs =
     (let line = strip l in
      if \<not> started then parse_lines conf m names (Suc i) ls (line = ''.test_case_enter:'') cur ts fs
      else if line = ''.test_case_exit:'' then rg_return fs
      else if is_trivial line then parse_lines conf m names (Suc i) ls started cur ts fs
      else if starts_with line ''.function_'' then
        rg_bind (rg_lift (dict_get names (''.bb_'' @ dropWhile (\<lambda>c. c \<in> set ''.function_'') (butlast line) @ ''.entry'')))
          (\<lambda>cur. parse_lines conf m names (Suc i) ls started cur False fs)
      else if starts_with line ''.'' \<and> \<not> starts_with line ''.byte'' then
        rg_bind (rg_lift (dict_get names (butlast line)))
          (\<lambda>cur. parse_lines conf m names (Suc i) ls started cur False fs)
      else rg_bind (parse_instruction conf line i m) (\<lambda>inst.
        rg_bind (rg_lift (place_instruction i inst cur ts fs)) (\<lambda>(ts, fs).
        parse_lines conf m names (Suc i) ls started cur ts fs)))"

text \<open>
  The blocks are connected in their order: a fall-through from the previous block unless its
  last terminator is a direct jump, and the labels of the own terminators.
\<close>

definition add_successor :: "bb_ref \<Rightarrow> string \<Rightarrow> tfunc list \<Rightarrow> tfunc list" where
  "add_successor r name fs = update_bb r (\<lambda>bb. bb\<lparr>bk_successors := bk_successors bb @ [name]\<rparr>) fs"

definition falls_through :: "bblock \<Rightarrow> bool" where
  "falls_through bb \<longleftrightarrow> bk_terminators bb = [] \<or> i_category (last (bk_terminators bb)) \<noteq> ''BASE-UNCOND_BR''"

definition connect_step ::
    "(string, bb_ref) dict \<Rightarrow> bb_ref \<times> bblock \<Rightarrow> (bb_ref \<times> bblock) option \<times> tfunc list \<Rightarrow>
     ((bb_ref \<times> bblock) option \<times> tfunc list) res" where
  "connect_step names = (\<lambda>(ref, bb) (prev, fs).
     let fs = (case prev of
                 Some (pref, pbb) \<Rightarrow> if falls_through pbb then add_successor pref (bk_name bb) fs else fs
               | None \<Rightarrow> fs)
     in res_bind (res_fold (\<lambda>label fs.
          res_bind (dict_get names label) (\<lambda>_. Inr (add_successor ref label fs)))
          (concat (map labels_of (bk_terminators bb))) fs) (\<lambda>fs.
        Inr (Some (ref, bb), fs)))"

definition all_blocks :: "tfunc list \<Rightarrow> (bb_ref \<times> bblock) list" where
  "all_blocks fs = concat (map (\<lambda>(k, f). map (\<lambda>(j, bb). ((k, j), bb)) (enumerate 0 (tf_all f))) (enumerate 0 fs))"

definition parse_existing_test_case ::
    "gen_conf \<Rightarrow> instruction_set \<Rightarrow> (string list \<Rightarrow> nat list) \<Rightarrow> string list \<Rightarrow> test_case rg" where
  "parse_existing_test_case conf is assemble file =
     (let s = collect_lines file \<lparr>ps_functions = [new_tfunc ''.function_main''], ps_started = False, ps_num_prologue = 0\<rparr>;
          names = bb_names (ps_functions s)
      in rg_bind (rg_lift (parser_assert (ps_started s) 0)) (\<lambda>_.
         rg_bind (parse_lines conf (build_instruction_map is) names 0 file False (0, 0) False (ps_functions s)) (\<lambda>fs.
         rg_bind (rg_lift (res_fold (connect_step names) (all_blocks fs) (None, fs))) (\<lambda>(_, fs).
         rg_lift (map_addresses (new_test_case\<lparr>tc_functions := fs, tc_num_prologue_instructions := ps_num_prologue s\<rparr>)
           (assemble file))))))"

subsection \<open>Facts on texts\<close>

definition register_name_ok :: "string \<Rightarrow> bool" where
  "register_name_ok v \<longleftrightarrow> v \<noteq> [] \<and> hd v \<noteq> CHR ''.'' \<and> CHR ''['' \<notin> set v \<and> \<not> is_immediate_text v \<and> upper v = v"

lemma x86_register_names_ok: "list_all (\<lambda>(w, rs). list_all register_name_ok rs) x86_registers"
  by code_simp

lemma filtered_register:
  assumes "dict_get (filtered_decoding conf) w = Inr rs" and "v \<in> set rs"
  shows "register_name_ok v"
proof -
  from assms(1) obtain us where "(w, us) \<in> set x86_registers" "set rs \<subseteq> set us"
    by (auto simp: dict_get_def filtered_decoding_def split: option.splits dest!: map_of_SomeD)
  with assms(2) x86_register_names_ok show ?thesis by (fastforce simp: list_all_iff)
qed

lemma before_last_snoc [simp]: "before_last c (v @ [c]) = Some v"
  by (simp add: before_last_def)

lemma bracketed_text: "CHR ''['' \<notin> set p \<Longrightarrow> bracketed (p @ '' ['' @ v @ '']'') = Some v"
  by (simp add: bracketed_def dropWhile_append)

lemma split_words_word: "list_all (\<lambda>c. \<not> is_space c) w \<Longrightarrow> w \<noteq> [] \<or> u \<noteq> [] \<Longrightarrow>
    split_words u (w @ CHR '' '' # s) = (rev u @ w) # split_words [] s"
proof (induction w arbitrary: u)
  case Nil
  then show ?case by (simp add: is_space_def)
next
  case (Cons c w)
  then show ?case by simp
qed

lemma split_words_mem: "list_all (\<lambda>c. \<not> is_space c) w \<Longrightarrow> w \<noteq> [] \<Longrightarrow>
    split_words [] (w @ '' ptr ['' @ v @ '']'') = w # split_words [] (''ptr ['' @ v @ '']'')"
  using split_words_word [of w "[]" "''ptr ['' @ v @ '']''"] by simp

lemma int_str_text:
  "int_str i \<noteq> []" "hd (int_str i) \<noteq> CHR ''.''" "CHR ''['' \<notin> set (int_str i)" "is_immediate_text (int_str i)"
  "lower (int_str i) = int_str i"
proof -
  have d: "is_digit c" "c \<noteq> CHR ''.''" "c \<noteq> CHR ''[''" "c \<noteq> CHR ''-''" "lower_char c = c" if "c \<in> set (nat_str n)" for c n
    using nat_str_digits [OF that] by (auto simp: is_digit_def lower_char_def of_char_def)
  have n: "hd (nat_str n) \<in> set (nat_str n)" for n by simp
  have "drop_minus (int_str i) = nat_str (nat (abs i))"
  proof (cases "i < 0")
    case False
    obtain c cs where c: "nat_str (nat i) = c # cs" by (cases "nat_str (nat i)") simp_all
    then have "c \<noteq> CHR ''-''" using d(4) [of c "nat i"] by simp
    with False c show ?thesis by (simp add: int_str_def drop_minus_def)
  qed (simp add: int_str_def drop_minus_def)
  then show "is_immediate_text (int_str i)"
    using d(1) by (simp add: is_immediate_text_def list_all_iff)
  show "int_str i \<noteq> []" by (simp add: int_str_def)
  show "hd (int_str i) \<noteq> CHR ''.''" using d(2) [OF n] by (simp add: int_str_def)
  show "CHR ''['' \<notin> set (int_str i)" using d(3) by (auto simp: int_str_def)
  show "lower (int_str i) = int_str i"
    using d(5) by (auto simp: int_str_def lower_def map_idI) (simp add: lower_char_def)
qed

text \<open>An operand that the generator can produce for a specification (address computations excepted).\<close>

definition printable :: "gen_conf \<Rightarrow> operand_spec \<Rightarrow> operand \<Rightarrow> bool" where
  "printable conf spec op \<longleftrightarrow> op_type op = os_type spec \<and>
     (case op of
        RegisterOperand v w s d \<Rightarrow> w = os_width spec \<and> s = os_src spec \<and> d = os_dest spec \<and>
          (\<exists>rs. dict_get (filtered_decoding conf) w = Inr rs \<and> v \<in> set rs)
      | MemoryOperand v w s d \<Rightarrow> w = os_width spec \<and> s = os_src spec \<and> d = os_dest spec \<and> w \<in> {8, 16, 32, 64} \<and> upper v = v
      | ImmediateOperand v w \<Rightarrow> w = os_width spec \<and> (\<exists>i. v = int_str i)
      | LabelOperand v \<Rightarrow> starts_with v ''.''
      | _ \<Rightarrow> False)"

lemma printed_memory:
  assumes "w \<in> {8, 16, 32, 64}"
  obtains sz where "dict_get memory_prefixes w = Inr (sz @ '' ptr'')" and "dict_get memory_sizes sz = Inr w"
    and "sz \<in> fst ` set memory_sizes" and "list_all (\<lambda>c. \<not> is_space c) sz" and "sz \<noteq> []"
    and "hd sz \<noteq> CHR ''.''" and "CHR ''['' \<notin> set (sz @ '' ptr'')"
proof -
  have "w = 8 \<or> w = 16 \<or> w = 32 \<or> w = 64" using assms by simp
  then show thesis
    by (elim disjE; intro that [of "fst (hd (filter (\<lambda>e. snd e = w) memory_sizes))"])
      (simp_all add: memory_prefixes_def memory_sizes_def dict_get_def is_space_def)
qed

lemma match_printed_memory:
  assumes "w \<in> {8, 16, 32, 64}" and "os_type spec = OT_MEM" and "os_width spec = w"
    and "operand_to_str (MemoryOperand v w s d) = Inr text"
  shows "match_operand regs li spec text = Inr (Some True) \<and> bracketed text = Some v"
proof -
  obtain sz where sz: "dict_get memory_prefixes w = Inr (sz @ '' ptr'')" "dict_get memory_sizes sz = Inr w"
    "sz \<in> fst ` set memory_sizes" "list_all (\<lambda>c. \<not> is_space c) sz" "sz \<noteq> []"
    "hd sz \<noteq> CHR ''.''" "CHR ''['' \<notin> set (sz @ '' ptr'')" by (rule printed_memory [OF assms(1)])
  have t: "text = (sz @ '' ptr'') @ '' ['' @ v @ '']''" using assms(4) sz(1) by (simp add: operand_to_str_def)
  have "py_nth text 0 = Inr (hd sz)" using sz(5) t by (cases sz) simp_all
  moreover have "split_words [] text = sz # split_words [] (''ptr ['' @ v @ '']'')"
    using split_words_mem [OF sz(4,5)] t by simp
  moreover have "CHR ''['' \<in> set text" using t by simp
  ultimately have "match_operand regs li spec text = Inr (Some True)"
    using sz(2,3,6) assms(2,3) by (simp add: match_operand_def parser_assert_def)
  moreover have "bracketed text = Some v" unfolding t by (rule bracketed_text [OF sz(7)])
  ultimately show ?thesis by simp
qed

subsection \<open>Properties\<close>

text \<open>
  C35. Printed operands parse back: what the printer writes for a register, memory, immediate or
  label operand of a specification is accepted for that specification by the parser's
  matching, and parsed to the very operand (address, width and access modes included).
\<close>

theorem printed_operand_parses:
  assumes "printable conf spec op" and "is_control_flow_spec \<or> os_type spec \<noteq> OT_LABEL"
  shows "\<exists>text. operand_to_str op = Inr text \<and>
    match_operand (filtered_decoding conf) li spec text = Inr (Some True) \<and>
    parse_operand li is_control_flow_spec spec text = Inr op"
proof (cases op)
  case (RegisterOperand v w s d)
  have p: "os_type spec = OT_REG" "os_width spec = w" "os_src spec = s" "os_dest spec = d"
    "\<exists>rs. dict_get (filtered_decoding conf) w = Inr rs \<and> v \<in> set rs"
    using assms(1) unfolding RegisterOperand printable_def op_type.simps operand.case by metis+
  then obtain rs where rs: "dict_get (filtered_decoding conf) w = Inr rs" "v \<in> set rs" by blast
  note rs = rs p(2,1,3,4)
  note ok = filtered_register [OF rs(1,2), unfolded register_name_ok_def]
  from ok obtain c cs where v: "v = c # cs" "c \<noteq> CHR ''.''" by (cases v) auto
  have "match_operand (filtered_decoding conf) li spec v = Inr (Some True)"
    using ok v rs by (simp add: match_operand_def)
  moreover have "operand_to_str op = Inr v" by (simp add: RegisterOperand operand_to_str_def)
  moreover have "parse_operand li is_control_flow_spec spec v = Inr op"
    using ok rs by (simp add: RegisterOperand parse_operand_def new_RegisterOperand_def)
  ultimately show ?thesis by blast
next
  case (MemoryOperand v w s d)
  then have m: "w \<in> {8, 16, 32, 64}" "os_type spec = OT_MEM" "os_width spec = w" "upper v = v"
    "os_src spec = s" "os_dest spec = d"
    using assms(1) by (auto simp: printable_def)
  obtain sz where "dict_get memory_prefixes w = Inr (sz @ '' ptr'')" by (rule printed_memory [OF m(1)])
  then obtain tx where tx: "operand_to_str (MemoryOperand v w s d) = Inr tx"
    by (simp add: operand_to_str_def)
  from match_printed_memory [OF m(1-3) tx] tx m MemoryOperand show ?thesis
    by (auto simp: parse_operand_def new_MemoryOperand_def)
next
  case (ImmediateOperand v w)
  with assms(1) obtain i where i: "v = int_str i" "os_width spec = w" "os_type spec = OT_IMM"
    by (auto simp: printable_def)
  have "py_nth (int_str i) 0 = Inr (hd (int_str i))" using int_str_text(1) [of i] by (simp add: hd_conv_nth)
  then have "match_operand (filtered_decoding conf) li spec v = Inr (Some True)"
    using int_str_text(2-4) [of i] i by (simp add: match_operand_def)
  moreover have "operand_to_str op = Inr v" by (simp add: ImmediateOperand operand_to_str_def)
  moreover have "parse_operand li is_control_flow_spec spec v = Inr op"
    using i int_str_text(5) [of i] by (simp add: ImmediateOperand parse_operand_def new_ImmediateOperand_def)
  ultimately show ?thesis by blast
next
  case (LabelOperand v)
  with assms show ?thesis
    by (cases v) (auto simp: printable_def operand_to_str_def match_operand_def parse_operand_def py_assert_def)
qed (use assms(1) in \<open>simp_all add: printable_def\<close>)

theorem printed_operand_parses_witness:
  "let spec = (new_operand_spec [] OT_MEM True False)\<lparr>os_width := 64\<rparr>; op = MemoryOperand ''R14 + RAX'' 64 True False
   in \<exists>text. operand_to_str op = Inr text \<and> parse_operand 0 False spec text = Inr op"
  using printed_operand_parses [of ex_conf "(new_operand_spec [] OT_MEM True False)\<lparr>os_width := 64\<rparr>"
    "MemoryOperand ''R14 + RAX'' 64 True False" False 0]
  by (auto simp: printable_def new_operand_spec_def upper_def upper_char_def)

lemma map_addresses_loop:
  assumes "counter + length insts \<le> length addrs"
  shows "res_fold (\<lambda>inst (m, counter). res_bind (py_nth addrs counter) (\<lambda>address.
      Inr (AList.update address inst m, counter + 1))) insts (m, counter) =
    Inr (fold (\<lambda>(a, i) m. AList.update a i m) (zip (drop counter addrs) insts) m, counter + length insts)"
  using assms
proof (induction insts arbitrary: m counter)
  case (Cons i insts)
  then have "drop counter addrs = addrs ! counter # drop (Suc counter) addrs"
    by (intro Cons_nth_drop_Suc [symmetric]) simp
  with Cons show ?case by simp
qed simp

lemma map_of_fold_pairs:
  "distinct (map fst ps) \<Longrightarrow>
   map_of (fold (\<lambda>(a, i) m. AList.update a i m) ps m) x = (case map_of ps x of Some i \<Rightarrow> Some i | None \<Rightarrow> map_of m x)"
proof (induction ps arbitrary: m)
  case (Cons p ps)
  have "map_of ps (fst p) = None" using Cons.prems by (simp add: map_of_eq_None_iff)
  with Cons show ?case by (cases p) (auto split: option.split)
qed simp

lemma map_of_fold_unmapped:
  "map_of (fold (\<lambda>a m. if a \<in> fst ` set m then m else AList.update a u m) addrs m) x =
   (case map_of m x of Some i \<Rightarrow> Some i | None \<Rightarrow> if x \<in> set addrs then Some u else None)"
proof (induction addrs arbitrary: m)
  case (Cons a addrs)
  have "a \<in> fst ` set m \<longleftrightarrow> map_of m a \<noteq> None" by (metis map_of_eq_None_iff)
  with Cons show ?case by (auto split: option.split)
qed (simp split: option.split)

lemma map_addresses_loop_short:
  assumes "length addrs < counter + length insts" and "insts \<noteq> []"
  shows "res_fold (\<lambda>inst (m, counter). res_bind (py_nth addrs counter) (\<lambda>address.
      Inr (AList.update address inst m, counter + 1))) insts (m, counter) = Inl IndexError"
  using assms
proof (induction insts arbitrary: m counter)
  case (Cons i insts)
  then show ?case by (cases "counter < length addrs"; cases insts) auto
qed simp

text \<open>
  The address map is complete and in order: with distinct addresses and enough of them,
  \<open>map_addresses\<close> maps the \<open>k\<close>-th instruction of the test case (protection prefixes left out) to the
  address \<open>k\<close> places after the prologue, every other address to a dummy instruction, and
  no other address at all; with too few addresses it raises \<open>IndexError\<close>.
\<close>

lemma map_addresses_complete:
  assumes "distinct addrs" and "addrs \<noteq> []" and "insts = real_instructions tc" and "insts \<noteq> []"
    and "n = tc_num_prologue_instructions tc"
  shows "if n + length insts \<le> length addrs
    then \<exists>tc'. map_addresses tc addrs = Inr tc' \<and> tc_last_address tc' = last addrs \<and>
      (\<forall>k < length insts. map_of (tc_address_map tc') (addrs ! (n + k)) = Some (insts ! k)) \<and>
      (\<forall>a. (\<forall>k < length insts. a \<noteq> addrs ! (n + k)) \<longrightarrow> map_of (tc_address_map tc') a =
         (if a \<in> set addrs then Some (new_instruction ''UNMAPPED'' True '''' False) else None))
    else map_addresses tc addrs = Inl IndexError"
proof (cases "n + length insts \<le> length addrs")
  case True
  let ?ps = "zip (drop n addrs) insts"
  have fst_ps: "map fst ?ps = take (length insts) (drop n addrs)"
    using True by (simp add: map_fst_zip_take min_def)
  have d: "distinct (map fst ?ps)" unfolding fst_ps using assms(1) by (simp add: distinct_take distinct_drop)
  have l: "length ?ps = length insts" using True by simp
  have at: "map_of ?ps (addrs ! (n + k)) = Some (insts ! k)" if "k < length insts" for k
    using map_of_eq_Some_iff [OF d, of "addrs ! (n + k)" "insts ! k"] that True
    by (auto simp: set_zip intro!: exI [of _ k])
  have other: "map_of ?ps a = None" if "\<forall>k < length insts. a \<noteq> addrs ! (n + k)" for a
    using that True by (auto simp: map_of_eq_None_iff set_zip)
  have last: "py_index addrs (-1) = Inr (last addrs)"
    using assms(2) by (simp add: py_index_def last_conv_nth nat_diff_distrib')
  define m where "m = fold (\<lambda>address m. if address \<in> fst ` set m then m
      else AList.update address (new_instruction ''UNMAPPED'' True '''' False) m) addrs
    (fold (\<lambda>(a, i) m. AList.update a i m) ?ps [])"
  have m: "map_of m a = (case map_of ?ps a of Some i \<Rightarrow> Some i
      | None \<Rightarrow> if a \<in> set addrs then Some (new_instruction ''UNMAPPED'' True '''' False) else None)" for a
    unfolding m_def map_of_fold_unmapped map_of_fold_pairs [OF d] by (simp split: option.split)
  have "map_addresses tc addrs = Inr (tc\<lparr>tc_last_address := last addrs, tc_address_map := m\<rparr>)"
    using True assms(3,5) map_addresses_loop [of n insts addrs "[]"] last
    by (simp add: map_addresses_def m_def)
  with True m at other show ?thesis by auto
next
  case False
  with map_addresses_loop_short [of addrs n insts "[]"] assms(3-5) show ?thesis
    by (simp add: map_addresses_def)
qed

definition ex_test_case :: test_case where
  "ex_test_case = new_test_case\<lparr>tc_num_prologue_instructions := 1,
     tc_functions := [(new_tfunc ''.function_main'')\<lparr>tf_blocks :=
       [(new_bblock ''.bb_main.0'')\<lparr>bk_body := [ex_shl, ex_div_mem]\<rparr>]\<rparr>]\<rparr>"

lemma map_addresses_complete_example:
  "\<exists>tc'. map_addresses ex_test_case [0, 4, 7] = Inr tc' \<and> map_of (tc_address_map tc') 7 = Some ex_div_mem"
proof -
  have r: "real_instructions ex_test_case = [ex_shl, ex_div_mem]" "tc_num_prologue_instructions ex_test_case = 1"
    by (simp_all add: real_instructions_def ex_test_case_def tf_all_def new_tfunc_def new_bblock_def ex_shl_def
        ex_div_mem_def new_instruction_def)
  from map_addresses_complete [of "[0, 4, 7]" "[ex_shl, ex_div_mem]" ex_test_case 1] show ?thesis
    unfolding r by (auto simp: nth_Cons' dest: spec [of _ "1 :: nat"])
qed

end
