(* ===== verification/Fuzzer.thy ===== *)
theory Fuzzer
  imports Analyser Input_Gen
begin

text \<open>
  The fuzzing loop of \<^verbatim>\<open>src/src/fuzzer.py\<close>: boosting of inputs, one fuzzing round with its
  retry at higher nesting, the priming of violations, the construction of primers and the
  outer loop over test cases. The fuzzer calls the generator, the model, the executor and
  the coverage object through the abstract classes of \<^verbatim>\<open>src/src/interfaces.py\<close>; here they are the
  functions of a record \<open>fuzz_env\<close> over one joint state \<open>'s\<close>, while the analyser is the
  definition of theory \<open>Analyser\<close>. Reports and copies of files are left out.
\<close>

subsection \<open>The fuzzer's surroundings\<close>

text \<open>\<open>fe_timeout\<close> reads the clock: whether the time limit is exceeded at this moment.\<close>

record ('i, 't, 's) fuzz_env =
  fe_prepare :: "nat \<Rightarrow> 's \<Rightarrow> ('i list \<times> 's) res"
  fe_load_test_case :: "'s \<Rightarrow> 's res"
  fe_get_taints :: "'i list \<Rightarrow> nat \<Rightarrow> 's \<Rightarrow> ('t list \<times> 's) res"
  fe_extend :: "'i list \<Rightarrow> 't list \<Rightarrow> 'i list res"
  fe_model_trace :: "'i list \<Rightarrow> nat \<Rightarrow> 's \<Rightarrow> (int list \<times> 's) res"
  fe_executor_trace :: "'i list \<Rightarrow> int \<Rightarrow> 's \<Rightarrow> (int list \<times> 's) res"
  fe_trace_priming :: "'i \<Rightarrow> int \<Rightarrow> bool \<Rightarrow> 's \<Rightarrow> (int \<times> 's) res"
  fe_bugged :: "'s \<Rightarrow> bool"
  fe_start_priming :: "'s \<Rightarrow> 's"
  fe_stop_priming :: "'s \<Rightarrow> 's"
  fe_analyser_hook :: "'i equivalence_class list \<Rightarrow> 's \<Rightarrow> 's res"
  fe_timeout :: "'s \<Rightarrow> bool \<times> 's"

record fuzz_conf =
  fc_model_max_nesting :: nat
  fc_inputs_per_class :: int
  fc_existing_test_case :: bool
  fc_existing_input_case :: bool
  fc_test_case :: string
  fc_contract_execution_clause :: "string list"
  fc_analysis_run :: bool
  fc_no_priming :: bool
  fc_permit_subsets :: bool

subsection \<open>Boosting\<close>

definition boost_inputs ::
    "('i, 't, 's) fuzz_env \<Rightarrow> fuzz_conf \<Rightarrow> 'i list \<Rightarrow> nat \<Rightarrow> 's \<Rightarrow> ('i list \<times> 's) res" where
  "boost_inputs env conf inputs nesting s =
     res_bind (fe_get_taints env inputs nesting s) (\<lambda>(taints, s).
     res_bind (res_fold (\<lambda>_ boosted_inputs.
         res_bind (fe_extend env inputs taints) (\<lambda>new. Inr (boosted_inputs @ new)))
       [0..<nat (fc_inputs_per_class conf - 1)] inputs) (\<lambda>boosted_inputs.
     Inr (boosted_inputs, s)))"

subsection \<open>Priming\<close>

text \<open>
  The inner loop of \<open>survives_priming\<close>: every input \<open>input_id\<close> with another hardware trace takes the
  place of \<open>current_input_id\<close> behind the same predecessors. The loop falls through (\<open>Clean\<close>), is
  left at the time limit (\<open>Expired\<close>, without \<open>stop_priming\<close>) or with the pair of inputs that still differ.
\<close>

datatype 'i priming = Clean | Expired | Survived 'i 'i

fun priming_inner ::
    "('i, 't, 's) fuzz_env \<Rightarrow> bool \<Rightarrow> 'i list \<Rightarrow> int \<Rightarrow> nat \<Rightarrow> nat list \<Rightarrow> 's \<Rightarrow> ('i priming \<times> 's) res" where
  "priming_inner env timeout all_inputs current_htrace current_input_id [] s = Inr (Clean, s)"
| "priming_inner env timeout all_inputs current_htrace current_input_id (input_id # rest) s =
     (let (expired, s) = (if timeout then fe_timeout env s else (False, s)) in
      if expired then Inr (Expired, s)
      else let primer = take (current_input_id + 1) all_inputs in
        res_bind (py_nth all_inputs input_id) (\<lambda>other.
        res_bind (py_nth primer current_input_id) (\<lambda>current.
        res_bind (fe_executor_trace env (primer[current_input_id := other]) (-1) s) (\<lambda>(htraces, s).
        res_bind (py_nth htraces current_input_id) (\<lambda>primed_htrace.
        if primed_htrace = 0 \<or> primed_htrace = current_htrace
        then priming_inner env timeout all_inputs current_htrace current_input_id rest s
        else Inr (Survived current other, fe_stop_priming env s))))))"

fun priming_loop ::
    "('i, 't, 's) fuzz_env \<Rightarrow> bool \<Rightarrow> 'i list \<Rightarrow> 'i measurement list \<Rightarrow> 'i htrace_map \<Rightarrow> 's \<Rightarrow>
     (('i \<times> 'i) option \<times> 's) res" where
  "priming_loop env timeout all_inputs measurements [] s = Inr (None, fe_stop_priming env s)"
| "priming_loop env timeout all_inputs measurements ((current_htrace, ms) # rest) s =
     res_bind (py_index ms (-1)) (\<lambda>m.
     res_bind (priming_inner env timeout all_inputs current_htrace (m_input_id m)
         (map m_input_id (filter (\<lambda>m. m_htrace m \<noteq> current_htrace) measurements)) s) (\<lambda>(result, s).
     case result of
       Survived current other \<Rightarrow> Inr (Some (current, other), s)
     | Expired \<Rightarrow> Inr (None, s)
     | Clean \<Rightarrow> priming_loop env timeout all_inputs measurements rest s))"

definition survives_priming ::
    "('i, 't, 's) fuzz_env \<Rightarrow> bool \<Rightarrow> 'i equivalence_class \<Rightarrow> 'i list \<Rightarrow> 's \<Rightarrow> (('i \<times> 'i) option \<times> 's) res" where
  "survives_priming env timeout violation all_inputs s =
     priming_loop env timeout all_inputs (ec_measurements violation) (ec_htrace_map violation)
       (fe_start_priming env s)"

text \<open>\<open>while violations: violation = violations.pop()\<close>.\<close>

fun prime_violations ::
    "('i, 't, 's) fuzz_env \<Rightarrow> bool \<Rightarrow> 'i equivalence_class list \<Rightarrow> 'i list \<Rightarrow> 's \<Rightarrow>
     ('i equivalence_class option \<times> 's) res" where
  "prime_violations env timeout [] boosted_inputs s = Inr (None, s)"
| "prime_violations env timeout (violation # earlier) boosted_inputs s =
     res_bind (survives_priming env timeout violation boosted_inputs s) (\<lambda>(survives, s).
       case survives of
         Some _ \<Rightarrow> Inr (Some violation, s)
       | None \<Rightarrow> prime_violations env timeout earlier boosted_inputs s)"

subsection \<open>A fuzzing round\<close>

definition measure_inputs ::
    "('i, 't, 's) fuzz_env \<Rightarrow> fuzz_conf \<Rightarrow> int \<Rightarrow> 'i list \<Rightarrow> nat \<Rightarrow> statistics \<Rightarrow> 's \<Rightarrow>
     ('i list \<times> int list \<times> int list \<times> statistics \<times> 's) res" where
  "measure_inputs env conf round inputs nesting st s =
     res_bind (if fc_existing_input_case conf then Inr (inputs, s) else boost_inputs env conf inputs nesting s)
       (\<lambda>(boosted_inputs, s).
     let st = st\<lparr>st_num_inputs := st_num_inputs st + length boosted_inputs\<rparr> in
     res_bind (fe_model_trace env boosted_inputs nesting s) (\<lambda>(ctraces, s).
     res_bind (fe_executor_trace env boosted_inputs round s) (\<lambda>(htraces, s).
     Inr (boosted_inputs, ctraces, htraces, st, s))))"

text \<open>
  The loop over \<open>[1, max_nesting]\<close>. The result is \<open>None\<close> when the round ends without a violation,
  otherwise the violations of the last nesting with the inputs they refer to.
\<close>

fun nesting_loop ::
    "('i, 't, 's) fuzz_env \<Rightarrow> fuzz_conf \<Rightarrow> int \<Rightarrow> 'i list \<Rightarrow> nat list \<Rightarrow> ('i equivalence_class list \<times> 'i list) \<Rightarrow>
     statistics \<Rightarrow> 's \<Rightarrow> (('i equivalence_class list \<times> 'i list) option \<times> statistics \<times> 's) res" where
  "nesting_loop env conf round inputs [] found st s = Inr (Some found, st, s)"
| "nesting_loop env conf round inputs (nesting # rest) found st s =
     res_bind (measure_inputs env conf round inputs nesting st s) (\<lambda>(boosted_inputs, ctraces, htraces, st, s).
     if fe_bugged env s then Inr (None, st, s)
     else if fc_existing_input_case conf \<and> fc_existing_test_case conf then
       res_bind (py_assert (fc_test_case conf \<noteq> [])) (\<lambda>_.
       res_bind (if fc_analysis_run conf then Inr () else res_bind (py_index boosted_inputs (-1)) (\<lambda>_. Inr ()))
         (\<lambda>_. Inr (None, st, s)))
     else res_bind (filter_violations (fe_analyser_hook env) (fc_permit_subsets conf) boosted_inputs ctraces htraces
         True st s) (\<lambda>(st, s, _, violations).
       if violations = [] then Inr (None, st, s)
       else if ''seq'' \<in> set (fc_contract_execution_clause conf) then Inr (Some (violations, boosted_inputs), st, s)
       else nesting_loop env conf round inputs rest (violations, boosted_inputs) st s))"

definition fuzzing_round ::
    "('i, 't, 's) fuzz_env \<Rightarrow> fuzz_conf \<Rightarrow> bool \<Rightarrow> int \<Rightarrow> 'i list \<Rightarrow> statistics \<Rightarrow> 's \<Rightarrow>
     ('i equivalence_class option \<times> statistics \<times> 's) res" where
  "fuzzing_round env conf timeout round inputs st s =
     res_bind (fe_load_test_case env s) (\<lambda>s.
     res_bind (nesting_loop env conf round inputs [1, fc_model_max_nesting conf] ([], []) st s) (\<lambda>(found, st, s).
     case found of
       None \<Rightarrow> Inr (None, st, s)
     | Some (violations, boosted_inputs) \<Rightarrow>
         if fc_no_priming conf
         then res_bind (res_map (\<lambda>violation. py_nth (ec_measurements violation) 1) violations) (\<lambda>_.
           Inr (Some (last violations), st, s))
         else res_bind (prime_violations env timeout (rev violations) boosted_inputs s) (\<lambda>(v, s).
           Inr (v, st\<lparr>st_required_priming := st_required_priming st + 1\<rparr>, s))))"

subsection \<open>The outer loop\<close>

text \<open>The statistics after a round.\<close>

definition count_round :: "'v option \<Rightarrow> statistics \<Rightarrow> statistics" where
  "count_round violation st = st\<lparr>st_test_cases := st_test_cases st + 1,
     st_violations := st_violations st + (if violation = None then 0 else 1)\<rparr>"

text \<open>
  The variable \<open>violation\<close> is first assigned in the loop; with no test case at all the call of
  \<open>fuzzer_finish\<close> after the loop raises (\<open>UnboundLocalError\<close>).
\<close>

fun start_loop ::
    "('i, 't, 's) fuzz_env \<Rightarrow> fuzz_conf \<Rightarrow> bool \<Rightarrow> bool \<Rightarrow> nat list \<Rightarrow> 'i equivalence_class option option \<Rightarrow>
     statistics \<Rightarrow> 's \<Rightarrow> ('i equivalence_class option option \<times> statistics \<times> 's) res" where
  "start_loop env conf timeout nonstop [] found st s = Inr (found, st, s)"
| "start_loop env conf timeout nonstop (i # is) found st s =
     res_bind (fe_prepare env i s) (\<lambda>(inputs, s).
     res_bind (fuzzing_round env conf timeout (int i) inputs st s) (\<lambda>(violation, st, s).
     let st = count_round violation st in
     if violation \<noteq> None \<and> \<not> nonstop then Inr (Some violation, st, s)
     else let (expired, s) = (if timeout then fe_timeout env s else (False, s)) in
       if expired \<or> fc_existing_input_case conf then Inr (Some violation, st, s)
       else start_loop env conf timeout nonstop is (Some violation) st s))"

definition start ::
    "('i, 't, 's) fuzz_env \<Rightarrow> fuzz_conf \<Rightarrow> nat \<Rightarrow> bool \<Rightarrow> bool \<Rightarrow> statistics \<Rightarrow> 's \<Rightarrow>
     ('i equivalence_class option \<times> statistics \<times> 's) res" where
  "start env conf num_test_cases timeout nonstop st s =
     res_bind (start_loop env conf timeout nonstop [0..<num_test_cases] None st s) (\<lambda>(found, st, s).
       case found of None \<Rightarrow> Inl UnboundLocalError | Some violation \<Rightarrow> Inr (violation, st, s))"

subsection \<open>Primers\<close>

text \<open>\<open>primer_is_effective\<close>: the second run is the one that leaves the debug files of the reference input.\<close>

definition primer_is_effective ::
    "('i, 't, 's) fuzz_env \<Rightarrow> 'i \<Rightarrow> 'i \<Rightarrow> int \<Rightarrow> int \<Rightarrow> bool \<Rightarrow> 's \<Rightarrow> (bool \<times> 's) res" where
  "primer_is_effective env test_input ref_input expected_htrace round head_input s =
     res_bind (fe_trace_priming env test_input round head_input s) (\<lambda>(htrace, s).
     if htrace = 0 \<or> htrace = expected_htrace then Inr (False, s)
     else res_bind (fe_trace_priming env ref_input round head_input s) (\<lambda>(_, s). Inr (True, s)))"

text \<open>\<open>inputs[a:]\<close> and \<open>inputs[:b]\<close> with Python's rule for negative bounds.\<close>

definition slice_from :: "'a list \<Rightarrow> int \<Rightarrow> 'a list" where
  "slice_from xs a = drop (nat (if a < 0 then max 0 (int (length xs) + a) else a)) xs"

definition slice_to :: "'a list \<Rightarrow> int \<Rightarrow> 'a list" where
  "slice_to xs b = take (nat (if b < 0 then max 0 (int (length xs) + b) else b)) xs"

definition make_primer :: "'i list \<Rightarrow> int \<Rightarrow> int \<Rightarrow> 'i list" where
  "make_primer inputs target_input_id primer_size =
     (if primer_size \<le> target_input_id
      then slice_from (slice_to inputs (target_input_id + 1)) (target_input_id - primer_size)
      else slice_from inputs (target_input_id - primer_size) @ slice_to inputs (target_input_id + 1))"

text \<open>
  \<open>build_batch_primer\<close> up to its call of \<open>primer_is_effective\<close>, which gets three arguments where
  the method needs seven: Python raises \<open>TypeError\<close> and the rest of the loop is not reached.
\<close>

definition build_batch_primer ::
    "('i \<Rightarrow> nat) \<Rightarrow> nat \<Rightarrow> 'i list \<Rightarrow> nat \<Rightarrow> ('i list \<times> nat list) res" where
  "build_batch_primer seed min_primer_size inputs target_input_id =
     (if inputs = [] then Inl ZeroDivisionError
      else let primer_size = min_primer_size mod length inputs + 1;
               primer = make_primer inputs (int target_input_id) (int primer_size)
        in res_bind (py_assert (length primer = primer_size + 1)) (\<lambda>_.
           res_bind (py_index primer (-1)) (\<lambda>l.
           res_bind (py_nth inputs target_input_id) (\<lambda>target.
           res_bind (py_assert (seed l = seed target)) (\<lambda>_. Inl TypeError)))))"

subsection \<open>Reported classes\<close>

lemma fold_collect:
  "fold (\<lambda>m v. Some ((case v of None \<Rightarrow> [] | Some l \<Rightarrow> l) @ [m])) ms v =
     (if ms = [] then v else Some ((case v of None \<Rightarrow> [] | Some l \<Rightarrow> l) @ ms))"
  by (induction ms arbitrary: v) auto

lemma htrace_map_groups:
  assumes "(h, ms) \<in> set (ec_htrace_map (build_htrace_map c))"
  shows "ms \<noteq> [] \<and> ms = filter (\<lambda>m. m_htrace m = h) (ec_measurements c)"
proof -
  let ?f = "filter (\<lambda>m. m_htrace m = h) (filter (\<lambda>m. m_htrace m \<noteq> 0) (ec_measurements c))"
  have "map_of (ec_htrace_map (build_htrace_map c)) h = Some ms"
    using assms htrace_map_distinct [of c] by simp
  then have "(if ?f = [] then None else Some ?f) = Some ms"
    unfolding build_htrace_map_def fold_htrace_map_step
    by (simp add: map_of_fold_update [where key = m_htrace
          and f = "\<lambda>v m. (case v of None \<Rightarrow> [] | Some l \<Rightarrow> l) @ [m]"] fold_collect del: filter_filter split: if_splits)
  moreover have "h \<noteq> 0" using assms htrace_map_keys [of c] by force
  then have "?f = filter (\<lambda>m. m_htrace m = h) (ec_measurements c)"
    unfolding filter_filter by (intro filter_cong) auto
  ultimately show ?thesis by (simp split: if_splits)
qed

lemma violation_step_reports:
  assumes "violation_step permit c vs = Inr vs'" and "v \<in> set vs'"
  shows "v \<in> set vs \<or> (v = c \<and> 2 \<le> length (ec_htrace_map c))"
  using assms by (auto simp: violation_step_def res_bind_Inr_iff split: if_splits)

text \<open>A class that \<open>filter_violations\<close> reports is one of the classes of the traces, with two valid hardware traces.\<close>

lemma filter_violations_class_of:
  assumes "filter_violations hook permit inputs cts hts stats st cov = Inr (st', cov', table, vs)"
    and "length inputs = length cts" and "length hts = length cts" and "v \<in> set vs"
  obtains c where "v = build_htrace_map (class_of inputs cts hts c)" and "2 \<le> card (class_htraces cts hts c)"
proof -
  obtain st' cls where build: "build_equivalence_classes inputs cts hts stats st = Inr (st', map build_htrace_map cls)"
    and cls: "set cls = class_of inputs cts hts ` {c. 1 < length (group_at inputs cts hts c)}"
    using build_equivalence_classes_closed [OF assms(2,3)] by metis
  from assms(1) build have "res_fold (violation_step permit) (map build_htrace_map cls) [] = Inr vs"
    by (auto simp: filter_violations_def res_bind_Inr_iff)
  then have "\<forall>v \<in> set vs. v \<in> set (map build_htrace_map cls) \<and> 2 \<le> length (ec_htrace_map v)"
    by (rule res_fold_invariant) (auto dest: violation_step_reports)
  with assms(4) have v: "v \<in> set (map build_htrace_map cls)" "2 \<le> length (ec_htrace_map v)" by blast+
  from v(1) cls obtain c where "v = build_htrace_map (class_of inputs cts hts c)" by auto
  with v(2) that show ?thesis by (simp add: htrace_map_length_class_of)
qed

text \<open>Two inputs with the contract trace of \<open>v\<close> and different valid hardware traces.\<close>

definition genuine :: "'i list \<Rightarrow> int list \<Rightarrow> int list \<Rightarrow> 'i equivalence_class \<Rightarrow> bool" where
  "genuine inputs cts hts v \<longleftrightarrow> length cts = length inputs \<and> length hts = length inputs \<and>
     (\<exists>c. v = build_htrace_map (class_of inputs cts hts c) \<and> 2 \<le> card (class_htraces cts hts c))"

lemma genuineD:
  assumes "genuine inputs cts hts v"
  shows "\<exists>i j. i < length inputs \<and> j < length inputs \<and> cts ! i = ec_ctrace v \<and> cts ! j = ec_ctrace v \<and>
    hts ! i \<noteq> 0 \<and> hts ! j \<noteq> 0 \<and> hts ! i \<noteq> hts ! j"
  using assms two_class_htraces [of cts hts "ec_ctrace v"] by (auto simp: genuine_def)

subsection \<open>Priming\<close>

lemma priming_inner_survived:
  assumes "priming_inner env timeout all_inputs h k ids s = Inr (Survived a b, s')"
  shows "\<exists>l \<in> set ids. \<exists>s1 p s2. k < length all_inputs \<and> l < length all_inputs \<and>
    a = all_inputs ! k \<and> b = all_inputs ! l \<and>
    fe_executor_trace env ((take (k + 1) all_inputs)[k := all_inputs ! l]) (-1) s1 = Inr (p, s2) \<and>
    k < length p \<and> p ! k \<noteq> 0 \<and> p ! k \<noteq> h"
  using assms
proof (induction ids arbitrary: s)
  case (Cons l ids)
  then show ?case
    by (auto simp: res_bind_Inr_iff py_nth_def Let_def split: if_splits prod.splits)
qed simp

lemma priming_loop_survived:
  assumes "priming_loop env timeout all_inputs ms hm s = Inr (Some ab, s')"
  shows "\<exists>(h, g) \<in> set hm. \<exists>s1 s2. g \<noteq> [] \<and> priming_inner env timeout all_inputs h (m_input_id (last g))
    (map m_input_id (filter (\<lambda>m. m_htrace m \<noteq> h) ms)) s1 = Inr (Survived (fst ab) (snd ab), s2)"
  using assms
proof (induction hm arbitrary: s)
  case (Cons hg hm)
  obtain h g where hg: "hg = (h, g)" by fastforce
  from Cons.prems hg obtain m r s1 where m: "py_index g (-1) = Inr m"
    and r: "priming_inner env timeout all_inputs h (m_input_id m)
      (map m_input_id (filter (\<lambda>m. m_htrace m \<noteq> h) ms)) s = Inr (r, s1)"
    and rest: "(case r of Survived a b \<Rightarrow> Inr (Some (a, b), s1) | Expired \<Rightarrow> Inr (None, s1)
      | Clean \<Rightarrow> priming_loop env timeout all_inputs ms hm s1) = Inr (Some ab, s')"
    by (auto simp: res_bind_Inr_iff)
  from m have g: "g \<noteq> []" "m = last g"
    by (auto simp: py_index_def Let_def last_conv_nth nat_diff_distrib' split: if_splits)
  show ?case
  proof (cases r)
    case Clean
    with rest Cons.IH [of s1] show ?thesis by auto
  next
    case Expired
    with rest show ?thesis by simp
  next
    case (Survived a b)
    with rest r g hg show ?thesis by auto
  qed
qed simp

lemma class_of_measurement:
  assumes "m \<in> set (group_at inputs cts hts c)"
  shows "m_input_id m < length cts \<and> cts ! m_input_id m = c \<and> m_htrace m = hts ! m_input_id m"
  using assms by (auto simp: group_at_def)

text \<open>Priming that succeeds exhibits two inputs of the class and the run that told them apart.\<close>

definition primed :: "('i, 't, 's) fuzz_env \<Rightarrow> 'i list \<Rightarrow> int list \<Rightarrow> int list \<Rightarrow> int \<Rightarrow> bool" where
  "primed env inputs cts hts c \<longleftrightarrow> (\<exists>k l s1 p s2. k < length inputs \<and> l < length inputs \<and> cts ! k = c \<and> cts ! l = c \<and>
     hts ! k \<noteq> hts ! l \<and>
     fe_executor_trace env ((take (k + 1) inputs)[k := inputs ! l]) (-1) s1 = Inr (p, s2) \<and>
     k < length p \<and> p ! k \<noteq> 0 \<and> p ! k \<noteq> hts ! k)"

lemma survives_priming_primed:
  assumes "survives_priming env timeout v inputs s = Inr (Some ab, s')" and "genuine inputs cts hts v"
  shows "primed env inputs cts hts (ec_ctrace v)"
proof -
  from assms(2) obtain c where v: "v = build_htrace_map (class_of inputs cts hts c)"
    and len: "length cts = length inputs" by (auto simp: genuine_def)
  from priming_loop_survived [OF assms(1) [unfolded survives_priming_def]]
  obtain h g s1 s2 where hg: "(h, g) \<in> set (ec_htrace_map v)" "g \<noteq> []" and
    inner: "priming_inner env timeout inputs h (m_input_id (last g))
      (map m_input_id (filter (\<lambda>m. m_htrace m \<noteq> h) (ec_measurements v))) s1 = Inr (Survived (fst ab) (snd ab), s2)"
    by blast
  let ?k = "m_input_id (last g)"
  have "g = filter (\<lambda>m. m_htrace m = h) (group_at inputs cts hts c)"
    using htrace_map_groups [of h g "class_of inputs cts hts c"] hg(1) v by simp
  with hg(2) have "last g \<in> set (filter (\<lambda>m. m_htrace m = h) (group_at inputs cts hts c))" by (metis last_in_set)
  then have "last g \<in> set (group_at inputs cts hts c)" "m_htrace (last g) = h" by simp_all
  then have k: "?k < length inputs" "cts ! ?k = c" "hts ! ?k = h"
    using class_of_measurement len by fastforce+
  from priming_inner_survived [OF inner] obtain m t1 p t2 where
    m: "m \<in> set (group_at inputs cts hts c)" "m_htrace m \<noteq> h" and
    run: "m_input_id m < length inputs"
      "fe_executor_trace env ((take (?k + 1) inputs)[?k := inputs ! m_input_id m]) (-1) t1 = Inr (p, t2)"
      "?k < length p" "p ! ?k \<noteq> 0" "p ! ?k \<noteq> h"
    by (auto simp: v)
  from class_of_measurement [OF m(1)] m(2) have "cts ! m_input_id m = c" "hts ! m_input_id m \<noteq> h" by auto
  with k run show ?thesis unfolding primed_def v build_htrace_map_simps class_of_simps by metis
qed

lemma prime_violations_primed:
  assumes "prime_violations env timeout vs inputs s = Inr (Some v, s')" and "\<forall>v \<in> set vs. genuine inputs cts hts v"
  shows "v \<in> set vs \<and> primed env inputs cts hts (ec_ctrace v)"
  using assms
proof (induction vs arbitrary: s)
  case (Cons w vs)
  then show ?case
    by (auto simp: res_bind_Inr_iff split: option.splits dest: survives_priming_primed)
qed simp

subsection \<open>A round\<close>

text \<open>The executor and the model return one trace per input.\<close>

definition trace_lengths :: "('i, 't, 's) fuzz_env \<Rightarrow> bool" where
  "trace_lengths env \<longleftrightarrow>
     (\<forall>inputs nesting s cts s'. fe_model_trace env inputs nesting s = Inr (cts, s') \<longrightarrow> length cts = length inputs) \<and>
     (\<forall>inputs round s hts s'. fe_executor_trace env inputs round s = Inr (hts, s') \<longrightarrow> length hts = length inputs)"

text \<open>The traces of \<open>inputs\<close> that a round collects at some nesting.\<close>

definition collected :: "('i, 't, 's) fuzz_env \<Rightarrow> fuzz_conf \<Rightarrow> int \<Rightarrow> 'i list \<Rightarrow> int list \<Rightarrow> int list \<Rightarrow> bool" where
  "collected env conf round inputs cts hts \<longleftrightarrow> (\<exists>nesting \<in> {1, fc_model_max_nesting conf}. \<exists>s1 s2 s3.
     fe_model_trace env inputs nesting s1 = Inr (cts, s2) \<and> fe_executor_trace env inputs round s2 = Inr (hts, s3))"

lemma measure_inputs_collected:
  assumes "measure_inputs env conf round inputs nesting st s = Inr (boosted, cts, hts, st', s')"
    and "nesting \<in> {1, fc_model_max_nesting conf}" and "trace_lengths env"
  shows "collected env conf round boosted cts hts \<and> length cts = length boosted \<and> length hts = length boosted"
proof -
  from assms(1) obtain s1 s2 where "fe_model_trace env boosted nesting s1 = Inr (cts, s2)"
    "fe_executor_trace env boosted round s2 = Inr (hts, s')"
    by (auto simp: measure_inputs_def res_bind_Inr_iff Let_def)
  with assms(2,3) show ?thesis unfolding collected_def trace_lengths_def by blast
qed

definition round_ok :: "('i, 't, 's) fuzz_env \<Rightarrow> fuzz_conf \<Rightarrow> int \<Rightarrow> 'i equivalence_class list \<times> 'i list \<Rightarrow> bool" where
  "round_ok env conf round found \<longleftrightarrow> fst found \<noteq> [] \<and> (\<exists>cts hts. collected env conf round (snd found) cts hts \<and>
     (\<forall>v \<in> set (fst found). genuine (snd found) cts hts v))"

lemma nesting_loop_found:
  assumes "nesting_loop env conf round inputs ns found st s = Inr (Some found', st', s')" and "trace_lengths env"
    and "set ns \<subseteq> {1, fc_model_max_nesting conf}" and "ns = [] \<Longrightarrow> round_ok env conf round found"
  shows "round_ok env conf round found'"
  using assms
proof (induction ns arbitrary: found st s)
  case (Cons n ns)
  from Cons.prems(1) obtain boosted cts hts st1 s1 where
    m: "measure_inputs env conf round inputs n st s = Inr (boosted, cts, hts, st1, s1)"
    by (auto simp: res_bind_Inr_iff)
  from measure_inputs_collected [OF m _ Cons.prems(2)] Cons.prems(3)
  have c: "collected env conf round boosted cts hts" and l: "length cts = length boosted" "length hts = length boosted"
    by auto
  from Cons.prems(1) m obtain st2 s2 t vs where
    f: "filter_violations (fe_analyser_hook env) (fc_permit_subsets conf) boosted cts hts True st1 s1 = Inr (st2, s2, t, vs)"
      "vs \<noteq> []" and
    rest: "(if ''seq'' \<in> set (fc_contract_execution_clause conf) then Inr (Some (vs, boosted), st2, s2)
       else nesting_loop env conf round inputs ns (vs, boosted) st2 s2) = Inr (Some found', st', s')"
    by (auto simp: res_bind_Inr_iff split: if_splits)
  have "genuine boosted cts hts v" if "v \<in> set vs" for v
    using filter_violations_class_of [OF f(1) _ _ that] l unfolding genuine_def by metis
  with f(2) c have "round_ok env conf round (vs, boosted)" unfolding round_ok_def by auto
  with rest Cons.IH [of "(vs, boosted)" st2 s2] Cons.prems(2,3) show ?case by (auto split: if_splits)
qed simp

definition same_counts :: "statistics \<Rightarrow> statistics \<Rightarrow> bool" where
  "same_counts a b \<longleftrightarrow> st_test_cases a = st_test_cases b \<and> st_violations a = st_violations b"

lemma fuzzing_round_step:
  assumes "fuzzing_round env conf timeout round inputs st s = Inr (r, st', s')"
  obtains s1 found st1 s2 where
    "nesting_loop env conf round inputs [1, fc_model_max_nesting conf] ([], []) st s1 = Inr (found, st1, s2)"
    and "same_counts st1 st'"
    and "r = None \<or> (\<exists>vs boosted s3. found = Some (vs, boosted) \<and> (fc_no_priming conf \<and> r = Some (last vs) \<or>
      prime_violations env timeout (rev vs) boosted s2 = Inr (r, s3)))"
proof -
  from assms obtain s1 found st1 s2 where
    loop: "nesting_loop env conf round inputs [1, fc_model_max_nesting conf] ([], []) st s1 = Inr (found, st1, s2)" and
    rest: "(case found of None \<Rightarrow> Inr (None, st1, s2)
      | Some (violations, boosted_inputs) \<Rightarrow>
         if fc_no_priming conf
         then res_bind (res_map (\<lambda>violation. py_nth (ec_measurements violation) 1) violations) (\<lambda>_.
           Inr (Some (last violations), st1, s2))
         else res_bind (prime_violations env timeout (rev violations) boosted_inputs s2) (\<lambda>(v, s).
           Inr (v, st1\<lparr>st_required_priming := st_required_priming st1 + 1\<rparr>, s))) = Inr (r, st', s')"
    unfolding fuzzing_round_def res_bind_Inr_iff by (auto simp del: nesting_loop.simps)
  show ?thesis
  proof (cases found)
    case None
    with rest that [OF loop] show ?thesis by (simp add: same_counts_def)
  next
    case (Some p)
    obtain vs boosted where p: "p = (vs, boosted)" by fastforce
    with rest Some that [OF loop] show ?thesis
      by (cases "fc_no_priming conf") (fastforce simp: res_bind_Inr_iff same_counts_def)+
  qed
qed

lemma fuzzing_round_found:
  assumes "fuzzing_round env conf timeout round inputs st s = Inr (Some v, st', s')" and "trace_lengths env"
  shows "\<exists>boosted cts hts. collected env conf round boosted cts hts \<and> genuine boosted cts hts v \<and>
    (fc_no_priming conf \<or> primed env boosted cts hts (ec_ctrace v))"
proof -
  obtain s1 vs boosted st1 s2 s3 where
    loop: "nesting_loop env conf round inputs [1, fc_model_max_nesting conf] ([], []) st s1 = Inr (Some (vs, boosted), st1, s2)"
    and rest: "fc_no_priming conf \<and> v = last vs \<or> prime_violations env timeout (rev vs) boosted s2 = Inr (Some v, s3)"
    by (rule fuzzing_round_step [OF assms(1)]) fastforce
  from nesting_loop_found [OF loop assms(2)] obtain cts hts where ok: "vs \<noteq> []"
    "collected env conf round boosted cts hts" "\<forall>v \<in> set vs. genuine boosted cts hts v"
    by (auto simp: round_ok_def)
  from rest show ?thesis
  proof
    assume "fc_no_priming conf \<and> v = last vs"
    with ok show ?thesis by (metis last_in_set)
  next
    assume "prime_violations env timeout (rev vs) boosted s2 = Inr (Some v, s3)"
    with prime_violations_primed [of env timeout "rev vs" boosted s2 v _ cts hts] ok(2,3) show ?thesis by auto
  qed
qed

subsection \<open>Statistics\<close>

lemma filter_violations_counts:
  "filter_violations hook permit inputs cts hts stats st cov = Inr (st', r) \<Longrightarrow> same_counts st st'"
  by (auto simp: filter_violations_def build_equivalence_classes_def same_counts_def res_bind_Inr_iff Let_def
    split: if_splits)

lemma nesting_loop_counts:
  "nesting_loop env conf round inputs ns found st s = Inr (found', st', s') \<Longrightarrow> same_counts st st'"
proof (induction ns arbitrary: found st s)
  case (Cons n ns)
  from Cons.prems obtain b cts hts st1 s1 where
    m: "measure_inputs env conf round inputs n st s = Inr (b, cts, hts, st1, s1)"
    by (auto simp: res_bind_Inr_iff)
  then have "same_counts st st1"
    by (auto simp: measure_inputs_def res_bind_Inr_iff Let_def same_counts_def)
  moreover from Cons.prems m have "same_counts st1 st'"
    by (auto simp: res_bind_Inr_iff same_counts_def split: if_splits
      dest!: filter_violations_counts [unfolded same_counts_def] Cons.IH [unfolded same_counts_def])
  ultimately show ?case by (simp add: same_counts_def)
qed (simp add: same_counts_def)

lemma fuzzing_round_counts:
  assumes "fuzzing_round env conf timeout round inputs st s = Inr (v, st', s')"
  shows "same_counts st st'"
  by (rule fuzzing_round_step [OF assms]) (drule nesting_loop_counts, simp add: same_counts_def)

lemma start_loop_step:
  assumes "start_loop env conf timeout nonstop (i # is) found st s = Inr (r, st', s')"
  obtains inputs s1 w st1 s2 where "fuzzing_round env conf timeout (int i) inputs st s1 = Inr (w, st1, s2)"
    and "(r = Some w \<and> st' = count_round w st1) \<or>
      ((w = None \<or> nonstop) \<and> (\<exists>s3. start_loop env conf timeout nonstop is (Some w) (count_round w st1) s3 = Inr (r, st', s')))"
proof -
  obtain inputs s1 where p: "fe_prepare env i s = Inr (inputs, s1)"
    using assms by (cases "fe_prepare env i s") auto
  obtain w st1 s2 where r: "fuzzing_round env conf timeout (int i) inputs st s1 = Inr (w, st1, s2)"
    using assms p by (cases "fuzzing_round env conf timeout (int i) inputs st s1") auto
  from assms have
    "(let st = count_round w st1 in
     if w \<noteq> None \<and> \<not> nonstop then Inr (Some w, st, s2)
     else let (expired, s) = (if timeout then fe_timeout env s2 else (False, s2)) in
       if expired \<or> fc_existing_input_case conf then Inr (Some w, st, s)
       else start_loop env conf timeout nonstop is (Some w) st s) = Inr (r, st', s')"
    by (simp only: start_loop.simps p r res_bind_simps prod.case)
  then show ?thesis
    by (intro that [OF r]) (auto simp: Let_def split: if_splits prod.splits)
qed

lemma start_loop_counts:
  assumes "start_loop env conf timeout False is found st s = Inr (Some v, st', s')" and "found = None \<or> found = Some None"
  shows "st_test_cases st \<le> st_test_cases st' \<and> st_test_cases st' \<le> st_test_cases st + length is \<and>
    (found = None \<longrightarrow> st_test_cases st < st_test_cases st') \<and> st_violations st' = st_violations st + (if v = None then 0 else 1)"
  using assms
proof (induction "is" arbitrary: found st s)
  case (Cons i "is")
  from start_loop_step [OF Cons.prems(1)] obtain inputs s1 w st1 s2 where
    r: "fuzzing_round env conf timeout (int i) inputs st s1 = Inr (w, st1, s2)"
    and rest: "(Some v = Some w \<and> st' = count_round w st1) \<or> (w = None \<and>
      (\<exists>s3. start_loop env conf timeout False is (Some w) (count_round w st1) s3 = Inr (Some v, st', s')))"
    by metis
  from fuzzing_round_counts [OF r] have c: "st_test_cases st1 = st_test_cases st" "st_violations st1 = st_violations st"
    by (simp_all add: same_counts_def)
  from rest c Cons.IH [of "Some w" "count_round w st1"] show ?case by (fastforce simp: count_round_def)
qed auto

subsection \<open>Boosting\<close>

lemma boost_inputs_copies:
  assumes "fe_get_taints env inputs nesting s = Inr (taints, s')" and "fe_extend env inputs taints = Inr new"
  shows "boost_inputs env conf inputs nesting s =
    Inr (inputs @ concat (replicate (nat (fc_inputs_per_class conf - 1)) new), s')"
proof -
  have "res_fold (\<lambda>_ acc. res_bind (fe_extend env inputs taints) (\<lambda>new. Inr (acc @ new))) xs acc =
      Inr (acc @ concat (replicate (length xs) new))" for xs :: "nat list" and acc
    by (induction xs arbitrary: acc) (simp_all add: assms(2))
  then show ?thesis by (simp add: boost_inputs_def assms(1))
qed

subsection \<open>Primers\<close>

lemma make_primer_correct:
  assumes "t < length inputs" and "1 \<le> n" and "n \<le> length inputs"
  shows "length (make_primer inputs (int t) (int n)) = n + 1 \<and> last (make_primer inputs (int t) (int n)) = inputs ! t"
proof (cases "n \<le> t")
  case True
  then have "make_primer inputs (int t) (int n) = drop (t - n) (take (t + 1) inputs)"
    by (simp add: make_primer_def slice_from_def slice_to_def nat_add_distrib nat_diff_distrib)
  with True assms show ?thesis by (simp add: last_conv_nth)
next
  case False
  then have "make_primer inputs (int t) (int n) = drop (length inputs - (n - t)) inputs @ take (t + 1) inputs"
    using assms by (auto simp: make_primer_def slice_from_def slice_to_def nat_add_distrib nat_diff_distrib
      intro!: arg_cong [of _ _ "\<lambda>k. drop k inputs"])
  with False assms show ?thesis by (auto simp: last_append last_conv_nth)
qed

subsection \<open>Properties\<close>

text \<open>
  C4. A violation that a fuzzing round reports is real, if the model and the executor return
  one trace per input: the round collected contract and hardware traces of its (boosted) inputs
  at one of the two nestings, two of those inputs have the contract trace of the reported class
  and different valid hardware traces, and, unless priming is disabled, there is a run of the
  executor in which an input of the class, put in the place of another one of the class behind
  the same predecessors, gave a valid hardware trace different from the original one.
\<close>

theorem reported_violation_real:
  assumes "fuzzing_round env conf timeout round inputs st s = Inr (Some v, st', s')" and "trace_lengths env"
  shows "\<exists>boosted cts hts. collected env conf round boosted cts hts \<and>
    (\<exists>i j. i < length boosted \<and> j < length boosted \<and> cts ! i = ec_ctrace v \<and> cts ! j = ec_ctrace v \<and>
       hts ! i \<noteq> 0 \<and> hts ! j \<noteq> 0 \<and> hts ! i \<noteq> hts ! j) \<and>
    (fc_no_priming conf \<or> primed env boosted cts hts (ec_ctrace v))"
  using fuzzing_round_found [OF assms] genuineD by meson

definition ex_fuzz_env :: "(nat, unit, unit) fuzz_env" where
  "ex_fuzz_env = \<lparr>fe_prepare = \<lambda>_ s. Inr ([7, 8], s), fe_load_test_case = \<lambda>s. Inr s,
     fe_get_taints = \<lambda>_ _ s. Inr ([], s), fe_extend = \<lambda>_ _. Inr [9, 10],
     fe_model_trace = \<lambda>is _ s. Inr (map (\<lambda>_. 5) is, s),
     fe_executor_trace = \<lambda>is _ s. Inr (map (\<lambda>i. if i = 7 then 1 else 2) is, s),
     fe_trace_priming = \<lambda>_ _ _ s. Inr (1, s), fe_bugged = \<lambda>_. False,
     fe_start_priming = \<lambda>s. s, fe_stop_priming = \<lambda>s. s,
     fe_analyser_hook = \<lambda>_ s. Inr s, fe_timeout = \<lambda>s. (False, s)\<rparr>"

definition ex_fuzz_conf :: fuzz_conf where
  "ex_fuzz_conf = \<lparr>fc_model_max_nesting = 5, fc_inputs_per_class = 2, fc_existing_test_case = False,
     fc_existing_input_case = False, fc_test_case = [], fc_contract_execution_clause = [''cond''],
     fc_analysis_run = False, fc_no_priming = False, fc_permit_subsets = False\<rparr>"

lemma ex_trace_lengths: "trace_lengths ex_fuzz_env"
  by (auto simp: trace_lengths_def ex_fuzz_env_def)

lemma ex_fuzzing_round:
  "map_sum id (\<lambda>(v, st, _). (map_option ec_ctrace v, st_required_priming st))
    (fuzzing_round ex_fuzz_env ex_fuzz_conf True 0 [7, 8] statistics_init ()) = Inr (Some 5, 1)"
  by code_simp

theorem reported_violation_real_witness:
  "\<exists>v boosted cts hts. fst (projr (fuzzing_round ex_fuzz_env ex_fuzz_conf True 0 [7, 8] statistics_init ())) = Some v \<and>
    collected ex_fuzz_env ex_fuzz_conf 0 boosted cts hts \<and> primed ex_fuzz_env boosted cts hts (ec_ctrace v)"
proof -
  obtain v st' s' where r: "fuzzing_round ex_fuzz_env ex_fuzz_conf True 0 [7, 8] statistics_init () = Inr (Some v, st', s')"
    using ex_fuzzing_round
    by (cases "fuzzing_round ex_fuzz_env ex_fuzz_conf True 0 [7, 8] statistics_init ()") auto
  have "\<not> fc_no_priming ex_fuzz_conf" by (simp add: ex_fuzz_conf_def)
  with reported_violation_real [OF r ex_trace_lengths] r show ?thesis by auto
qed

text \<open>
  Without \<open>nonstop\<close> the outer loop stops at the first violation: a call that returns has run at
  least one and at most \<open>num_test_cases\<close> test cases and has counted one violation if and only if
  it returns one. With no test case at all it raises.
\<close>

lemma start_counts:
  "(start env conf num_test_cases timeout False st s = Inr (v, st', s') \<longrightarrow>
      st_test_cases st < st_test_cases st' \<and> st_test_cases st' \<le> st_test_cases st + num_test_cases \<and>
      st_violations st' = st_violations st + (if v = None then 0 else 1)) \<and>
   start env conf 0 timeout nonstop st s = Inl UnboundLocalError"
proof (intro conjI impI)
  assume "start env conf num_test_cases timeout False st s = Inr (v, st', s')"
  then have "start_loop env conf timeout False [0..<num_test_cases] None st s = Inr (Some v, st', s')"
    by (auto simp: start_def res_bind_Inr_iff split: option.splits)
  from start_loop_counts [OF this]
  show "st_test_cases st < st_test_cases st'" "st_test_cases st' \<le> st_test_cases st + num_test_cases"
    "st_violations st' = st_violations st + (if v = None then 0 else 1)" by simp_all
qed (simp add: start_def)

lemma start_counts_example:
  "\<exists>v st'. start ex_fuzz_env ex_fuzz_conf 3 True False statistics_init () = Inr (Some v, st', ()) \<and>
    st_test_cases st' \<le> 3 \<and> st_violations st' = 1"
proof -
  have "map_sum id (\<lambda>(v, _). v = None) (start ex_fuzz_env ex_fuzz_conf 3 True False statistics_init ()) = Inr False"
    by code_simp
  then obtain v st' where "start ex_fuzz_env ex_fuzz_conf 3 True False statistics_init () = Inr (Some v, st', ())"
    by (cases "start ex_fuzz_env ex_fuzz_conf 3 True False statistics_init ()") auto
  with start_counts [of ex_fuzz_env ex_fuzz_conf 3 True statistics_init "()" "Some v" st' "()" True]
  show ?thesis by (auto simp: statistics_init_def)
qed


definition ex_boost_env :: "(input, bool list, unit) fuzz_env" where
  "ex_boost_env = \<lparr>fe_prepare = \<lambda>_ s. Inr (ex_inputs, s), fe_load_test_case = \<lambda>s. Inr s,
     fe_get_taints = \<lambda>_ _ s. Inr (ex_taints, s), fe_extend = extend_equivalence_classes ex_layout (input_mask 16) ex_padding,
     fe_model_trace = \<lambda>is _ s. Inr (map (\<lambda>_. 5) is, s),
     fe_executor_trace = \<lambda>is _ s. Inr (map (\<lambda>_. 1) is, s),
     fe_trace_priming = \<lambda>_ _ _ s. Inr (1, s), fe_bugged = \<lambda>_. False,
     fe_start_priming = \<lambda>s. s, fe_stop_priming = \<lambda>s. s,
     fe_analyser_hook = \<lambda>_ s. Inr s, fe_timeout = \<lambda>s. (False, s)\<rparr>"


text \<open>
  The batch primer for a valid target satisfies both assertions (it has \<open>primer_size + 1\<close>
  inputs, also when it wraps around the beginning of the list, and ends with the target),
  and then \<open>build_batch_primer\<close> raises: its call of \<open>primer_is_effective\<close> does not match the
  method's parameters, so minimising inputs never succeeds.
\<close>

lemma batch_primer_raises:
  assumes "target_input_id < length inputs"
  shows "build_batch_primer seed min_primer_size inputs target_input_id = Inl TypeError \<and>
    length (make_primer inputs (int target_input_id) (int (min_primer_size mod length inputs + 1))) =
      min_primer_size mod length inputs + 2 \<and>
    last (make_primer inputs (int target_input_id) (int (min_primer_size mod length inputs + 1))) = inputs ! target_input_id"
proof -
  let ?n = "min_primer_size mod length inputs + 1"
  have "?n \<le> length inputs" using assms mod_less_divisor [of "length inputs" min_primer_size] by linarith
  then have p: "length (make_primer inputs (int target_input_id) (int ?n)) = ?n + 1"
    "last (make_primer inputs (int target_input_id) (int ?n)) = inputs ! target_input_id"
    using make_primer_correct [OF assms, of ?n] by simp_all
  have "py_index (make_primer inputs (int target_input_id) (int ?n)) (-1) = Inr (inputs ! target_input_id)"
    using p by (subst (asm) last_conv_nth) (auto simp: py_index_def Let_def nat_diff_distrib' nat_add_distrib)
  with p assms show ?thesis by (auto simp: build_batch_primer_def Let_def py_assert_def)
qed

lemma batch_primer_raises_example:
  "build_batch_primer id 1 [4, 5, 6] 0 = Inl TypeError \<and> make_primer [4, 5, 6 :: nat] 0 2 = [5, 6, 4]"
  using batch_primer_raises [of 0 "[4, 5, 6]" id 1] by (simp add: make_primer_def slice_from_def slice_to_def)

end
