(* ===== verification/Isa_Loader.thy ===== *)
theory Isa_Loader
  imports Generator "HOL-Library.Sublist"
begin

text \<open>
  The instruction set of \<^verbatim>\<open>src/src/isa_loader.py\<close>: the specifications read from the JSON file,
  the removal of unsupported instructions and operand values, and the removal of copies.
  Reading and parsing the file is I/O; the nodes of the parsed document are the records
  \<open>op_node\<close> and \<open>instruction_node\<close>. The lemmas show what the loaded set contains (no blocked
  instruction or register, except through the renaming of high bytes) and that
  removing copies leaves exactly one representative of each.
\<close>

subsection \<open>The parsed file\<close>

record op_node =
  on_type :: string
  on_values :: "string list"
  on_src :: bool
  on_dest :: bool
  on_width :: nat

record instruction_node =
  nd_name :: string
  nd_category :: string
  nd_control_flow :: bool
  nd_operands :: "op_node list"
  nd_implicit_operands :: "op_node list"

definition ot_str_to_enum :: "(string, ot) dict" where
  "ot_str_to_enum = [(''REG'', OT_REG), (''MEM'', OT_MEM), (''IMM'', OT_IMM), (''LABEL'', OT_LABEL),
     (''AGEN'', OT_AGEN), (''FLAGS'', OT_FLAGS), (''COND'', OT_COND)]"

subsection \<open>Building the specifications\<close>

definition parse_operand_node :: "op_node \<Rightarrow> instruction_spec \<Rightarrow> (operand_spec \<times> instruction_spec) res" where
  "parse_operand_node op parent =
     res_bind (dict_get ot_str_to_enum (on_type op)) (\<lambda>op_type.
     let spec = (new_operand_spec (on_values op) op_type (on_src op) (on_dest op))\<lparr>os_width := on_width op\<rparr>;
         parent = (if op_type = OT_MEM
           then parent\<lparr>is_has_mem_operand := True, is_has_write := is_has_write parent \<or> os_dest spec\<rparr>
           else parent)
     in Inr (spec, parent))"

definition add_operand_node :: "op_node \<Rightarrow> instruction_spec \<Rightarrow> instruction_spec res" where
  "add_operand_node op_node instruction =
     res_bind (parse_operand_node op_node instruction) (\<lambda>(op, instruction).
     Inr (instruction\<lparr>is_operands := is_operands instruction @ [op],
       is_has_magic_value := is_has_magic_value instruction \<or> os_magic_value op\<rparr>))"

definition add_implicit_node :: "op_node \<Rightarrow> instruction_spec \<Rightarrow> instruction_spec res" where
  "add_implicit_node op_node instruction =
     res_bind (parse_operand_node op_node instruction) (\<lambda>(op, instruction).
     Inr (instruction\<lparr>is_implicit_operands := is_implicit_operands instruction @ [op]\<rparr>))"

definition read_instruction :: "instruction_node \<Rightarrow> instruction_spec res" where
  "read_instruction node =
     (let instruction = new_instruction_spec\<lparr>is_name := nd_name node, is_category := nd_category node,
        is_control_flow := nd_control_flow node\<rparr>
      in res_bind (res_fold add_operand_node (nd_operands node) instruction)
        (res_fold add_implicit_node (nd_implicit_operands node)))"

definition init_from_file :: "instruction_node list \<Rightarrow> instruction_spec list res" where
  "init_from_file root = res_map read_instruction root"

subsection \<open>Removing what is not supported\<close>

text \<open>
  \<open>order\<close> is the order in which Python iterates over the set built from a list of strings
  without repetitions; it depends on the hash seed of the process.
\<close>

record loader_conf =
  lc_no_generation :: bool
  lc_instruction_blocklist :: "string list"
  lc_gpr_blocklist :: "string list"
  lc_order :: "string list \<Rightarrow> string list"

fun implicit_supported :: "loader_conf \<Rightarrow> operand_spec list \<Rightarrow> bool res" where
  "implicit_supported conf [] = Inr True"
| "implicit_supported conf (implicit_operand # rest) =
     res_bind (py_assert (os_type implicit_operand \<noteq> OT_LABEL)) (\<lambda>_.
     if os_type implicit_operand = OT_MEM then
       res_bind (py_nth (os_values implicit_operand) 0) (\<lambda>v.
       if v \<in> set (lc_gpr_blocklist conf) then Inr False else implicit_supported conf rest)
     else if os_type implicit_operand = OT_REG then
       res_bind (py_nth (os_values implicit_operand) 0) (\<lambda>v.
       if v \<in> set (lc_gpr_blocklist conf)
       then res_bind (py_assert (length (os_values implicit_operand) = 1)) (\<lambda>_. Inr (v = ''RIP''))
       else implicit_supported conf rest)
     else implicit_supported conf rest)"

definition blocked_address :: "loader_conf \<Rightarrow> operand_spec \<Rightarrow> bool" where
  "blocked_address conf operand \<longleftrightarrow> os_type operand = OT_MEM \<and>
     (case os_values operand of [] \<Rightarrow> False | v # _ \<Rightarrow> v \<in> set (lc_gpr_blocklist conf))"

definition is_supported :: "loader_conf \<Rightarrow> string list \<Rightarrow> instruction_spec \<Rightarrow> bool res" where
  "is_supported conf include_categories spec =
     (if lc_no_generation conf then Inr True
      else if include_categories \<noteq> [] \<and> is_category spec \<notin> set include_categories then Inr False
      else if is_name spec \<in> set (lc_instruction_blocklist conf) then Inr False
      else if list_ex (blocked_address conf) (is_operands spec) then Inr False
      else implicit_supported conf (is_implicit_operands spec))"

text \<open>\<open>if reg[-1] == 'H': reg.replace('H', 'L')\<close>\<close>

definition low_byte :: "string \<Rightarrow> string res" where
  "low_byte reg = res_bind (py_index reg (-1)) (\<lambda>c.
     Inr (if c = CHR ''H'' then map (\<lambda>c. if c = CHR ''H'' then CHR ''L'' else c) reg else reg))"

text \<open>The loop over the operands; \<open>None\<close> when an operand has no value left (\<open>skip_pending\<close>).\<close>

fun reduce_operands :: "loader_conf \<Rightarrow> operand_spec list \<Rightarrow> operand_spec list option res" where
  "reduce_operands conf [] = Inr (Some [])"
| "reduce_operands conf (op # rest) =
     (if os_type op = OT_REG then
        (let choices = lc_order conf (filter (\<lambda>v. v \<notin> set (lc_gpr_blocklist conf)) (remdups (os_values op))) in
         if choices = [] then Inr None
         else res_bind (res_map low_byte choices) (\<lambda>values.
           res_bind (reduce_operands conf rest) (\<lambda>ops. Inr (map_option ((#) (op\<lparr>os_values := values\<rparr>)) ops))))
      else res_bind (reduce_operands conf rest) (\<lambda>ops. Inr (map_option ((#) op) ops)))"

text \<open>The loop over the instructions; the specifications on the skip list are left out at once.\<close>

fun reduce_specs :: "loader_conf \<Rightarrow> string list \<Rightarrow> instruction_spec list \<Rightarrow> instruction_spec list res" where
  "reduce_specs conf include_categories [] = Inr []"
| "reduce_specs conf include_categories (s # rest) =
     res_bind (is_supported conf include_categories s) (\<lambda>supported.
     res_bind (if supported then reduce_operands conf (is_operands s) else Inr None) (\<lambda>ops.
     res_bind (reduce_specs conf include_categories rest) (\<lambda>specs.
     Inr (case ops of None \<Rightarrow> specs | Some ops \<Rightarrow> s\<lparr>is_operands := ops\<rparr> # specs))))"

definition set_parameters :: "instruction_spec list \<Rightarrow> instruction_set" where
  "set_parameters instructions =
     \<lparr>iset_instructions = instructions,
      iset_has_conditional_branch = list_ex (\<lambda>i. is_control_flow i \<and> is_category i \<noteq> ''BASE-UNCOND_BR'') instructions,
      iset_has_unconditional_branch = list_ex (\<lambda>i. is_control_flow i \<and> is_category i = ''BASE-UNCOND_BR'') instructions,
      iset_has_reads = list_ex (\<lambda>i. \<not> is_control_flow i \<and> is_has_mem_operand i \<and> \<not> is_has_write i) instructions,
      iset_has_writes = list_ex (\<lambda>i. \<not> is_control_flow i \<and> is_has_mem_operand i \<and> is_has_write i) instructions\<rparr>"

subsection \<open>Removing copies\<close>

text \<open>
  The body of the double loop; \<open>continue\<close> ends the comparison of one operand. \<open>self.instructions\<close>
  holds distinct objects that are compared by identity, so that removing the skip list
  removes those positions.
\<close>

definition same_operand :: "operand_spec \<Rightarrow> operand_spec \<Rightarrow> bool" where
  "same_operand op1 op2 \<longleftrightarrow> os_type op1 = os_type op2 \<and> os_values op1 = os_values op2 \<and>
     (os_width op1 = os_width op2 \<or> os_type op1 = OT_IMM)"

definition same_instruction :: "instruction_spec \<Rightarrow> instruction_spec \<Rightarrow> bool" where
  "same_instruction inst1 inst2 \<longleftrightarrow> is_name inst1 = is_name inst2 \<and>
     length (is_operands inst1) = length (is_operands inst2) \<and>
     list_all (\<lambda>(op1, op2). same_operand op1 op2) (zip (is_operands inst1) (is_operands inst2))"

definition skip_positions :: "instruction_spec list \<Rightarrow> nat list" where
  "skip_positions instructions =
     filter (\<lambda>i. list_ex (\<lambda>j. same_instruction (instructions ! i) (instructions ! j)) [i + 1..<length instructions])
       [0..<length instructions]"

definition dedup :: "instruction_spec list \<Rightarrow> instruction_spec list" where
  "dedup instructions =
     map ((!) instructions) (filter (\<lambda>i. i \<notin> set (skip_positions instructions)) [0..<length instructions])"

definition load_instruction_set :: "loader_conf \<Rightarrow> string list \<Rightarrow> instruction_node list \<Rightarrow> instruction_set res" where
  "load_instruction_set conf include_categories root =
     res_bind (init_from_file root) (\<lambda>instructions.
     res_bind (reduce_specs conf include_categories instructions) (\<lambda>instructions.
     let iset = set_parameters instructions
     in Inr (iset\<lparr>iset_instructions := dedup (iset_instructions iset)\<rparr>)))"

subsection \<open>One representative of each instruction\<close>

lemma same_operand_equiv:
  "same_operand a a"
  "same_operand a b \<Longrightarrow> same_operand b a"
  "same_operand a b \<Longrightarrow> same_operand b c \<Longrightarrow> same_operand a c"
  by (auto simp: same_operand_def)

lemma same_instruction_all2:
  "same_instruction a b \<longleftrightarrow> is_name a = is_name b \<and> list_all2 same_operand (is_operands a) (is_operands b)"
  by (auto simp: same_instruction_def list_all2_iff list_all_iff)

lemma same_instruction_refl: "same_instruction a a"
  unfolding same_instruction_all2 by (simp add: list_all2_refl same_operand_equiv(1))

lemma same_instruction_sym: "same_instruction a b \<Longrightarrow> same_instruction b a"
  unfolding same_instruction_all2
  by (auto simp: list_all2_conv_all_nth intro: same_operand_equiv(2))

lemma same_instruction_trans: "same_instruction a b \<Longrightarrow> same_instruction b c \<Longrightarrow> same_instruction a c"
  unfolding same_instruction_all2
  by (elim conjE, intro conjI) (simp, rule list_all2_trans [OF same_operand_equiv(3)])

text \<open>The recursive reading of \<open>dedup\<close>: an instruction is dropped if a later one is the same.\<close>

fun keep_last :: "instruction_spec list \<Rightarrow> instruction_spec list" where
  "keep_last [] = []"
| "keep_last (x # xs) = (if list_ex (same_instruction x) xs then keep_last xs else x # keep_last xs)"

lemma dedup_filter:
  "dedup xs = map ((!) xs) (filter (\<lambda>i. \<not> (\<exists>j. i < j \<and> j < length xs \<and> same_instruction (xs ! i) (xs ! j))) [0..<length xs])"
  unfolding dedup_def skip_positions_def
  by (rule arg_cong [of _ _ "map ((!) xs)"], rule filter_cong) (auto simp: list_ex_iff Suc_le_eq)

lemma dedup_keep_last: "dedup xs = keep_last xs"
proof (induction xs)
  case Nil
  then show ?case by (simp add: dedup_def)
next
  case (Cons x xs)
  let ?bad = "\<lambda>ys i. \<exists>j. i < j \<and> j < length ys \<and> same_instruction (ys ! i) (ys ! j)"
  have later: "?bad (x # xs) (Suc i) \<longleftrightarrow> ?bad xs i" for i
    by (auto simp: less_Suc_eq_0_disj)
  have first: "?bad (x # xs) 0 \<longleftrightarrow> list_ex (same_instruction x) xs"
    by (auto simp: list_ex_length gr0_conv_Suc)
  have up: "[0..<length (x # xs)] = 0 # map Suc [0..<length xs]" by (simp add: upt_conv_Cons map_Suc_upt del: upt_Suc)
  have "dedup (x # xs) = (if ?bad (x # xs) 0 then [] else [x]) @ dedup xs"
    unfolding dedup_filter up filter.simps filter_map comp_def later by (simp add: comp_def)
  with Cons first show ?case by simp
qed

lemma subseq_keep_last: "subseq (keep_last xs) xs"
  by (induction xs) auto

lemma keep_last_represents: "\<forall>x \<in> set xs. \<exists>y \<in> set (keep_last xs). same_instruction x y"
proof (induction xs)
  case (Cons a xs)
  have mono: "set (keep_last xs) \<subseteq> set (keep_last (a # xs))" by auto
  have "\<exists>y \<in> set (keep_last (a # xs)). same_instruction a y"
  proof (cases "list_ex (same_instruction a) xs")
    case True
    then obtain z where "z \<in> set xs" "same_instruction a z" by (auto simp: list_ex_iff)
    with Cons.IH obtain y where "y \<in> set (keep_last xs)" "same_instruction a y"
      by (meson same_instruction_trans)
    with mono show ?thesis by blast
  next
    case False
    then show ?thesis using same_instruction_refl by simp
  qed
  with Cons.IH mono show ?case by (simp only: list.set ball_simps) blast
qed simp

lemma keep_last_distinct: "sorted_wrt (\<lambda>x y. \<not> same_instruction x y) (keep_last xs)"
proof (induction xs)
  case (Cons x xs)
  have "set (keep_last xs) \<subseteq> set xs" using subseq_keep_last [of xs] by (auto elim: list_emb_set)
  with Cons show ?case by (auto simp: list_ex_iff)
qed simp

subsection \<open>What remains after the reduction\<close>

definition renames_high :: "string \<Rightarrow> string \<Rightarrow> bool" where
  "renames_high v w \<longleftrightarrow> v \<noteq> [] \<and> last v = CHR ''H'' \<and> w = map (\<lambda>c. if c = CHR ''H'' then CHR ''L'' else c) v"

lemma low_byte_cases:
  assumes "low_byte v = Inr w"
  shows "(w = v \<and> v \<noteq> [] \<and> last v \<noteq> CHR ''H'') \<or> renames_high v w"
proof -
  from assms obtain c where c: "py_index v (-1) = Inr c"
    "w = (if c = CHR ''H'' then map (\<lambda>c. if c = CHR ''H'' then CHR ''L'' else c) v else v)"
    by (auto simp: low_byte_def res_bind_Inr_iff)
  then have "v \<noteq> []" "c = last v"
    by (auto simp: py_index_def Let_def last_conv_nth nat_diff_distrib' split: if_splits)
  with c(2) show ?thesis by (auto simp: renames_high_def)
qed

text \<open>A value an operand may keep: not blocked, or the low byte that replaces an unblocked high byte.\<close>

definition allowed_value :: "loader_conf \<Rightarrow> string list \<Rightarrow> string \<Rightarrow> bool" where
  "allowed_value conf values w \<longleftrightarrow>
     (\<exists>v \<in> set values - set (lc_gpr_blocklist conf). w = v \<and> last v \<noteq> CHR ''H'' \<or> renames_high v w)"

definition reduced_operand :: "loader_conf \<Rightarrow> operand_spec \<Rightarrow> operand_spec \<Rightarrow> bool" where
  "reduced_operand conf op op' \<longleftrightarrow>
     (if os_type op = OT_REG
      then op' = op\<lparr>os_values := os_values op'\<rparr> \<and> os_values op' \<noteq> [] \<and>
        (\<forall>w \<in> set (os_values op'). allowed_value conf (os_values op) w)
      else op' = op)"

lemma reduce_operands_reduced:
  assumes "reduce_operands conf ops = Inr (Some ops')" and "\<And>xs. set (lc_order conf xs) = set xs"
  shows "list_all2 (reduced_operand conf) ops ops'"
  using assms(1)
proof (induction ops arbitrary: ops')
  case (Cons op ops)
  show ?case
  proof (cases "os_type op = OT_REG")
    case True
    let ?c = "lc_order conf (filter (\<lambda>v. v \<notin> set (lc_gpr_blocklist conf)) (remdups (os_values op)))"
    from Cons.prems True obtain vs rest where c: "?c \<noteq> []" and vs: "res_map low_byte ?c = Inr vs"
      and rest: "reduce_operands conf ops = Inr (Some rest)" "ops' = op\<lparr>os_values := vs\<rparr> # rest"
      by (auto simp: res_bind_Inr_iff Let_def split: if_splits)
    from vs have l: "list_all2 (\<lambda>v w. low_byte v = Inr w) ?c vs" by (simp add: res_map_Inr_iff)
    have "allowed_value conf (os_values op) w" if "w \<in> set vs" for w
    proof -
      from list_all2_preimage [OF l that] obtain v where "v \<in> set ?c" "low_byte v = Inr w" by (elim bexE)
      then have "v \<in> set (os_values op) - set (lc_gpr_blocklist conf)" by (simp add: assms(2))
      with low_byte_cases [OF \<open>low_byte v = Inr w\<close>] show ?thesis unfolding allowed_value_def by blast
    qed
    moreover have "vs \<noteq> []" using c l by auto
    ultimately have "reduced_operand conf op (op\<lparr>os_values := vs\<rparr>)" using True by (simp add: reduced_operand_def)
    with Cons.IH rest show ?thesis by simp
  next
    case False
    then have "reduced_operand conf op op" by (simp add: reduced_operand_def)
    with False Cons.prems Cons.IH show ?thesis by (auto simp: res_bind_Inr_iff)
  qed
qed simp

definition reduced_spec :: "loader_conf \<Rightarrow> string list \<Rightarrow> instruction_spec \<Rightarrow> instruction_spec \<Rightarrow> bool" where
  "reduced_spec conf categories s s' \<longleftrightarrow> is_supported conf categories s = Inr True \<and>
     s' = s\<lparr>is_operands := is_operands s'\<rparr> \<and> list_all2 (reduced_operand conf) (is_operands s) (is_operands s')"

lemma reduce_specs_reduced:
  assumes "reduce_specs conf categories specs = Inr specs'" and "\<And>xs. set (lc_order conf xs) = set xs"
    and "s' \<in> set specs'"
  shows "\<exists>s \<in> set specs. reduced_spec conf categories s s'"
  using assms(1,3)
proof (induction specs arbitrary: specs')
  case (Cons s specs)
  from Cons.prems(1) obtain b ops rest where b: "is_supported conf categories s = Inr b"
    and ops: "(if b then reduce_operands conf (is_operands s) else Inr None) = Inr ops"
    and rest: "reduce_specs conf categories specs = Inr rest"
    and eq: "specs' = (case ops of None \<Rightarrow> rest | Some ops \<Rightarrow> s\<lparr>is_operands := ops\<rparr> # rest)"
    by (auto simp: res_bind_Inr_iff)
  show ?case
  proof (cases "s' \<in> set rest")
    case True
    with Cons.IH [OF rest] show ?thesis by auto
  next
    case False
    with Cons.prems(2) eq obtain o' where o: "ops = Some o'" "s' = s\<lparr>is_operands := o'\<rparr>"
      by (auto split: option.splits)
    with ops have "b" "reduce_operands conf (is_operands s) = Inr (Some o')" by (auto split: if_splits)
    with reduce_operands_reduced [OF _ assms(2)] b o show ?thesis by (auto simp: reduced_spec_def)
  qed
qed simp

lemma implicit_supported_registers:
  assumes "implicit_supported conf ops = Inr True" and "''RIP'' \<notin> set (lc_gpr_blocklist conf)"
    and "op \<in> set ops" and "os_type op \<in> {OT_MEM, OT_REG}"
  shows "hd (os_values op) \<notin> set (lc_gpr_blocklist conf)"
  using assms(1,3)
proof (induction ops)
  case (Cons o' ops)
  have "implicit_supported conf ops = Inr True \<and>
      (os_type o' \<in> {OT_MEM, OT_REG} \<longrightarrow> hd (os_values o') \<notin> set (lc_gpr_blocklist conf))"
    using Cons.prems(1) assms(2)
    by (auto simp: res_bind_Inr_iff py_nth_def hd_conv_nth split: if_splits)
  with Cons assms(4) show ?case by auto
qed simp

subsection \<open>Properties\<close>

text \<open>
  \<open>dedup\<close> leaves exactly one representative of each instruction: the result is a
  subsequence of the list, no two of its instructions are the same (name, operand types,
  values, and widths of all but the immediates), and every instruction of the list is the
  same as one that remains.
\<close>

lemma dedup_representatives:
  "subseq (dedup instructions) instructions \<and>
   sorted_wrt (\<lambda>inst1 inst2. \<not> same_instruction inst1 inst2) (dedup instructions) \<and>
   (\<forall>inst. inst \<in> set instructions \<longrightarrow> (\<exists>inst' \<in> set (dedup instructions). same_instruction inst inst'))"
  using subseq_keep_last keep_last_distinct keep_last_represents by (simp add: dedup_keep_last)

definition ex_imm_spec :: "nat \<Rightarrow> instruction_spec" where
  "ex_imm_spec w = new_instruction_spec\<lparr>is_name := ''ADD'',
     is_operands := [(new_operand_spec [''EAX''] OT_REG True True)\<lparr>os_width := 32\<rparr>,
       (new_operand_spec [] OT_IMM True False)\<lparr>os_width := w\<rparr>]\<rparr>"

lemma dedup_representatives_example:
  "dedup [ex_imm_spec 8, ex_imm_spec 32] = [ex_imm_spec 32] \<and>
   (\<exists>inst' \<in> set (dedup [ex_imm_spec 8, ex_imm_spec 32]). same_instruction (ex_imm_spec 8) inst')"
proof -
  have "dedup [ex_imm_spec 8, ex_imm_spec 32] = [ex_imm_spec 32]"
    by (simp add: dedup_keep_last same_instruction_def same_operand_def ex_imm_spec_def new_operand_spec_def)
  with dedup_representatives [of "[ex_imm_spec 8, ex_imm_spec 32]"] show ?thesis by simp
qed


definition ex_loader_conf :: loader_conf where
  "ex_loader_conf = \<lparr>lc_no_generation = False, lc_instruction_blocklist = [''UD2''],
     lc_gpr_blocklist = [''R14'', ''AL''], lc_order = id\<rparr>"

definition ex_reg_node :: "string \<Rightarrow> string list \<Rightarrow> instruction_node" where
  "ex_reg_node name values = \<lparr>nd_name = name, nd_category = ''BASE-BINARY'', nd_control_flow = False,
     nd_operands = [\<lparr>on_type = ''REG'', on_values = values, on_src = True, on_dest = True, on_width = 8\<rparr>],
     nd_implicit_operands = []\<rparr>"

lemma ex_load:
  "map_sum id (\<lambda>s. map (\<lambda>i. (is_name i, map os_values (is_operands i))) (iset_instructions s))
    (load_instruction_set ex_loader_conf [''BASE-BINARY'']
      [ex_reg_node ''UD2'' [''BL''], ex_reg_node ''INC'' [''AL'', ''BL'', ''R14''], ex_reg_node ''DEC'' [''AL'']]) =
   Inr [(''INC'', [[''BL'']])]"
  by code_simp


text \<open>
  The renaming of high bytes comes after the block list: an operand whose values are AH and AL
  keeps AL although AL is blocked. And when RIP is blocked, as in the default configuration, an
  instruction with RIP as its first implicit register is supported whatever its other implicit registers are.
\<close>

lemma blocklist_bypassed:
  "map_sum id (\<lambda>s. map (map os_values \<circ> is_operands) (iset_instructions s))
     (load_instruction_set ex_loader_conf [] [ex_reg_node ''INC'' [''AH'', ''AL'']]) = Inr [[[''AL'']]] \<and>
   implicit_supported (ex_loader_conf\<lparr>lc_gpr_blocklist := [''RIP'', ''R14'']\<rparr>)
     [new_operand_spec [''RIP''] OT_REG True True, new_operand_spec [''R14''] OT_REG True True] = Inr True \<and>
   implicit_supported (ex_loader_conf\<lparr>lc_gpr_blocklist := [''RIP'', ''R14'']\<rparr>)
     [new_operand_spec [''R14''] OT_REG True True, new_operand_spec [''RIP''] OT_REG True True] = Inr False"
  by (intro conjI; code_simp)

end
