(* ===== verification/Coverage.thy ===== *)
theory Coverage
  imports Asm_Text Isa_Loader Tracers Analyser
begin

text \<open>
  The coverage of dependent instruction pairs (\<^verbatim>\<open>src/src/coverage.py\<close>): which adjacent pairs of
  executed instructions depend on each other through a register, the flags, memory or control flow.
  A pair is recorded as the hash of its key, Python's string hash being the argument \<open>hash\<close>; \<open>NoCoverage\<close> does nothing
  and needs no model. The lemmas characterise what one update records and how the kinds of memory dependencies are told apart.
\<close>

subsection \<open>State\<close>

datatype dt = REG_GPR | REG_FLAGS | MEM_LL | MEM_LS | MEM_SL | MEM_SS | CONTROL_DIRECT | CONTROL_COND

definition all_dt :: "dt list" where
  "all_dt = [REG_GPR, REG_FLAGS, MEM_LL, MEM_LS, MEM_SL, MEM_SS, CONTROL_DIRECT, CONTROL_COND]"

text \<open>\<open>execution_traces\<close> and \<open>test_case\<close> are first assigned by the hooks; reading them before is an \<open>AttributeError\<close>.\<close>

record pair_coverage =
  pc_coverage :: "dt \<Rightarrow> int set"
  pc_max_coverage :: "dt \<Rightarrow> nat"
  pc_execution_traces :: "traced_instruction list list option"
  pc_test_case :: "test_case option"

subsection \<open>The greatest possible coverage\<close>

definition spec_ops :: "ot \<Rightarrow> instruction_spec \<Rightarrow> operand_spec list" where
  "spec_ops t inst = filter (\<lambda>r. os_type r = t) (is_operands inst @ is_implicit_operands inst)"

definition flag_modes_have :: "char \<Rightarrow> instruction_spec \<Rightarrow> bool" where
  "flag_modes_have c inst = (case spec_ops OT_FLAGS inst of [] \<Rightarrow> False | op # _ \<Rightarrow> list_ex (\<lambda>v. c \<in> set v) (os_values op))"

definition count_specs :: "(instruction_spec \<Rightarrow> bool) \<Rightarrow> instruction_spec list \<Rightarrow> nat" where
  "count_specs P insts = length (filter P insts)"

definition calculate_max_coverage :: "instruction_spec list \<Rightarrow> dt \<Rightarrow> nat" where
  "calculate_max_coverage insts type =
     (let all = length insts;
          reg_src = count_specs (\<lambda>i. list_ex os_src (spec_ops OT_REG i)) insts;
          reg_dest = count_specs (\<lambda>i. list_ex os_dest (spec_ops OT_REG i)) insts;
          flags_src = count_specs (flag_modes_have (CHR ''r'')) insts;
          flags_dest = count_specs (flag_modes_have (CHR ''w'')) insts;
          mem_dest = count_specs is_has_write insts;
          mem_src = count_specs (\<lambda>i. list_ex os_src (spec_ops OT_MEM i)) insts;
          control_direct = 1 + count_specs (\<lambda>i. is_control_flow i \<and> is_category i = ''BASE-UNCOND_BR'') insts;
          control_cond = count_specs (\<lambda>i. is_control_flow i \<and> is_category i \<noteq> ''BASE-UNCOND_BR'') insts
      in case type of
        REG_GPR \<Rightarrow> reg_src * (reg_dest + mem_src + mem_dest)
      | REG_FLAGS \<Rightarrow> flags_src * flags_dest
      | MEM_LL \<Rightarrow> mem_src * mem_src
      | MEM_LS \<Rightarrow> mem_src * mem_dest
      | MEM_SL \<Rightarrow> mem_dest * mem_src
      | MEM_SS \<Rightarrow> mem_dest * mem_dest
      | CONTROL_DIRECT \<Rightarrow> control_direct * all
      | CONTROL_COND \<Rightarrow> control_cond * all)"

definition new_pair_coverage :: "instruction_set \<Rightarrow> pair_coverage" where
  "new_pair_coverage iset =
     \<lparr>pc_coverage = (\<lambda>_. {}), pc_max_coverage = calculate_max_coverage (iset_instructions iset),
      pc_execution_traces = None, pc_test_case = None\<rparr>"

definition coverage_get :: "pair_coverage \<Rightarrow> nat" where
  "coverage_get c = sum_list (map (\<lambda>t. card (pc_coverage c t)) all_dt)"

text \<open>The numbers of \<open>get_brief\<close> (recorded and possible pairs, in its order); the division raises when none is possible.\<close>

definition get_brief :: "pair_coverage \<Rightarrow> (nat \<times> nat) list res" where
  "get_brief c = res_map (\<lambda>t. if pc_max_coverage c t = 0 then Inl ZeroDivisionError
       else Inr (card (pc_coverage c t), pc_max_coverage c t))
     [REG_FLAGS, REG_GPR, MEM_LL, MEM_LS, MEM_SL, MEM_SS, CONTROL_COND, CONTROL_DIRECT]"

subsection \<open>Dependencies of a pair\<close>

definition get_instruction_key :: "instruction \<Rightarrow> string" where
  "get_instruction_key instruction =
     fold (\<lambda>op key. key @ ''-'' @ nat_str (op_width op) @ ot_str (op_type op))
       (i_operands instruction @ i_implicit_operands instruction) (i_name instruction)"

definition search_memory_dependency :: "traced_instruction \<Rightarrow> traced_instruction \<Rightarrow> dt list" where
  "search_memory_dependency instr1 instr2 =
     (let write_addresses1 = map ta_address (filter ta_is_store (ti_accesses instr1));
          read_addresses1 = map ta_address (filter (\<lambda>a. \<not> ta_is_store a) (ti_accesses instr1));
          read_addresses2 = map ta_address (filter ta_is_store (ti_accesses instr2));
          write_addresses2 = map ta_address (filter (\<lambda>a. \<not> ta_is_store a) (ti_accesses instr2))
      in (if list_ex (\<lambda>i. i \<in> set read_addresses2) read_addresses1 then [MEM_LL] else []) @
         (if list_ex (\<lambda>i. i \<in> set write_addresses2) read_addresses1 then [MEM_LS] else []) @
         (if list_ex (\<lambda>i. i \<in> set read_addresses2) write_addresses1 then [MEM_SL] else []) @
         (if list_ex (\<lambda>i. i \<in> set write_addresses2) write_addresses1 then [MEM_SS] else []))"

definition search_reg_dependency :: "instruction \<Rightarrow> instruction \<Rightarrow> bool res" where
  "search_reg_dependency inst1 inst2 =
     res_bind (res_map (dict_get gpr_normalized) (map op_value (filter is_register_operand (get_dest_operands inst1 True))))
       (\<lambda>dest_regs.
     res_bind (res_map (dict_get gpr_normalized) (map op_value (filter is_register_operand (get_src_operands inst2 True))))
       (\<lambda>src_regs.
     let mem_operands = map op_value (get_mem_operands inst2)
     in Inr (list_ex (\<lambda>r. r \<in> set src_regs) dest_regs \<or>
             list_ex (\<lambda>r. list_ex (\<lambda>mem. contains mem r) mem_operands) dest_regs)))"

definition search_flag_dependency :: "instruction \<Rightarrow> instruction \<Rightarrow> bool" where
  "search_flag_dependency instr1 instr2 =
     (case (get_flags_operand instr1, get_flags_operand instr2) of
        (Some flags1, Some flags2) \<Rightarrow> is_dependent flags2 flags1
      | _ \<Rightarrow> False)"

subsection \<open>Update\<close>

definition cov_add :: "int \<Rightarrow> dt \<Rightarrow> (dt \<Rightarrow> int set) \<Rightarrow> (dt \<Rightarrow> int set)" where
  "cov_add key type cov = cov(type := insert key (cov type))"

definition pair_key :: "(string \<Rightarrow> int) \<Rightarrow> instruction \<Rightarrow> instruction \<Rightarrow> int" where
  "pair_key hash instr1 instr2 = hash (get_instruction_key instr1 @ get_instruction_key instr2)"

definition process_pair ::
    "(string \<Rightarrow> int) \<Rightarrow> (int, instruction) dict \<Rightarrow> traced_instruction \<times> traced_instruction \<Rightarrow> (dt \<Rightarrow> int set) \<Rightarrow>
     (dt \<Rightarrow> int set) res" where
  "process_pair hash address_map p cov =
     (let (addr1, addr2) = p in
      res_bind (dict_get address_map (ti_address addr1)) (\<lambda>instr1.
      res_bind (dict_get address_map (ti_address addr2)) (\<lambda>instr2.
      let key = pair_key hash instr1 instr2;
          cov = (if i_control_flow instr1
            then cov_add key (if i_category instr1 = ''BASE-UNCOND_BR'' then CONTROL_DIRECT else CONTROL_COND) cov else cov);
          cov = (if ti_accesses addr1 \<noteq> [] \<and> ti_accesses addr2 \<noteq> []
            then fold (cov_add key) (search_memory_dependency addr1 addr2) cov else cov)
      in res_bind (search_reg_dependency instr1 instr2) (\<lambda>reg.
      let cov = (if reg then cov_add key REG_GPR cov else cov);
          cov = (if search_flag_dependency instr1 instr2 then cov_add key REG_FLAGS cov else cov)
      in Inr cov))))"

definition instrumentation_addresses :: "(int, instruction) dict \<Rightarrow> int list" where
  "instrumentation_addresses address_map = map fst (filter (\<lambda>(addr, instr). i_is_instrumentation instr) address_map)"

definition trace_pairs :: "(int, instruction) dict \<Rightarrow> traced_instruction list \<Rightarrow> (traced_instruction \<times> traced_instruction) list" where
  "trace_pairs address_map trace =
     (let t = filter (\<lambda>t. ti_address t \<notin> set (instrumentation_addresses address_map)) trace in zip t (tl t))"

definition attribute :: "'a option \<Rightarrow> 'a res" where
  "attribute x = (case x of None \<Rightarrow> Inl AttributeError | Some v \<Rightarrow> Inr v)"

definition int_addresses :: "test_case \<Rightarrow> (int, instruction) dict" where
  "int_addresses test_case = map (\<lambda>(a, i). (int a, i)) (tc_address_map test_case)"

definition update_coverage ::
    "(string \<Rightarrow> int) \<Rightarrow> traced_instruction list list \<Rightarrow> pair_coverage \<Rightarrow> pair_coverage res" where
  "update_coverage hash effective_traces c =
     res_bind (attribute (pc_test_case c)) (\<lambda>test_case.
      let address_map = int_addresses test_case
      in res_bind (res_fold (\<lambda>trace. res_fold (process_pair hash address_map) (trace_pairs address_map trace))
           effective_traces (pc_coverage c)) (\<lambda>cov. Inr (c\<lparr>pc_coverage := cov\<rparr>)))"

subsection \<open>Hooks\<close>

definition load_test_case :: "test_case \<Rightarrow> pair_coverage \<Rightarrow> pair_coverage" where
  "load_test_case test_case c = c\<lparr>pc_test_case := Some test_case\<rparr>"

definition model_hook :: "traced_instruction list list \<Rightarrow> pair_coverage \<Rightarrow> pair_coverage" where
  "model_hook execution_traces c = c\<lparr>pc_execution_traces := Some execution_traces\<rparr>"

definition effective_trace :: "traced_instruction list list option \<Rightarrow> 'i equivalence_class \<Rightarrow> traced_instruction list list res" where
  "effective_trace execution_traces eq_cls =
     (if 1 < length (ec_measurements eq_cls)
      then res_bind (py_nth (ec_measurements eq_cls) 0) (\<lambda>m.
           res_bind (attribute execution_traces) (\<lambda>traces.
           res_bind (py_nth traces (m_input_id m)) (\<lambda>t. Inr [t])))
      else Inr [])"

definition analyser_hook ::
    "(string \<Rightarrow> int) \<Rightarrow> 'i equivalence_class list \<Rightarrow> pair_coverage \<times> statistics \<Rightarrow> (pair_coverage \<times> statistics) res" where
  "analyser_hook hash classes cs =
     (let (c, st) = cs in
      res_bind (res_map (effective_trace (pc_execution_traces c)) classes) (\<lambda>traces.
      let effective_traces = concat traces
      in if effective_traces = [] then Inr (c, st)
         else res_bind (update_coverage hash effective_traces c) (\<lambda>c.
           Inr (c, st\<lparr>st_coverage := coverage_get c\<rparr>))))"

definition get_coverage :: "string \<Rightarrow> bool res" where
  "get_coverage coverage_type =
     (if coverage_type = ''dependent-pairs'' then Inr True
      else if coverage_type = ''none'' then Inr False
      else Inl ConfigException)"

subsection \<open>What an update records\<close>

definition depends :: "traced_instruction \<Rightarrow> traced_instruction \<Rightarrow> instruction \<Rightarrow> instruction \<Rightarrow> dt set" where
  "depends addr1 addr2 instr1 instr2 =
     (if i_control_flow instr1 then {if i_category instr1 = ''BASE-UNCOND_BR'' then CONTROL_DIRECT else CONTROL_COND} else {}) \<union>
     set (search_memory_dependency addr1 addr2) \<union>
     (if search_reg_dependency instr1 instr2 = Inr True then {REG_GPR} else {}) \<union>
     (if search_flag_dependency instr1 instr2 then {REG_FLAGS} else {})"

lemma cov_add_apply: "cov_add key type cov t = (if t = type then insert key (cov t) else cov t)"
  by (simp add: cov_add_def)

lemma fold_cov_add: "fold (cov_add key) types cov t = (if t \<in> set types then insert key (cov t) else cov t)"
  by (induction types arbitrary: cov) (auto simp: cov_add_apply)

lemma no_access_no_dependency:
  "ti_accesses addr1 = [] \<or> ti_accesses addr2 = [] \<Longrightarrow> search_memory_dependency addr1 addr2 = []"
  by (auto simp: search_memory_dependency_def Let_def list_ex_iff)

lemma process_pair_records:
  assumes "process_pair hash am (addr1, addr2) cov = Inr cov'"
  shows "\<exists>instr1 instr2. map_of am (ti_address addr1) = Some instr1 \<and> map_of am (ti_address addr2) = Some instr2 \<and>
    (\<forall>t. cov' t = (if t \<in> depends addr1 addr2 instr1 instr2 then {pair_key hash instr1 instr2} else {}) \<union> cov t)"
proof -
  obtain instr1 where m1: "map_of am (ti_address addr1) = Some instr1"
    using assms by (cases "map_of am (ti_address addr1)") (auto simp: process_pair_def dict_get_def)
  obtain instr2 where m2: "map_of am (ti_address addr2) = Some instr2"
    using assms m1 by (cases "map_of am (ti_address addr2)") (auto simp: process_pair_def dict_get_def)
  note m = m1 m2
  obtain reg where reg: "search_reg_dependency instr1 instr2 = Inr reg"
    using assms by (cases "search_reg_dependency instr1 instr2") (auto simp: process_pair_def dict_get_def m Let_def)
  let ?k = "pair_key hash instr1 instr2" and ?m = "search_memory_dependency addr1 addr2"
  define c1 where "c1 = (if i_control_flow instr1
    then cov_add ?k (if i_category instr1 = ''BASE-UNCOND_BR'' then CONTROL_DIRECT else CONTROL_COND) cov else cov)"
  define c2 where "c2 = (if ti_accesses addr1 \<noteq> [] \<and> ti_accesses addr2 \<noteq> [] then fold (cov_add ?k) ?m c1 else c1)"
  define c3 where "c3 = (if reg then cov_add ?k REG_GPR c2 else c2)"
  have cov': "cov' = (if search_flag_dependency instr1 instr2 then cov_add ?k REG_FLAGS c3 else c3)"
    using assms by (simp only: process_pair_def prod.case Let_def dict_get_def m option.case res_bind_simps reg
      c1_def [symmetric] c2_def [symmetric] c3_def [symmetric] sum.inject)
  have c2: "c2 = fold (cov_add ?k) ?m c1" using no_access_no_dependency [of addr1 addr2] by (auto simp: c2_def)
  have "cov' t = (if t \<in> depends addr1 addr2 instr1 instr2 then {?k} else {}) \<union> cov t" for t
    unfolding depends_def cov' c3_def c2 c1_def reg by (simp add: cov_add_apply fold_cov_add)
  with m show ?thesis by blast
qed

definition recorded ::
    "(string \<Rightarrow> int) \<Rightarrow> (int, instruction) dict \<Rightarrow> (traced_instruction \<times> traced_instruction) set \<Rightarrow> dt \<Rightarrow> int set" where
  "recorded hash am ps t = {pair_key hash instr1 instr2 | addr1 addr2 instr1 instr2. (addr1, addr2) \<in> ps \<and>
     map_of am (ti_address addr1) = Some instr1 \<and> map_of am (ti_address addr2) = Some instr2 \<and>
     t \<in> depends addr1 addr2 instr1 instr2}"

lemma recorded_empty [simp]: "recorded hash am {} t = {}"
  by (simp add: recorded_def)

lemma recorded_Un: "recorded hash am (A \<union> B) t = recorded hash am A t \<union> recorded hash am B t"
  by (auto simp: recorded_def)

lemma process_pair_recorded:
  assumes "process_pair hash am p cov = Inr cov'"
  shows "cov' t = recorded hash am {p} t \<union> cov t"
proof -
  obtain addr1 addr2 where p: "p = (addr1, addr2)" by fastforce
  from process_pair_records [OF assms [unfolded p]] obtain instr1 instr2 where
    m: "map_of am (ti_address addr1) = Some instr1" "map_of am (ti_address addr2) = Some instr2" and
    c: "cov' t = (if t \<in> depends addr1 addr2 instr1 instr2 then {pair_key hash instr1 instr2} else {}) \<union> cov t"
    by blast
  from m have "recorded hash am {p} t = (if t \<in> depends addr1 addr2 instr1 instr2 then {pair_key hash instr1 instr2} else {})"
    by (auto simp: recorded_def p)
  with c show ?thesis by simp
qed

lemma process_pairs_recorded:
  "res_fold (process_pair hash am) ps cov = Inr cov' \<Longrightarrow> cov' t = recorded hash am (set ps) t \<union> cov t"
proof (induction ps arbitrary: cov)
  case (Cons p ps)
  from Cons.prems obtain cov1 where c: "process_pair hash am p cov = Inr cov1" "res_fold (process_pair hash am) ps cov1 = Inr cov'"
    by (auto simp: res_bind_Inr_iff)
  from Cons.IH [OF c(2)] process_pair_recorded [OF c(1), of t] recorded_Un [of hash am "{p}" "set ps" t]
  show ?case by auto
qed simp

lemma process_traces_recorded:
  "res_fold (\<lambda>trace. res_fold (process_pair hash am) (trace_pairs am trace)) traces cov = Inr cov' \<Longrightarrow>
   cov' t = recorded hash am (\<Union>trace \<in> set traces. set (trace_pairs am trace)) t \<union> cov t"
proof (induction traces arbitrary: cov)
  case (Cons tr traces)
  from Cons.prems obtain cov1 where c: "res_fold (process_pair hash am) (trace_pairs am tr) cov = Inr cov1"
    "res_fold (\<lambda>trace. res_fold (process_pair hash am) (trace_pairs am trace)) traces cov1 = Inr cov'"
    by (auto simp: res_bind_Inr_iff)
  from Cons.IH [OF c(2)] process_pairs_recorded [OF c(1), of t] show ?case by (auto simp: recorded_Un)
qed simp

subsection \<open>Properties\<close>


definition ex_cov_jmp :: instruction where
  "ex_cov_jmp = new_instruction ''JMP'' False ''BASE-UNCOND_BR'' True"

definition ex_cov_nop :: instruction where
  "ex_cov_nop = new_instruction ''NOP'' False ''BASE-NOP'' False"

definition ex_cov_test_case :: test_case where
  "ex_cov_test_case = new_test_case\<lparr>tc_address_map := [(0, ex_cov_jmp), (4, new_instruction ''AND'' True [] False), (8, ex_cov_nop)]\<rparr>"

definition ex_cov_trace :: "traced_instruction list" where
  "ex_cov_trace = map (\<lambda>a. \<lparr>ti_address = a, ti_accesses = []\<rparr>) [0, 4, 8]"

definition ex_cov :: pair_coverage where
  "ex_cov = load_test_case ex_cov_test_case \<lparr>pc_coverage = (\<lambda>_. {}), pc_max_coverage = (\<lambda>_. 1),
     pc_execution_traces = None, pc_test_case = None\<rparr>"

definition ex_hash :: "string \<Rightarrow> int" where
  "ex_hash s = int (length s)"


text \<open>
  The kinds of memory dependencies are exchanged: the accesses of the second instruction are
  sorted into loads and stores the wrong way round, so that MEM_LL is reported exactly when a load is
  followed by a store to the same address, MEM_LS for two loads, MEM_SL for two stores, and
  MEM_SS for a store followed by a load.
\<close>

lemma memory_dependency_kinds:
  "(MEM_LL \<in> set (search_memory_dependency a b) \<longleftrightarrow>
      (\<exists>x \<in> set (ti_accesses a). \<exists>y \<in> set (ti_accesses b). \<not> ta_is_store x \<and> ta_is_store y \<and> ta_address x = ta_address y)) \<and>
   (MEM_LS \<in> set (search_memory_dependency a b) \<longleftrightarrow>
      (\<exists>x \<in> set (ti_accesses a). \<exists>y \<in> set (ti_accesses b). \<not> ta_is_store x \<and> \<not> ta_is_store y \<and> ta_address x = ta_address y)) \<and>
   (MEM_SL \<in> set (search_memory_dependency a b) \<longleftrightarrow>
      (\<exists>x \<in> set (ti_accesses a). \<exists>y \<in> set (ti_accesses b). ta_is_store x \<and> ta_is_store y \<and> ta_address x = ta_address y)) \<and>
   (MEM_SS \<in> set (search_memory_dependency a b) \<longleftrightarrow>
      (\<exists>x \<in> set (ti_accesses a). \<exists>y \<in> set (ti_accesses b). ta_is_store x \<and> \<not> ta_is_store y \<and> ta_address x = ta_address y))"
  unfolding search_memory_dependency_def Let_def
  by (intro conjI; (simp add: list_ex_iff image_iff; blast))

text \<open>
  Limits of the register dependency: an address that contains the letter of the normalised
  register counts as a use of it (RDI for RDX), and a register without a normalised name raises.
\<close>

lemma register_dependency_limits:
  "search_reg_dependency (add_op (new_instruction ''MOV'' False [] False) (RegisterOperand ''RDX'' 64 False True) False)
     (add_op (new_instruction ''MOV'' False [] False) (MemoryOperand ''R14 + RDI'' 64 True False) False) = Inr True"
  "search_reg_dependency (add_op (new_instruction ''MOV'' False [] False) (RegisterOperand ''RBP'' 64 False True) False)
     (new_instruction ''NOP'' False [] False) = Inl KeyError"
  by code_simp+

text \<open>
  \<open>get_brief\<close>, which the fuzzer calls in every round, raises when the instruction set has no
  pair of some kind, for instance no conditional branch.
\<close>

lemma get_brief_raises:
  assumes "\<forall>i \<in> set (iset_instructions iset). \<not> is_control_flow i"
  shows "get_brief (new_pair_coverage iset) = Inl ZeroDivisionError"
proof -
  have "calculate_max_coverage (iset_instructions iset) CONTROL_COND = 0"
    using assms by (simp add: calculate_max_coverage_def count_specs_def Let_def filter_empty_conv)
  then show ?thesis by (auto simp: get_brief_def new_pair_coverage_def)
qed

end
