(* ===== verification/Postprocessor.thy ===== *)
theory Postprocessor
  imports Fuzzer Asm_Text "HOL-Library.Sublist"
begin

text \<open>
  The minimisation of violations (\<^verbatim>\<open>src/src/postprocessor.py\<close>): lines of the assembly file are
  removed one at a time, from the end, as long as the violation is still there; fences are
  added in the same way. Writing the lines to a file, parsing it and loading the
  test case are functions of the record \<open>probe_env\<close>, next to those the fuzzer uses. The loop
  goes down to the line of the test case's entry; what it keeps is proved once for
  every modification of the lines in the locale \<open>line_modifier\<close>.
\<close>

subsection \<open>Surroundings\<close>

record ('i, 't, 'c, 's) probe_env =
  pe_fuzz :: "('i, 't, 's) fuzz_env"
  pe_parse :: "string list \<Rightarrow> 's \<Rightarrow> ('c \<times> 's) res"
  pe_load :: "'c \<Rightarrow> 's \<Rightarrow> 's res"
  pe_load_model :: "'c \<Rightarrow> 's \<Rightarrow> 's res"

subsection \<open>Checking for violations\<close>

text \<open>
  \<open>_get_all_violations\<close>. When priming is on, \<open>survives_priming\<close> is called without its argument
  \<open>timeout\<close> for the first violation, which raises.
\<close>

definition get_all_violations ::
    "('i, 't, 'c, 's) probe_env \<Rightarrow> fuzz_conf \<Rightarrow> 'c \<Rightarrow> 'i list \<Rightarrow> statistics \<times> 's \<Rightarrow>
     ('i equivalence_class list \<times> statistics \<times> 's) res" where
  "get_all_violations env conf test_case inputs = (\<lambda>(st, s).
     res_bind (pe_load env test_case s) (\<lambda>s.
     res_bind (fe_model_trace (pe_fuzz env) inputs (fc_model_max_nesting conf) s) (\<lambda>(ctraces, s).
     res_bind (fe_executor_trace (pe_fuzz env) inputs 0 s) (\<lambda>(htraces, s).
     res_bind (filter_violations (fe_analyser_hook (pe_fuzz env)) (fc_permit_subsets conf) inputs ctraces htraces True st s)
       (\<lambda>(st, s, _, violations).
     if violations = [] then Inr ([], st, s)
     else if fc_no_priming conf then Inr (violations, st, s)
     else Inl TypeError)))))"

subsection \<open>Probing\<close>

definition entry_line :: string where
  "entry_line = ''.test_case_enter:''"

text \<open>Lines that are never changed: empty ones, instrumentation, fences, labels and directives.\<close>

definition preserved :: "string \<Rightarrow> bool" where
  "preserved line \<longleftrightarrow> line = [] \<or> contains line ''instrumentation'' \<or> contains line ''LFENCE'' \<or> hd line = CHR ''.''"

text \<open>One round for the line at the cursor; \<open>True\<close> when the modified lines still show a violation.\<close>

definition still_violates ::
    "('i, 't, 'c, 's) probe_env \<Rightarrow> fuzz_conf \<Rightarrow> 'i list \<Rightarrow> string list \<Rightarrow> statistics \<times> 's \<Rightarrow> (bool \<times> statistics \<times> 's) res" where
  "still_violates env conf inputs lines = (\<lambda>(st, s).
     res_bind (pe_parse env lines s) (\<lambda>(test_case, s).
     res_bind (get_all_violations env conf test_case inputs (st, s)) (\<lambda>(violations, st, s).
     Inr (violations \<noteq> [], st, s))))"

text \<open>
  The loop counts the cursor down. Without a line of the entry it would go on with negative
  indices; \<open>fuel\<close> bounds the number of rounds and \<open>None\<close> means that it did not suffice.
\<close>

fun probe_loop ::
    "('i, 't, 'c, 's) probe_env \<Rightarrow> fuzz_conf \<Rightarrow> 'i list \<Rightarrow> (string list \<Rightarrow> int \<Rightarrow> string list) \<Rightarrow> nat \<Rightarrow> int \<Rightarrow> string list \<Rightarrow>
     statistics \<times> 's \<Rightarrow> (string list \<times> statistics \<times> 's) res option" where
  "probe_loop env conf inputs modifier 0 cursor instructions s = None"
| "probe_loop env conf inputs modifier (Suc fuel) cursor instructions s =
     (let cursor = cursor - 1 in
      case py_index instructions cursor of
        Inl e \<Rightarrow> Some (Inl e)
      | Inr raw \<Rightarrow>
          let line = strip raw in
          if line = entry_line then Some (Inr (instructions, s))
          else if preserved line then probe_loop env conf inputs modifier fuel cursor instructions s
          else let tmp_instructions = modifier instructions cursor in
            case still_violates env conf inputs tmp_instructions s of
              Inl e \<Rightarrow> Some (Inl e)
            | Inr (violates, s) \<Rightarrow>
                probe_loop env conf inputs modifier fuel cursor (if violates then tmp_instructions else instructions) s)"

definition probe_test_case ::
    "('i, 't, 'c, 's) probe_env \<Rightarrow> fuzz_conf \<Rightarrow> 'i list \<Rightarrow> (string list \<Rightarrow> int \<Rightarrow> string list) \<Rightarrow> nat \<Rightarrow> string list \<Rightarrow>
     statistics \<times> 's \<Rightarrow> ('c \<times> string list \<times> statistics \<times> 's) res option" where
  "probe_test_case env conf inputs modifier fuel instructions s =
     map_option (\<lambda>r. res_bind r (\<lambda>(lines, st, s).
       res_bind (pe_parse env lines s) (\<lambda>(test_case, s). Inr (test_case, lines, st, s))))
     (probe_loop env conf inputs modifier fuel (int (length instructions)) instructions s)"

definition skip_instruction :: "string list \<Rightarrow> int \<Rightarrow> string list" where
  "skip_instruction instructions i = slice_to instructions i @ slice_from instructions (i + 1)"

definition fence_line :: string where
  "fence_line = ''LFENCE'' @ [CHR 0x0A]"

definition push_fence :: "string list \<Rightarrow> int \<Rightarrow> string list" where
  "push_fence instructions i = slice_to instructions i @ [fence_line] @ slice_from instructions i"

subsection \<open>The whole minimisation\<close>

text \<open>
  \<open>minimize\<close> from the parsed test case and the inputs on. With a pair of pickled inputs
  (\<open>existing_pair\<close>) the inputs are used as they are, otherwise they are boosted. \<open>None\<close> inside the
  result is the early return when the violation does not show again.
\<close>

definition minimize ::
    "('i, 't, 'c, 's) probe_env \<Rightarrow> fuzz_conf \<Rightarrow> bool \<Rightarrow> bool \<Rightarrow> nat \<Rightarrow> 'c \<Rightarrow> string list \<Rightarrow> 'i list \<Rightarrow> statistics \<times> 's \<Rightarrow>
     (('c \<times> string list) option \<times> statistics \<times> 's) res option" where
  "minimize env conf existing_pair fences fuel test_case lines inputs = (\<lambda>(st, s).
     case (if existing_pair then Inr (inputs, s)
           else res_bind (pe_load_model env test_case s) (boost_inputs (pe_fuzz env) conf inputs (fc_model_max_nesting conf))) of
       Inl e \<Rightarrow> Some (Inl e)
     | Inr (boosted_inputs, s) \<Rightarrow>
         case get_all_violations env conf test_case boosted_inputs (st, s) of
           Inl e \<Rightarrow> Some (Inl e)
         | Inr (violations, st, s) \<Rightarrow>
             if violations = [] then Some (Inr (None, st, s))
             else case probe_test_case env conf boosted_inputs skip_instruction fuel lines (st, s) of
                None \<Rightarrow> None
              | Some (Inl e) \<Rightarrow> Some (Inl e)
              | Some (Inr (min_test_case, min_lines, st, s)) \<Rightarrow>
                  if \<not> fences then Some (Inr (Some (min_test_case, min_lines), st, s))
                  else map_option (\<lambda>r. res_bind r (\<lambda>(tc, ls, st, s). Inr (Some (tc, ls), st, s)))
                    (probe_test_case env conf boosted_inputs push_fence fuel min_lines (st, s)))"

subsection \<open>What probing keeps\<close>

text \<open>
  A modification of the lines at a position: it changes nothing before the position, and \<open>keeps\<close>
  relates the lines before and after it.
\<close>

locale line_modifier =
  fixes modifier :: "string list \<Rightarrow> int \<Rightarrow> string list"
    and keeps :: "string list \<Rightarrow> string list \<Rightarrow> bool"
  assumes prefix: "c < length xs \<Longrightarrow> take c (modifier xs (int c)) = take c xs"
    and keeps_step: "c < length xs \<Longrightarrow> \<not> preserved (strip (xs ! c)) \<Longrightarrow> keeps xs (modifier xs (int c))"
    and keeps_refl: "keeps xs xs"
    and keeps_trans: "keeps xs ys \<Longrightarrow> keeps ys zs \<Longrightarrow> keeps xs zs"
begin

lemma modifier_length: "c < length xs \<Longrightarrow> c \<le> length (modifier xs (int c))"
  using arg_cong [OF prefix, of c xs length] by simp

lemma modifier_nth: "h < c \<Longrightarrow> c < length xs \<Longrightarrow> modifier xs (int c) ! h = xs ! h"
  using arg_cong [OF prefix, of c xs "\<lambda>l. l ! h"] by simp

text \<open>
  With a line of the entry below the cursor, as many rounds as there are lines in between are
  enough, and a result is related to the lines at the start.
\<close>

lemma probe_loop_keeps:
  assumes "h < c" and "c \<le> length xs" and "strip (xs ! h) = entry_line" and "c - h \<le> fuel"
  shows "\<exists>r. probe_loop env conf inputs modifier fuel (int c) xs s = Some r \<and>
    (\<forall>ys s'. r = Inr (ys, s') \<longrightarrow> keeps xs ys \<and> take (h + 1) ys = take (h + 1) xs \<and>
       (ys = xs \<or> (\<exists>s1 s2. still_violates env conf inputs ys s1 = Inr (True, s2))))"
  using assms
proof (induction fuel arbitrary: c xs s)
  case (Suc fuel)
  define k where "k = c - 1"
  with Suc.prems have k: "int c - 1 = int k" "k < length xs" "h \<le> k" "c = Suc k" by auto
  let ?line = "strip (xs ! k)"
  show ?case
  proof (cases "?line = entry_line")
    case True
    with k show ?thesis by (simp add: py_index_def Let_def keeps_refl)
  next
    case other: False
    with Suc.prems(3) k(3) have hk: "h < k" by (metis le_neq_implies_less)
    show ?thesis
    proof (cases "preserved ?line")
      case True
      have "k \<le> length xs" "k - h \<le> fuel" using k Suc.prems by auto
      from Suc.IH [OF hk this(1) Suc.prems(3) this(2)] show ?thesis
        using True other k by (simp add: py_index_def Let_def)
    next
      case False
      let ?new = "modifier xs (int k)"
      have step: "probe_loop env conf inputs modifier (Suc fuel) (int c) xs s =
          (case still_violates env conf inputs ?new s of
             Inl e \<Rightarrow> Some (Inl e)
           | Inr (violates, s) \<Rightarrow> probe_loop env conf inputs modifier fuel (int k) (if violates then ?new else xs) s)"
        using False other k by (simp add: py_index_def Let_def)
      show ?thesis
      proof (cases "still_violates env conf inputs ?new s")
        case (Inl e)
        then show ?thesis unfolding step by simp
      next
        case (Inr vs)
        obtain v s1 where vs: "vs = (v, s1)" by (rule prod.exhaust)
        let ?xs = "if v then ?new else xs"
        have "take (h + 1) (take k ?new) = take (h + 1) (take k xs)" by (simp only: prefix [OF k(2)])
        then have pre: "take (h + 1) ?xs = take (h + 1) xs" using hk by simp
        have nth: "strip (?xs ! h) = entry_line" using modifier_nth [OF hk k(2)] Suc.prems(3) by simp
        have len: "k \<le> length ?xs" "k - h \<le> fuel" using modifier_length [OF k(2)] k Suc.prems by auto
        have kp: "keeps xs ?xs" using keeps_step [OF k(2) False] keeps_refl by simp
        have viol: "?xs = xs \<or> still_violates env conf inputs ?xs s = Inr (True, s1)" using Inr vs by simp
        from Suc.IH [OF hk len(1) nth len(2), of s1] obtain r where
          r: "probe_loop env conf inputs modifier fuel (int k) ?xs s1 = Some r"
          and pr: "\<forall>ys s'. r = Inr (ys, s') \<longrightarrow> keeps ?xs ys \<and> take (h + 1) ys = take (h + 1) ?xs \<and>
            (ys = ?xs \<or> (\<exists>s1 s2. still_violates env conf inputs ys s1 = Inr (True, s2)))"
          by blast
        have "probe_loop env conf inputs modifier (Suc fuel) (int c) xs s = Some r"
          unfolding step Inr vs using r by simp
        moreover have "keeps xs ys \<and> take (h + 1) ys = take (h + 1) xs \<and>
            (ys = xs \<or> (\<exists>s1 s2. still_violates env conf inputs ys s1 = Inr (True, s2)))" if "r = Inr (ys, s')" for ys s'
        proof -
          from pr that have ys: "keeps ?xs ys" "take (h + 1) ys = take (h + 1) ?xs"
            "ys = ?xs \<or> (\<exists>s1 s2. still_violates env conf inputs ys s1 = Inr (True, s2))" by blast+
          have "keeps xs ys" using kp ys(1) by (rule keeps_trans)
          moreover have "take (h + 1) ys = take (h + 1) xs" using ys(2) pre by (rule trans)
          moreover have "ys = xs \<or> (\<exists>s1 s2. still_violates env conf inputs ys s1 = Inr (True, s2))"
            using ys(3)
          proof
            assume "ys = ?xs"
            with viol show ?thesis by blast
          qed blast
          ultimately show ?thesis by blast
        qed
        ultimately show ?thesis by blast
      qed
    qed
  qed
qed simp

end

lemma slice_to_nat [simp]: "slice_to xs (int c) = take c xs"
  by (simp add: slice_to_def)

lemma slice_from_nat [simp]: "slice_from xs (int c) = drop c xs" "slice_from xs (int c + 1) = drop (Suc c) xs"
  by (simp_all add: slice_from_def nat_add_distrib)

text \<open>Removing a line keeps a subsequence with all preserved lines.\<close>

definition removes_lines :: "string list \<Rightarrow> string list \<Rightarrow> bool" where
  "removes_lines xs ys \<longleftrightarrow> subseq ys xs \<and> filter (\<lambda>l. preserved (strip l)) ys = filter (\<lambda>l. preserved (strip l)) xs"

text \<open>Adding fences keeps all lines that are no such fence.\<close>

definition adds_fences :: "string list \<Rightarrow> string list \<Rightarrow> bool" where
  "adds_fences xs ys \<longleftrightarrow> subseq xs ys \<and> filter (\<lambda>l. l \<noteq> fence_line) ys = filter (\<lambda>l. l \<noteq> fence_line) xs"

interpretation skip: line_modifier skip_instruction removes_lines
proof
  fix c and xs :: "string list"
  assume c: "c < length xs"
  show "take c (skip_instruction xs (int c)) = take c xs" using c by (simp add: skip_instruction_def)
  assume p: "\<not> preserved (strip (xs ! c))"
  have xs: "xs = take c xs @ xs ! c # drop (Suc c) xs" using c by (rule id_take_nth_drop)
  have "subseq (take c xs @ drop (Suc c) xs) (take c xs @ xs ! c # drop (Suc c) xs)"
    by (intro list_emb_append_mono) auto
  moreover have "filter (\<lambda>l. preserved (strip l)) (take c xs @ xs ! c # drop (Suc c) xs) =
      filter (\<lambda>l. preserved (strip l)) (take c xs @ drop (Suc c) xs)"
    using p by simp
  ultimately show "removes_lines xs (skip_instruction xs (int c))"
    unfolding removes_lines_def skip_instruction_def slice_to_nat slice_from_nat using xs by metis
next
  show "removes_lines xs zs" if "removes_lines xs ys" "removes_lines ys zs" for xs ys zs
    using that by (auto simp: removes_lines_def intro: subseq_order.trans)
qed (simp_all add: removes_lines_def)

interpretation fence: line_modifier push_fence adds_fences
proof
  fix c and xs :: "string list"
  assume c: "c < length xs"
  show "take c (push_fence xs (int c)) = take c xs" using c by (simp add: push_fence_def)
  have "subseq (take c xs @ drop c xs) (take c xs @ [fence_line] @ drop c xs)"
    by (intro list_emb_append_mono) auto
  then have "subseq xs (take c xs @ [fence_line] @ drop c xs)" by (simp only: append_take_drop_id)
  moreover have "filter (\<lambda>l. l \<noteq> fence_line) (take c xs @ [fence_line] @ drop c xs) =
      filter (\<lambda>l. l \<noteq> fence_line) (take c xs @ drop c xs)"
    by (simp only: filter_append) simp
  then have "filter (\<lambda>l. l \<noteq> fence_line) (take c xs @ [fence_line] @ drop c xs) = filter (\<lambda>l. l \<noteq> fence_line) xs"
    by (simp only: append_take_drop_id)
  ultimately show "adds_fences xs (push_fence xs (int c))"
    unfolding adds_fences_def push_fence_def slice_to_nat slice_from_nat append_take_drop_id by blast
next
  show "adds_fences xs zs" if "adds_fences xs ys" "adds_fences ys zs" for xs ys zs
    using that by (auto simp: adds_fences_def intro: subseq_order.trans)
qed (simp_all add: adds_fences_def)

subsection \<open>Properties\<close>

text \<open>
  C37. Minimisation ends and is sound. For a file with the line of the entry at position \<open>h\<close>, as many rounds as
  there are lines are enough; it raises only what parsing and measuring raise; and its
  result is a subsequence of the lines that has all labels, directives, fences and instrumentation,
  everything up to the entry, and that is either the original or was seen to violate the contract.
\<close>

theorem minimize_test_case_sound:
  assumes "h < length lines" and "strip (lines ! h) = entry_line" and "length lines \<le> fuel"
  shows "\<exists>r. probe_test_case env conf inputs skip_instruction fuel lines s = Some r \<and>
    (\<forall>test_case result s'. r = Inr (test_case, result, s') \<longrightarrow>
       subseq result lines \<and>
       filter (\<lambda>l. preserved (strip l)) result = filter (\<lambda>l. preserved (strip l)) lines \<and>
       take (h + 1) result = take (h + 1) lines \<and>
       (result = lines \<or> (\<exists>s1 s2. still_violates env conf inputs result s1 = Inr (True, s2))) \<and>
       (\<exists>s1 s2. pe_parse env result s1 = Inr (test_case, s2)))"
proof -
  have "length lines - h \<le> fuel" using assms(3) by simp
  from skip.probe_loop_keeps [OF assms(1) le_refl assms(2) this, of env conf inputs s] obtain r where
    r: "probe_loop env conf inputs skip_instruction fuel (int (length lines)) lines s = Some r"
    and pr: "\<forall>ys s'. r = Inr (ys, s') \<longrightarrow> removes_lines lines ys \<and> take (h + 1) ys = take (h + 1) lines \<and>
      (ys = lines \<or> (\<exists>s1 s2. still_violates env conf inputs ys s1 = Inr (True, s2)))"
    by blast
  show ?thesis
    unfolding probe_test_case_def r
    using pr by (auto simp: res_bind_Inr_iff removes_lines_def)
qed

definition ex_probe_env :: "(nat, unit, string list, string list) probe_env" where
  "ex_probe_env = \<lparr>pe_fuzz = \<lparr>fe_prepare = \<lambda>_ s. Inr ([7, 8], s), fe_load_test_case = \<lambda>s. Inr s,
     fe_get_taints = \<lambda>_ _ s. Inr ([], s), fe_extend = \<lambda>_ _. Inr [],
     fe_model_trace = \<lambda>is _ s. Inr (map (\<lambda>_. 5) is, s),
     fe_executor_trace = \<lambda>is _ s. Inr (map (\<lambda>i. if i = 7 \<and> ''LOAD'' \<in> set s then 1 else 2) is, s),
     fe_trace_priming = \<lambda>_ _ _ s. Inr (1, s), fe_bugged = \<lambda>_. False,
     fe_start_priming = \<lambda>s. s, fe_stop_priming = \<lambda>s. s,
     fe_analyser_hook = \<lambda>_ s. Inr s, fe_timeout = \<lambda>s. (False, s)\<rparr>,
     pe_parse = \<lambda>ls s. Inr (ls, s), pe_load = \<lambda>ls _. Inr ls, pe_load_model = \<lambda>ls _. Inr ls\<rparr>"

definition ex_probe_lines :: "string list" where
  "ex_probe_lines = [''.test_case_enter:'', ''.bb:'', ''LOAD'', ''NOP'', ''AND # instrumentation'', ''NOP'']"

theorem minimize_test_case_sound_witness:
  "probe_test_case ex_probe_env (ex_fuzz_conf\<lparr>fc_no_priming := True\<rparr>) [7, 8] skip_instruction 6 ex_probe_lines
     (statistics_init, []) \<noteq> None \<and>
   (let r = probe_test_case ex_probe_env (ex_fuzz_conf\<lparr>fc_no_priming := True\<rparr>) [7, 8] skip_instruction 6 ex_probe_lines
      (statistics_init, [])
    in map_option (map_sum id (fst \<circ> snd)) r = Some (Inr [''.test_case_enter:'', ''.bb:'', ''LOAD'', ''AND # instrumentation'']))"
proof
  show "probe_test_case ex_probe_env (ex_fuzz_conf\<lparr>fc_no_priming := True\<rparr>) [7, 8] skip_instruction 6 ex_probe_lines
     (statistics_init, []) \<noteq> None"
    using minimize_test_case_sound [of 0 ex_probe_lines 6 ex_probe_env "ex_fuzz_conf\<lparr>fc_no_priming := True\<rparr>" "[7, 8]"
      "(statistics_init, [])"]
    by (auto simp: ex_probe_lines_def entry_line_def strip_def is_space_def)
qed code_simp

text \<open>Adding fences ends in the same way and changes nothing but fences.\<close>

lemma add_fences_sound:
  assumes "h < length lines" and "strip (lines ! h) = entry_line" and "length lines \<le> fuel"
  shows "\<exists>r. probe_loop env conf inputs push_fence fuel (int (length lines)) lines s = Some r \<and>
    (\<forall>result s'. r = Inr (result, s') \<longrightarrow> subseq lines result \<and>
       filter (\<lambda>l. l \<noteq> fence_line) result = filter (\<lambda>l. l \<noteq> fence_line) lines)"
proof -
  have "length lines - h \<le> fuel" using assms(3) by simp
  from fence.probe_loop_keeps [OF assms(1) le_refl assms(2) this, of env conf inputs s]
  show ?thesis unfolding adds_fences_def by blast
qed

text \<open>
  With priming enabled (the default) nothing is ever minimised: as soon as the violation shows,
  the call of \<open>survives_priming\<close> raises.
\<close>

lemma minimize_raises_with_priming:
  assumes "get_all_violations env conf tc inputs s = Inr (violations, s')" and "\<not> fc_no_priming conf"
  shows "violations = []"
  using assms by (auto simp: get_all_violations_def res_bind_Inr_iff split: prod.splits if_splits)

end
