(* ===== verification/Protolib.thy ===== *)
theory Protolib
  imports Prelude
begin

text \<open>
  Length-prefixed messages (\<^verbatim>\<open>src/src/protolib.py\<close>): the varint that precedes every message and the
  functions that write and read one message. A file open for reading is the list of its
  remaining bytes; opening and unpacking it is I/O. Parsing the bytes of a message is protobuf's, an argument here.
  The lemmas show that what was written is read back, and that an empty message reads as the end of the file.
\<close>

type_synonym byte = "8 word"

subsection \<open>Varints\<close>

text \<open>
  The loop of \<open>_DecodeVarint32\<close>, with the rest of the file. \<open>None\<close> is the \<open>IOError\<close> for a varint
  that is too long; at the end of the file the result is \<open>(0, 0)\<close>.
\<close>

definition finish_varint :: "int \<Rightarrow> int" where
  "finish_varint result =
     (if result > 0x7fffffffffffffff then (result - 2 ^ 64) OR (NOT 0xffffffff) else result AND 0xffffffff)"

fun decode_loop :: "int \<Rightarrow> nat \<Rightarrow> nat \<Rightarrow> byte list \<Rightarrow> (int \<times> nat) option \<times> byte list" where
  "decode_loop result shift pos [] = (Some (0, 0), [])"
| "decode_loop result shift pos (c # rest) =
     (let b = uint c;
          result = result OR push_bit shift (b AND 0x7f);
          pos = pos + 1
      in if b AND 0x80 = 0 then (Some (finish_varint result, pos), rest)
         else let shift = shift + 7
              in if shift \<ge> 64 then (None, rest) else decode_loop result shift pos rest)"

definition decode_varint32 :: "byte list \<Rightarrow> (int \<times> nat) option \<times> byte list" where
  "decode_varint32 in_file = decode_loop 0 0 0 in_file"

text \<open>\<open>_EncodeVarint32\<close> for the lengths it is called with; each \<open>struct.pack\<close> writes one byte.\<close>

function encode_loop :: "nat \<Rightarrow> nat \<Rightarrow> byte list" where
  "encode_loop bits v =
     (if v = 0 then [of_nat bits]
      else of_nat (0x80 OR bits) # encode_loop (v AND 0x7f) (drop_bit 7 v))"
  by auto

termination
  by (relation "measure (\<lambda>(bits, v). v)") (auto simp: drop_bit_eq_div)

declare encode_loop.simps [simp del]

definition encode_varint32 :: "nat \<Rightarrow> byte list" where
  "encode_varint32 v = encode_loop (v AND 0x7f) (drop_bit 7 v)"

subsection \<open>Messages\<close>

text \<open>\<open>in_file.read(size)\<close>: everything for a negative size, and not more than there is.\<close>

definition file_read :: "int \<Rightarrow> byte list \<Rightarrow> byte list \<times> byte list" where
  "file_read k s = (if k < 0 then (s, []) else (take (nat k) s, drop (nat k) s))"

text \<open>\<open>decodeMessage\<close>: \<open>None\<close> for \<open>False\<close>, otherwise the parsed message.\<close>

definition decode_message :: "(byte list \<Rightarrow> 'm res) \<Rightarrow> byte list \<Rightarrow> ('m option \<times> byte list) res" where
  "decode_message parse in_file =
     (case decode_varint32 in_file of
        (None, rest) \<Rightarrow> Inr (None, rest)
      | (Some (k, pos), rest) \<Rightarrow>
          if k = 0 then Inr (None, rest)
          else let (buf, rest) = file_read k rest
               in res_bind (parse buf) (\<lambda>message. Inr (Some message, rest)))"

definition encode_message :: "('m \<Rightarrow> byte list) \<Rightarrow> 'm \<Rightarrow> byte list" where
  "encode_message serialize message = (let out = serialize message in encode_varint32 (length out) @ out)"

text \<open>\<open>while decodeMessage(in_file, message)\<close>: every message consumes at least one byte.\<close>

lemma decode_loop_consumes: "decode_loop r sh p s = (d, rest) \<Longrightarrow> length rest \<le> length s - 1"
proof (induction s arbitrary: r sh p)
  case (Cons c s)
  show ?case
  proof (cases "uint c AND 0x80 = 0 \<or> 64 \<le> sh + 7")
    case True
    with Cons.prems show ?thesis by (auto simp: Let_def split: if_splits)
  next
    case False
    with Cons.prems Cons.IH [of _ "sh + 7"] show ?thesis by (fastforce simp: Let_def)
  qed
qed simp

subsection \<open>Reading back a varint\<close>

lemma uint_byte: "n < 256 \<Longrightarrow> uint (of_nat n :: byte) = int n"
  by (simp add: uint_nat unsigned_of_nat take_bit_eq_mod)

lemma and_7f: "(a :: int) AND 0x7f = take_bit 7 a"
  by (simp add: take_bit_eq_mask mask_eq_exp_minus_1)

lemma and_80: "(a :: int) AND 0x80 = 0 \<longleftrightarrow> \<not> bit a 7"
  using and_exp_eq_0_iff_not_bit [of a 7] by simp

lemma last_byte:
  assumes "n < 128"
  shows "uint (of_nat n :: byte) AND 0x7f = int n" and "uint (of_nat n :: byte) AND 0x80 = 0"
proof -
  from assms show "uint (of_nat n :: byte) AND 0x7f = int n"
    by (simp add: uint_byte and_7f take_bit_eq_mod)
  from assms have "int n div 2 ^ 7 = 0" by simp
  with assms show "uint (of_nat n :: byte) AND 0x80 = 0"
    by (simp add: uint_byte and_80 bit_iff_odd)
qed

lemma more_byte:
  assumes "n < 128"
  shows "uint (of_nat (0x80 OR n) :: byte) AND 0x7f = int n" and "uint (of_nat (0x80 OR n) :: byte) AND 0x80 \<noteq> 0"
proof -
  have z: "n AND 0x80 = 0"
    using and_exp_eq_0_iff_not_bit [of n 7] assms by (simp add: bit_iff_odd)
  then have or: "0x80 OR n = 128 + n"
    using disjunctive_add_eq_or [of 128 n] by (simp add: and.commute)
  with assms have u: "uint (of_nat (0x80 OR n) :: byte) = 128 + int n" using uint_byte [of "128 + n"] by (simp only: or)
  from assms show "uint (of_nat (0x80 OR n) :: byte) AND 0x7f = int n"
    by (simp add: u and_7f take_bit_eq_mod)
  from assms have "(128 + int n) div 2 ^ 7 = 1" by simp
  then show "uint (of_nat (0x80 OR n) :: byte) AND 0x80 \<noteq> 0"
    by (simp add: u and_80 bit_iff_odd)
qed

lemma and_7f_less: "(v::nat) AND 0x7f < 128"
  using nat_and_le [of v 127] by simp

lemma split_low:
  "push_bit sh (int v) = push_bit sh (int (v AND 0x7f)) OR push_bit (sh + 7) (int (drop_bit 7 v))"
proof -
  have v: "int (v AND 0x7f) = take_bit 7 (int v)" by (simp add: of_nat_and_eq and_7f)
  show ?thesis
    unfolding v of_nat_drop_bit
  proof (rule bit_eqI)
    fix n
    have "\<not> n - sh < 7 \<Longrightarrow> sh \<le> n \<Longrightarrow> 7 + (n - (sh + 7)) = n - sh" by simp
    then show "bit (push_bit sh (int v)) n = bit (push_bit sh (take_bit 7 (int v)) OR push_bit (sh + 7) (drop_bit 7 (int v))) n"
      by (cases "sh \<le> n \<and> \<not> n - sh < 7") (auto simp: bit_simps)
  qed
qed

lemma and_7f_mod: "(v::nat) AND 0x7f = v mod 128"
  using take_bit_eq_mask [of 7 v] by (simp add: take_bit_eq_mod mask_eq_exp_minus_1)

lemma decode_encode_loop:
  "v < 2 ^ (63 - sh) \<Longrightarrow> sh < 63 \<Longrightarrow>
   \<exists>k. decode_loop r sh p (encode_loop (v AND 0x7f) (drop_bit 7 v) @ rest) =
     (Some (finish_varint (r OR push_bit sh (int v)), k), rest)"
proof (induction v arbitrary: r sh p rule: less_induct)
  case (less v)
  let ?w = "drop_bit 7 v" and ?b = "v AND 0x7f"
  show ?case
  proof (cases "?w = 0")
    case True
    then have "v AND 0x7f = v" by (simp add: and_7f_mod drop_bit_eq_div div_eq_0_iff)
    with True show ?thesis
      using last_byte [OF and_7f_less, of v] by (simp add: encode_loop.simps [of v 0] Let_def del: push_bit_and)
  next
    case False
    then have v: "128 \<le> v" "?w < v" by (simp_all add: drop_bit_eq_div div_eq_0_iff)
    have "sh + 7 < 63"
    proof (rule ccontr)
      assume "\<not> sh + 7 < 63"
      then have "(2::nat) ^ (63 - sh) \<le> 2 ^ 7" by (intro power_increasing) auto
      with less.prems(1) v(1) show False by simp
    qed
    then have "(2::nat) ^ (63 - sh) = 2 ^ (63 - (sh + 7)) * 128"
      using power_add [of "2::nat" "63 - (sh + 7)" 7] by simp
    with less.prems(1) have "?w < 2 ^ (63 - (sh + 7))" by (simp add: drop_bit_eq_div less_mult_imp_div_less)
    from less.IH [OF v(2) this \<open>sh + 7 < 63\<close>, of "r OR push_bit sh (int ?b)" "p + 1"] obtain k where
      "decode_loop (r OR push_bit sh (int ?b)) (sh + 7) (p + 1) (encode_loop (?w AND 0x7f) (drop_bit 7 ?w) @ rest) =
        (Some (finish_varint (r OR push_bit sh (int v)), k), rest)"
      by (auto simp: split_low [of sh v] or.assoc)
    moreover have "encode_loop ?b ?w = of_nat (0x80 OR ?b) # encode_loop (?w AND 0x7f) (drop_bit 7 ?w)"
      using False by (simp add: encode_loop.simps [of ?b ?w])
    ultimately show ?thesis
      using more_byte [OF and_7f_less, of v] \<open>sh + 7 < 63\<close> by (simp add: Let_def del: push_bit_and)
  qed
qed

lemma decode_encode_varint:
  assumes "v < 2 ^ 32"
  shows "\<exists>k. decode_varint32 (encode_varint32 v @ rest) = (Some (int v, k), rest)"
proof -
  have "finish_varint (0 OR push_bit 0 (int v)) = int v"
    using assms take_bit_eq_mask [of 32 "int v"]
    by (simp add: finish_varint_def take_bit_eq_mod mask_eq_exp_minus_1)
  then show ?thesis
    using decode_encode_loop [of v 0 0 0 rest] assms by (simp add: decode_varint32_def encode_varint32_def)
qed

subsection \<open>Properties\<close>

text \<open>
  C36. Messages survive the way through a file: if the bytes of a message are not empty, fewer than
  \<open>2 ^ 32\<close>, and parse back to the message, then reading the file that starts with the written
  message returns the message and leaves exactly what follows it.
\<close>

theorem message_roundtrip:
  assumes "serialize message \<noteq> []" and "length (serialize message) < 2 ^ 32"
    and "parse (serialize message) = Inr message"
  shows "decode_message parse (encode_message serialize message @ rest) = Inr (Some message, rest)"
proof -
  obtain k where "decode_varint32 (encode_varint32 (length (serialize message)) @ (serialize message @ rest)) =
      (Some (int (length (serialize message)), k), serialize message @ rest)"
    using decode_encode_varint [OF assms(2)] by blast
  with assms show ?thesis by (simp add: decode_message_def encode_message_def Let_def file_read_def)
qed

theorem message_roundtrip_witness:
  "decode_message (\<lambda>bs. Inr bs) (encode_message id (replicate 300 7) @ [1, 2]) = Inr (Some (replicate 300 7), [1, 2])"
  using message_roundtrip [of id "replicate 300 7" "\<lambda>bs. Inr bs" "[1, 2]"] by (simp only: id_apply) simp

text \<open>An empty message is written as a single zero byte and reads as the end of the file.\<close>

lemma empty_message_ends_file:
  "serialize message = [] \<Longrightarrow> decode_message parse (encode_message serialize message @ rest) = Inr (None, rest)"
  by (simp add: encode_message_def encode_varint32_def encode_loop.simps decode_message_def decode_varint32_def finish_varint_def)

end
