(* ===== verification/Config.thy ===== *)
theory Config
  imports Asm_Text
begin

text \<open>
  The parts of \<^verbatim>\<open>src/src/config.py\<close> that compute: setting an option and reading a size such as
  \<open>32kB\<close>. The options are the attributes of one object, a dictionary from names to values here; their
  defaults are data. The lemmas show what \<open>set\<close> accepts and that sizes are read as written.
\<close>

subsection \<open>Options\<close>

datatype conf_value = CInt int | CBool bool | CStr string | CList "string list" | CDict "(string \<times> string list) list" | CNone

type_synonym conf = "(string, conf_value) dict"

text \<open>
  \<open>value % 4096 != 0\<close>; the remainder of a boolean is that of 0 or 1, of anything but a number it
  raises (strings with conversion specifiers, which Python would format, are left out).
\<close>

fun misaligned :: "conf_value \<Rightarrow> bool res" where
  "misaligned (CInt n) = Inr (n mod 4096 \<noteq> 0)"
| "misaligned (CBool b) = Inr b"
| "misaligned _ = Inl TypeError"

definition conf_attr :: "conf \<Rightarrow> string \<Rightarrow> conf_value res" where
  "conf_attr conf name = (case map_of conf name of None \<Rightarrow> Inl AttributeError | Some v \<Rightarrow> Inr v)"

text \<open>\<open>self.instruction_blocklist.extend(value)\<close> on a list of strings; the characters of a string are its elements.\<close>

definition extend_blocklist :: "conf_value \<Rightarrow> conf \<Rightarrow> conf res" where
  "extend_blocklist value conf =
     res_bind (conf_attr conf ''instruction_blocklist'') (\<lambda>old.
     case old of
       CList xs \<Rightarrow>
         (case value of
            CList ys \<Rightarrow> Inr (AList.update ''instruction_blocklist'' (CList (xs @ ys)) conf)
          | CStr s \<Rightarrow> Inr (AList.update ''instruction_blocklist'' (CList (xs @ map (\<lambda>c. [c]) s)) conf)
          | CDict d \<Rightarrow> Inr (AList.update ''instruction_blocklist'' (CList (xs @ map fst d)) conf)
          | _ \<Rightarrow> Inl TypeError)
     | _ \<Rightarrow> Inl AttributeError)"

text \<open>
  \<open>set\<close>: the two exceptions for unknown names and wrong types are constructed but not raised,
  the check of the values is disabled, and the alignment is checked on the values before the update.
\<close>

definition conf_set :: "string \<Rightarrow> conf_value \<Rightarrow> conf \<Rightarrow> conf res" where
  "conf_set name value conf =
     res_bind (py_nth name 0) (\<lambda>c.
     if c = CHR ''_'' then Inl ConfigException
     else res_bind (conf_attr conf name) (\<lambda>_.
     res_bind (conf_attr conf ''input_main_region_size'') (\<lambda>main.
     res_bind (misaligned main) (\<lambda>m.
     res_bind (if m then Inr True
               else res_bind (conf_attr conf ''input_assist_region_size'') misaligned) (\<lambda>bad.
     if bad then Inl ConfigException
     else res_bind (if name = ''extended_instruction_blocklist'' then extend_blocklist value conf else Inr conf) (\<lambda>conf.
     Inr (AList.update name value conf)))))))"

definition sanity_check :: "conf \<Rightarrow> conf res" where
  "sanity_check conf =
     res_bind (conf_attr conf ''coverage_type'') (\<lambda>t.
     Inr (if t = CStr ''none'' then AList.update ''feedback_driven_generator'' (CBool False) conf else conf))"

subsection \<open>Sizes\<close>

definition decimal_digit :: "char \<Rightarrow> int" where
  "decimal_digit c = int (of_char c) - 48"

definition digits_value :: "string \<Rightarrow> int" where
  "digits_value s = fold (\<lambda>c n. 10 * n + decimal_digit c) s 0"

text \<open>\<open>int(s)\<close>: surrounding white space, a sign, and digits with single underscores between them.\<close>

definition digits_ok :: "string \<Rightarrow> bool" where
  "digits_ok s \<longleftrightarrow> list_all (\<lambda>g. g \<noteq> [] \<and> list_all is_digit g) (split_at (CHR ''_'') s)"

definition unsigned_int :: "string \<Rightarrow> int res" where
  "unsigned_int s = (if digits_ok s then Inr (digits_value (filter is_digit s)) else Inl ValueError)"

definition py_int :: "string \<Rightarrow> int res" where
  "py_int s =
     (case strip s of
        [] \<Rightarrow> Inl ValueError
      | c # cs \<Rightarrow>
          if c = CHR ''-'' then res_bind (unsigned_int cs) (\<lambda>n. Inr (- n))
          else if c = CHR ''+'' then unsigned_int cs
          else unsigned_int (c # cs))"

definition is_digit_string :: "string \<Rightarrow> bool" where
  "is_digit_string s \<longleftrightarrow> s \<noteq> [] \<and> list_all is_digit s"

definition drop_last :: "nat \<Rightarrow> string \<Rightarrow> string" where
  "drop_last k s = take (length s - k) s"

text \<open>\<open>parse_size_as_bytes\<close> for a string; an \<open>int\<close> is returned as it is.\<close>

definition parse_size :: "string \<Rightarrow> int res" where
  "parse_size s =
     (if is_digit_string s then py_int s
      else let s = lower s in
        if ends_with s ''kb'' then res_bind (py_int (drop_last 2 s)) (\<lambda>n. Inr (push_bit 10 n))
        else if ends_with s ''mb'' then res_bind (py_int (drop_last 2 s)) (\<lambda>n. Inr (push_bit 20 n))
        else if ends_with s ''gb'' then res_bind (py_int (drop_last 2 s)) (\<lambda>n. Inr (push_bit 30 n))
        else if ends_with s ''tb'' then res_bind (py_int (drop_last 2 s)) (\<lambda>n. Inr (push_bit 40 n))
        else if ends_with s ''b'' then py_int (drop_last 1 s)
        else Inl ValueError)"

definition parse_size_as_bytes :: "conf_value \<Rightarrow> int res" where
  "parse_size_as_bytes v =
     (case v of CInt n \<Rightarrow> Inr n | CStr s \<Rightarrow> parse_size s | _ \<Rightarrow> Inl AttributeError)"

subsection \<open>Reading what was written\<close>

lemma nat_str_chars:
  assumes "c \<in> set (nat_str n)"
  shows "is_digit c" and "\<not> is_space c" and "c \<noteq> CHR ''_''" and "c \<noteq> CHR ''-''" and "c \<noteq> CHR ''+''" and "lower_char c = c"
  using nat_str_digits [OF assms] by (auto simp: is_digit_def is_space_def lower_char_def)

lemma strip_no_space: "\<forall>c \<in> set s. \<not> is_space c \<Longrightarrow> strip s = s"
proof -
  have keep: "\<forall>c \<in> set s. \<not> is_space c \<Longrightarrow> dropWhile is_space s = s" for s by (cases s) auto
  assume "\<forall>c \<in> set s. \<not> is_space c"
  then show ?thesis by (simp add: strip_def keep)
qed

lemma split_at_absent: "d \<notin> set s \<Longrightarrow> split_at d s = [s]"
  by (induction s) auto

lemma digits_value_read: "(\<forall>c \<in> set s. is_digit c) \<Longrightarrow> fold (\<lambda>c n. 10 * n + decimal_digit c) s (int a) =
    int (foldl (\<lambda>a c. 10 * a + (of_char c - 48)) a s)"
proof (induction s arbitrary: a)
  case (Cons c s)
  then have "48 \<le> (of_char c :: nat)" by (simp add: is_digit_def)
  then have "10 * int a + decimal_digit c = int (10 * a + (of_char c - 48))" by (simp add: decimal_digit_def)
  with Cons show ?case by (simp del: of_nat_add of_nat_mult)
qed simp

lemma digits_value_nat_str: "digits_value (nat_str n) = int n"
  using digits_value_read [of "nat_str n" 0] nat_str_chars(1) read_decimal_nat_str [of n]
  by (simp add: digits_value_def read_decimal_def)

lemma unsigned_int_nat_str: "unsigned_int (nat_str n) = Inr (int n)"
proof -
  have "split_at (CHR ''_'') (nat_str n) = [nat_str n]" using nat_str_chars(3) by (intro split_at_absent) blast
  moreover have "filter is_digit (nat_str n) = nat_str n" using nat_str_chars(1) by (simp add: filter_id_conv)
  ultimately show ?thesis
    using nat_str_chars(1) [of _ n] by (auto simp: unsigned_int_def digits_ok_def list_all_iff digits_value_nat_str)
qed

lemma py_int_nat_str: "py_int (nat_str n) = Inr (int n)"
proof -
  have "strip (nat_str n) = nat_str n" using nat_str_chars(2) by (intro strip_no_space) blast
  moreover obtain c cs where c: "nat_str n = c # cs" by (cases "nat_str n") simp_all
  moreover have "c \<noteq> CHR ''-''" "c \<noteq> CHR ''+''" using nat_str_chars(4,5) [of c n] c by auto
  ultimately show ?thesis using unsigned_int_nat_str [of n] by (simp add: py_int_def)
qed

lemma lower_nat_str [simp]: "lower (nat_str n) = nat_str n"
  using nat_str_chars(6) by (auto simp: lower_def intro!: map_idI)

lemma lower_append [simp]: "lower (a @ b) = lower a @ lower b"
  by (simp add: lower_def)

lemma ends_with_append [simp]: "length p \<le> length s \<Longrightarrow> ends_with (t @ s) p = ends_with s p"
proof -
  have "length p \<le> length s \<Longrightarrow> starts_with (s @ t) p = starts_with s p" for s t p
    by (induction s p rule: starts_with.induct) auto
  then show "length p \<le> length s \<Longrightarrow> ends_with (t @ s) p = ends_with s p" by (simp add: ends_with_def)
qed

lemma drop_last_append [simp]: "length u = k \<Longrightarrow> drop_last k (s @ u) = s"
  by (simp add: drop_last_def)

definition size_units :: "(string \<times> nat) list" where
  "size_units = [('''', 0), (''B'', 0), (''kB'', 10), (''MB'', 20), (''GB'', 30), (''TB'', 40)]"

lemma lower_units: "lower ''kB'' = ''kb''" "lower ''MB'' = ''mb''" "lower ''GB'' = ''gb''" "lower ''TB'' = ''tb''" "lower ''B'' = ''b''"
  by code_simp+

lemma parse_size_unit:
  assumes "length (u :: string) = 2" and "lower u = v" and "last u = CHR ''B''"
  shows "parse_size (nat_str n @ u) =
    (if v = ''kb'' then Inr (int n * 2 ^ 10) else if v = ''mb'' then Inr (int n * 2 ^ 20)
     else if v = ''gb'' then Inr (int n * 2 ^ 30) else if v = ''tb'' then Inr (int n * 2 ^ 40)
     else parse_size (nat_str n @ u))"
proof -
  have "\<not> is_digit_string (nat_str n @ u)"
    using assms(1,3) by (cases u rule: rev_cases) (auto simp: is_digit_string_def is_digit_def)
  moreover have "length v = 2" using assms(1,2) by (auto simp: lower_def)
  moreover have "ends_with v p \<longleftrightarrow> v = p" if "length p = 2" for p
    using that \<open>length v = 2\<close> by (auto simp: ends_with_def length_Suc_conv numeral_2_eq_2)
  ultimately show ?thesis
    using assms(2) by (simp add: parse_size_def Let_def py_int_nat_str push_bit_eq_mult)
qed

lemma parse_size_bytes: "parse_size (nat_str n @ ''B'') = Inr (int n)"
proof -
  obtain xs d where x: "nat_str n = xs @ [d]" by (cases "nat_str n" rule: rev_cases) simp_all
  then have "is_digit d" using nat_str_chars(1) [of d n] by simp
  then have d: "d \<notin> set ''kmgt''" by (auto simp: is_digit_def)
  have nd: "\<not> is_digit_string (nat_str n @ ''B'')" by (simp add: is_digit_string_def is_digit_def)
  have "lower (nat_str n @ ''B'') = nat_str n @ ''b''"
    by (simp only: lower_append lower_nat_str lower_units)
  then have l: "lower (nat_str n @ ''B'') = xs @ [d, CHR ''b'']" by (simp add: x)
  have e: "ends_with (xs @ [d, CHR ''b'']) [c, CHR ''b''] \<longleftrightarrow> d = c" for c
    by (simp add: ends_with_def)
  have eb: "ends_with (xs @ [d, CHR ''b'']) ''b''" by (simp add: ends_with_def)
  have dl: "drop_last (Suc 0) (xs @ [d, CHR ''b'']) = nat_str n" by (simp add: drop_last_def x)
  show ?thesis
    using d unfolding parse_size_def Let_def l e by (simp add: nd eb dl py_int_nat_str)
qed

lemma parse_size_written:
  assumes "(u, k) \<in> set size_units"
  shows "parse_size (nat_str n @ u) = Inr (int n * 2 ^ k)"
proof -
  have "is_digit_string (nat_str n)" using nat_str_chars(1) by (auto simp: is_digit_string_def list_all_iff)
  then have "parse_size (nat_str n) = Inr (int n)" by (simp add: parse_size_def py_int_nat_str)
  moreover have "parse_size (nat_str n @ ''kB'') = Inr (int n * 2 ^ 10)"
    by (subst parse_size_unit [OF _ lower_units(1)]) simp_all
  moreover have "parse_size (nat_str n @ ''MB'') = Inr (int n * 2 ^ 20)"
    by (subst parse_size_unit [OF _ lower_units(2)]) simp_all
  moreover have "parse_size (nat_str n @ ''GB'') = Inr (int n * 2 ^ 30)"
    by (subst parse_size_unit [OF _ lower_units(3)]) simp_all
  moreover have "parse_size (nat_str n @ ''TB'') = Inr (int n * 2 ^ 40)"
    by (subst parse_size_unit [OF _ lower_units(4)]) simp_all
  ultimately show ?thesis
    using assms parse_size_bytes by (auto simp: size_units_def)
qed

subsection \<open>What \<open>set\<close> accepts\<close>

text \<open>
  The alignment is checked too late: a region size that is not a multiple of the page size is
  accepted, and every later call of \<open>set\<close>, also one that would correct it, raises.
\<close>

lemma misaligned_accepted:
  assumes "map_of conf ''input_main_region_size'' = Some (CInt m)" and "m mod 4096 = 0"
    and "map_of conf ''input_assist_region_size'' = Some (CInt a)" and "a mod 4096 = 0" and "v mod 4096 \<noteq> 0"
  shows "\<exists>conf'. conf_set ''input_main_region_size'' (CInt v) conf = Inr conf' \<and>
    (\<forall>name val. name \<noteq> [] \<and> hd name \<noteq> CHR ''_'' \<and> map_of conf' name \<noteq> None \<longrightarrow>
       conf_set name val conf' = Inl ConfigException)"
proof -
  let ?c = "AList.update ''input_main_region_size'' (CInt v) conf"
  have "conf_set ''input_main_region_size'' (CInt v) conf = Inr ?c"
    using assms(1-4) by (simp add: conf_set_def conf_attr_def)
  moreover have "conf_set name val ?c = Inl ConfigException"
    if "name \<noteq> []" "hd name \<noteq> CHR ''_''" "map_of ?c name \<noteq> None" for name val
  proof -
    from that(3) obtain w where "conf_attr ?c name = Inr w" by (auto simp: conf_attr_def split: option.splits)
    moreover have "conf_attr ?c ''input_main_region_size'' = Inr (CInt v)" by (simp add: conf_attr_def)
    ultimately show ?thesis using that(1,2) assms(5) by (simp add: conf_set_def hd_conv_nth)
  qed
  ultimately show ?thesis by blast
qed

text \<open>A value of any type is accepted for a known name: the exception for a wrong type is not raised.\<close>

lemma wrong_type_accepted:
  assumes "map_of conf ''input_main_region_size'' = Some (CInt 4096)" and "map_of conf ''input_assist_region_size'' = Some (CInt 4096)"
    and "map_of conf ''max_bb_per_function'' = Some (CInt n)"
  shows "conf_set ''max_bb_per_function'' (CStr s) conf = Inr (AList.update ''max_bb_per_function'' (CStr s) conf)"
  using assms by (simp add: conf_set_def conf_attr_def)

end
