(* ===== verification/Ipc.thy ===== *)
theory Ipc
  imports Protolib Config Input_Gen
begin

text \<open>
  The exchange with gem5 over a socket (\<^verbatim>\<open>src/src/ipc_orchestration.py\<close>): the hash that confirms
  a transfer, the reading of a fixed number of bytes, the pool of gem5 processes and the requests for a test
  case and an input. What gem5 sends is the list of events a connection delivers; the operating
  system's part (process ids, which socket becomes readable, the contents of files) is an argument. An
  operation returns its result or exception with the state it leaves. Writing to the socket succeeds here,
  and texts are ASCII.
\<close>

subsection \<open>Operation codes\<close>

definition OP_INIT :: int where "OP_INIT = 0xd09e95bc2c73ad66"
definition OP_ACK_INIT :: int where "OP_ACK_INIT = 0xc4f991d25774a0ac"
definition OP_LOAD_TEST_CASE :: int where "OP_LOAD_TEST_CASE = 0xf06e27858611c27a"
definition OP_ACK_TEST_CASE :: int where "OP_ACK_TEST_CASE = 0x847431e37076fb26"
definition OP_TRACE_TEST_CASE :: int where "OP_TRACE_TEST_CASE = 0x9ca711a73355bea"
definition OP_ACK_TRACE_TEST_CASE :: int where "OP_ACK_TRACE_TEST_CASE = 0xc1f8bc29862ef946"
definition OP_RESET_LOG :: int where "OP_RESET_LOG = 0x7e310c4276780c9b"
definition OP_GET_BRANCH_PREDICTOR_STATE :: int where "OP_GET_BRANCH_PREDICTOR_STATE = 0x98df1da695dd7afe"
definition OP_ACK_BRANCH_PREDICTOR_STATE :: int where "OP_ACK_BRANCH_PREDICTOR_STATE = 0x7d5cc0725ba80cf4"
definition OP_RESET_BRANCH_PREDICTOR :: int where "OP_RESET_BRANCH_PREDICTOR = 0xcd0b48f441b827af"
definition OP_ENABLE_BRANCH_PREDICTION_LOG :: int where "OP_ENABLE_BRANCH_PREDICTION_LOG = 0x3604820624f5dd0a"
definition OP_GET_BRANCH_PREDICTION_LOG :: int where "OP_GET_BRANCH_PREDICTION_LOG = 0xa0ce930078391e8d"
definition OP_ACK_BRANCH_PREDICTION_LOG :: int where "OP_ACK_BRANCH_PREDICTION_LOG = 0xfccf2948b05f1841"
definition OP_ENABLE_ACCESS_LOG :: int where "OP_ENABLE_ACCESS_LOG = 0x705c94b0572c79e2"
definition OP_GET_ACCESS_LOG :: int where "OP_GET_ACCESS_LOG = 0x6cedeb82908d6957"
definition OP_ACK_ACCESS_LOG :: int where "OP_ACK_ACCESS_LOG = 0xa0e9b9ce1b96279d"
definition OP_RESET_COMMIT_LOG :: int where "OP_RESET_COMMIT_LOG = 0xdeadbeefbaddecaf"
definition OP_GET_COMMIT_LOG :: int where "OP_GET_COMMIT_LOG = 0xfeedfacefeedface"

definition CODE_ADDR_START :: int where "CODE_ADDR_START = 0x402000"
definition CODE_ADDR_END :: int where "CODE_ADDR_END = 0x402200"

lemmas op_codes =
  OP_INIT_def OP_ACK_INIT_def OP_LOAD_TEST_CASE_def OP_ACK_TEST_CASE_def OP_TRACE_TEST_CASE_def
  OP_ACK_TRACE_TEST_CASE_def OP_RESET_LOG_def OP_GET_BRANCH_PREDICTOR_STATE_def
  OP_ACK_BRANCH_PREDICTOR_STATE_def OP_RESET_BRANCH_PREDICTOR_def OP_ENABLE_BRANCH_PREDICTION_LOG_def
  OP_GET_BRANCH_PREDICTION_LOG_def OP_ACK_BRANCH_PREDICTION_LOG_def OP_ENABLE_ACCESS_LOG_def
  OP_GET_ACCESS_LOG_def OP_ACK_ACCESS_LOG_def OP_RESET_COMMIT_LOG_def OP_GET_COMMIT_LOG_def

subsection \<open>Hashes\<close>

definition hash_bytes :: "byte list \<Rightarrow> int" where
  "hash_bytes bytes =
     fold (\<lambda>byte h. ((h + uint byte) * 0x21f782547ea34f3d) AND 0xffffffffffffffff) bytes 0xbb7524eafb93804b"

text \<open>\<open>tobytes()\<close> of an array of 64-bit words on a little-endian machine, and the hash of an input.\<close>

definition word_bytes :: "64 word \<Rightarrow> byte list" where
  "word_bytes w = map (\<lambda>i. ucast (drop_bit (8 * i) w)) [0..<8]"

definition input_bytes :: "input_layout \<Rightarrow> input \<Rightarrow> byte list" where
  "input_bytes il i = concat (map word_bytes (take (data_size il) (in_words i)))"

definition hash_input :: "input_layout \<Rightarrow> input \<Rightarrow> int" where
  "hash_input il i = (if il_main il \<le> 32768 then hash_bytes (input_bytes il i) else 0)"

subsection \<open>Packing\<close>

text \<open>\<open>struct.pack('Q...')\<close> and \<open>struct.unpack('Q...')\<close> for a number of 64-bit fields.\<close>

definition pack_q :: "int list \<Rightarrow> byte list res" where
  "pack_q ns =
     (if list_all (\<lambda>n. 0 \<le> n \<and> n < 2 ^ 64) ns then Inr (concat (map (\<lambda>n. word_bytes (word_of_int n)) ns))
      else Inl StructError)"

definition bytes_value :: "byte list \<Rightarrow> int" where
  "bytes_value bs = foldr (\<lambda>b n. uint b + 256 * n) bs 0"

fun unpack_fields :: "nat \<Rightarrow> byte list \<Rightarrow> int list" where
  "unpack_fields 0 bs = []"
| "unpack_fields (Suc k) bs = bytes_value (take 8 bs) # unpack_fields k (drop 8 bs)"

definition unpack_q :: "nat \<Rightarrow> byte list \<Rightarrow> int list res" where
  "unpack_q k bs = (if length bs = 8 * k then Inr (unpack_fields k bs) else Inl StructError)"

subsection \<open>Reading from the connection\<close>

text \<open>
  What \<open>select\<close> with its timeout of one second finds at each call: nothing, or bytes that are
  ready, of which \<open>recv(count)\<close> takes at most \<open>count\<close>. No bytes mean that gem5 closed its end, which stays so; after
  the last event nothing arrives any more, and the time limit is reached.
\<close>

datatype poll = Idle | Ready "byte list"

fun recv_loop :: "nat \<Rightarrow> byte list \<Rightarrow> nat \<Rightarrow> poll list \<Rightarrow> byte list res \<times> poll list" where
  "recv_loop time_spent data count [] = (Inl Gem5Crash, [])"
| "recv_loop time_spent data count (e # es) =
     (if time_spent \<ge> 120 then (Inl Gem5Crash, e # es)
      else case e of
        Idle \<Rightarrow> recv_loop (time_spent + 1) data count es
      | Ready ready \<Rightarrow>
          let buf = take count ready in
          if buf = [] then (Inl Gem5Crash, e # es)
          else if length buf = count
               then (Inr (data @ buf), if length ready = count then es else Ready (drop count ready) # es)
               else recv_loop time_spent (data @ buf) (count - length buf) es)"

definition recv :: "nat \<Rightarrow> poll list \<Rightarrow> byte list res \<times> poll list" where
  "recv count es = recv_loop 0 [] count es"

subsection \<open>State\<close>

text \<open>
  The attributes of the orchestration object. A process is named by its id, a socket by its number; \<open>started\<close>
  and \<open>killed\<close> record the effects on the operating system, \<open>conn_in\<close> what the connection still
  delivers, \<open>conn_out\<close> what was sent on it. \<open>last_case\<close> is the path of the last test case.
\<close>

record orch =
  processes :: "nat list"
  active_process :: nat
  last_case :: "string option"
  socket_number :: nat
  sockets :: "(nat, nat) dict"
  started :: "(nat \<times> string list) list"
  killed :: "nat list"
  conn_in :: "poll list"
  conn_out :: "byte list"

type_synonym 'a io = "orch \<Rightarrow> 'a res \<times> orch"

definition io_return :: "'a \<Rightarrow> 'a io" where
  "io_return x s = (Inr x, s)"

definition io_res :: "'a res \<Rightarrow> 'a io" where
  "io_res r s = (r, s)"

definition io_bind :: "'a io \<Rightarrow> ('a \<Rightarrow> 'b io) \<Rightarrow> 'b io" where
  "io_bind m f s = (case m s of (Inl e, t) \<Rightarrow> (Inl e, t) | (Inr x, t) \<Rightarrow> f x t)"

definition send :: "byte list \<Rightarrow> unit io" where
  "send data s = (Inr (), s\<lparr>conn_out := conn_out s @ data\<rparr>)"

definition recv_io :: "nat \<Rightarrow> byte list io" where
  "recv_io count s = (case recv count (conn_in s) of (r, es) \<Rightarrow> (r, s\<lparr>conn_in := es\<rparr>))"

text \<open>\<open>send(struct.pack(...) + data)\<close>, and \<open>struct.unpack(..., recv(...))\<close> with the fields it reads.\<close>

definition send_q :: "int list \<Rightarrow> byte list \<Rightarrow> unit io" where
  "send_q ns data = io_bind (io_res (pack_q ns)) (\<lambda>head. send (head @ data))"

definition recv_q :: "nat \<Rightarrow> int list io" where
  "recv_q k = io_bind (recv_io (8 * k)) (\<lambda>bs. io_res (unpack_q k bs))"

definition io_check :: "bool \<Rightarrow> py_error \<Rightarrow> unit io" where
  "io_check b e = io_res (if b then Inr () else Inl e)"

text \<open>\<open>bytes.decode()\<close> of ASCII text; other bytes count as an error.\<close>

definition decode_text :: "byte list \<Rightarrow> string res" where
  "decode_text bs =
     (if list_all (\<lambda>b. uint b < 128) bs then Inr (map (\<lambda>b. char_of (unat b)) bs) else Inl ValueError)"

subsection \<open>Construction\<close>

record ipc_conf =
  ic_parallelism :: nat
  ic_analysis_run :: bool
  ic_show_output :: bool
  ic_enable_assist_page :: bool

definition no_orch :: orch where
  "no_orch = \<lparr>processes = [], active_process = 0, last_case = None, socket_number = 0, sockets = [],
     started = [], killed = [], conn_in = [], conn_out = []\<rparr>"

definition orch_init :: "ipc_conf \<Rightarrow> input_layout \<Rightarrow> (ipc_conf \<times> orch) res" where
  "orch_init conf il =
     res_bind (py_assert (0 < ic_parallelism conf)) (\<lambda>_.
     let conf = (if ic_analysis_run conf then conf\<lparr>ic_parallelism := 1\<rparr> else conf) in
     res_bind (py_assert (il_assist il \<noteq> 0 \<and> ic_enable_assist_page conf)) (\<lambda>_.
     Inr (conf, no_orch)))"

subsection \<open>Test cases\<close>

text \<open>\<open>files\<close> gives the contents of the binary of a test case.\<close>

definition load_test_case :: "(string \<Rightarrow> byte list option) \<Rightarrow> string \<Rightarrow> unit io" where
  "load_test_case files path s =
     (let s = s\<lparr>last_case := Some path\<rparr> in
      if active_process s = 0 then (Inr (), s)
      else case files path of
        None \<Rightarrow> (Inl FileNotFoundError, s)
      | Some case_bytes \<Rightarrow>
          io_bind (send_q [OP_LOAD_TEST_CASE, int (length case_bytes)] case_bytes) (\<lambda>_.
          io_bind (recv_q 2) (\<lambda>fields.
          io_bind (io_check (fields ! 0 = OP_ACK_TEST_CASE) ValueError) (\<lambda>_.
          io_check (fields ! 1 = hash_bytes case_bytes) ValueError))) s)"

subsection \<open>The pool of processes\<close>

text \<open>
  A new process: its socket gets the next number, the argument \<open>SOCKET\<close> of the command is replaced by
  the name of the socket (a hash of the number and the time), and the process is entered under the id
  \<open>pid\<close> that \<open>Popen\<close> returns.
\<close>

definition socket_command :: "(nat \<Rightarrow> string) \<Rightarrow> nat \<Rightarrow> string list \<Rightarrow> string list res" where
  "socket_command socket_name k cmd =
     (if ''SOCKET'' \<in> set cmd
      then Inr (takeWhile (\<lambda>a. a \<noteq> ''SOCKET'') cmd @ [socket_name k] @ tl (dropWhile (\<lambda>a. a \<noteq> ''SOCKET'') cmd))
      else Inl ValueError)"

definition start_new_gem5_process :: "ipc_conf \<Rightarrow> (nat \<Rightarrow> string) \<Rightarrow> string list \<Rightarrow> nat \<Rightarrow> unit io" where
  "start_new_gem5_process conf socket_name cmd pid s =
     (if ic_analysis_run conf \<and> ic_parallelism conf > 1 then (Inl AssertionError, s)
      else let k = socket_number s;
               s = s\<lparr>socket_number := k + 1\<rparr>
           in case socket_command socket_name k cmd of
                Inl e \<Rightarrow> (Inl e, s)
              | Inr cmd \<Rightarrow>
                  (Inr (), s\<lparr>processes := (if pid \<in> set (processes s) then processes s else processes s @ [pid]),
                             sockets := AList.update pid k (sockets s),
                             started := started s @ [(pid, cmd)]\<rparr>))"

text \<open>
  The loop that fills the pool; \<open>pids\<close> are the ids of the processes the system creates, and when it creates
  no more \<open>Popen\<close> raises.
\<close>

fun fill_pool :: "ipc_conf \<Rightarrow> (nat \<Rightarrow> string) \<Rightarrow> string list \<Rightarrow> nat list \<Rightarrow> unit io" where
  "fill_pool conf socket_name cmd [] s =
     (if length (processes s) < ic_parallelism conf then (Inl IOError, s) else (Inr (), s))"
| "fill_pool conf socket_name cmd (pid # pids) s =
     (if length (processes s) < ic_parallelism conf
      then io_bind (start_new_gem5_process conf socket_name cmd pid) (\<lambda>_. fill_pool conf socket_name cmd pids) s
      else (Inr (), s))"

definition kill_active :: "unit io" where
  "kill_active s =
     (let p = active_process s in
      if p = 0 then (Inr (), s)
      else if p \<notin> set (processes s) then (Inl KeyError, s)
      else let s = s\<lparr>killed := killed s @ [p], processes := filter (\<lambda>q. q \<noteq> p) (processes s)\<rparr>
           in if p \<notin> fst ` set (sockets s) then (Inl KeyError, s)
              else (Inr (), s\<lparr>sockets := filter (\<lambda>(q, k). q \<noteq> p) (sockets s), active_process := 0\<rparr>))"

text \<open>
  After the connection is accepted: the process announces its id, becomes the active one and gets
  the last test case again.
\<close>

definition activate :: "(string \<Rightarrow> byte list option) \<Rightarrow> nat \<Rightarrow> unit io" where
  "activate files pid s =
     (if pid \<notin> set (processes s) then (Inl AssertionError, s)
      else let s = s\<lparr>active_process := pid\<rparr>
           in case last_case s of None \<Rightarrow> (Inr (), s) | Some path \<Rightarrow> load_test_case files path s)"

definition connect :: "(string \<Rightarrow> byte list option) \<Rightarrow> unit io" where
  "connect files =
     io_bind (send_q [OP_INIT] []) (\<lambda>_.
     io_bind (recv_q 2) (\<lambda>fields.
     io_bind (io_check (fields ! 0 = OP_ACK_INIT) ValueError) (\<lambda>_.
     activate files (nat (fields ! 1)))))"

text \<open>
  \<open>restart_gem5\<close>: \<open>ready\<close> is the socket \<open>select\<close> returns first, if any becomes readable within a
  minute, and \<open>accept\<close> what the connection accepted on it delivers.
\<close>

definition restart_gem5 ::
    "ipc_conf \<Rightarrow> (nat \<Rightarrow> string) \<Rightarrow> (string \<Rightarrow> byte list option) \<Rightarrow> nat list \<Rightarrow> nat option \<Rightarrow> (nat \<Rightarrow> poll list)
     \<Rightarrow> string list \<Rightarrow> unit io" where
  "restart_gem5 conf socket_name files pids ready accept cmd =
     io_bind kill_active (\<lambda>_.
     io_bind (fill_pool conf socket_name cmd pids) (\<lambda>_ s.
     case ready of
       None \<Rightarrow> (Inl TimeoutError, s)
     | Some sock \<Rightarrow> connect files (s\<lparr>conn_in := accept sock, conn_out := []\<rparr>)))"

text \<open>The destructor kills every process and closes every socket.\<close>

definition orch_del :: "orch \<Rightarrow> orch" where
  "orch_del s = s\<lparr>killed := killed s @ processes s\<rparr>"

subsection \<open>Logs\<close>

text \<open>
  The first match of \<open>pc:(0x[0-9a-f]+)\<close> in an entry, as a number; without a match the attribute access on
  \<open>None\<close> raises.
\<close>

definition low_hex_value :: "char \<Rightarrow> int" where
  "low_hex_value c = (if is_digit c then decimal_digit c else int (of_char c) - 87)"

definition hex_value :: "string \<Rightarrow> int" where
  "hex_value s = fold (\<lambda>c n. 16 * n + low_hex_value c) s 0"

fun search_pc :: "string \<Rightarrow> int res" where
  "search_pc [] = Inl AttributeError"
| "search_pc (c # s) =
     (if starts_with (c # s) ''pc:0x'' \<and> takeWhile is_hex_digit (drop 5 (c # s)) \<noteq> []
      then Inr (hex_value (takeWhile is_hex_digit (drop 5 (c # s))))
      else search_pc s)"

text \<open>\<open>entry[entry.index(','):]\<close> after the check of the prefix.\<close>

definition drop_timing :: "string \<Rightarrow> string res" where
  "drop_timing entry =
     (if \<not> starts_with entry ''tick:'' then Inl AssertionError
      else if CHR '','' \<notin> set entry then Inl ValueError
      else Inr (dropWhile (\<lambda>c. c \<noteq> CHR '','') entry))"

definition filter_entry :: "bool \<Rightarrow> string \<Rightarrow> string list \<Rightarrow> string list res" where
  "filter_entry timing entry filtered =
     (if entry = [] then Inr filtered
      else res_bind (search_pc entry) (\<lambda>pc.
           res_bind (if timing then Inr entry else drop_timing entry) (\<lambda>entry.
           Inr (if CODE_ADDR_START \<le> pc \<and> pc < CODE_ADDR_END then filtered @ [entry] else filtered))))"

definition filter_log :: "bool \<Rightarrow> string \<Rightarrow> string res" where
  "filter_log timing log =
     res_bind (res_fold (filter_entry timing) (split_at (CHR '';'') log) []) (\<lambda>filtered. Inr (join '';'' filtered))"

subsection \<open>Tracing\<close>

text \<open>A request for a text: the operation is sent, its acknowledgement gives the length.\<close>

definition request :: "int \<Rightarrow> int \<Rightarrow> byte list io" where
  "request op ack =
     io_bind (send_q [op] []) (\<lambda>_.
     io_bind (recv_q 2) (\<lambda>fields.
     io_bind (io_check (fields ! 0 = ack) ValueError) (\<lambda>_.
     recv_io (nat (fields ! 1)))))"

definition io_when :: "bool \<Rightarrow> 'a io \<Rightarrow> 'a \<Rightarrow> 'a io" where
  "io_when b m x = (if b then m else io_return x)"

definition bp_section :: "string io" where
  "bp_section =
     io_bind (request OP_GET_BRANCH_PREDICTOR_STATE OP_ACK_BRANCH_PREDICTOR_STATE) (\<lambda>bs.
     io_bind (io_res (decode_text bs)) (\<lambda>state. io_return ([CHR 0x0A] @ state @ [CHR 0x0A])))"

definition log_section :: "int \<Rightarrow> int \<Rightarrow> string \<Rightarrow> bool \<Rightarrow> string io" where
  "log_section op ack name timing =
     io_bind (request op ack) (\<lambda>bs.
     io_bind (io_res (decode_text bs)) (\<lambda>log.
     io_bind (io_res (filter_log timing log)) (\<lambda>filtered.
     io_return ([CHR 0x0A] @ ''['' @ name @ '']'' @ [CHR 0x0A] @ ''log = '' @ filtered @ [CHR 0x0A]))))"

definition commit_section :: "string io" where
  "commit_section =
     io_bind (request OP_GET_COMMIT_LOG OP_GET_COMMIT_LOG) (\<lambda>bs.
     io_bind (io_check (length bs = 8) ValueError) (\<lambda>_.
     io_return ([CHR 0x0A] @ ''[commit]'' @ [CHR 0x0A] @ ''log = '' @ nat_str (nat (bytes_value bs)) @ [CHR 0x0A])))"

definition trace_test_case :: "input_layout \<Rightarrow> input \<Rightarrow> string list \<Rightarrow> string io" where
  "trace_test_case il inp sources =
     (let src_bp_state = (''branch_pred_state'' \<in> set sources);
          src_predictions = (''branch_predictions'' \<in> set sources);
          src_predictions_timing = (''branch_predictions_timing'' \<in> set sources);
          src_access_timing = (''access_timing'' \<in> set sources);
          src_access_order = (''access_order'' \<in> set sources);
          src_commit = (''commit'' \<in> set sources);
          input_hash = hash_input il inp;
          bytes = input_bytes il inp
      in io_bind (io_when (src_bp_state \<or> src_predictions \<or> src_predictions_timing)
                   (send_q [OP_RESET_BRANCH_PREDICTOR] []) ()) (\<lambda>_.
         io_bind (io_when (src_predictions \<or> src_predictions_timing) (send_q [OP_ENABLE_BRANCH_PREDICTION_LOG] []) ()) (\<lambda>_.
         io_bind (io_when (src_access_timing \<or> src_access_order) (send_q [OP_ENABLE_ACCESS_LOG] []) ()) (\<lambda>_.
         io_bind (io_when src_commit (send_q [OP_RESET_COMMIT_LOG] []) ()) (\<lambda>_.
         io_bind (send_q [OP_TRACE_TEST_CASE, int (length bytes), int (register_start il * 8), input_hash] bytes) (\<lambda>_.
         io_bind (recv_q 3) (\<lambda>fields.
         io_bind (io_check (fields ! 0 = OP_ACK_TRACE_TEST_CASE) ValueError) (\<lambda>_.
         io_bind (io_check (fields ! 1 = input_hash) ValueError) (\<lambda>_.
         io_bind (recv_io (nat (fields ! 2))) (\<lambda>tags.
         io_bind (io_res (decode_text tags)) (\<lambda>trace.
         io_bind (io_when src_bp_state bp_section []) (\<lambda>bp.
         io_bind (io_when (src_predictions \<or> src_predictions_timing)
                   (log_section OP_GET_BRANCH_PREDICTION_LOG OP_ACK_BRANCH_PREDICTION_LOG ''branchPredictionLog''
                     src_predictions_timing) []) (\<lambda>preds.
         io_bind (io_when (src_access_order \<or> src_access_timing)
                   (log_section OP_GET_ACCESS_LOG OP_ACK_ACCESS_LOG ''accessLog'' src_access_timing) []) (\<lambda>accs.
         io_bind (io_when src_commit commit_section []) (\<lambda>com.
         io_return (trace @ bp @ preds @ accs @ com))))))))))))))))"

definition reset_log :: "unit io" where
  "reset_log = send_q [OP_RESET_LOG] []"

text \<open>
  \<open>get_gem5_output\<close> on the lines the process still writes: at the end of the stream \<open>readline\<close>
  returns the empty line again and again, and the loop never ends (\<open>None\<close>).
\<close>

definition reset_marker :: string where
  "reset_marker = ''--- RESET ---'' @ [CHR 0x0A]"

fun output_loop :: "string list \<Rightarrow> string list \<Rightarrow> (string \<times> string list) option" where
  "output_loop lines [] = None"
| "output_loop lines (line # rest) =
     (if line = reset_marker then Some (concat lines, rest) else output_loop (lines @ [line]) rest)"

definition get_gem5_output :: "ipc_conf \<Rightarrow> string list \<Rightarrow> (string \<times> string list) option" where
  "get_gem5_output conf stdout = (if ic_show_output conf then Some ([], stdout) else output_loop [] stdout)"

subsection \<open>Hashes and packing\<close>

text \<open>The hash is the one that 64-bit unsigned arithmetic computes on gem5's side.\<close>

lemma hash_bytes_word:
  "hash_bytes bytes =
   uint (fold (\<lambda>byte h. (h + ucast byte) * 0x21f782547ea34f3d) bytes (0xbb7524eafb93804b :: 64 word))"
proof -
  have "fold (\<lambda>byte h. ((h + uint byte) * 0x21f782547ea34f3d) AND 0xffffffffffffffff) bytes (uint w) =
        uint (fold (\<lambda>byte h. (h + ucast byte) * 0x21f782547ea34f3d) bytes w)" for w :: "64 word"
  proof (induction bytes arbitrary: w)
    case (Cons b bytes)
    have "((uint w + uint b) * 0x21f782547ea34f3d) AND 0xffffffffffffffff =
          take_bit 64 ((uint w + uint b) * 0x21f782547ea34f3d)"
      by (simp add: take_bit_eq_mask mask_eq_exp_minus_1)
    also have "\<dots> = uint ((w + ucast b) * 0x21f782547ea34f3d)"
      by (simp add: uint_word_ariths unsigned_ucast_eq take_bit_eq_mod mod_simps)
    finally show ?case using Cons by simp
  qed simp
  from this [of "0xbb7524eafb93804b"] show ?thesis by (simp add: hash_bytes_def)
qed

lemma hash_bytes_range: "0 \<le> hash_bytes bytes" "hash_bytes bytes < 2 ^ 64"
proof -
  show "0 \<le> hash_bytes bytes" by (simp add: hash_bytes_word)
  show "hash_bytes bytes < 2 ^ 64" unfolding hash_bytes_word by (rule order_less_le_trans [OF uint_lt2p]) simp
qed

lemma length_word_bytes [simp]: "length (word_bytes w) = 8"
  by (simp add: word_bytes_def)

lemma uint_low_byte: "uint (ucast (drop_bit n w) :: byte) = uint w div 2 ^ n mod 256" for w :: "64 word"
proof -
  have "uint (drop_bit n w) = uint w div 2 ^ n" using uint_lt2p [of w] by (simp only: unsigned_drop_bit_eq) (simp add: drop_bit_eq_div take_bit_int_eq_self)
  then show ?thesis by (simp add: unsigned_ucast_eq take_bit_eq_mod)
qed

lemma bytes_value_word: "bytes_value (word_bytes w) = uint w"
proof -
  define n where "n = uint w"
  have n: "0 \<le> n" "n < 2 ^ 64" unfolding n_def using uint_lt2p [of w] by simp_all
  have step: "m mod 256 + 256 * (m div 256) = m" for m :: int by simp
  have d: "n div 2 ^ k div 256 = n div 2 ^ (k + 8)" for k :: nat
    by (simp add: zdiv_zmult2_eq [symmetric] power_add)
  have z: "n div 2 ^ 64 = 0" using n by (simp add: div_pos_pos_trivial)
  have "bytes_value (word_bytes w) = foldr (\<lambda>i r. n div 2 ^ (8 * i) mod 256 + 256 * r) [0..<8] 0"
    by (simp add: bytes_value_def word_bytes_def foldr_map comp_def uint_low_byte n_def)
  also have "\<dots> = n"
  proof -
    have "foldr (\<lambda>i r. n div 2 ^ (8 * i) mod 256 + 256 * r) [8 - k..<8] 0 = n div 2 ^ (8 * (8 - k))" if "k \<le> 8" for k
      using that
    proof (induction k)
      case 0
      then show ?case using z by simp
    next
      case (Suc k)
      have "[8 - Suc k..<8] = (8 - Suc k) # [8 - k..<8]" using Suc.prems Suc_diff_Suc [of k 8] by (simp add: upt_conv_Cons)
      moreover have "8 * (8 - Suc k) + 8 = 8 * (8 - k)" using Suc.prems by simp
      ultimately show ?case using Suc d [of "8 * (8 - Suc k)"] step [of "n div 2 ^ (8 * (8 - Suc k))"] by simp
    qed
    from this [of 8] show ?thesis by simp
  qed
  finally show ?thesis by (simp add: n_def)
qed

lemma unpack_fields_words:
  "unpack_fields (length ws) (concat (map word_bytes ws)) = map uint ws"
  by (induction ws) (simp_all add: bytes_value_word)

lemma unpack_pack:
  assumes "list_all (\<lambda>n. 0 \<le> n \<and> n < 2 ^ 64) ns"
  obtains bs where "pack_q ns = Inr bs" and "length bs = 8 * length ns" and "unpack_q (length ns) bs = Inr ns"
proof -
  define ws where "ws = map (word_of_int :: int \<Rightarrow> 64 word) ns"
  have "map uint ws = ns"
    unfolding ws_def using assms by (induction ns) (auto simp: uint_word_of_int_eq take_bit_int_eq_self)
  moreover have "length (concat (map word_bytes ws)) = 8 * length ns"
    by (simp add: length_concat ws_def comp_def sum_list_triv)
  moreover have "pack_q ns = Inr (concat (map word_bytes ws))"
    using assms by (simp add: pack_q_def ws_def comp_def)
  ultimately show thesis
    using unpack_fields_words [of ws] by (intro that [of "concat (map word_bytes ws)"]) (simp_all add: unpack_q_def ws_def)
qed

subsection \<open>What a connection delivers\<close>

text \<open>
  The bytes of a connection up to its end, and the seconds in which nothing arrives. A connection is
  \<open>live\<close> when gem5 is never silent for the time limit.
\<close>

fun avail :: "poll list \<Rightarrow> byte list" where
  "avail [] = []"
| "avail (Idle # es) = avail es"
| "avail (Ready bs # es) = (if bs = [] then [] else bs @ avail es)"

definition live :: "poll list \<Rightarrow> bool" where
  "live es \<longleftrightarrow> count_list es Idle < 120"

lemma recv_loop_stream:
  assumes "t + count_list es Idle < 120" and "0 < n" and "n \<le> length (avail es)"
  shows "\<exists>es'. recv_loop t data n es = (Inr (data @ take n (avail es)), es') \<and>
           avail es' = drop n (avail es) \<and> count_list es' Idle \<le> count_list es Idle"
  using assms
proof (induction t data n es rule: recv_loop.induct)
  case (2 t data n e es)
  show ?case
  proof (cases e)
    case Idle
    with 2 show ?thesis by fastforce
  next
    case (Ready bs)
    with 2(4,5) have ne: "bs \<noteq> []" "take n bs \<noteq> []" by auto
    show ?thesis
    proof (cases "length (take n bs) = n")
      case True
      then show ?thesis using 2(3) Ready ne by auto
    next
      case False
      then have "length bs < n" by simp
      then show ?thesis using 2 Ready ne False by simp
    qed
  qed
qed simp

lemma recv_io_stream:
  assumes "live (conn_in s)" and "0 < n" and "avail (conn_in s) = bs @ rest" and "length bs = n"
  obtains es where "recv_io n s = (Inr bs, s\<lparr>conn_in := es\<rparr>)" and "avail es = rest" and "live es"
proof -
  have "0 + count_list (conn_in s) Idle < 120" using assms(1) by (simp add: live_def)
  from recv_loop_stream [OF this assms(2), of "[]"] assms(3,4)
  obtain es where "recv_loop 0 [] n (conn_in s) = (Inr bs, es)" "avail es = rest" "live es"
    using assms(1) unfolding live_def by force
  then show thesis by (intro that [of es]) (simp_all add: recv_io_def recv_def)
qed

text \<open>Reading nothing does not return: the socket then gives no bytes, which counts as a crash.\<close>

lemma recv_nothing_crashes: "fst (recv 0 es) = Inl Gem5Crash"
proof -
  have "fst (recv_loop t [] 0 es) = Inl Gem5Crash" for t
    by (induction es arbitrary: t) (auto split: poll.splits)
  then show ?thesis by (simp add: recv_def)
qed

subsection \<open>Conversations\<close>

text \<open>
  \<open>talks m inb x outb\<close>: on every live connection that delivers \<open>inb\<close> first, in whatever pieces, the
  operation returns \<open>x\<close>, has sent \<open>outb\<close>, has read exactly \<open>inb\<close> and leaves the other attributes as
  they were.
\<close>

definition talks :: "'a io \<Rightarrow> byte list \<Rightarrow> 'a \<Rightarrow> byte list \<Rightarrow> bool" where
  "talks m inb x outb \<longleftrightarrow>
     (\<forall>s rest. live (conn_in s) \<and> avail (conn_in s) = inb @ rest \<longrightarrow>
        (\<exists>es. m s = (Inr x, s\<lparr>conn_in := es, conn_out := conn_out s @ outb\<rparr>) \<and> avail es = rest \<and> live es))"

definition packed :: "int list \<Rightarrow> byte list" where
  "packed ns = concat (map (\<lambda>n. word_bytes (word_of_int n)) ns)"

abbreviation in_range :: "int list \<Rightarrow> bool" where
  "in_range ns \<equiv> list_all (\<lambda>n. 0 \<le> n \<and> n < 2 ^ 64) ns"

named_theorems talk_rules \<open>operations on a connection and what they exchange\<close>

lemma talks_return [talk_rules]: "talks (io_return x) [] x []"
  unfolding talks_def by (auto simp: io_return_def intro!: exI [of _ "conn_in _"])

lemma talks_res [talk_rules]: "r = Inr x \<Longrightarrow> talks (io_res r) [] x []"
  unfolding talks_def by (auto simp: io_res_def intro!: exI [of _ "conn_in _"])

lemma talks_check [talk_rules]: "b \<Longrightarrow> talks (io_check b e) [] () []"
  unfolding io_check_def by (rule talks_res) simp

lemma talks_bind [talk_rules]:
  assumes "talks m a x o1" and "talks (f x) b y o2"
  shows "talks (io_bind m f) (a @ b) y (o1 @ o2)"
  unfolding talks_def
proof (intro allI impI)
  fix s :: orch and rest
  assume s: "live (conn_in s) \<and> avail (conn_in s) = (a @ b) @ rest"
  then obtain es where es: "m s = (Inr x, s\<lparr>conn_in := es, conn_out := conn_out s @ o1\<rparr>)" "avail es = b @ rest" "live es"
    using assms(1) unfolding talks_def by force
  then obtain es' where "f x (s\<lparr>conn_in := es, conn_out := conn_out s @ o1\<rparr>) =
      (Inr y, s\<lparr>conn_in := es', conn_out := conn_out s @ o1 @ o2\<rparr>)" "avail es' = rest" "live es'"
    using assms(2) [unfolded talks_def, rule_format, of "s\<lparr>conn_in := es, conn_out := conn_out s @ o1\<rparr>" rest] by auto
  with es show "\<exists>es. io_bind m f s = (Inr y, s\<lparr>conn_in := es, conn_out := conn_out s @ o1 @ o2\<rparr>) \<and> avail es = rest \<and> live es"
    by (auto simp: io_bind_def)
qed

lemma talks_bind_eq:
  "talks m a x o1 \<Longrightarrow> talks (f x) b y o2 \<Longrightarrow> inb = a @ b \<Longrightarrow> outb = o1 @ o2 \<Longrightarrow> talks (io_bind m f) inb y outb"
  using talks_bind [of m a x o1 f b y o2] by simp

lemma talks_send_q [talk_rules]: "in_range ns \<Longrightarrow> talks (send_q ns data) [] () (packed ns @ data)"
  unfolding talks_def send_q_def io_bind_def
  by (auto simp: io_res_def pack_q_def packed_def send_def intro!: exI [of _ "conn_in _"])

lemma talks_recv [talk_rules]:
  assumes "bs \<noteq> []" and "n = length bs"
  shows "talks (recv_io n) bs bs []"
  unfolding talks_def
proof (intro allI impI)
  fix s :: orch and rest
  assume s: "live (conn_in s) \<and> avail (conn_in s) = bs @ rest"
  then have l: "live (conn_in s)" and a: "avail (conn_in s) = bs @ rest" by simp_all
  obtain es where "recv_io n s = (Inr bs, s\<lparr>conn_in := es\<rparr>)" "avail es = rest" "live es"
    by (rule recv_io_stream [OF l _ a, of n]) (use assms in simp_all)
  then show "\<exists>es. recv_io n s = (Inr bs, s\<lparr>conn_in := es, conn_out := conn_out s @ []\<rparr>) \<and> avail es = rest \<and> live es"
    by auto
qed

lemma talks_recv_q [talk_rules]:
  assumes "in_range ns" and "k = length ns" and "ns \<noteq> []"
  shows "talks (recv_q k) (packed ns) ns []"
proof -
  obtain bs where "pack_q ns = Inr bs" "length bs = 8 * length ns" "unpack_q (length ns) bs = Inr ns"
    by (rule unpack_pack [OF assms(1)])
  with assms have bs: "bs = packed ns" "bs \<noteq> []" "length bs = 8 * k" "unpack_q k bs = Inr ns"
    by (auto simp: pack_q_def packed_def split: if_splits)
  have "talks (recv_q k) (bs @ []) ns ([] @ [])"
    unfolding recv_q_def by (rule talks_bind [OF talks_recv talks_res]) (use bs in simp_all)
  with bs(1) show ?thesis by simp
qed

lemma talks_when [talk_rules]:
  assumes "b \<Longrightarrow> talks m inb x outb"
  shows "talks (io_when b m d) (if b then inb else []) (if b then x else d) (if b then outb else [])"
  using assms talks_return by (auto simp: io_when_def)

lemma talks_request [talk_rules]:
  assumes "in_range [op]" and "in_range [ack]" and "bs \<noteq> []" and "length bs < 2 ^ 64"
  shows "talks (request op ack) (packed [ack, int (length bs)] @ bs) bs (packed [op])"
proof -
  have "in_range [ack, int (length bs)]" using assms(2,4) by simp
  then have r: "talks (recv_q 2) (packed [ack, int (length bs)]) [ack, int (length bs)] []"
    by (rule talks_recv_q) simp_all
  have "talks (request op ack) ([] @ packed [ack, int (length bs)] @ [] @ bs) bs ((packed [op] @ []) @ [] @ [] @ [])"
    unfolding request_def
    by (rule talks_bind [OF talks_send_q [OF assms(1)] talks_bind [OF r talks_bind [OF talks_check talks_recv]]])
      (use assms(3) in simp_all)
  then show ?thesis by simp
qed

subsection \<open>Tracing an input\<close>

text \<open>What gem5 has for an input: its texts and the hash of the committed instructions.\<close>

record gem5_run =
  g_tags :: string
  g_bp_state :: string
  g_predictions :: string
  g_accesses :: string
  g_commit :: nat

definition encode_text :: "string \<Rightarrow> byte list" where
  "encode_text t = map (\<lambda>c. of_nat (of_char c)) t"

definition text_ok :: "string \<Rightarrow> bool" where
  "text_ok t \<longleftrightarrow> t \<noteq> [] \<and> list_all (\<lambda>c. of_char c < (128 :: nat)) t \<and> length t < 2 ^ 64"

definition run_ok :: "gem5_run \<Rightarrow> bool" where
  "run_ok g \<longleftrightarrow> text_ok (g_tags g) \<and> text_ok (g_bp_state g) \<and> text_ok (g_predictions g) \<and> text_ok (g_accesses g) \<and>
     g_commit g < 2 ^ 64"

text \<open>The requests of the client, and the answers of a gem5 that follows the protocol, by the sources that are on.\<close>

definition reply :: "int \<Rightarrow> byte list \<Rightarrow> byte list" where
  "reply ack bs = packed [ack, int (length bs)] @ bs"

definition requests :: "input_layout \<Rightarrow> input \<Rightarrow> string list \<Rightarrow> byte list" where
  "requests il inp sources =
     (let bp = ''branch_pred_state'' \<in> set sources;
          preds = ''branch_predictions'' \<in> set sources \<or> ''branch_predictions_timing'' \<in> set sources;
          accs = ''access_timing'' \<in> set sources \<or> ''access_order'' \<in> set sources;
          com = ''commit'' \<in> set sources;
          bytes = input_bytes il inp
      in packed ((if bp \<or> preds then [OP_RESET_BRANCH_PREDICTOR] else []) @
                 (if preds then [OP_ENABLE_BRANCH_PREDICTION_LOG] else []) @
                 (if accs then [OP_ENABLE_ACCESS_LOG] else []) @ (if com then [OP_RESET_COMMIT_LOG] else []) @
                 [OP_TRACE_TEST_CASE, int (length bytes), int (register_start il * 8), hash_input il inp]) @ bytes @
         packed ((if bp then [OP_GET_BRANCH_PREDICTOR_STATE] else []) @
                 (if preds then [OP_GET_BRANCH_PREDICTION_LOG] else []) @
                 (if accs then [OP_GET_ACCESS_LOG] else []) @ (if com then [OP_GET_COMMIT_LOG] else [])))"

definition replies :: "input_layout \<Rightarrow> input \<Rightarrow> string list \<Rightarrow> gem5_run \<Rightarrow> byte list" where
  "replies il inp sources g =
     packed [OP_ACK_TRACE_TEST_CASE, hash_input il inp, int (length (g_tags g))] @ encode_text (g_tags g) @
     (if ''branch_pred_state'' \<in> set sources
      then reply OP_ACK_BRANCH_PREDICTOR_STATE (encode_text (g_bp_state g)) else []) @
     (if ''branch_predictions'' \<in> set sources \<or> ''branch_predictions_timing'' \<in> set sources
      then reply OP_ACK_BRANCH_PREDICTION_LOG (encode_text (g_predictions g)) else []) @
     (if ''access_order'' \<in> set sources \<or> ''access_timing'' \<in> set sources
      then reply OP_ACK_ACCESS_LOG (encode_text (g_accesses g)) else []) @
     (if ''commit'' \<in> set sources then reply OP_GET_COMMIT_LOG (word_bytes (of_nat (g_commit g))) else [])"

definition section_text :: "string \<Rightarrow> string \<Rightarrow> string" where
  "section_text name log = [CHR 0x0A] @ ''['' @ name @ '']'' @ [CHR 0x0A] @ ''log = '' @ log @ [CHR 0x0A]"

lemma decode_encode_text: "text_ok t \<Longrightarrow> decode_text (encode_text t) = Inr t"
  and encode_text_length: "length (encode_text t) = length t"
  and encode_text_empty: "encode_text t = [] \<longleftrightarrow> t = []"
proof -
  have b: "uint (of_nat (of_char c) :: byte) < 128 \<and> char_of (unat (of_nat (of_char c) :: byte)) = c"
    if "of_char c < (128 :: nat)" for c :: char
    using that by (simp add: uint_nat unat_of_nat)
  show "text_ok t \<Longrightarrow> decode_text (encode_text t) = Inr t"
    using b by (auto simp: text_ok_def decode_text_def encode_text_def list_all_iff map_idI)
qed (simp_all add: encode_text_def)

lemma packed_append: "packed (ns @ ms) = packed ns @ packed ms"
  by (simp add: packed_def)

lemma talks_bp_section:
  assumes "text_ok t"
  shows "talks bp_section (reply OP_ACK_BRANCH_PREDICTOR_STATE (encode_text t)) ([CHR 0x0A] @ t @ [CHR 0x0A])
    (packed [OP_GET_BRANCH_PREDICTOR_STATE])"
proof -
  have r: "talks (request OP_GET_BRANCH_PREDICTOR_STATE OP_ACK_BRANCH_PREDICTOR_STATE)
      (reply OP_ACK_BRANCH_PREDICTOR_STATE (encode_text t)) (encode_text t) (packed [OP_GET_BRANCH_PREDICTOR_STATE])"
    unfolding reply_def using assms
    by (intro talks_request) (simp_all add: op_codes text_ok_def encode_text_length encode_text_empty)
  show ?thesis
    unfolding bp_section_def
    by (rule talks_bind_eq [OF r], rule talks_bind_eq [OF talks_res [OF decode_encode_text [OF assms]]], rule talks_return)
      simp_all
qed

lemma talks_log_section:
  assumes "text_ok t" and "filter_log timing t = Inr f" and "in_range [op]" and "in_range [ack]"
  shows "talks (log_section op ack name timing) (reply ack (encode_text t)) (section_text name f) (packed [op])"
proof -
  have r: "talks (request op ack) (reply ack (encode_text t)) (encode_text t) (packed [op])"
    unfolding reply_def using assms
    by (intro talks_request) (simp_all add: text_ok_def encode_text_length encode_text_empty)
  show ?thesis
    unfolding log_section_def section_text_def
    by (rule talks_bind_eq [OF r], rule talks_bind_eq [OF talks_res [OF decode_encode_text [OF assms(1)]]],
        rule talks_bind_eq [OF talks_res [OF assms(2)]], rule talks_return) simp_all
qed

lemma talks_commit_section:
  assumes "n < 2 ^ 64"
  shows "talks commit_section (reply OP_GET_COMMIT_LOG (word_bytes (of_nat n))) (section_text ''commit'' (nat_str n))
    (packed [OP_GET_COMMIT_LOG])"
proof -
  have r: "talks (request OP_GET_COMMIT_LOG OP_GET_COMMIT_LOG) (reply OP_GET_COMMIT_LOG (word_bytes (of_nat n)))
      (word_bytes (of_nat n)) (packed [OP_GET_COMMIT_LOG])"
    unfolding reply_def by (intro talks_request) (simp_all add: op_codes word_bytes_def)
  have "nat (bytes_value (word_bytes (of_nat n))) = n"
    using assms by (simp add: bytes_value_word unsigned_of_nat take_bit_nat_eq_self)
  then have v: "talks (io_return (x @ nat_str (nat (bytes_value (word_bytes (of_nat n)))) @ z)) [] (x @ nat_str n @ z) []" for x z
    by (simp add: talks_return)
  show ?thesis
    unfolding commit_section_def section_text_def
    by (rule talks_bind_eq [OF r], rule talks_bind_eq [OF talks_check])
      (use v [of "[CHR 0x0A] @ ''[commit]'' @ [CHR 0x0A] @ ''log = ''" "[CHR 0x0A]"] in simp_all)
qed

lemma hash_input_range: "0 \<le> hash_input il inp" "hash_input il inp < 2 ^ 64"
  using hash_bytes_range by (simp_all add: hash_input_def)

lemma length_input_bytes: "length (input_bytes il inp) \<le> 8 * data_size il"
  by (simp add: input_bytes_def length_concat comp_def sum_list_triv)

text \<open>The text that is returned: the tags, then the sections of the sources that are on.\<close>

definition trace_text :: "string list \<Rightarrow> gem5_run \<Rightarrow> string \<Rightarrow> string \<Rightarrow> string" where
  "trace_text sources g preds accs =
     g_tags g @
     (if ''branch_pred_state'' \<in> set sources then [CHR 0x0A] @ g_bp_state g @ [CHR 0x0A] else []) @
     (if ''branch_predictions'' \<in> set sources \<or> ''branch_predictions_timing'' \<in> set sources
      then section_text ''branchPredictionLog'' preds else []) @
     (if ''access_order'' \<in> set sources \<or> ''access_timing'' \<in> set sources then section_text ''accessLog'' accs else []) @
     (if ''commit'' \<in> set sources then section_text ''commit'' (nat_str (g_commit g)) else [])"

lemma header_ranges:
  assumes "8 * data_size il < 2 ^ 64" and "text_ok (g_tags g)"
  shows "in_range [OP_TRACE_TEST_CASE, int (length (input_bytes il inp)), int (register_start il * 8), hash_input il inp]"
    and "in_range [OP_ACK_TRACE_TEST_CASE, hash_input il inp, int (length (g_tags g))]"
proof -
  have "register_start il \<le> data_size il" by (simp add: register_start_def)
  then show "in_range [OP_TRACE_TEST_CASE, int (length (input_bytes il inp)), int (register_start il * 8), hash_input il inp]"
    using assms(1) length_input_bytes [of il inp] hash_input_range [of il inp] by (simp add: op_codes)
  show "in_range [OP_ACK_TRACE_TEST_CASE, hash_input il inp, int (length (g_tags g))]"
    using hash_input_range [of il inp] assms(2) by (simp add: op_codes text_ok_def)
qed

lemma requests_split:
  "requests il inp sources =
     (if ''branch_pred_state'' \<in> set sources \<or> ''branch_predictions'' \<in> set sources \<or> ''branch_predictions_timing'' \<in> set sources
      then packed [OP_RESET_BRANCH_PREDICTOR] else []) @
     (if ''branch_predictions'' \<in> set sources \<or> ''branch_predictions_timing'' \<in> set sources
      then packed [OP_ENABLE_BRANCH_PREDICTION_LOG] else []) @
     (if ''access_timing'' \<in> set sources \<or> ''access_order'' \<in> set sources then packed [OP_ENABLE_ACCESS_LOG] else []) @
     (if ''commit'' \<in> set sources then packed [OP_RESET_COMMIT_LOG] else []) @
     packed [OP_TRACE_TEST_CASE, int (length (input_bytes il inp)), int (register_start il * 8), hash_input il inp] @
     input_bytes il inp @
     (if ''branch_pred_state'' \<in> set sources then packed [OP_GET_BRANCH_PREDICTOR_STATE] else []) @
     (if ''branch_predictions'' \<in> set sources \<or> ''branch_predictions_timing'' \<in> set sources
      then packed [OP_GET_BRANCH_PREDICTION_LOG] else []) @
     (if ''access_order'' \<in> set sources \<or> ''access_timing'' \<in> set sources then packed [OP_GET_ACCESS_LOG] else []) @
     (if ''commit'' \<in> set sources then packed [OP_GET_COMMIT_LOG] else [])"
proof -
  have i: "packed (if b then [n] else []) = (if b then packed [n] else [])" for b n by (simp add: packed_def)
  show ?thesis
    unfolding requests_def Let_def packed_append i append_assoc disj_commute [of "''access_timing'' \<in> set sources"] by (rule refl)
qed

lemma talks_trace_test_case:
  assumes "run_ok g" and "8 * data_size il < 2 ^ 64"
    and "filter_log (''branch_predictions_timing'' \<in> set sources) (g_predictions g) = Inr preds"
    and "filter_log (''access_timing'' \<in> set sources) (g_accesses g) = Inr accs"
  shows "talks (trace_test_case il inp sources) (replies il inp sources g) (trace_text sources g preds accs)
    (requests il inp sources)"
proof -
  have t: "text_ok (g_tags g)" "text_ok (g_bp_state g)" "text_ok (g_predictions g)" "text_ok (g_accesses g)"
    and c: "g_commit g < 2 ^ 64" using assms(1) by (simp_all add: run_ok_def)
  have k: "in_range [OP_RESET_BRANCH_PREDICTOR]" "in_range [OP_ENABLE_BRANCH_PREDICTION_LOG]" "in_range [OP_ENABLE_ACCESS_LOG]"
    "in_range [OP_RESET_COMMIT_LOG]" "in_range [OP_GET_BRANCH_PREDICTION_LOG]" "in_range [OP_ACK_BRANCH_PREDICTION_LOG]"
    "in_range [OP_GET_ACCESS_LOG]" "in_range [OP_ACK_ACCESS_LOG]" by (simp_all add: op_codes)
  have tags: "talks (recv_io (nat ([OP_ACK_TRACE_TEST_CASE, hash_input il inp, int (length (g_tags g))] ! 2)))
      (encode_text (g_tags g)) (encode_text (g_tags g)) []"
    by (rule talks_recv) (use t(1) in \<open>simp_all add: encode_text_empty encode_text_length text_ok_def\<close>)
  note final = talks_when [OF talks_bp_section [OF t(2)]]
    talks_when [OF talks_log_section [OF t(3) assms(3) k(5,6)]] talks_when [OF talks_log_section [OF t(4) assms(4) k(7,8)]]
    talks_when [OF talks_commit_section [OF c]]
  show ?thesis
    unfolding trace_test_case_def Let_def trace_text_def replies_def requests_split
    apply (rule talks_bind_eq [OF talks_when [OF talks_send_q [OF k(1)]]])
    apply (rule talks_bind_eq [OF talks_when [OF talks_send_q [OF k(2)]]])
    apply (rule talks_bind_eq [OF talks_when [OF talks_send_q [OF k(3)]]])
    apply (rule talks_bind_eq [OF talks_when [OF talks_send_q [OF k(4)]]])
    apply (rule talks_bind_eq [OF talks_send_q [OF header_ranges(1) [OF assms(2) t(1)]]])
    apply (rule talks_bind_eq [OF talks_recv_q [OF header_ranges(2) [OF assms(2) t(1)]]], simp, simp)
    apply (rule talks_bind_eq [OF talks_check], simp)+
    apply (rule talks_bind_eq [OF tags])
    apply (rule talks_bind_eq [OF talks_res [OF decode_encode_text [OF t(1)]]])
    apply (rule talks_bind_eq [OF final(1)])
    apply (rule talks_bind_eq [OF final(2)])
    apply (rule talks_bind_eq [OF final(3)])
    apply (rule talks_bind_eq [OF final(4)])
    apply (rule talks_return)
    apply (rule refl)+
    apply (simp_all only: append_Nil append_Nil2 append_assoc if_cancel)
    done
qed

text \<open>
  C7. Tracing an input through the socket: on every connection that delivers the answers of the
  protocol, however they are cut into pieces and delayed (below the time limit), \<open>trace_test_case\<close> sends exactly the
  requests for the enabled sources and returns the tags followed by the filtered logs of these sources. Nothing
  after the answers is read, and the other attributes stay as they are.
\<close>

theorem trace_conversation:
  assumes "run_ok g" and "8 * data_size il < 2 ^ 64"
    and "filter_log (''branch_predictions_timing'' \<in> set sources) (g_predictions g) = Inr preds"
    and "filter_log (''access_timing'' \<in> set sources) (g_accesses g) = Inr accs"
    and "live (conn_in s)" and "avail (conn_in s) = replies il inp sources g @ rest"
  shows "\<exists>es. trace_test_case il inp sources s =
      (Inr (trace_text sources g preds accs), s\<lparr>conn_in := es, conn_out := conn_out s @ requests il inp sources\<rparr>) \<and>
    avail es = rest"
  using talks_trace_test_case [OF assms(1-4), of inp] assms(5,6) unfolding talks_def by blast

definition ex_ipc_layout :: input_layout where
  "ex_ipc_layout = \<lparr>il_main = 8, il_assist = 0, il_register = 8\<rparr>"

definition ex_input :: input where
  "ex_input = \<lparr>in_words = [1, 2, 3], in_seed = 7\<rparr>"

definition ex_run :: gem5_run where
  "ex_run = \<lparr>g_tags = ''[a]'', g_bp_state = ''-'', g_predictions = ''tick:5,pc:0x402010;'',
     g_accesses = ''tick:6,pc:0x402020,r;tick:9,pc:0x1,w;'', g_commit = 3\<rparr>"

definition ex_orch :: "poll list \<Rightarrow> orch" where
  "ex_orch es = \<lparr>processes = [4, 5], active_process = 4, last_case = None, socket_number = 2, sockets = [(4, 0), (5, 1)],
     started = [], killed = [], conn_in = es, conn_out = []\<rparr>"

definition ex_events :: "poll list" where
  "ex_events = (let bs = replies ex_ipc_layout ex_input [''access_order''] ex_run in [Idle, Ready (take 5 bs), Idle, Idle, Ready (drop 5 bs @ [1])])"

lemma ex_filter_log: "filter_log True (g_predictions ex_run) = Inr ''tick:5,pc:0x402010''"
  "filter_log False (g_predictions ex_run) = Inr '',pc:0x402010''"
  "filter_log False (g_accesses ex_run) = Inr '',pc:0x402020,r''"
  by code_simp+

theorem trace_conversation_witness:
  "\<exists>es. trace_test_case ex_ipc_layout ex_input [''access_order''] (ex_orch ex_events) =
      (Inr (''[a]'' @ section_text ''accessLog'' '',pc:0x402020,r''),
       (ex_orch ex_events)\<lparr>conn_in := es, conn_out := requests ex_ipc_layout ex_input [''access_order'']\<rparr>) \<and> avail es = [1]"
proof -
  have f: "filter_log (''branch_predictions_timing'' \<in> set [''access_order'']) (g_predictions ex_run) = Inr '',pc:0x402010''"
    "filter_log (''access_timing'' \<in> set [''access_order'']) (g_accesses ex_run) = Inr '',pc:0x402020,r''"
    using ex_filter_log by simp_all
  have r: "run_ok ex_run" "8 * data_size ex_ipc_layout < 2 ^ 64"
    by (simp_all add: run_ok_def text_ok_def ex_run_def data_size_def ex_ipc_layout_def)
  have "replies ex_ipc_layout ex_input [''access_order''] ex_run \<noteq> []" by (simp add: replies_def encode_text_empty ex_run_def)
  then have e: "live (conn_in (ex_orch ex_events))"
    "avail (conn_in (ex_orch ex_events)) = replies ex_ipc_layout ex_input [''access_order''] ex_run @ [1]"
    by (simp_all add: live_def ex_orch_def ex_events_def Let_def)
  have t: "trace_text [''access_order''] ex_run '',pc:0x402010'' '',pc:0x402020,r'' =
      ''[a]'' @ section_text ''accessLog'' '',pc:0x402020,r''" by code_simp
  from trace_conversation [OF r f e] show ?thesis unfolding t by (simp add: ex_orch_def)
qed

subsection \<open>Logs without timing\<close>

definition log_entry :: "nat \<times> string \<Rightarrow> string" where
  "log_entry e = ''tick:'' @ nat_str (fst e) @ '','' @ snd e"

definition log_text :: "(nat \<times> string) list \<Rightarrow> string" where
  "log_text es = concat (map (\<lambda>e. log_entry e @ '';'') es)"

lemma split_at_terminated: "d \<notin> set w \<Longrightarrow> split_at d (w @ d # s) = w # split_at d s"
  by (induction w) auto

lemma search_pc_skip: "CHR ''p'' \<notin> set w \<Longrightarrow> search_pc (w @ s) = search_pc s"
  by (induction w) auto

lemma split_log_text:
  "list_all (\<lambda>e. CHR '';'' \<notin> set (snd e)) es \<Longrightarrow> split_at (CHR '';'') (log_text es) = map log_entry es @ [[]]"
proof (induction es)
  case (Cons e es)
  have "CHR '';'' \<notin> set (nat_str (fst e))" using nat_str_chars(1) [of "CHR '';''" "fst e"] by (auto simp: is_digit_def)
  with Cons.prems have "CHR '';'' \<notin> set (log_entry e)" by (auto simp: log_entry_def)
  from split_at_terminated [OF this] Cons show ?case by (simp add: log_text_def)
qed (simp add: log_text_def)

lemma filter_untimed_entry:
  "filter_entry False (log_entry e) filtered =
   res_bind (search_pc (snd e)) (\<lambda>pc.
     Inr (if CODE_ADDR_START \<le> pc \<and> pc < CODE_ADDR_END then filtered @ [CHR '','' # snd e] else filtered))"
proof -
  have n: "c \<notin> set (nat_str (fst e))" if "\<not> is_digit c" for c using nat_str_chars(1) [of c "fst e"] that by blast
  have "search_pc (log_entry e) = search_pc ((''tick:'' @ nat_str (fst e) @ '','') @ snd e)" by (simp add: log_entry_def)
  also have "\<dots> = search_pc (snd e)" by (rule search_pc_skip) (use n [of "CHR ''p''"] in \<open>simp add: is_digit_def\<close>)
  finally have s: "search_pc (log_entry e) = search_pc (snd e)" .
  have "dropWhile (\<lambda>c. c \<noteq> CHR '','') (nat_str (fst e) @ '','' @ snd e) = '','' @ snd e"
    using n [of "CHR '',''"] by (subst dropWhile_append2) (auto simp: is_digit_def)
  then have "drop_timing (log_entry e) = Inr ('','' @ snd e)" by (simp add: drop_timing_def log_entry_def)
  moreover have "log_entry e \<noteq> []" by (simp add: log_entry_def)
  ultimately show ?thesis using s by (simp add: filter_entry_def)
qed

text \<open>
  C39. Without the timing sources the log of branch predictions or memory accesses does not
  show timing: two logs with the same entries at different ticks are filtered to the same text.
\<close>

theorem untimed_log_hides_ticks:
  assumes "map snd es = map snd es'" and "list_all (\<lambda>e. CHR '';'' \<notin> set (snd e)) es"
  shows "filter_log False (log_text es) = filter_log False (log_text es')"
proof -
  have "list_all (\<lambda>b. CHR '';'' \<notin> set b) (map snd es')"
    unfolding assms(1) [symmetric] using assms(2) by (simp add: list.pred_map comp_def)
  then have p: "list_all (\<lambda>e. CHR '';'' \<notin> set (snd e)) es'" by (simp add: list.pred_map comp_def)
  have "res_fold (filter_entry False) (map log_entry xs) =
      res_fold (\<lambda>b f. res_bind (search_pc b) (\<lambda>pc.
        Inr (if CODE_ADDR_START \<le> pc \<and> pc < CODE_ADDR_END then f @ [CHR '','' # b] else f))) (map snd xs)" for xs
    by (induction xs) (rule ext, simp add: filter_untimed_entry)+
  then show ?thesis
    using assms(1) by (simp add: filter_log_def split_log_text [OF assms(2)] split_log_text [OF p] res_fold_append)
qed

theorem untimed_log_hides_ticks_witness:
  "filter_log False (log_text [(5, ''pc:0x402010,taken''), (90, ''pc:0x1,''), (91, ''pc:0x4021ff'')]) = Inr '',pc:0x402010,taken;,pc:0x4021ff''
   \<and> filter_log False (log_text [(6, ''pc:0x402010,taken''), (7, ''pc:0x1,''), (800, ''pc:0x4021ff'')]) = Inr '',pc:0x402010,taken;,pc:0x4021ff''"
proof -
  have "filter_log False (log_text [(5, ''pc:0x402010,taken''), (90, ''pc:0x1,''), (91, ''pc:0x4021ff'')]) =
        Inr '',pc:0x402010,taken;,pc:0x4021ff''"
    by code_simp
  with untimed_log_hides_ticks [of "[(5, ''pc:0x402010,taken''), (90, ''pc:0x1,''), (91, ''pc:0x4021ff'')]"
      "[(6, ''pc:0x402010,taken''), (7, ''pc:0x1,''), (800, ''pc:0x4021ff'')]"]
  show ?thesis by simp
qed

subsection \<open>The pool\<close>

text \<open>
  Every process has its own socket and a positive id, and the active process is one of the pool. The
  invariant below is kept by every operation, also by one that raises.
\<close>

definition pool_ok :: "orch \<Rightarrow> bool" where
  "pool_ok s \<longleftrightarrow> distinct (processes s) \<and> 0 \<notin> set (processes s) \<and> map fst (sockets s) = processes s \<and>
     distinct (map snd (sockets s)) \<and> (\<forall>k \<in> set (map snd (sockets s)). k < socket_number s) \<and>
     (active_process s \<noteq> 0 \<longrightarrow> active_process s \<in> set (processes s))"

definition io_keeps :: "(orch \<Rightarrow> bool) \<Rightarrow> 'a io \<Rightarrow> bool" where
  "io_keeps P m \<longleftrightarrow> (\<forall>s. P s \<longrightarrow> P (snd (m s)))"

text \<open>A predicate on the pool does not depend on the connection, on the last test case and on the record of effects.\<close>

definition on_pool :: "(orch \<Rightarrow> bool) \<Rightarrow> bool" where
  "on_pool P \<longleftrightarrow> (\<forall>s es out. P (s\<lparr>conn_in := es\<rparr>) = P s \<and> P (s\<lparr>conn_out := out\<rparr>) = P s) \<and>
     (\<forall>s p. P (s\<lparr>last_case := p\<rparr>) = P s)"

lemma keeps_bind: "io_keeps P m \<Longrightarrow> (\<And>x. io_keeps P (f x)) \<Longrightarrow> io_keeps P (io_bind m f)"
  unfolding io_keeps_def io_bind_def by (auto split: prod.splits sum.splits)

lemma keeps_res [simp]: "io_keeps P (io_res r)" "io_keeps P (io_check b e)"
  by (simp_all add: io_keeps_def io_res_def io_check_def)

lemma keeps_conn:
  assumes "on_pool P"
  shows "io_keeps P (send_q ns data)" and "io_keeps P (recv_io n)" and "io_keeps P (recv_q k)"
proof -
  have s: "io_keeps P (send data)" for data using assms by (simp add: io_keeps_def send_def on_pool_def)
  show "io_keeps P (send_q ns data)" unfolding send_q_def by (intro keeps_bind s keeps_res)
  show r: "io_keeps P (recv_io n)" for n
    using assms by (auto simp: io_keeps_def recv_io_def on_pool_def split: prod.splits)
  show "io_keeps P (recv_q k)" unfolding recv_q_def by (intro keeps_bind r keeps_res)
qed

lemma keeps_load_test_case:
  assumes "on_pool P"
  shows "io_keeps P (Ipc.load_test_case files path)"
  unfolding io_keeps_def
proof (intro allI impI)
  fix s assume "P s"
  then have p: "P (s\<lparr>last_case := Some path\<rparr>)" using assms by (simp add: on_pool_def)
  have k: "io_keeps P (io_bind (send_q ns data) (\<lambda>_. io_bind (recv_q k) (\<lambda>fs.
      io_bind (io_check (b fs) e) (\<lambda>_. io_check (c fs) e))))" for ns data k b c e
    by (intro keeps_bind keeps_conn [OF assms] keeps_res)
  show "P (snd (Ipc.load_test_case files path s))"
    using p k [unfolded io_keeps_def, rule_format, OF p]
    by (auto simp: load_test_case_def Let_def split: option.split)
qed

lemma on_pool_ok [simp]: "on_pool (\<lambda>s. pool_ok s \<and> Q (processes s))" "on_pool pool_ok"
  by (simp_all add: on_pool_def pool_ok_def)

lemma kill_active_pool:
  assumes "pool_ok s"
  obtains s' where "kill_active s = (Inr (), s')" and "pool_ok s'" and "active_process s' = 0"
    and "set (processes s') = set (processes s) - {active_process s}" and "length (processes s') \<le> length (processes s)"
    and "socket_number s' = socket_number s"
proof (cases "active_process s = 0")
  case True
  then show ?thesis using assms by (intro that [of s]) (auto simp: kill_active_def pool_ok_def)
next
  case False
  define p where "p = active_process s"
  define s' where "s' = s\<lparr>killed := killed s @ [p], processes := filter (\<lambda>q. q \<noteq> p) (processes s),
    sockets := filter (\<lambda>(q, k). q \<noteq> p) (sockets s), active_process := 0\<rparr>"
  have m: "map fst (filter (\<lambda>(q, k). q \<noteq> p) xs) = filter (\<lambda>q. q \<noteq> p) (map fst xs)" for xs :: "(nat, nat) dict"
    by (induction xs) auto
  have d: "distinct (map snd xs) \<Longrightarrow> distinct (map snd (filter f xs))" for xs :: "(nat, nat) dict" and f
    by (induction xs) auto
  have "p \<in> set (processes s)" "p \<in> fst ` set (sockets s)"
    using False assms unfolding pool_ok_def p_def by (simp_all flip: set_map)
  with False have "kill_active s = (Inr (), s')" by (simp add: kill_active_def s'_def p_def Let_def)
  moreover have "pool_ok s'" using assms d unfolding pool_ok_def s'_def by (auto simp: m)
  ultimately show ?thesis by (intro that [of s']) (auto simp: s'_def p_def)
qed

lemma alist_update_new: "k \<notin> set (map fst d) \<Longrightarrow> AList.update k v d = d @ [(k, v)]"
  by (induction d) auto

lemma start_new_pool:
  assumes "pool_ok s" and "pid \<notin> set (processes s)" and "pid \<noteq> 0"
  shows "pool_ok (snd (start_new_gem5_process conf socket_name cmd pid s))"
    and "processes (snd (start_new_gem5_process conf socket_name cmd pid s)) \<in> {processes s, processes s @ [pid]}"
    and "active_process (snd (start_new_gem5_process conf socket_name cmd pid s)) = active_process s"
    and "fst (start_new_gem5_process conf socket_name cmd pid s) = Inr () \<Longrightarrow>
      processes (snd (start_new_gem5_process conf socket_name cmd pid s)) = processes s @ [pid]"
proof -
  have "AList.update pid k (sockets s) = sockets s @ [(pid, k)]" for k
    by (rule alist_update_new) (use assms(1,2) in \<open>simp add: pool_ok_def\<close>)
  then show "pool_ok (snd (start_new_gem5_process conf socket_name cmd pid s))"
    using assms unfolding pool_ok_def start_new_gem5_process_def
    by (auto simp: Let_def split: sum.splits)
qed (use assms(2) in \<open>auto simp: start_new_gem5_process_def Let_def split: sum.splits if_splits\<close>)

lemma fill_pool_keeps:
  assumes "pool_ok s" and "distinct pids" and "0 \<notin> set pids" and "set pids \<inter> set (processes s) = {}"
    and "length (processes s) \<le> ic_parallelism conf" and "fill_pool conf socket_name cmd pids s = (r, t)"
  shows "pool_ok t \<and> active_process t = active_process s \<and> length (processes t) \<le> ic_parallelism conf \<and>
    (r = Inr () \<longrightarrow> length (processes t) = ic_parallelism conf)"
  using assms
proof (induction pids arbitrary: s)
  case Nil
  then show ?case by (auto split: if_splits)
next
  case (Cons pid pids)
  have new: "pid \<notin> set (processes s)" "pid \<noteq> 0" using Cons.prems by auto
  obtain q u where q: "start_new_gem5_process conf socket_name cmd pid s = (q, u)" by (rule prod.exhaust)
  note st = start_new_pool [OF Cons.prems(1) new, of conf socket_name cmd, unfolded q, simplified]
  show ?case
  proof (cases "length (processes s) < ic_parallelism conf \<and> q = Inr ()")
    case True
    then have "length (processes u) \<le> ic_parallelism conf" "set pids \<inter> set (processes u) = {}"
      and f: "fill_pool conf socket_name cmd pids u = (r, t)"
      using st Cons.prems by (auto simp: io_bind_def q)
    with Cons.IH [OF st(1) _ _ _ _ f] st(3) Cons.prems show ?thesis by simp
  next
    case False
    then have "(r, t) = (q, u) \<and> q \<noteq> Inr () \<or> (r, t) = (Inr (), s) \<and> length (processes s) = ic_parallelism conf"
      using Cons.prems(5,6) by (cases q) (auto simp: io_bind_def q split: if_splits)
    then show ?thesis using st Cons.prems False by (auto split: if_splits)
  qed
qed

lemma io_bind_Inr:
  assumes "io_bind m f s = (Inr y, t)"
  obtains x u where "m s = (Inr x, u)" and "f x u = (Inr y, t)"
  using assms unfolding io_bind_def by (auto split: prod.splits sum.splits)

lemma activate_keeps:
  assumes "on_pool P" and "P s" and "\<And>pid. pid \<in> set (processes s) \<Longrightarrow> P (s\<lparr>active_process := pid\<rparr>)"
  shows "P (snd (activate files pid s))"
  using assms keeps_load_test_case [OF assms(1), of files] unfolding io_keeps_def
  by (auto simp: activate_def Let_def split: option.split)

lemma activate_active:
  assumes "activate files pid s = (Inr (), t)"
  shows "active_process t \<in> set (processes t)"
proof -
  define P where "P = (\<lambda>s :: orch. active_process s \<in> set (processes s))"
  have k: "io_keeps P (Ipc.load_test_case files path)" for path
    by (rule keeps_load_test_case) (simp add: P_def on_pool_def)
  from assms have "pid \<in> set (processes s)" by (auto simp: activate_def split: if_splits)
  then have "P (s\<lparr>active_process := pid\<rparr>)" by (simp add: P_def)
  with assms k [unfolded io_keeps_def, rule_format, of "s\<lparr>active_process := pid\<rparr>"] have "P t"
    by (auto simp: activate_def Let_def split: if_splits option.splits) (metis snd_conv)
  then show ?thesis by (simp add: P_def)
qed

lemma connect_pool:
  assumes "pool_ok s" and "connect files s = (r, t)"
  shows "pool_ok t \<and> length (processes t) = length (processes s) \<and> (r = Inr () \<longrightarrow> active_process t \<in> set (processes t))"
proof -
  define P where "P = (\<lambda>v. pool_ok v \<and> length (processes v) = length (processes s))"
  have P: "on_pool P" by (simp add: P_def on_pool_def pool_ok_def)
  have "io_keeps P (activate files pid)" for pid
    unfolding io_keeps_def by (intro allI impI activate_keeps [OF P]) (auto simp: P_def pool_ok_def)
  then have "io_keeps P (connect files)" unfolding connect_def by (intro keeps_bind keeps_conn [OF P] keeps_res)
  then have "P t" using assms unfolding io_keeps_def P_def by (metis snd_conv)
  moreover have "active_process t \<in> set (processes t)" if "r = Inr ()"
    using assms(2) that activate_active unfolding connect_def by (blast elim: io_bind_Inr)
  ultimately show ?thesis by (simp add: P_def)
qed

text \<open>
  C38. The pool of gem5 processes: \<open>restart_gem5\<close> keeps the invariant whatever gem5 answers and also
  when it raises, the pool never exceeds \<open>gem5_ipc_parallelism\<close> processes, and when it returns the pool is full and
  the active process is one of it. The hypotheses are those of process ids: the system gives out positive
  ids that no live process has (the id of the process just killed may be used again).
\<close>

theorem restart_keeps_pool:
  assumes "pool_ok s" and "length (processes s) \<le> ic_parallelism conf"
    and "distinct pids" and "0 \<notin> set pids" and "set pids \<inter> set (processes s) \<subseteq> {active_process s}"
    and "restart_gem5 conf socket_name files pids ready accept cmd s = (r, t)"
  shows "pool_ok t \<and> length (processes t) \<le> ic_parallelism conf \<and>
    (r = Inr () \<longrightarrow> length (processes t) = ic_parallelism conf \<and> active_process t \<in> set (processes t))"
proof -
  obtain s1 where s1: "kill_active s = (Inr (), s1)" "pool_ok s1" "active_process s1 = 0"
      "set (processes s1) = set (processes s) - {active_process s}" "length (processes s1) \<le> length (processes s)"
    using kill_active_pool [OF assms(1)] by blast
  obtain q s2 where s2: "fill_pool conf socket_name cmd pids s1 = (q, s2)" by (rule prod.exhaust)
  have "set pids \<inter> set (processes s1) = {}" using assms(5) s1(4) by blast
  from fill_pool_keeps [OF s1(2) assms(3,4) this _ s2] assms(2) s1(5)
  have f: "pool_ok s2" "length (processes s2) \<le> ic_parallelism conf"
    "q = Inr () \<Longrightarrow> length (processes s2) = ic_parallelism conf" by auto
  show ?thesis
  proof (cases "q = Inr () \<and> ready \<noteq> None")
    case True
    then obtain sock where "ready = Some sock" by blast
    with assms(6) True have "connect files (s2\<lparr>conn_in := accept sock, conn_out := []\<rparr>) = (r, t)"
      by (simp add: restart_gem5_def io_bind_def s1(1) s2)
    from connect_pool [OF _ this] f True show ?thesis by (simp add: pool_ok_def)
  next
    case False
    with assms(6) have "t = s2" "r \<noteq> Inr ()"
      by (auto simp: restart_gem5_def io_bind_def s1(1) s2 split: sum.splits option.splits)
    with f show ?thesis by simp
  qed
qed

text \<open>When ids suffice and the command names a socket, filling the pool does not raise.\<close>

lemma fill_pool_total:
  assumes "''SOCKET'' \<in> set cmd" and "\<not> (ic_analysis_run conf \<and> 1 < ic_parallelism conf)"
    and "distinct pids" and "set pids \<inter> set (processes s) = {}" and "ic_parallelism conf \<le> length (processes s) + length pids"
  shows "fst (fill_pool conf socket_name cmd pids s) = Inr ()"
  using assms(3-)
proof (induction pids arbitrary: s)
  case (Cons pid pids)
  define u where "u = snd (start_new_gem5_process conf socket_name cmd pid s)"
  have "start_new_gem5_process conf socket_name cmd pid s = (Inr (), u)" "processes u = processes s @ [pid]"
    using assms(1,2) Cons.prems(2) by (auto simp: u_def start_new_gem5_process_def socket_command_def Let_def)
  with Cons.IH [of u] Cons.prems show ?case by (auto simp: io_bind_def)
qed simp

text \<open>A process of the pool that announces itself becomes the active one.\<close>

lemma connect_announced:
  assumes "live (conn_in s)" and "avail (conn_in s) = packed [OP_ACK_INIT, int pid] @ rest"
    and "pid \<in> set (processes s)" and "pid < 2 ^ 64" and "last_case s = None"
  obtains es sent where "connect files s = (Inr (), s\<lparr>conn_in := es, conn_out := sent, active_process := pid\<rparr>)"
    and "live es" and "avail es = rest"
proof -
  have "talks (send_q [OP_INIT] []) [] () (packed [OP_INIT] @ [])" by (rule talks_send_q) (simp add: op_codes)
  then obtain es1 where e1: "send_q [OP_INIT] [] s = (Inr (), s\<lparr>conn_in := es1, conn_out := conn_out s @ packed [OP_INIT] @ []\<rparr>)"
      "avail es1 = packed [OP_ACK_INIT, int pid] @ rest" "live es1"
    using assms(1,2) unfolding talks_def by force
  have rq: "talks (recv_q 2) (packed [OP_ACK_INIT, int pid]) [OP_ACK_INIT, int pid] []"
    by (rule talks_recv_q) (use assms(4) in \<open>simp_all add: op_codes\<close>)
  obtain es where "recv_q 2 (s\<lparr>conn_in := es1, conn_out := conn_out s @ packed [OP_INIT]\<rparr>) =
      (Inr [OP_ACK_INIT, int pid], s\<lparr>conn_in := es, conn_out := conn_out s @ packed [OP_INIT]\<rparr>)" "avail es = rest" "live es"
    using rq [unfolded talks_def, rule_format, of "s\<lparr>conn_in := es1, conn_out := conn_out s @ packed [OP_INIT]\<rparr>" rest] e1(2,3)
    by auto
  with e1(1) assms(3,5) show thesis
    by (intro that [where es = es and sent = "conn_out s @ packed [OP_INIT]"])
      (simp_all add: connect_def io_bind_def io_check_def io_res_def activate_def)
qed

definition ex_ipc_conf :: ipc_conf where
  "ex_ipc_conf = \<lparr>ic_parallelism = 2, ic_analysis_run = False, ic_show_output = False, ic_enable_assist_page = True\<rparr>"

definition ex_accept :: "nat \<Rightarrow> poll list" where
  "ex_accept k = [Idle, Ready (packed [OP_ACK_INIT, 6])]"

lemma ex_pool_ok: "pool_ok (ex_orch [])"
  by (auto simp: pool_ok_def ex_orch_def)

theorem restart_keeps_pool_witness:
  "\<exists>t. restart_gem5 ex_ipc_conf nat_str (\<lambda>_. None) [6] (Some 2) ex_accept [''gem5'', ''SOCKET''] (ex_orch []) = (Inr (), t) \<and>
     pool_ok t \<and> length (processes t) = 2 \<and> active_process t \<in> set (processes t)"
proof -
  obtain r t where t: "restart_gem5 ex_ipc_conf nat_str (\<lambda>_. None) [6] (Some 2) ex_accept [''gem5'', ''SOCKET''] (ex_orch []) = (r, t)"
    by (rule prod.exhaust)
  have "fst (restart_gem5 ex_ipc_conf nat_str (\<lambda>_. None) [6] (Some 2) ex_accept [''gem5'', ''SOCKET''] (ex_orch [])) = Inr ()"
    by code_simp
  with t have "r = Inr ()" by simp
  with restart_keeps_pool [OF ex_pool_ok _ _ _ _ t] t show ?thesis by (simp add: ex_orch_def ex_ipc_conf_def)
qed

text \<open>After the end of the output of a process \<open>get_gem5_output\<close> does not return.\<close>

lemma get_gem5_output_returns:
  "ic_show_output conf \<or> reset_marker \<in> set lines \<longleftrightarrow> (\<exists>r. get_gem5_output conf lines = Some r)"
proof -
  have "reset_marker \<in> set lines \<longleftrightarrow> (\<exists>r. output_loop acc lines = Some r)" for acc
    by (induction lines arbitrary: acc) auto
  then show ?thesis by (simp add: get_gem5_output_def)
qed

text \<open>An empty text in an answer counts as a crash of gem5, whatever follows.\<close>

lemma empty_tags_crash:
  assumes "avail (conn_in s) = packed [ack, 0] @ rest" and "live (conn_in s)" and "in_range [op, ack]"
  shows "fst (request op ack s) = Inl Gem5Crash"
proof -
  have "talks (send_q [op] []) [] () (packed [op] @ [])" by (rule talks_send_q) (use assms(3) in simp)
  then obtain s1 where s1: "send_q [op] [] s = (Inr (), s1)" "live (conn_in s1)" "avail (conn_in s1) = packed [ack, 0] @ rest"
    using assms(1,2) unfolding talks_def by fastforce
  have "talks (recv_q 2) (packed [ack, 0]) [ack, 0] []" by (rule talks_recv_q) (use assms(3) in simp_all)
  then obtain s2 where s2: "recv_q 2 s1 = (Inr [ack, 0], s2)" using s1(2,3) unfolding talks_def by fastforce
  show ?thesis
    using recv_nothing_crashes [of "conn_in s2"]
    by (auto simp: request_def io_bind_def s1 s2 io_check_def io_res_def recv_io_def split: prod.splits)
qed

end
