(* ===== verification/Executor_Cmd.thy ===== *)
theory Executor_Cmd
  imports Ipc
begin

text \<open>
  The command line of gem5 (\<open>set_cmd\<close> and \<open>get_cmd\<close> of \<^verbatim>\<open>src/src/executor.py\<close>). The options
  that are read are the fields of a record. Environment variables are arguments. The lemmas show
  that the commands of the ipc mode are the ones the orchestration can start, and that the debug flags of the
  configuration grow with every command.
\<close>

datatype dolma_mode =
    Baseline | DOLMA_Default_MR | DOLMA_Conservative_MR | DOLMA_Default_M | DOLMA_Conservative_M
  | STT_Spectre_MR | STT_Futuristic_MR | STT_Spectre_M | STT_Futuristic_M

record gem5_conf =
  gc_location :: string
  gc_binary :: string
  gc_output_location :: string
  gc_checkpoint :: string
  gc_se :: string
  gc_orchestration :: string
  gc_sources :: "string list"
  gc_cpu_type :: string
  gc_cpu_clock :: string
  gc_sys_clock :: string
  gc_ruby :: bool
  gc_tbe_count :: int
  gc_l1d_size :: string
  gc_l1d_assoc :: int
  gc_l1i_size :: string
  gc_l1i_assoc :: int
  gc_cacheline_size :: conf_value
  gc_l2_size :: string
  gc_l2_assoc :: int
  gc_dtb_entries :: int
  gc_STT :: bool
  gc_STT_UnsafeBaseline :: bool
  gc_STT_FuturisticSpec :: bool
  gc_protean :: string
  gc_protean_pred_mode :: string
  gc_protean_pred_size :: string
  gc_script_opts :: string
  gc_DOLMA :: bool
  gc_DOLMA_mode :: "dolma_mode option"
  gc_SpecLFB :: bool
  gc_SpecLFB_UnsafeBaseline :: bool
  gc_CleanupSpec :: bool
  gc_CleanupSpec_UnsafeBaseline :: bool
  gc_InvisiSpec :: bool
  gc_InvisiSpec_UnsafeBaseline :: bool
  gc_InvisiSpec_FuturisticSpec :: bool
  gc_InvisiSpec_patch :: bool
  gc_save_checkpoints :: bool
  gc_debug :: bool
  gc_debug_flags :: "string list"
  gc_dump_stats :: bool
  gc_profile :: bool
  gc_main_region_size :: int

definition MAX_TICKS :: int where
  "MAX_TICKS = 1000000000"

subsection \<open>The fixed part\<close>

text \<open>The parts of \<open>set_cmd\<close>, in their order; an option that is \<open>None\<close> in the source is empty here.\<close>

definition cache_args :: "gem5_conf \<Rightarrow> string list" where
  "cache_args c =
     (if gc_ruby c
      then [''--ruby'', ''--L1_TBEs='' @ int_str (gc_tbe_count c), ''--L2_TBEs='' @ int_str (gc_tbe_count c),
            ''--DC_TBEs='' @ int_str (gc_tbe_count c)]
      else [''--caches'', ''--l2cache''])"

definition protean_args :: "gem5_conf \<Rightarrow> string list" where
  "protean_args c =
     (if gc_protean c \<noteq> []
      then [''--protean='' @ gc_protean c, ''--speculation-model=AtRet''] @
           (if gc_protean_pred_mode c \<noteq> [] then [''--protean-pred-mode='' @ gc_protean_pred_mode c] else []) @
           (if gc_protean_pred_size c \<noteq> [] then [''--protean-pred-size='' @ gc_protean_pred_size c] else [])
      else [])"

fun dolma_mode_args :: "dolma_mode option \<Rightarrow> string list res" where
  "dolma_mode_args None = Inl RuntimeError"
| "dolma_mode_args (Some Baseline) = Inr [''--mode=0'']"
| "dolma_mode_args (Some DOLMA_Default_MR) = Inr [''--mode=1'']"
| "dolma_mode_args (Some STT_Spectre_MR) = Inr [''--mode=1'', ''--stt=1'']"
| "dolma_mode_args (Some DOLMA_Conservative_MR) = Inr [''--mode=2'']"
| "dolma_mode_args (Some STT_Futuristic_MR) = Inr [''--mode=2'', ''--stt=1'']"
| "dolma_mode_args (Some DOLMA_Default_M) = Inr [''--mode=3'']"
| "dolma_mode_args (Some STT_Spectre_M) = Inr [''--mode=3'', ''--stt=1'']"
| "dolma_mode_args (Some DOLMA_Conservative_M) = Inr [''--mode=4'']"
| "dolma_mode_args (Some STT_Futuristic_M) = Inr [''--mode=4'', ''--stt=1'']"

definition dolma_args :: "gem5_conf \<Rightarrow> string list res" where
  "dolma_args c =
     (if gc_DOLMA c then res_bind (dolma_mode_args (gc_DOLMA_mode c)) (\<lambda>args. Inr (''--mem-type=SimpleMemory'' # args))
      else Inr [])"

definition speclfb_args :: "gem5_conf \<Rightarrow> string list" where
  "speclfb_args c =
     (if gc_SpecLFB c
      then [''--bp-type=BiModeBP'', if gc_SpecLFB_UnsafeBaseline c then ''--scheme=unsafebaseline'' else ''--scheme=Speclfb'']
      else [])"

text \<open>
  For STT, CleanupSpec and InvisiSpec the source appends an argument and then removes its first occurrence
  in the whole command, which is not the appended one when the script options contain it as well.
\<close>

definition stt_cmd :: "gem5_conf \<Rightarrow> string list \<Rightarrow> string list" where
  "stt_cmd c cmd =
     (if gc_STT c
      then let cmd = cmd @ [''--needsTSO=1'', ''--STT=1'', ''--implicit_channel=1'']
           in if gc_STT_UnsafeBaseline c
              then remove1 ''--implicit_channel=1'' (remove1 ''--STT=1'' cmd) @
                   [''--STT=0'', ''--implicit_channel=0'', ''--threat_model=UnsafeBaseline'']
              else if gc_STT_FuturisticSpec c then cmd @ [''--threat_model=Futuristic'']
              else cmd @ [''--threat_model=Spectre'']
      else cmd)"

definition cleanupspec_cmd :: "gem5_conf \<Rightarrow> string list \<Rightarrow> string list" where
  "cleanupspec_cmd c cmd =
     (if gc_CleanupSpec c
      then let cmd = cmd @ [''--needsTSO=0'', ''--scheme_invisispec=UnsafeBaseline'', ''--scheme_cleanupcache=Cleanup_FOR_L1L2'']
           in if gc_CleanupSpec_UnsafeBaseline c
              then remove1 ''--scheme_cleanupcache=Cleanup_FOR_L1L2'' cmd @ [''--scheme_cleanupcache=UnsafeBaseline'']
              else cmd
      else cmd)"

definition invisispec_cmd :: "gem5_conf \<Rightarrow> string list \<Rightarrow> string list" where
  "invisispec_cmd c cmd =
     (if gc_InvisiSpec c
      then let cmd = cmd @ [''--needsTSO=0'', ''--scheme=SpectreSafeInvisibleSpec''];
               cmd = (if gc_InvisiSpec_UnsafeBaseline c
                      then remove1 ''--scheme=SpectreSafeInvisibleSpec'' cmd @ [''--scheme=UnsafeBaseline'']
                      else if gc_InvisiSpec_FuturisticSpec c
                      then remove1 ''--scheme=SpectreSafeInvisibleSpec'' cmd @ [''--scheme=FuturisticSafeInvisibleSpec'']
                      else cmd)
           in if gc_InvisiSpec_patch c then cmd @ [''--apply-spec-eviction-patch''] else cmd
      else cmd)"

definition set_cmd :: "gem5_conf \<Rightarrow> string list res" where
  "set_cmd c =
     res_bind (parse_size_as_bytes (gc_cacheline_size c)) (\<lambda>line_size.
     let cmd = [gc_binary c, [], [], ''--outdir='' @ gc_output_location c, gc_se c, ''-c'', [],
                ''--num-cpu=1'', ''--cpu-type='' @ gc_cpu_type c, ''--cpu-clock='' @ gc_cpu_clock c,
                ''--sys-clock='' @ gc_sys_clock c] @ cache_args c @
               [''--l1d_size='' @ gc_l1d_size c, ''--l1d_assoc='' @ int_str (gc_l1d_assoc c),
                ''--l1i_size='' @ gc_l1i_size c, ''--l1i_assoc='' @ int_str (gc_l1i_assoc c),
                ''--cacheline_size='' @ int_str line_size,
                ''--l2_size='' @ gc_l2_size c, ''--l2_assoc='' @ int_str (gc_l2_assoc c),
                ''--DTB_entries='' @ int_str (gc_dtb_entries c)] @
               (if gc_orchestration c \<noteq> ''ipc'' then [''--dump-caches''] else []);
         cmd = stt_cmd c cmd @ protean_args c @ split_words [] (gc_script_opts c)
     in res_bind (dolma_args c) (\<lambda>dolma.
        let cmd = invisispec_cmd c (cleanupspec_cmd c (cmd @ dolma @ speclfb_args c))
        in Inr (cmd @ [''--rel-max-tick='' @ int_str MAX_TICKS, ''--checkpoint-dir='' @ gc_checkpoint c])))"

subsection \<open>The command of a run\<close>

text \<open>
  \<open>get_cmd\<close> with the configuration it leaves: with \<open>CONF.debug\<close> the list of debug flags that is extended is the
  one of the configuration itself. \<open>self.orchestration\<close> is the value of the configuration.
\<close>

definition config_ipc :: "gem5_conf \<Rightarrow> string" where
  "config_ipc c = gc_location c @ ''/configs/revizor/ipc.py''"

definition get_cmd ::
    "string \<Rightarrow> string option \<Rightarrow> string list \<Rightarrow> string \<Rightarrow> bool \<Rightarrow> bool \<Rightarrow> gem5_conf \<Rightarrow> (string list \<times> gem5_conf) res" where
  "get_cmd env_flags env_file base tc_path restore priming c =
     (if length base < 7 then Inl IndexError
      else
        let ipc = (gc_orchestration c = ''ipc'');
            cmd = (if ipc then base[4 := config_ipc c, 5 := []] else base);
            cmd = cmd[6 := tc_path];
            flags = (if gc_debug c then gc_debug_flags c else []);
            flags = (if ''dtlb'' \<in> set (gc_sources c) \<and> ''DumpTLBWithCaches'' \<notin> set flags
                     then flags @ [''DumpTLBWithCaches''] else flags);
            flags = (if ipc \<and> env_flags \<noteq> [] then flags @ split_at (CHR '','') env_flags else flags);
            cmd = (if flags \<noteq> []
                   then cmd[1 := ''--debug-flags='' @ join '','' flags,
                            2 := (case env_file of
                                    Some f \<Rightarrow> if f \<noteq> [] then ''--debug-file='' @ f else ''--debug-file=log.out''
                                  | None \<Rightarrow> ''--debug-file=log.out'')]
                   else cmd);
            cmd = cmd @ (if \<not> priming \<and> gc_save_checkpoints c then [''--checkpoint-at-end''] else []) @
                  (if gc_debug c \<or> gc_dump_stats c then [''--dump-stats''] else []) @
                  (if restore then [''--restore-with-cpu=DerivO3CPU'', ''-r 1''] else []) @
                  (if ipc then [''--socket'', ''SOCKET'', ''--sandbox-size'', int_str (gc_main_region_size c)] else []) @
                  (if gc_profile c then [''--profile''] else [])
        in Inr (filter (\<lambda>arg. arg \<noteq> []) cmd, if gc_debug c then c\<lparr>gc_debug_flags := flags\<rparr> else c))"

subsection \<open>Facts\<close>

lemma length_special_cmds:
  "length cmd \<le> length (stt_cmd c cmd)" "length cmd \<le> length (cleanupspec_cmd c cmd)" "length cmd \<le> length (invisispec_cmd c cmd)"
  by (simp_all add: stt_cmd_def cleanupspec_cmd_def invisispec_cmd_def Let_def length_remove1)

lemma set_cmd_length: "set_cmd c = Inr cmd \<Longrightarrow> 7 \<le> length cmd"
proof -
  assume "set_cmd c = Inr cmd"
  then obtain pre post mid where "cmd = invisispec_cmd c (cleanupspec_cmd c ((stt_cmd c pre @ mid) @ post)) @
      [''--rel-max-tick='' @ int_str MAX_TICKS, ''--checkpoint-dir='' @ gc_checkpoint c]" and "7 \<le> length pre"
    unfolding set_cmd_def Let_def res_bind_Inr_iff by fastforce
  moreover have "length pre \<le> length (invisispec_cmd c (cleanupspec_cmd c ((stt_cmd c pre @ mid) @ post)))"
    using length_special_cmds [of pre c] length_special_cmds [of "(stt_cmd c pre @ mid) @ post" c]
      length_special_cmds [of "cleanupspec_cmd c ((stt_cmd c pre @ mid) @ post)" c] by simp
  ultimately show "7 \<le> length cmd" by simp
qed

text \<open>
  The executor and the orchestration fit together: the command \<open>get_cmd\<close> builds in ipc mode has
  no blank argument and names the socket, so that filling the pool of processes with it never raises
  (given enough process ids).
\<close>

lemma get_cmd_fills_pool:
  assumes "set_cmd c = Inr base" and "gc_orchestration c = ''ipc''"
    and "\<not> (ic_analysis_run conf \<and> 1 < ic_parallelism conf)"
    and "distinct pids" and "set pids \<inter> set (processes s) = {}" and "ic_parallelism conf \<le> length (processes s) + length pids"
  shows "\<exists>cmd c'. get_cmd env_flags env_file base tc_path restore priming c = Inr (cmd, c') \<and> [] \<notin> set cmd \<and>
    fst (fill_pool conf socket_name cmd pids s) = Inr ()"
proof -
  have "\<not> length base < 7" using set_cmd_length [OF assms(1)] by simp
  then obtain cmd c' where g: "get_cmd env_flags env_file base tc_path restore priming c = Inr (cmd, c')"
      and "[] \<notin> set cmd" and "''SOCKET'' \<in> set cmd"
    using assms(2) by (simp add: get_cmd_def Let_def)
  with fill_pool_total [OF _ assms(3-6), of cmd socket_name] show ?thesis by blast
qed

definition ex_gem5_conf :: gem5_conf where
  "ex_gem5_conf = \<lparr>gc_location = ''g'', gc_binary = ''g/gem5.opt'', gc_output_location = ''g/m5out'', gc_checkpoint = ''g/cpt'',
     gc_se = ''g/se.py'', gc_orchestration = ''ipc'', gc_sources = [''data_cache'', ''dtlb''], gc_cpu_type = ''DerivO3CPU'',
     gc_cpu_clock = ''2GHz'', gc_sys_clock = ''2GHz'', gc_ruby = False, gc_tbe_count = 256, gc_l1d_size = ''32kB'', gc_l1d_assoc = 8,
     gc_l1i_size = ''8kB'', gc_l1i_assoc = 2, gc_cacheline_size = CInt 64, gc_l2_size = ''2MB'', gc_l2_assoc = 8,
     gc_dtb_entries = 64, gc_STT = True, gc_STT_UnsafeBaseline = True, gc_STT_FuturisticSpec = False, gc_protean = [],
     gc_protean_pred_mode = [], gc_protean_pred_size = [], gc_script_opts = ''--x=1'', gc_DOLMA = False, gc_DOLMA_mode = None,
     gc_SpecLFB = False, gc_SpecLFB_UnsafeBaseline = False, gc_CleanupSpec = False, gc_CleanupSpec_UnsafeBaseline = False,
     gc_InvisiSpec = False, gc_InvisiSpec_UnsafeBaseline = False, gc_InvisiSpec_FuturisticSpec = False,
     gc_InvisiSpec_patch = False, gc_save_checkpoints = False, gc_debug = True, gc_debug_flags = [], gc_dump_stats = False,
     gc_profile = False, gc_main_region_size = 4096\<rparr>"

lemma get_cmd_fills_pool_example:
  "\<exists>base cmd c'. set_cmd ex_gem5_conf = Inr base \<and> get_cmd [] None base [] False False ex_gem5_conf = Inr (cmd, c') \<and>
     [] \<notin> set cmd \<and> fst (fill_pool ex_ipc_conf nat_str cmd [6, 7] (ex_orch [])) = Inr ()"
proof -
  obtain base where b: "set_cmd ex_gem5_conf = Inr base"
    by (simp add: set_cmd_def ex_gem5_conf_def parse_size_as_bytes_def dolma_args_def Let_def)
  have "gc_orchestration ex_gem5_conf = ''ipc''" by (simp add: ex_gem5_conf_def)
  from get_cmd_fills_pool [OF b this, of ex_ipc_conf "[6, 7]" "ex_orch []"] b show ?thesis
    by (simp add: ex_ipc_conf_def ex_orch_def)
qed

text \<open>With debugging on, every command adds the flags of the environment to the configuration once more.\<close>

lemma debug_flags_accumulate:
  assumes "gc_debug c" and "gc_orchestration c = ''ipc''" and "env_flags \<noteq> []"
    and "get_cmd env_flags env_file base tc_path restore priming c = Inr (cmd, c')"
  shows "\<exists>fs. gc_debug_flags c' = fs @ split_at (CHR '','') env_flags \<and> length (gc_debug_flags c) \<le> length fs"
  using assms by (auto simp: get_cmd_def Let_def split: if_splits)

end
