(* ===== verification/Debug_Files.thy ===== *)
theory Debug_Files
  imports Interfaces
begin

text \<open>
  The debug files of the executor (\<open>open_debug_file\<close> and the functions around it in
  \<^verbatim>\<open>src/src/executor.py\<close>): files that are kept in memory until a violation is found, with the disk
  behind them. A file is its contents; the disk is the list of its files by path, directories being
  the prefixes of paths. The locale \<open>file_store\<close> states what the executor relies on; both modes of the
  store implement it.
\<close>

subsection \<open>Opening and closing\<close>

record files =
  debug_files :: "(string, string) dict"
  disk :: "(string, string) dict"

datatype handle = DiskReader string | MemReader string | DiskWriter string | MemWriter string

text \<open>
  \<open>open(filename, mode)\<close> for the four modes in use: for writing the file is emptied at once. Directories
  of files opened for writing exist.
\<close>

definition disk_open :: "string \<Rightarrow> string \<Rightarrow> files \<Rightarrow> (handle \<times> files) res" where
  "disk_open filename mode s =
     (if mode = ''r'' \<or> mode = ''rb''
      then if filename \<in> fst ` set (disk s) then Inr (DiskReader filename, s) else Inl FileNotFoundError
      else if mode = ''w'' \<or> mode = ''wb'' then Inr (DiskWriter filename, s\<lparr>disk := AList.update filename [] (disk s)\<rparr>)
      else Inl ValueError)"

text \<open>\<open>open_debug_file\<close>; \<open>None\<close> is returned for a mode it does not know.\<close>

definition open_debug_file :: "bool \<Rightarrow> string \<Rightarrow> string \<Rightarrow> files \<Rightarrow> (handle option \<times> files) res" where
  "open_debug_file debug filename mode s =
     res_bind (if debug then Inr True
               else res_bind (py_nth mode 0) (\<lambda>c. Inr (c = CHR ''r'' \<and> filename \<notin> fst ` set (debug_files s)))) (\<lambda>real.
     if real then res_bind (disk_open filename mode s) (\<lambda>(h, s). Inr (Some h, s))
     else if mode = ''r'' \<or> mode = ''rb''
     then res_bind (dict_get (debug_files s) filename) (\<lambda>contents. Inr (Some (MemReader contents), s))
     else if mode = ''w'' \<or> mode = ''wb'' then Inr (Some (MemWriter filename), s)
     else Inr (None, s))"

definition read_handle :: "handle \<Rightarrow> files \<Rightarrow> string res" where
  "read_handle h s =
     (case h of
        DiskReader f \<Rightarrow> dict_get (disk s) f
      | MemReader contents \<Rightarrow> Inr contents
      | _ \<Rightarrow> Inl IOError)"

text \<open>\<open>write\<close> and \<open>close\<close>: what was written is stored in the dictionary or in the file.\<close>

definition close_handle :: "handle \<Rightarrow> string \<Rightarrow> files \<Rightarrow> files res" where
  "close_handle h written s =
     (case h of
        DiskWriter f \<Rightarrow> Inr (s\<lparr>disk := AList.update f written (disk s)\<rparr>)
      | MemWriter f \<Rightarrow> Inr (s\<lparr>debug_files := AList.update f written (debug_files s)\<rparr>)
      | _ \<Rightarrow> if written = [] then Inr s else Inl IOError)"

definition use_handle :: "handle option \<Rightarrow> (handle \<Rightarrow> 'a res) \<Rightarrow> 'a res" where
  "use_handle h f = (case h of None \<Rightarrow> Inl AttributeError | Some h \<Rightarrow> f h)"

subsection \<open>Operations\<close>

definition read_debug_file :: "bool \<Rightarrow> string \<Rightarrow> files \<Rightarrow> string res" where
  "read_debug_file debug filename s =
     res_bind (open_debug_file debug filename ''r'' s) (\<lambda>(h, s). use_handle h (\<lambda>h. read_handle h s))"

definition write_debug_file :: "bool \<Rightarrow> string \<Rightarrow> string \<Rightarrow> files \<Rightarrow> files res" where
  "write_debug_file debug filename contents s =
     res_bind (open_debug_file debug filename ''w'' s) (\<lambda>(h, s). use_handle h (\<lambda>h. close_handle h contents s))"

definition copy_debug_file :: "bool \<Rightarrow> string \<Rightarrow> string \<Rightarrow> bool \<Rightarrow> files \<Rightarrow> files res" where
  "copy_debug_file debug source destination error_if_not_found s =
     (case res_bind (open_debug_file debug source ''rb'' s) (\<lambda>(src, s). use_handle src (\<lambda>src.
           res_bind (open_debug_file debug destination ''wb'' s) (\<lambda>(dst, s). use_handle dst (\<lambda>dst.
           res_bind (read_handle src s) (\<lambda>contents. close_handle dst contents s))))) of
        Inl FileNotFoundError \<Rightarrow> if error_if_not_found then Inl FileNotFoundError else Inr s
      | r \<Rightarrow> r)"

definition write_debug_files :: "files \<Rightarrow> files" where
  "write_debug_files s =
     s\<lparr>disk := fold (\<lambda>(name, contents). AList.update name contents) (debug_files s) (disk s), debug_files := []\<rparr>"

definition rmtree_if_exists :: "string \<Rightarrow> files \<Rightarrow> files" where
  "rmtree_if_exists path s = s\<lparr>disk := filter (\<lambda>(f, c). f \<noteq> path \<and> \<not> starts_with f (path @ ''/'')) (disk s)\<rparr>"

definition delete_debug_files :: "bool \<Rightarrow> string \<Rightarrow> string \<Rightarrow> files \<Rightarrow> files" where
  "delete_debug_files debug orchestration dir s =
     (let s = (if debug \<or> orchestration \<noteq> ''ipc'' then rmtree_if_exists dir s else s)
      in s\<lparr>debug_files := []\<rparr>)"

definition copy_file_if_exists :: "string \<Rightarrow> string \<Rightarrow> files \<Rightarrow> bool \<times> files" where
  "copy_file_if_exists source dest s =
     (case map_of (disk s) source of
        None \<Rightarrow> (False, s)
      | Some c \<Rightarrow> (True, s\<lparr>disk := AList.update dest c (disk s)\<rparr>))"

subsection \<open>One file system\<close>

text \<open>What the executor sees: a file in memory hides the file of the same name on disk.\<close>

definition view :: "files \<Rightarrow> string \<Rightarrow> string option" where
  "view s f = (case map_of (debug_files s) f of Some c \<Rightarrow> Some c | None \<Rightarrow> map_of (disk s) f)"

locale file_store =
  fixes seen :: "'s \<Rightarrow> string \<Rightarrow> string option"
    and rd :: "string \<Rightarrow> 's \<Rightarrow> string res"
    and wr :: "string \<Rightarrow> string \<Rightarrow> 's \<Rightarrow> 's res"
    and ok :: "'s \<Rightarrow> bool"
  assumes rd_seen: "ok s \<Longrightarrow> rd f s = (case seen s f of None \<Rightarrow> Inl FileNotFoundError | Some c \<Rightarrow> Inr c)"
    and wr_seen: "ok s \<Longrightarrow> \<exists>t. wr f c s = Inr t \<and> ok t \<and> seen t = (seen s)(f \<mapsto> c)"
begin

lemma read_after_write:
  assumes "ok s" and "wr f c s = Inr t"
  shows "rd g t = (if g = f then Inr c else rd g s)"
  using wr_seen [OF assms(1), of f c] assms by (auto simp: rd_seen)

lemma write_many:
  assumes "ok s"
  shows "\<exists>t. res_fold (\<lambda>(f, c). wr f c) fcs s = Inr t \<and> ok t \<and> seen t = seen s ++ map_of (rev fcs)"
  using assms
proof (induction fcs arbitrary: s)
  case (Cons fc fcs)
  obtain u where u: "wr (fst fc) (snd fc) s = Inr u" "ok u" "seen u = (seen s)(fst fc \<mapsto> snd fc)"
    using wr_seen [OF Cons.prems] by blast
  have "seen u ++ m = seen s ++ (map_of [fc] ++ m)" for m using u(3) by (cases fc) simp
  with u Cons.IH [OF u(2)] show ?case by (auto simp: split_beta fun_upd_def)
qed simp

end

lemma key_in_dict: "f \<in> fst ` set d \<longleftrightarrow> map_of d f \<noteq> None"
  by (simp add: map_of_eq_None_iff)

lemma mem_open_simps:
  "open_debug_file False f ''r'' s =
     (case map_of (debug_files s) f of
        None \<Rightarrow> res_bind (disk_open f ''r'' s) (\<lambda>(h, s). Inr (Some h, s)) | Some c \<Rightarrow> Inr (Some (MemReader c), s))"
  "open_debug_file False f ''w'' s = Inr (Some (MemWriter f), s)"
  "open_debug_file False f ''rb'' s = open_debug_file False f ''r'' s"
  "open_debug_file False f ''wb'' s = open_debug_file False f ''w'' s"
  by (cases "map_of (debug_files s) f"; simp add: open_debug_file_def dict_get_def disk_open_def key_in_dict)+

interpretation mem: file_store view "read_debug_file False" "write_debug_file False" "\<lambda>_. True"
proof
  fix s :: files and f c
  show "read_debug_file False f s = (case view s f of None \<Rightarrow> Inl FileNotFoundError | Some c \<Rightarrow> Inr c)"
    by (auto simp: read_debug_file_def mem_open_simps view_def disk_open_def use_handle_def read_handle_def dict_get_def
        key_in_dict split: option.splits)
  show "\<exists>t. write_debug_file False f c s = Inr t \<and> True \<and> view t = (view s)(f \<mapsto> c)"
    by (auto simp: write_debug_file_def mem_open_simps view_def fun_eq_iff use_handle_def close_handle_def split: option.split)
qed

interpretation dsk: file_store view "read_debug_file True" "write_debug_file True" "\<lambda>s. debug_files s = []"
proof
  fix s :: files and f c
  assume m: "debug_files s = []"
  show "read_debug_file True f s = (case view s f of None \<Rightarrow> Inl FileNotFoundError | Some c \<Rightarrow> Inr c)"
    using m by (auto simp: read_debug_file_def open_debug_file_def view_def disk_open_def use_handle_def read_handle_def
        dict_get_def key_in_dict split: option.splits)
  show "\<exists>t. write_debug_file True f c s = Inr t \<and> debug_files t = [] \<and> view t = (view s)(f \<mapsto> c)"
    using m by (auto simp: write_debug_file_def open_debug_file_def disk_open_def view_def fun_eq_iff use_handle_def close_handle_def)
qed

text \<open>The mode of the store: with \<open>CONF.debug\<close> nothing is kept in memory.\<close>

definition store_ok :: "bool \<Rightarrow> files \<Rightarrow> bool" where
  "store_ok debug s \<longleftrightarrow> (debug \<longrightarrow> debug_files s = []) \<and> distinct (map fst (debug_files s))"

lemma copy_debug_file_view:
  assumes "store_ok debug s" and "debug \<Longrightarrow> source \<noteq> destination"
  shows "copy_debug_file debug source destination err s =
    (case view s source of
       None \<Rightarrow> if err then Inl FileNotFoundError else Inr s
     | Some c \<Rightarrow> write_debug_file debug destination c s)"
proof (cases debug)
  case True
  with assms show ?thesis
    by (cases "map_of (disk s) source")
      (auto simp: store_ok_def copy_debug_file_def write_debug_file_def open_debug_file_def disk_open_def view_def
        use_handle_def read_handle_def close_handle_def dict_get_def key_in_dict)
next
  case False
  then show ?thesis
    by (cases "map_of (debug_files s) source"; cases "map_of (disk s) source")
      (auto simp: copy_debug_file_def write_debug_file_def mem_open_simps disk_open_def view_def
        use_handle_def read_handle_def close_handle_def dict_get_def key_in_dict)
qed

lemma map_of_write_all:
  "map_of (fold (\<lambda>(name, contents). AList.update name contents) fs d) = map_of d ++ map_of (rev fs)"
proof (induction fs arbitrary: d)
  case (Cons f fs)
  have "(map_of d)(fst f \<mapsto> snd f) ++ m = map_of d ++ (map_of [f] ++ m)" for m by (cases f) simp
  with Cons show ?case by (simp add: split_beta fun_upd_def)
qed simp

lemma map_of_rev_distinct: "distinct (map fst d) \<Longrightarrow> map_of (rev d) = map_of d"
  by (intro map_of_inject_set [THEN iffD2]) (simp_all add: rev_map [symmetric])

lemma read_debug_file_view:
  "store_ok debug s \<Longrightarrow> read_debug_file debug f s = (case view s f of None \<Rightarrow> Inl FileNotFoundError | Some c \<Rightarrow> Inr c)"
  using mem.rd_seen dsk.rd_seen by (cases debug) (auto simp: store_ok_def)

lemma write_debug_file_view:
  assumes "store_ok debug s"
  obtains t where "write_debug_file debug f c s = Inr t" and "store_ok debug t" and "view t = (view s)(f \<mapsto> c)"
proof (cases debug)
  case True
  then show ?thesis using assms dsk.wr_seen [of s f c] that by (auto simp: store_ok_def)
next
  case False
  obtain t where t: "write_debug_file False f c s = Inr t" "view t = (view s)(f \<mapsto> c)"
    using mem.wr_seen by blast
  moreover from t(1) have "debug_files t = AList.update f c (debug_files s)"
    by (auto simp: write_debug_file_def mem_open_simps use_handle_def close_handle_def)
  ultimately show ?thesis using assms False by (intro that [of t]) (simp_all add: store_ok_def)
qed

lemma write_debug_files_view:
  assumes "store_ok debug s"
  shows "view (write_debug_files s) = view s" and "map_of (disk (write_debug_files s)) = view s"
proof -
  show "map_of (disk (write_debug_files s)) = view s"
    using assms unfolding write_debug_files_def store_ok_def
    by (auto simp: map_of_write_all map_of_rev_distinct view_def map_add_def fun_eq_iff split: option.split)
  then show "view (write_debug_files s) = view s" by (simp add: view_def write_debug_files_def fun_eq_iff)
qed

lemma copy_debug_file_seen:
  assumes "store_ok debug s" and "source \<noteq> destination" and "copy_debug_file debug source destination err s = Inr u"
  shows "view u = (case view s source of None \<Rightarrow> view s | Some c \<Rightarrow> (view s)(destination \<mapsto> c)) \<and> store_ok debug u"
proof (cases "view s source")
  case (Some d)
  obtain t where "write_debug_file debug destination d s = Inr t" "view t = (view s)(destination \<mapsto> d)" "store_ok debug t"
    by (rule write_debug_file_view [OF assms(1)])
  with Some assms(3) show ?thesis by (simp add: copy_debug_file_view [OF assms(1)] assms(2))
qed (use assms in \<open>simp add: copy_debug_file_view [OF assms(1)] assms(2) split: if_splits\<close>)

text \<open>
  C10. The debug files behave as one file system, in memory as with \<open>CONF.debug\<close>: reading gives what
  was written last, a copy has the contents of its source, nothing else changes, and \<open>write_debug_files\<close> puts exactly the
  files that were visible on the disk.
\<close>

theorem debug_files_one_file_system:
  assumes "store_ok debug s" and "source \<noteq> destination"
  shows "(\<exists>t. write_debug_file debug f c s = Inr t \<and> store_ok debug t \<and> view t = (view s)(f \<mapsto> c)) \<and>
    read_debug_file debug f s = (case view s f of None \<Rightarrow> Inl FileNotFoundError | Some c \<Rightarrow> Inr c) \<and>
    (copy_debug_file debug source destination err s = Inr u \<longrightarrow>
      view u = (case view s source of None \<Rightarrow> view s | Some c \<Rightarrow> (view s)(destination \<mapsto> c))) \<and>
    map_of (disk (write_debug_files s)) = view s"
  using write_debug_file_view [OF assms(1), of f c] copy_debug_file_seen [OF assms]
    read_debug_file_view [OF assms(1)] write_debug_files_view [OF assms(1)] by metis

definition ex_files :: files where
  "ex_files = \<lparr>debug_files = [(''d/a'', ''new'')], disk = [(''d/a'', ''old''), (''m5out/log.out'', ''log'')]\<rparr>"

theorem debug_files_one_file_system_witness:
  "\<exists>u. copy_debug_file False ''m5out/log.out'' ''d/log'' True ex_files = Inr u \<and>
     view u = (view ex_files)(''d/log'' \<mapsto> ''log'') \<and> view u ''d/a'' = Some ''new''"
proof -
  have ok: "store_ok False ex_files" and ne: "''m5out/log.out'' \<noteq> ''d/log''" by (simp_all add: store_ok_def ex_files_def)
  have v: "view ex_files ''m5out/log.out'' = Some ''log''" "view ex_files ''d/a'' = Some ''new''"
    by (simp_all add: view_def ex_files_def)
  obtain u where "write_debug_file False ''d/log'' ''log'' ex_files = Inr u"
    by (rule write_debug_file_view [OF ok])
  with v have u: "copy_debug_file False ''m5out/log.out'' ''d/log'' True ex_files = Inr u"
    by (simp add: copy_debug_file_view [OF ok])
  from debug_files_one_file_system [OF ok ne, of _ _ True u] u v show ?thesis by simp
qed

text \<open>Without debugging in ipc mode \<open>delete_debug_files\<close> leaves the files on the disk.\<close>

lemma delete_debug_files_keeps_disk: "disk (delete_debug_files False ''ipc'' dir s) = disk s"
  by (simp add: delete_debug_files_def)

lemma delete_debug_files_removes:
  assumes "debug \<or> orchestration \<noteq> ''ipc''" and "starts_with f (dir @ ''/'')"
  shows "view (delete_debug_files debug orchestration dir s) f = None"
  using assms by (auto simp: delete_debug_files_def rmtree_if_exists_def view_def map_of_eq_None_iff)

end
