(* ===== verification/Raw_Trace.thy ===== *)
theory Raw_Trace
  imports Executor_Cmd Debug_Files "HOL-Library.Multiset"
begin

text \<open>
  From the tags gem5 reports to a hardware trace (\<open>format_checkpoint_file\<close>, \<open>get_raw_trace\<close> and \<open>get_trace\<close> of
  \<^verbatim>\<open>src/src/executor.py\<close>). The reading of TOML is that of a package, an argument here; a document consists of tables and
  strings only, because every value is quoted before. The theorems say which tags
  two equal traces have in common.
\<close>

subsection \<open>Checkpoint files\<close>

text \<open>The lines of a file with their line ends, and \<open>str.replace\<close>.\<close>

fun split_lines :: "string \<Rightarrow> string list" where
  "split_lines [] = []"
| "split_lines (c # s) =
     (if c = CHR 0x0A then [c] # split_lines s
      else case split_lines s of [] \<Rightarrow> [[c]] | l # ls \<Rightarrow> (c # l) # ls)"

function replace_str :: "string \<Rightarrow> string \<Rightarrow> string \<Rightarrow> string" where
  "replace_str p r s =
     (case s of
        [] \<Rightarrow> []
      | c # cs \<Rightarrow> if p \<noteq> [] \<and> starts_with s p then r @ replace_str p r (drop (length p) s) else c # replace_str p r cs)"
  by pat_completeness auto

termination
  by (relation "measure (\<lambda>(p, r, s). length s)") auto

declare replace_str.simps [simp del]

definition quoted_line :: "string \<Rightarrow> string res" where
  "quoted_line line =
     (let spl = split_at (CHR ''='') line in
      res_bind (py_nth spl 0) (\<lambda>key. res_bind (py_nth spl 1) (\<lambda>v.
      Inr (key @ ''=\"'' @ filter (\<lambda>c. c \<noteq> CHR 0x0A) v @ ''\"''))))"

definition header_id :: "string \<Rightarrow> string" where
  "header_id line = (let l = strip line in take (length l - 2) (tl l))"

definition dashed :: "string \<Rightarrow> string" where
  "dashed s = replace_str '']'' ''--'' (replace_str ''['' ''--'' s)"

definition format_line :: "string \<Rightarrow> string res" where
  "format_line line =
     (if CHR ''='' \<in> set line then quoted_line line
      else if CHR ''['' \<in> set line then Inr (''['' @ dashed (header_id line) @ '']'')
      else Inr line)"

definition format_text :: "string \<Rightarrow> string res" where
  "format_text s = res_bind (res_map format_line (split_lines s)) (\<lambda>lines. Inr (join [CHR 0x0A] lines))"

definition format_checkpoint_file :: "bool \<Rightarrow> string \<Rightarrow> string \<Rightarrow> files \<Rightarrow> files res" where
  "format_checkpoint_file debug source destination s =
     res_bind (read_debug_file debug source s) (\<lambda>t.
     res_bind (format_text t) (\<lambda>u. write_debug_file debug destination u s))"

text \<open>The variant for traces of states: headers are put below the last \<open>State_\<close> header.\<close>

definition format_trace_line :: "string \<Rightarrow> string list \<times> string option \<Rightarrow> (string list \<times> string option) res" where
  "format_trace_line line acc =
     (case acc of (lines, current) \<Rightarrow>
      if CHR ''='' \<in> set line then res_bind (quoted_line line) (\<lambda>l. Inr (lines @ [l], current))
      else if CHR ''['' \<in> set line then
        let i = header_id line in
        if contains i ''State_'' then Inr (lines @ [''['' @ i @ '']''], Some (replace_str ''State_'' [] i))
        else case current of
               None \<Rightarrow> Inl TypeError
             | Some st \<Rightarrow> Inr (lines @ [''[State_'' @ st @ ''.'' @ dashed i @ '']''], current)
      else Inr (lines @ [line], current))"

definition format_checkpoint_trace_file :: "bool \<Rightarrow> string \<Rightarrow> string \<Rightarrow> files \<Rightarrow> files res" where
  "format_checkpoint_trace_file debug source destination s =
     res_bind (read_debug_file debug source s) (\<lambda>t.
     res_bind (res_fold format_trace_line (split_lines t) ([], None)) (\<lambda>(lines, current).
     write_debug_file debug destination (join [CHR 0x0A] lines) s))"

subsection \<open>Documents\<close>

datatype toml = TStr string | TTable "(string \<times> toml) list"

text \<open>\<open>t[k1][k2]...\<close>, and \<open>'k1' in t.keys() and 'k2' in t['k1'].keys() ...\<close>\<close>

fun toml_path :: "toml \<Rightarrow> string list \<Rightarrow> toml res" where
  "toml_path t [] = Inr t"
| "toml_path (TStr s) (k # ks) = Inl TypeError"
| "toml_path (TTable d) (k # ks) = (case map_of d k of None \<Rightarrow> Inl KeyError | Some t \<Rightarrow> toml_path t ks)"

fun has_path :: "toml \<Rightarrow> string list \<Rightarrow> bool res" where
  "has_path t [] = Inr True"
| "has_path (TStr s) (k # ks) = Inl AttributeError"
| "has_path (TTable d) (k # ks) = (case map_of d k of None \<Rightarrow> Inr False | Some t \<Rightarrow> has_path t ks)"

fun toml_text :: "toml \<Rightarrow> string res" where
  "toml_text (TStr s) = Inr s"
| "toml_text (TTable d) = Inl AttributeError"

text \<open>\<open>get_checkpoint_field\<close>: a section that is absent or empty gives the empty string.\<close>

definition get_checkpoint_field :: "(string \<Rightarrow> toml res) \<Rightarrow> string \<Rightarrow> string \<Rightarrow> toml res" where
  "get_checkpoint_field toml_load contents field_path =
     (let spl = split_at (CHR ''.'') field_path in
      res_bind (py_nth spl 0) (\<lambda>section.
      res_bind (py_nth spl 1) (\<lambda>field.
      res_bind (toml_load contents) (\<lambda>t.
      case t of
        TStr s \<Rightarrow> Inl AttributeError
      | TTable d \<Rightarrow>
          (case map_of d section of
             None \<Rightarrow> Inr (TStr [])
           | Some (TStr s) \<Rightarrow> if s = [] then Inr (TStr []) else Inl TypeError
           | Some (TTable e) \<Rightarrow> if e = [] then Inr (TStr []) else toml_path (TTable e) [field])))))"

subsection \<open>Raw traces\<close>

datatype trace_item = TagItem int | TomlItem toml

definition addresses :: "toml \<Rightarrow> string list \<Rightarrow> int list res" where
  "addresses tags path =
     res_bind (toml_path tags (path @ [''addresses''])) (\<lambda>t.
     res_bind (toml_text t) (\<lambda>s. res_map py_int (split_words [] s)))"

definition cpu_path :: "string \<Rightarrow> string list" where
  "cpu_path cache = [''system'', ''cpu'', cache]"

definition ruby_path :: "string \<Rightarrow> string list" where
  "ruby_path cache = [''system'', ''ruby'', ''l1_cntrl0'', cache]"

text \<open>
  The tags of a cache from the classic or the Ruby memory system. The replacement bits are never
  included: the option is looked up as an attribute of a dictionary, which has none of this name.
\<close>

definition cache_state :: "string \<Rightarrow> string \<Rightarrow> toml \<Rightarrow> int list res" where
  "cache_state cpu_cache ruby_cache tags =
     res_bind (has_path tags (cpu_path cpu_cache)) (\<lambda>cpu.
     if cpu then addresses tags (cpu_path cpu_cache)
     else res_bind (has_path tags (ruby_path ruby_cache)) (\<lambda>ruby.
          if ruby then addresses tags (ruby_path ruby_cache) else Inl SystemExit))"

definition tlb_state :: "toml \<Rightarrow> int list res" where
  "tlb_state tags =
     res_bind (toml_path tags [''system'', ''cpu'', ''dtb'']) (\<lambda>tlb.
     case tlb of
       TStr s \<Rightarrow> Inr []
     | TTable d \<Rightarrow>
         res_map (\<lambda>(entry, t). res_bind (toml_path t [''paddr'']) (\<lambda>p. res_bind (toml_text p) py_int))
           (filter (\<lambda>(entry, t). starts_with entry ''Entry'') d))"

definition SANDBOX_BASE_PADDR :: int where
  "SANDBOX_BASE_PADDR = 0x3000"

definition process_tag :: "gem5_conf \<Rightarrow> int \<Rightarrow> int res" where
  "process_tag c tag =
     (let tag = tag - SANDBOX_BASE_PADDR in
      if 0 \<le> tag \<and> tag < gc_main_region_size c then Inr tag
      else res_bind (parse_size (gc_l1d_size c)) (\<lambda>l1d_size.
           if gc_l1d_assoc c = 0 then Inl ZeroDivisionError
           else let set_identifier = tag AND (l1d_size div gc_l1d_assoc c - 1)
                in Inr (set_identifier OR gc_main_region_size c)))"

definition in_sandbox :: "gem5_conf \<Rightarrow> int \<Rightarrow> bool" where
  "in_sandbox c tag \<longleftrightarrow> SANDBOX_BASE_PADDR \<le> tag \<and> tag < SANDBOX_BASE_PADDR + gc_main_region_size c"

definition source_trace :: "gem5_conf \<Rightarrow> toml \<Rightarrow> string \<Rightarrow> trace_item list res" where
  "source_trace c tags src =
     (let ipc = (gc_orchestration c = ''ipc'') in
      if src = ''data_cache'' then
        res_bind (cache_state ''dcache'' ''L1Dcache'' tags) (\<lambda>state.
        res_bind (if ipc then res_map (process_tag c) state else Inr state) (\<lambda>state.
        Inr (map TagItem (sort state))))
      else if src = ''instr_cache'' then
        res_bind (cache_state ''icache'' ''L1Icache'' tags) (\<lambda>state. Inr (map TagItem (sort state)))
      else if src = ''dtlb'' then
        res_bind (tlb_state tags) (\<lambda>state. Inr (map TagItem (sort (if ipc then filter (in_sandbox c) state else state))))
      else if src = ''branch_pred_state'' then
        res_bind (toml_path tags [''system'', ''cpu'', ''branchPred'']) (\<lambda>branch_pred.
        case branch_pred of
          TStr s \<Rightarrow> Inl AttributeError
        | TTable d \<Rightarrow> if list_ex (\<lambda>(k, v). case v of TTable e \<Rightarrow> True | TStr s \<Rightarrow> False) d then Inl TypeError else Inr [TomlItem branch_pred])
      else if src = ''branch_predictions'' \<or> src = ''branch_predictions_timing'' then
        res_bind (toml_path tags [''branchPredictionLog'', ''log'']) (\<lambda>log. Inr [TomlItem log])
      else if src = ''access_timing'' \<or> src = ''access_order'' then
        res_bind (toml_path tags [''accessLog'', ''log'']) (\<lambda>log. Inr [TomlItem log])
      else if src = ''commit'' then res_bind (toml_path tags [''commit'', ''log'']) (\<lambda>log. Inr [TomlItem log])
      else Inl SystemExit)"

definition raw_trace :: "gem5_conf \<Rightarrow> toml \<Rightarrow> trace_item list res" where
  "raw_trace c tags =
     res_fold (\<lambda>src trace. res_bind (source_trace c tags src) (\<lambda>state. Inr (trace @ state))) (gc_sources c) []"

text \<open>
  \<open>get_raw_trace\<close>: the tags are formatted, stored as TOML and read back. \<open>tags_path\<close> is the path of the tags of the
  test case and input. \<open>get_trace\<close> hashes the printed trace (\<open>xxh64\<close>, an argument).
\<close>

definition get_raw_trace :: "gem5_conf \<Rightarrow> (string \<Rightarrow> toml res) \<Rightarrow> string \<Rightarrow> files \<Rightarrow> (trace_item list \<times> files) res" where
  "get_raw_trace c toml_load tags_path s =
     (let tags_file = tags_path @ ''.toml'' in
      res_bind (format_checkpoint_file (gc_debug c) tags_path tags_file s) (\<lambda>s.
      res_bind (read_debug_file (gc_debug c) tags_file s) (\<lambda>t.
      res_bind (toml_load t) (\<lambda>tags.
      res_bind (raw_trace c tags) (\<lambda>trace. Inr (trace, s))))))"

definition get_trace ::
    "gem5_conf \<Rightarrow> (string \<Rightarrow> toml res) \<Rightarrow> (trace_item list \<Rightarrow> nat) \<Rightarrow> string \<Rightarrow> files \<Rightarrow> (nat \<times> files) res" where
  "get_trace c toml_load digest tags_path s =
     res_bind (get_raw_trace c toml_load tags_path s) (\<lambda>(trace, s).
     Inr (digest trace mod (push_bit 64 2 - 1), s))"

subsection \<open>What a data-cache trace shows\<close>

text \<open>The bytes of one way of the cache; a tag determines its set by its remainder.\<close>

definition way_size :: "gem5_conf \<Rightarrow> int res" where
  "way_size c = res_bind (parse_size (gc_l1d_size c)) (\<lambda>n. if gc_l1d_assoc c = 0 then Inl ZeroDivisionError else Inr (n div gc_l1d_assoc c))"

definition tag_class :: "gem5_conf \<Rightarrow> nat \<Rightarrow> int \<Rightarrow> int" where
  "tag_class c j tag =
     (let t = tag - SANDBOX_BASE_PADDR in
      if in_sandbox c tag then t else take_bit j t + gc_main_region_size c)"

lemma process_tag_class:
  assumes "way_size c = Inr (2 ^ j)" and "2 ^ j dvd gc_main_region_size c"
  shows "process_tag c tag = Inr (tag_class c j tag)"
proof -
  define t where "t = tag - SANDBOX_BASE_PADDR"
  have i: "in_sandbox c tag \<longleftrightarrow> 0 \<le> t \<and> t < gc_main_region_size c" by (auto simp: t_def in_sandbox_def)
  have "(t AND (2 ^ j - 1)) = take_bit j t" by (simp add: take_bit_eq_mask mask_eq_exp_minus_1)
  moreover have "take_bit j t OR gc_main_region_size c = take_bit j t + gc_main_region_size c"
  proof (rule disjunctive_add [symmetric])
    fix n
    from assms(2) have "take_bit j (gc_main_region_size c) = 0" by (simp add: take_bit_eq_mod)
    then have "n < j \<Longrightarrow> \<not> bit (gc_main_region_size c) n" using bit_take_bit_iff [of j "gc_main_region_size c" n] by simp
    then show "\<not> bit (take_bit j t) n \<or> \<not> bit (gc_main_region_size c) n" by (auto simp: bit_take_bit_iff)
  qed
  ultimately show ?thesis
    using assms(1) i by (auto simp: process_tag_def tag_class_def way_size_def res_bind_Inr_iff Let_def t_def split: if_splits)
qed

lemma tag_class_bounds:
  assumes "0 \<le> gc_main_region_size c"
  shows "tag_class c j tag < gc_main_region_size c \<longleftrightarrow> in_sandbox c tag"
  by (auto simp: tag_class_def in_sandbox_def Let_def not_less)

lemma mset_tag_classes:
  assumes "0 \<le> gc_main_region_size c"
  shows "mset (map (tag_class c j) xs) = mset (map (tag_class c j) ys) \<longleftrightarrow>
    mset (filter (in_sandbox c) xs) = mset (filter (in_sandbox c) ys) \<and>
    mset (map (\<lambda>t. (t - SANDBOX_BASE_PADDR) mod 2 ^ j) (filter (\<lambda>t. \<not> in_sandbox c t) xs)) =
    mset (map (\<lambda>t. (t - SANDBOX_BASE_PADDR) mod 2 ^ j) (filter (\<lambda>t. \<not> in_sandbox c t) ys))" (is "?L \<longleftrightarrow> ?R1 \<and> ?R2")
proof -
  let ?m = "gc_main_region_size c"
  have lo: "filter_mset (\<lambda>v. v < ?m) (mset (map (tag_class c j) zs)) =
      image_mset (\<lambda>t. t - SANDBOX_BASE_PADDR) (mset (filter (in_sandbox c) zs))" for zs
    by (induction zs) (simp_all add: tag_class_bounds [OF assms], simp add: tag_class_def Let_def)
  have hi: "filter_mset (\<lambda>v. \<not> v < ?m) (mset (map (tag_class c j) zs)) =
      image_mset (\<lambda>v. v + ?m) (mset (map (\<lambda>t. (t - SANDBOX_BASE_PADDR) mod 2 ^ j) (filter (\<lambda>t. \<not> in_sandbox c t) zs)))" for zs
    by (induction zs) (simp_all add: tag_class_bounds [OF assms], simp add: tag_class_def Let_def take_bit_eq_mod)
  have inj: "image_mset f A = image_mset f B \<longleftrightarrow> A = B" if "\<And>x. g (f x) = x" for f g :: "int \<Rightarrow> int" and A B
  proof
    assume "image_mset f A = image_mset f B"
    then have "image_mset g (image_mset f A) = image_mset g (image_mset f B)" by simp
    then show "A = B" by (simp add: image_mset.compositionality comp_def that)
  qed simp
  note inj_sub = inj [of "\<lambda>t. t + SANDBOX_BASE_PADDR" "\<lambda>t. t - SANDBOX_BASE_PADDR"]
  note inj_add = inj [of "\<lambda>v. v - ?m" "\<lambda>v. v + ?m"]
  have "?L \<longleftrightarrow> filter_mset (\<lambda>v. v < ?m) (mset (map (tag_class c j) xs)) = filter_mset (\<lambda>v. v < ?m) (mset (map (tag_class c j) ys)) \<and>
      filter_mset (\<lambda>v. \<not> v < ?m) (mset (map (tag_class c j) xs)) = filter_mset (\<lambda>v. \<not> v < ?m) (mset (map (tag_class c j) ys))"
    by (metis multiset_partition)
  also have "\<dots> \<longleftrightarrow> ?R1 \<and> ?R2"
    unfolding lo hi by (simp add: inj_sub inj_add)
  finally show ?thesis .
qed

lemma data_cache_trace:
  assumes "gc_orchestration c = ''ipc''" and "way_size c = Inr (2 ^ j)" and "2 ^ j dvd gc_main_region_size c"
    and "cache_state ''dcache'' ''L1Dcache'' tags = Inr xs"
  shows "source_trace c tags ''data_cache'' = Inr (map TagItem (sort (map (tag_class c j) xs)))"
proof -
  have "res_map (process_tag c) xs = Inr (map (tag_class c j) xs)"
    by (rule res_map_total) (rule process_tag_class [OF assms(2,3)])
  with assms(1,4) show ?thesis by (simp add: source_trace_def)
qed

text \<open>
  C9. What an attacker who sees the data cache learns in ipc mode: the traces of two runs are equal exactly when
  the same lines of the sandbox are cached and, in every cache set, equally many lines from outside of
  it; which outside lines they are does not show. The size of a cache way is a power of two that divides the size of the sandbox.
\<close>

theorem data_cache_traces_equal:
  assumes "gc_sources c = [''data_cache'']" and "gc_orchestration c = ''ipc''"
    and "way_size c = Inr (2 ^ j)" and "2 ^ j dvd gc_main_region_size c" and "0 \<le> gc_main_region_size c"
    and "cache_state ''dcache'' ''L1Dcache'' tags = Inr xs" and "cache_state ''dcache'' ''L1Dcache'' tags' = Inr ys"
  shows "\<exists>t t'. raw_trace c tags = Inr t \<and> raw_trace c tags' = Inr t' \<and>
    (t = t' \<longleftrightarrow>
     mset (filter (in_sandbox c) xs) = mset (filter (in_sandbox c) ys) \<and>
     mset (map (\<lambda>t. (t - SANDBOX_BASE_PADDR) mod 2 ^ j) (filter (\<lambda>t. \<not> in_sandbox c t) xs)) =
     mset (map (\<lambda>t. (t - SANDBOX_BASE_PADDR) mod 2 ^ j) (filter (\<lambda>t. \<not> in_sandbox c t) ys)))"
proof -
  note tr = data_cache_trace [OF assms(2-4)]
  have "raw_trace c tags = Inr (map TagItem (sort (map (tag_class c j) xs)))"
    "raw_trace c tags' = Inr (map TagItem (sort (map (tag_class c j) ys)))"
    using tr [OF assms(6)] tr [OF assms(7)] assms(1) by (simp_all add: raw_trace_def)
  moreover have "map TagItem (sort as) = map TagItem (sort bs) \<longleftrightarrow> mset as = mset bs" for as bs
  proof -
    have "map TagItem (sort as) = map TagItem (sort bs) \<longleftrightarrow> sort as = sort bs" by (rule inj_map_eq_map) (simp add: inj_def)
    also have "\<dots> \<longleftrightarrow> mset as = mset bs"
    proof
      assume "sort as = sort bs"
      then have "mset (sort as) = mset (sort bs)" by simp
      then show "mset as = mset bs" by (simp only: mset_sort)
    qed (use properties_for_sort [of "sort bs" as] in simp)
    finally show ?thesis .
  qed
  ultimately show ?thesis using mset_tag_classes [OF assms(5), of j xs ys] by auto
qed

definition ex_tags :: "string \<Rightarrow> toml" where
  "ex_tags s = TTable [(''system'', TTable [(''cpu'', TTable [(''dcache'', TTable [(''addresses'', TStr s)])])])]"

definition ex_dcache_conf :: gem5_conf where
  "ex_dcache_conf = ex_gem5_conf\<lparr>gc_sources := [''data_cache'']\<rparr>"

theorem data_cache_traces_equal_witness:
  "\<exists>t t'. raw_trace ex_dcache_conf (ex_tags ''12352 20544'') = Inr t \<and>
     raw_trace ex_dcache_conf (ex_tags ''24640 12352'') = Inr t' \<and> t = t'"
proof -
  have c: "gc_sources ex_dcache_conf = [''data_cache'']" "gc_orchestration ex_dcache_conf = ''ipc''"
    "2 ^ 12 dvd gc_main_region_size ex_dcache_conf" "0 \<le> gc_main_region_size ex_dcache_conf"
    by (simp_all add: ex_dcache_conf_def ex_gem5_conf_def)
  have w: "way_size ex_dcache_conf = Inr (2 ^ 12)" by code_simp
  have t: "cache_state ''dcache'' ''L1Dcache'' (ex_tags ''12352 20544'') = Inr [12352, 20544]"
    "cache_state ''dcache'' ''L1Dcache'' (ex_tags ''24640 12352'') = Inr [24640, 12352]" by code_simp+
  from data_cache_traces_equal [OF c(1,2) w c(3,4) t] show ?thesis
    by (simp add: in_sandbox_def SANDBOX_BASE_PADDR_def ex_dcache_conf_def ex_gem5_conf_def)
qed

text \<open>The reduction of the digest has no effect: the modulus is above \<open>2 ^ 64\<close>.\<close>

lemma get_trace_digest:
  assumes "get_raw_trace c toml_load tags_path s = Inr (trace, t)" and "digest trace < 2 ^ 64"
  shows "get_trace c toml_load digest tags_path s = Inr (digest trace, t)"
  using assms by (simp add: get_trace_def push_bit_eq_mult)

text \<open>In ipc mode a TLB trace shows pages of the sandbox only.\<close>

lemma tlb_trace_in_sandbox:
  assumes "gc_orchestration c = ''ipc''" and "source_trace c tags ''dtlb'' = Inr t" and "TagItem a \<in> set t"
  shows "in_sandbox c a"
  using assms by (auto simp: source_trace_def res_bind_Inr_iff)

text \<open>A line \<open>key=value\<close> is quoted; of a value that contains \<open>=\<close> only the part before it is kept.\<close>

lemma format_line_value:
  assumes "CHR ''='' \<notin> set k" and "CHR ''='' \<notin> set v" and "CHR 0x0A \<notin> set v"
  shows "format_line (k @ ''='' @ v @ [CHR 0x0A]) = Inr (k @ ''=\"'' @ v @ ''\"'')"
    and "format_line (k @ ''='' @ v @ ''='' @ w) = Inr (k @ ''=\"'' @ v @ ''\"'')"
proof -
  have f: "filter (\<lambda>c. c \<noteq> CHR 0x0A) v = v" using assms(3) by (induction v) auto
  have "split_at (CHR ''='') (v @ [CHR 0x0A]) = [v @ [CHR 0x0A]]" by (rule split_at_absent) (use assms(2) in simp)
  then show "format_line (k @ ''='' @ v @ [CHR 0x0A]) = Inr (k @ ''=\"'' @ v @ ''\"'')"
    using split_at_terminated [OF assms(1), of "v @ [CHR 0x0A]"] f by (simp add: format_line_def quoted_line_def)
  show "format_line (k @ ''='' @ v @ ''='' @ w) = Inr (k @ ''=\"'' @ v @ ''\"'')"
    using split_at_terminated [OF assms(1), of "v @ ''='' @ w"] split_at_terminated [OF assms(2), of w] f
    by (simp add: format_line_def quoted_line_def)
qed

end
