(* ===== verification/Executor.thy ===== *)
theory Executor
  imports Raw_Trace
begin

text \<open>
  The gem5 executor (\<^verbatim>\<open>src/src/executor.py\<close>, class \<open>X86Gem5\<close>): the layout of the sandbox, the program around a test
  case, and the tracing of inputs in both modes of orchestration, on top of the command line, the debug files, the
  orchestration and the trace of a run. gem5 and the assembler are functions on the files of the disk; an
  operation returns \<open>None\<close> when it waits forever for the output of a process.
\<close>

subsection \<open>Layout\<close>

record exec_layout =
  el_sandbox_base :: int
  el_lower_overflow_base :: int
  el_main_region :: int
  el_assist_region_base :: int
  el_upper_overflow_base :: int
  el_stack_base :: int
  el_code_base :: int
  el_main_base :: int

definition OVERFLOW_REGION_SIZE :: int where
  "OVERFLOW_REGION_SIZE = 4096"

definition WORKING_MEMORY_SIZE :: int where
  "WORKING_MEMORY_SIZE = 0x10000000"

definition init_layout :: "int \<Rightarrow> int \<Rightarrow> exec_layout" where
  "init_layout main_region_size assist_region_size =
     (let sandbox_base = 0x502000 + WORKING_MEMORY_SIZE div 2;
          main_region = sandbox_base + OVERFLOW_REGION_SIZE;
          assist_region_base = main_region + main_region_size
      in \<lparr>el_sandbox_base = sandbox_base, el_lower_overflow_base = sandbox_base, el_main_region = main_region,
          el_assist_region_base = assist_region_base, el_upper_overflow_base = assist_region_base + assist_region_size,
          el_stack_base = main_region + main_region_size - 8, el_code_base = 0x401000, el_main_base = 0x4010e7\<rparr>)"

definition read_base_addresses :: "exec_layout \<Rightarrow> int \<times> int" where
  "read_base_addresses l = (el_sandbox_base l, el_code_base l)"

subsection \<open>The program of an input\<close>

definition clean_up :: "string \<Rightarrow> string" where
  "clean_up code =
     fold (\<lambda>(p, r). replace_str p r)
       [(''.intel_syntax noprefix'', []), (''.test_case_enter:'', []), (''.test_case_main:'', []),
        (''.test_case_main.entry:'', []), (''.test_case_main.exit:'', []), (''.test_case_exit:'', []),
        (''.test_case_main.exit'', ''.exit'')] code"

definition text_lines :: "string list \<Rightarrow> string" where
  "text_lines ls = concat (map (\<lambda>l. l @ [CHR 0x0A]) ls)"

definition construct_program :: "string \<Rightarrow> string \<Rightarrow> string \<Rightarrow> string \<Rightarrow> string" where
  "construct_program code_segment init_registers init_flags data_segment =
     text_lines [''.intel_syntax noprefix'', ''.globl _start'', ''.section .text'', ''_start:''] @
     init_registers @ init_flags @ clean_up code_segment @
     text_lines [''.exit:'', ''    LFENCE'', ''    MOV     RAX, 60'', ''    XOR     RDI, RDI'', ''    SYSCALL'', ''.section .data''] @
     data_segment @ [CHR 0x0A]"

text \<open>
  \<open>generate_test_data\<close>: small values are loaded with a high bit that the mask removes again, so that every load has a 64-bit
  immediate. The arithmetic on \<open>numpy.uint64\<close> is that of NumPy 2, which keeps the type.
\<close>

datatype mask_op = ANDQ | ORQ

definition pad :: "64 word \<Rightarrow> nat \<times> nat \<times> mask_op" where
  "pad n = (if unat n \<le> 2 ^ 51 - 1 then (unat n + 2 ^ 53, 2 ^ 53 - 1, ANDQ) else (unat n, unat n, ORQ))"

fun mask_op_str :: "mask_op \<Rightarrow> string" where
  "mask_op_str ANDQ = ''ANDQ''"
| "mask_op_str ORQ = ''ORQ''"

definition hex_char :: "nat \<Rightarrow> char" where
  "hex_char d = char_of (if d < 10 then 48 + d else 87 + d)"

definition byte_hex :: "byte \<Rightarrow> string" where
  "byte_hex b = ''0x'' @ [hex_char (unat b div 16), hex_char (unat b mod 16)]"

definition data_registers :: "string list" where
  "data_registers = [''RAX'', ''RBX'', ''RCX'', ''RDX'', ''RSI'', ''RDI'', ''EFLAGS'']"

definition init_register :: "exec_layout \<Rightarrow> nat \<times> 64 word \<Rightarrow> string \<times> string \<Rightarrow> (string \<times> string) res" where
  "init_register l iv texts =
     (case (iv, texts) of ((i, v), (regs, flags)) \<Rightarrow>
      res_bind (py_nth data_registers i) (\<lambda>reg.
      if reg \<noteq> ''EFLAGS'' then
        case pad v of (v64, msk, op) \<Rightarrow>
          Inr (regs @ text_lines [''  MOV '' @ reg @ '', '' @ nat_str v64, ''  MOV R8, '' @ nat_str msk,
                                  ''  '' @ mask_op_str op @ '' '' @ reg @ '', R8''], flags)
      else
        let value = (v AND 2263) OR 2;
            top = int_str (el_upper_overflow_base l + OVERFLOW_REGION_SIZE)
        in Inr (regs, flags @ text_lines [''  MOV RSP, '' @ top, ''  MOV RBP, '' @ top, ''  MOV R10, '' @ nat_str (unat value),
                                          ''  PUSH R10'', ''  POPF'', ''  MOV RSP, '' @ int_str (el_stack_base l),
                                          ''  MOV RBP, '' @ int_str (el_stack_base l)])))"

definition words_registers :: "input_layout \<Rightarrow> input \<Rightarrow> 64 word list" where
  "words_registers il inp = drop (register_start il) (take (data_size il - 1) (in_words inp))"

definition generate_test_data ::
    "bool \<Rightarrow> exec_layout \<Rightarrow> input_layout \<Rightarrow> input \<Rightarrow> (string \<times> string \<times> string) res" where
  "generate_test_data stt l il inp =
     (let data_segment = ''    .BYTE '' @ join '','' (map byte_hex (concat (map word_bytes (in_words inp)))) @ [CHR 0x0A] in
      res_bind (res_fold (init_register l) (enumerate 0 (words_registers il inp)) ([], [])) (\<lambda>(regs, flags).
      let regs = regs @ text_lines (map (\<lambda>reg. ''  MOV '' @ reg @ '', 0'') [''R8'', ''R9'', ''R10'', ''R11'', ''R12'', ''R13'', ''R15'']) @
                 text_lines [''  MOV R14, '' @ int_str (el_sandbox_base l)] @
                 (if \<not> stt then text_lines [''  MOV R10, qword ptr [R14]'', ''  MOV R10, 0''] else [])
      in Inr (regs, data_segment, flags)))"

subsection \<open>State\<close>

text \<open>
  The options of the executor, what surrounds it, and its attributes. \<open>xe_pids\<close>, \<open>xe_ready\<close> and
  \<open>xe_accept\<close> are the arguments of the orchestration's restart, \<open>xe_assemble\<close> and \<open>xe_gem5\<close> the effects of
  the assembler and of gem5 on the files. \<open>xs_stdout\<close> has the lines a process will still write.
\<close>

record exec_conf =
  xc_debug_dir :: string
  xc_test_case :: string
  xc_test_case_path :: string
  xc_restore :: int
  xc_save_stats :: bool
  xc_cross_checkpoints :: bool
  xc_persist_log :: bool
  xc_ipc :: ipc_conf
  xc_layout :: input_layout

record exec_env =
  xe_env_flags :: string
  xe_env_file :: "string option"
  xe_isdir :: "string \<Rightarrow> bool"
  xe_socket_name :: "nat \<Rightarrow> string"
  xe_binaries :: "string \<Rightarrow> byte list option"
  xe_pids :: "nat list"
  xe_ready :: "nat option"
  xe_accept :: "nat \<Rightarrow> poll list"
  xe_assemble :: "string \<Rightarrow> files \<Rightarrow> files res"
  xe_gem5 :: "string list \<Rightarrow> files \<Rightarrow> int \<times> string \<times> files"
  xe_toml_load :: "string \<Rightarrow> toml res"
  xe_digest :: "trace_item list \<Rightarrow> nat"

record exec_state =
  xs_conf :: gem5_conf
  xs_files :: files
  xs_orch :: orch
  xs_stdout :: "nat \<Rightarrow> string list"
  xs_cmd :: "string list"
  xs_code_segment :: string
  xs_priming :: bool
  xs_bugged :: bool
  xs_last_tick :: int
  xs_last_input :: "input option"
  xs_base_input :: "input option"
  xs_ticks :: "string list"

text \<open>
  The constructor, on the files of the disk. Only the ipc mode has an orchestration object; its constructor can change the number of
  processes.
\<close>

definition exec_init :: "exec_conf \<Rightarrow> gem5_conf \<Rightarrow> (string, string) dict \<Rightarrow> (exec_conf \<times> exec_state) res" where
  "exec_init x c d =
     (if list_ex (\<lambda>source. contains source ''memory_trace'') (gc_sources c) then Inl ValueError
      else res_bind (set_cmd c) (\<lambda>cmd.
           res_bind (if gc_orchestration c = ''ipc'' then orch_init (xc_ipc x) (xc_layout x)
                     else Inr (xc_ipc x, no_orch)) (\<lambda>(ipc, orch).
           Inr (x\<lparr>xc_ipc := ipc\<rparr>,
                \<lparr>xs_conf = c, xs_files = rmtree_if_exists (gc_checkpoint c) \<lparr>debug_files = [], disk = d\<rparr>, xs_orch = orch,
                 xs_stdout = (\<lambda>_. []), xs_cmd = cmd, xs_code_segment = [], xs_priming = False, xs_bugged = False,
                 xs_last_tick = -1, xs_last_input = None, xs_base_input = None, xs_ticks = []\<rparr>))))"

lemma exec_init_ok:
  assumes "exec_init x c d = Inr (x', s)" and "gc_orchestration c = ''ipc''"
  shows "pool_ok (xs_orch s)" and "length (processes (xs_orch s)) \<le> ic_parallelism (xc_ipc x')"
    and "\<not> (ic_analysis_run (xc_ipc x') \<and> 1 < ic_parallelism (xc_ipc x'))" and "store_ok debug (xs_files s)"
  using assms
  by (auto simp: exec_init_def orch_init_def no_orch_def pool_ok_def store_ok_def rmtree_if_exists_def res_bind_Inr_iff Let_def
      split: if_splits)

type_synonym 'a xm = "exec_state \<Rightarrow> ('a \<times> exec_state) res option"

definition x_return :: "'a \<Rightarrow> 'a xm" where
  "x_return x s = Some (Inr (x, s))"

definition x_raise :: "py_error \<Rightarrow> 'a xm" where
  "x_raise e s = Some (Inl e)"

definition x_bind :: "'a xm \<Rightarrow> ('a \<Rightarrow> 'b xm) \<Rightarrow> 'b xm" where
  "x_bind m f s = (case m s of None \<Rightarrow> None | Some (Inl e) \<Rightarrow> Some (Inl e) | Some (Inr (x, t)) \<Rightarrow> f x t)"

definition x_files :: "(files \<Rightarrow> files res) \<Rightarrow> unit xm" where
  "x_files f s = (case f (xs_files s) of Inl e \<Rightarrow> Some (Inl e) | Inr fs \<Rightarrow> Some (Inr ((), s\<lparr>xs_files := fs\<rparr>)))"

definition x_io :: "'a io \<Rightarrow> 'a xm" where
  "x_io m s =
     (case m (xs_orch s) of (Inl e, t) \<Rightarrow> Some (Inl e) | (Inr x, t) \<Rightarrow> Some (Inr (x, s\<lparr>xs_orch := t\<rparr>)))"

definition x_when :: "bool \<Rightarrow> unit xm \<Rightarrow> unit xm" where
  "x_when b m = (if b then m else x_return ())"

subsection \<open>Files of a run\<close>

definition case_dir :: "exec_conf \<Rightarrow> string" where
  "case_dir x = xc_debug_dir x @ ''/'' @ xc_test_case x"

definition run_file :: "exec_conf \<Rightarrow> string \<Rightarrow> int \<Rightarrow> input \<Rightarrow> string \<Rightarrow> string" where
  "run_file x name i inp ext = case_dir x @ ''/'' @ name @ ''_'' @ int_str i @ ''_'' @ nat_str (in_seed inp) @ ext"

text \<open>\<open>glob(dir/prefix*)\<close>: the entries of a directory, which are the next parts of the paths below it.\<close>

definition dir_entries :: "string \<Rightarrow> files \<Rightarrow> string list" where
  "dir_entries dir fs =
     remdups (map (\<lambda>f. takeWhile (\<lambda>c. c \<noteq> CHR ''/'') (drop (length dir + 1) f))
       (filter (\<lambda>f. starts_with f (dir @ ''/'')) (map fst (disk fs))))"

definition glob :: "string \<Rightarrow> (string \<Rightarrow> bool) \<Rightarrow> files \<Rightarrow> string list" where
  "glob dir p fs = map (\<lambda>e. dir @ ''/'' @ e) (filter p (dir_entries dir fs))"

definition is_checkpoint :: "string \<Rightarrow> bool" where
  "is_checkpoint e = starts_with e ''cpt''"

definition is_tick_checkpoint :: "string \<Rightarrow> bool" where
  "is_tick_checkpoint e \<longleftrightarrow> starts_with e ''cpt.'' \<and> drop 4 e \<noteq> [] \<and> is_digit (hd (drop 4 e))"

definition disk_copy :: "string \<Rightarrow> string \<Rightarrow> files \<Rightarrow> files res" where
  "disk_copy source dest fs =
     (case copy_file_if_exists source dest fs of (True, fs) \<Rightarrow> Inr fs | (False, _) \<Rightarrow> Inl FileNotFoundError)"

definition cleanup :: "gem5_conf \<Rightarrow> files \<Rightarrow> files" where
  "cleanup c fs =
     (let fs = (if gc_orchestration c \<noteq> ''ipc'' then rmtree_if_exists (gc_output_location c) fs else fs)
      in if gc_orchestration c \<noteq> ''ipc'' \<or> gc_debug c \<or> gc_save_checkpoints c
         then rmtree_if_exists (gc_checkpoint c) fs else fs)"

subsection \<open>Output of gem5\<close>

text \<open>\<open>s.split(p)[-1]\<close>, and the check of the simulation limit.\<close>

function after_last :: "string \<Rightarrow> string \<Rightarrow> string \<Rightarrow> string" where
  "after_last p best s =
     (case s of
        [] \<Rightarrow> best
      | c # cs \<Rightarrow> if p \<noteq> [] \<and> starts_with s p then after_last p (drop (length p) s) (drop (length p) s) else after_last p best cs)"
  by pat_completeness auto

termination
  by (relation "measure (\<lambda>(p, b, s). length s)") auto

declare after_last.simps [simp del]

definition limit_reached :: "string \<Rightarrow> bool" where
  "limit_reached output \<longleftrightarrow> split_at (CHR 0x0A) (after_last ''because'' output output) ! 0 = '' simulate() limit reached''"

text \<open>
  \<open>process_gem5_output\<close> reads the simulation time for the profile: both \<open>index\<close> calls raise without the text they look for. (The
  number itself goes to the statistics.)
\<close>

fun find_str :: "string \<Rightarrow> string \<Rightarrow> string option" where
  "find_str p [] = (if p = [] then Some [] else None)"
| "find_str p (c # s) = (if starts_with (c # s) p then Some (drop (length p) (c # s)) else find_str p s)"

definition process_gem5_output :: "bool \<Rightarrow> string \<Rightarrow> unit res" where
  "process_gem5_output profile output =
     (if profile
      then case find_str ''SIMULATION TIME: '' output of
             None \<Rightarrow> Inl ValueError
           | Some rest \<Rightarrow> if CHR 0x0A \<in> set rest then Inr () else Inl ValueError
      else Inr ())"

definition x_gem5_output :: "exec_conf \<Rightarrow> string xm" where
  "x_gem5_output x s =
     (let p = active_process (xs_orch s) in
      case get_gem5_output (xc_ipc x) (xs_stdout s p) of
        None \<Rightarrow> None
      | Some (output, rest) \<Rightarrow> Some (Inr (output, s\<lparr>xs_stdout := (xs_stdout s)(p := rest)\<rparr>)))"

subsection \<open>Running an input\<close>

definition load_code :: "string \<Rightarrow> exec_env \<Rightarrow> string \<Rightarrow> unit xm" where
  "load_code text env path s =
     (let s = s\<lparr>xs_code_segment := text\<rparr>
      in if gc_orchestration (xs_conf s) = ''ipc'' then x_io (Ipc.load_test_case (xe_binaries env) path) s else x_return () s)"

text \<open>The log of gem5 is emptied before a run; its directory exists when it has a file.\<close>

definition truncate_log :: "gem5_conf \<Rightarrow> files \<Rightarrow> files" where
  "truncate_log c fs =
     (if list_ex (\<lambda>(f, t). starts_with f (gc_output_location c @ ''/'')) (disk fs)
      then fs\<lparr>disk := AList.update (gc_output_location c @ ''/log.out'') [] (disk fs)\<rparr> else fs)"

text \<open>
  A crash of gem5 ends the fuzzer: \<open>exit(1)\<close> comes before the code that would restart gem5 and report
  the crash to the caller.
\<close>

definition ipc_trace_test_case :: "exec_conf \<Rightarrow> input \<Rightarrow> int \<Rightarrow> unit xm" where
  "ipc_trace_test_case x inp i s =
     (case x_bind (x_when (\<not> xc_persist_log x)
                   (x_bind (x_io reset_log) (\<lambda>_. x_files (\<lambda>fs. Inr (truncate_log (xs_conf s) fs))))) (\<lambda>_.
           x_bind (x_io (trace_test_case (xc_layout x) inp (gc_sources (xs_conf s)))) (\<lambda>tags.
           x_files (write_debug_file (gc_debug (xs_conf s)) (run_file x ''cache_tags'' i inp []) tags))) s of
        Some (Inl e) \<Rightarrow> Some (Inl (if e = Gem5Crash then SystemExit else e))
      | r \<Rightarrow> r)"

text \<open>One run of gem5 on its own process, on the program with the data of the input.\<close>

definition simple_run :: "exec_conf \<Rightarrow> exec_env \<Rightarrow> input \<Rightarrow> int \<Rightarrow> int \<Rightarrow> bool \<Rightarrow> bool \<Rightarrow> (int \<times> string) xm" where
  "simple_run x env inp i j restore priming s =
     (let c = xs_conf s;
          l = init_layout (gc_main_region_size c) (int (il_assist (xc_layout x)));
          base = run_file x (xc_test_case_path x) j inp []
      in x_bind (x_files (write_debug_file (gc_debug c) (run_file x ''test_case_rvzr'' i inp ''.asm'') (xs_code_segment s))) (\<lambda>_.
         case generate_test_data (gc_STT c) l (xc_layout x) inp of
           Inl e \<Rightarrow> x_raise e
         | Inr (init_registers, data_segment, init_flags) \<Rightarrow>
             x_bind (x_files (\<lambda>fs. Inr (fs\<lparr>disk := AList.update (base @ ''.asm'')
               (construct_program (xs_code_segment s) init_registers init_flags data_segment) (disk fs)\<rparr>))) (\<lambda>_.
             x_bind (x_files (xe_assemble env base)) (\<lambda>_ s.
             case get_cmd (xe_env_flags env) (xe_env_file env) (xs_cmd s) (base @ ''.out'') restore priming c of
               Inl e \<Rightarrow> Some (Inl e)
             | Inr (cmd, c) \<Rightarrow>
                 (case xe_gem5 env cmd (xs_files s) of (code, output, fs) \<Rightarrow>
                  Some (Inr ((code, output), s\<lparr>xs_conf := c, xs_files := fs\<rparr>)))))) s)"

text \<open>The files that are kept of a run: its output, the log, the statistics and the configuration.\<close>

definition keep_files :: "exec_conf \<Rightarrow> gem5_conf \<Rightarrow> input \<Rightarrow> int \<Rightarrow> string \<Rightarrow> files \<Rightarrow> files res" where
  "keep_files x c inp i output fs =
     res_bind (write_debug_file (gc_debug c) (run_file x ''gem5out'' i inp ''.out'') output fs) (\<lambda>fs.
     res_fold (\<lambda>(source, dest). copy_debug_file (gc_debug c) (gc_output_location c @ source) dest False)
       ([(''/log.out'', run_file x ''log'' i inp ''.out''), (''/config.ini'', run_file x ''config'' i inp ''.ini'')] @
        (if xc_save_stats x then [(''/stats.txt'', run_file x ''stats'' i inp ''.txt'')] else [])) fs)"

text \<open>The checkpoint of a run, with its tick; more than one checkpoint fails an assertion.\<close>

definition keep_checkpoint :: "exec_conf \<Rightarrow> gem5_conf \<Rightarrow> input \<Rightarrow> int \<Rightarrow> string option xm" where
  "keep_checkpoint x c inp i s =
     (case glob (gc_checkpoint c) is_tick_checkpoint (xs_files s) of
        [] \<Rightarrow> Some (Inr (None, s))
      | [cpt] \<Rightarrow>
          let tick = last (split_at (CHR ''.'') cpt) in
          x_bind (x_files (copy_debug_file (gc_debug c) (cpt @ ''/m5.cpt'') (run_file x ''checkpoint'' i inp []) True))
            (\<lambda>_ s. Some (Inr (Some tick, s\<lparr>xs_ticks := xs_ticks s @ [tick]\<rparr>))) s
      | _ \<Rightarrow> Some (Inl AssertionError))"

definition keep_tags :: "exec_conf \<Rightarrow> gem5_conf \<Rightarrow> input \<Rightarrow> int \<Rightarrow> files \<Rightarrow> files res" where
  "keep_tags x c inp i fs =
     (case glob (gc_checkpoint c) (\<lambda>e. starts_with e ''tags'') fs of
        [t] \<Rightarrow>
          res_bind (copy_debug_file (gc_debug c) (t @ ''/m5.tag'') (run_file x ''cache_tags'' i inp []) True fs) (\<lambda>fs.
          Inr (rmtree_if_exists t fs))
      | _ \<Rightarrow> Inl AssertionError)"

definition collect_trace :: "exec_conf \<Rightarrow> exec_env \<Rightarrow> input \<Rightarrow> int \<Rightarrow> nat xm" where
  "collect_trace x env inp i s =
     (case get_trace (xs_conf s) (xe_toml_load env) (xe_digest env) (run_file x ''cache_tags'' i inp []) (xs_files s) of
        Inl e \<Rightarrow> Some (Inl e)
      | Inr (t, fs) \<Rightarrow> Some (Inr (t, s\<lparr>xs_files := fs\<rparr>)))"

subsection \<open>Tracing a list of inputs\<close>

text \<open>
  One turn of the loop of \<open>trace_test_case\<close>, with the trace of the input and the tick of its checkpoint (the old one without
  a checkpoint). \<open>first\<close> is whether it is the first input. When the simulation limit is reached the bug is reported and the fuzzer
  ends (\<open>exit(1)\<close>), so that the code that would return traces of 0 is not reached.
\<close>

definition trace_input :: "exec_conf \<Rightarrow> exec_env \<Rightarrow> int \<Rightarrow> bool \<Rightarrow> input \<Rightarrow> string \<Rightarrow> (nat \<times> string) xm" where
  "trace_input x env i first inp tick s =
     (let c = xs_conf s;
          ipc = (gc_orchestration c = ''ipc'');
          restore = (xc_restore x = 1 \<and> (\<not> first \<or> (0 < i \<and> xc_cross_checkpoints x \<and> 0 < xs_last_tick s)) \<and>
                     length (glob (gc_checkpoint c) is_checkpoint (xs_files s)) = 1)
      in x_bind (if ipc then x_bind (ipc_trace_test_case x inp i) (\<lambda>_. x_gem5_output x)
                 else x_bind (simple_run x env inp i i restore False) (\<lambda>(code, output).
                      if code \<noteq> 0 then x_raise SystemExit else x_return output)) (\<lambda>output s.
         let c = xs_conf s in
         if gc_profile c \<and> process_gem5_output True output \<noteq> Inr () then Some (Inl ValueError)
         else if limit_reached output then Some (Inl SystemExit)
         else x_bind (if gc_save_checkpoints c then keep_checkpoint x c inp i else x_return None) (\<lambda>new_tick.
              x_bind (x_when (\<not> ipc) (x_files (keep_tags x c inp i))) (\<lambda>_.
              x_bind (x_files (keep_files x c inp i output)) (\<lambda>_.
              x_bind (x_files (\<lambda>fs. Inr (cleanup c fs))) (\<lambda>_.
              x_bind (collect_trace x env inp i) (\<lambda>trace.
              x_return (trace, case new_tick of None \<Rightarrow> tick | Some t \<Rightarrow> t)))))) s) s)"

fun trace_loop :: "exec_conf \<Rightarrow> exec_env \<Rightarrow> int \<Rightarrow> bool \<Rightarrow> input list \<Rightarrow> string \<Rightarrow> (nat list \<times> string) xm" where
  "trace_loop x env i first [] tick s = Some (Inr (([], tick), s))"
| "trace_loop x env i first (inp # inputs) tick s =
     x_bind (trace_input x env i first inp tick) (\<lambda>(trace, tick).
     x_bind (trace_loop x env i False inputs tick) (\<lambda>(traces, tick).
     x_return (trace # traces, tick))) s"

text \<open>The checkpoint of the last input of the previous test case is the start of this one.\<close>

definition restore_previous :: "exec_conf \<Rightarrow> int \<Rightarrow> unit xm" where
  "restore_previous x i s =
     (case xs_last_input s of
        None \<Rightarrow> Some (Inl AttributeError)
      | Some last_input \<Rightarrow>
          let c = xs_conf s;
              saved = run_file x ''checkpoint'' (i - 1) last_input [];
              cpt = gc_checkpoint c @ ''/cpt.'' @ int_str (xs_last_tick s) @ ''/m5.cpt''
          in x_bind (x_when (xc_cross_checkpoints x \<and> 0 < xs_last_tick s)
                     (x_bind (x_files (disk_copy saved cpt)) (\<lambda>_. x_files (disk_copy cpt saved)))) (\<lambda>_ s.
             Some (Inr ((), s\<lparr>xs_base_input := Some last_input\<rparr>))) s)"

definition restart :: "exec_conf \<Rightarrow> exec_env \<Rightarrow> unit xm" where
  "restart x env s =
     (case get_cmd (xe_env_flags env) (xe_env_file env) (xs_cmd s) [] (xs_priming s) False (xs_conf s) of
        Inl e \<Rightarrow> Some (Inl e)
      | Inr (cmd, c) \<Rightarrow>
          x_io (restart_gem5 (xc_ipc x) (xe_socket_name env) (xe_binaries env) (xe_pids env) (xe_ready env) (xe_accept env) cmd)
            (s\<lparr>xs_conf := c\<rparr>))"

text \<open>The end of \<open>trace_test_case\<close>: the last tick and the last input are kept for the next test case.\<close>

definition remember_last :: "input list \<Rightarrow> nat list \<times> string \<Rightarrow> nat list xm" where
  "remember_last inputs tt s =
     (case py_int (snd tt) of
        Inl e \<Rightarrow> Some (Inl e)
      | Inr tick \<Rightarrow>
          (case py_index inputs (-1) of
             Inl e \<Rightarrow> Some (Inl e)
           | Inr inp \<Rightarrow> Some (Inr (fst tt, s\<lparr>xs_last_tick := tick, xs_last_input := Some inp\<rparr>))))"

definition exec_trace_test_case :: "exec_conf \<Rightarrow> exec_env \<Rightarrow> input list \<Rightarrow> int \<Rightarrow> nat list xm" where
  "exec_trace_test_case x env inputs i s =
     (let ipc = (gc_orchestration (xs_conf s) = ''ipc'') in
      x_bind (x_when ipc (restart x env)) (\<lambda>_ s.
      if xs_code_segment s = [] then Some (Inl SystemExit)
      else if \<not> xe_isdir env (case_dir x) then Some (Inl AssertionError)
      else x_bind (x_when (0 < i) (restore_previous x i)) (\<lambda>_.
           x_bind (x_when ipc (x_files (write_debug_file (gc_debug (xs_conf s)) (case_dir x @ ''/test_case.asm'') (xs_code_segment s)))) (\<lambda>_.
           x_bind (trace_loop x env i True inputs ''0'') (remember_last inputs)))
           (s\<lparr>xs_ticks := []\<rparr>)) s)"

subsection \<open>Priming\<close>

definition start_priming :: "exec_state \<Rightarrow> exec_state" where
  "start_priming s = s\<lparr>xs_priming := True\<rparr>"

definition stop_priming :: "exec_state \<Rightarrow> exec_state" where
  "stop_priming s = s\<lparr>xs_priming := False\<rparr>"

text \<open>The tags of a primed run; two of their lines are printed.\<close>

definition keep_primed_tags :: "exec_conf \<Rightarrow> gem5_conf \<Rightarrow> input \<Rightarrow> int \<Rightarrow> files \<Rightarrow> files res" where
  "keep_primed_tags x c inp i fs =
     (case glob (gc_checkpoint c) (\<lambda>e. starts_with e ''tags'') fs of
        [t] \<Rightarrow>
          (case map_of (disk fs) (t @ ''/m5.tag'') of
             None \<Rightarrow> Inl FileNotFoundError
           | Some text \<Rightarrow> if length (split_lines text) \<le> 7 then Inl IndexError else keep_tags x c inp i fs)
      | _ \<Rightarrow> Inl AssertionError)"

text \<open>
  \<open>trace_priming\<close>: when the simulation limit is reached, the report uses two names that are not defined in the
  method, and the buggy trace of 0 is not returned.
\<close>

definition trace_priming :: "exec_conf \<Rightarrow> exec_env \<Rightarrow> input \<Rightarrow> int \<Rightarrow> bool \<Rightarrow> nat xm" where
  "trace_priming x env inp round head_input s =
     (let ipc = (gc_orchestration (xs_conf s) = ''ipc'');
          restore = (\<not> head_input \<or> (round \<noteq> 0 \<and> xc_cross_checkpoints x))
      in if xs_code_segment s = [] then Some (Inl SystemExit)
         else x_bind (if ipc then x_bind (ipc_trace_test_case x inp (round + 1)) (\<lambda>_. x_gem5_output x)
                      else x_bind (simple_run x env inp (round + 1) round restore True) (\<lambda>(code, output). x_return output)) (\<lambda>output s.
              let c = xs_conf s in
              if gc_profile c \<and> process_gem5_output True output \<noteq> Inr () then Some (Inl ValueError)
              else if limit_reached output then Some (Inl NameError)
              else x_bind (x_files (keep_files x c inp (round + 1) output)) (\<lambda>_.
                   x_bind (x_when (\<not> ipc) (x_files (keep_primed_tags x c inp (round + 1)))) (\<lambda>_.
                   x_bind (collect_trace x env inp (round + 1)) (\<lambda>trace.
                   x_bind (x_files (\<lambda>fs. Inr (cleanup c fs))) (\<lambda>_. x_return trace)))) s) s)"

text \<open>\<open>set_checkpoint\<close>: the checkpoint a primed run starts from.\<close>

definition named_file :: "exec_conf \<Rightarrow> string \<Rightarrow> int \<Rightarrow> input option \<Rightarrow> string" where
  "named_file x name i inp =
     (case inp of None \<Rightarrow> case_dir x @ ''/'' @ name @ ''_'' @ int_str i @ ''_None'' | Some inp \<Rightarrow> run_file x name i inp [])"

definition set_checkpoint :: "exec_conf \<Rightarrow> int \<Rightarrow> input \<Rightarrow> bool \<Rightarrow> int \<Rightarrow> unit xm" where
  "set_checkpoint x i base_input head_input input_id s =
     (let c = xs_conf s;
          cpt = (\<lambda>tick. gc_checkpoint c @ ''/cpt.'' @ tick @ ''/m5.cpt'')
      in x_bind (x_files (\<lambda>fs. Inr (fold rmtree_if_exists (glob (gc_checkpoint c) is_checkpoint fs) fs))) (\<lambda>_ s.
         if head_input \<and> i = 0 then Some (Inr ((), s))
         else if head_input
         then x_files (disk_copy (named_file x ''checkpoint'' (i - 1) (xs_base_input s)) (cpt (int_str (xs_last_tick s)))) s
         else case py_index (xs_ticks s) input_id of
                Inl e \<Rightarrow> Some (Inl e)
              | Inr tick \<Rightarrow> x_files (disk_copy (run_file x ''checkpoint'' i base_input []) (cpt tick)) s) s)"

definition executor_known :: "string \<Rightarrow> unit res" where
  "executor_known name = (if name = ''x86-gem5'' then Inr () else Inl ConfigException)"

subsection \<open>Layout and data\<close>

text \<open>
  The regions of the sandbox follow one another without gaps and overlaps inside the working memory and above the code, and the
  stack lies in the main region, for all region sizes that fit.
\<close>

lemma layout_regions:
  assumes "0 < m" and "0 \<le> a" and "m + a + 2 * OVERFLOW_REGION_SIZE \<le> WORKING_MEMORY_SIZE div 2"
  shows "let l = init_layout m a in
    el_main_base l < el_lower_overflow_base l \<and> el_code_base l < el_main_base l \<and>
    el_lower_overflow_base l + OVERFLOW_REGION_SIZE = el_main_region l \<and>
    el_main_region l + m = el_assist_region_base l \<and> el_assist_region_base l + a = el_upper_overflow_base l \<and>
    el_upper_overflow_base l + OVERFLOW_REGION_SIZE \<le> 0x502000 + WORKING_MEMORY_SIZE \<and>
    el_stack_base l + 8 = el_assist_region_base l \<and> (8 \<le> m \<longrightarrow> el_main_region l \<le> el_stack_base l) \<and>
    (4096 dvd m \<and> 4096 dvd a \<longrightarrow> 4096 dvd el_main_region l \<and> 4096 dvd el_assist_region_base l \<and> 4096 dvd el_upper_overflow_base l)"
  using assms by (auto simp: init_layout_def Let_def WORKING_MEMORY_SIZE_def OVERFLOW_REGION_SIZE_def dvd_add)

lemma layout_regions_example:
  "let l = init_layout 4096 4096 in el_main_region l + 4096 = el_assist_region_base l \<and> el_main_region l \<le> el_stack_base l"
  using layout_regions [of 4096 4096] by (simp add: Let_def WORKING_MEMORY_SIZE_def OVERFLOW_REGION_SIZE_def)

text \<open>The three instructions that initialise a register leave the value of the input in it.\<close>

fun mask_op_word :: "mask_op \<Rightarrow> 64 word \<Rightarrow> 64 word \<Rightarrow> 64 word" where
  "mask_op_word ANDQ a b = a AND b"
| "mask_op_word ORQ a b = a OR b"

lemma pad_loads_value:
  "pad n = (v, m, op) \<Longrightarrow> mask_op_word op (of_nat v) (of_nat m) = n \<and> v < 2 ^ 64 \<and> m < 2 ^ 64"
proof -
  assume p: "pad n = (v, m, op)"
  show ?thesis
  proof (cases "unat n \<le> 2 ^ 51 - 1")
    case True
    then have n: "unat n < 2 ^ 53" by simp
    have k: "unat (of_nat k :: 64 word) = k" if "k < 2 ^ 54" for k using that by (simp add: unsigned_of_nat take_bit_nat_eq_self)
    have "unat ((of_nat (unat n + 2 ^ 53) :: 64 word) AND of_nat (2 ^ 53 - 1)) = (unat n + 2 ^ 53) AND (2 ^ 53 - 1)"
      unfolding unsigned_and_eq by (subst (1 2) k) (use n in simp_all)
    also have "\<dots> = take_bit 53 (unat n + 2 ^ 53)" by (simp only: take_bit_eq_mask mask_eq_exp_minus_1)
    also have "\<dots> = unat n" using n by (simp add: take_bit_eq_mod)
    finally have "(of_nat (unat n + 2 ^ 53) :: 64 word) AND of_nat (2 ^ 53 - 1) = n" by (simp only: word_unat_eq_iff)
    with True p show ?thesis by (auto simp: pad_def)
  next
    case False
    with p unsigned_less [of n] show ?thesis by (auto simp: pad_def)
  qed
qed

subsection \<open>One trace per input\<close>

lemma x_bind_Inr:
  "x_bind m f s = Some (Inr (y, t)) \<longleftrightarrow> (\<exists>x u. m s = Some (Inr (x, u)) \<and> f x u = Some (Inr (y, t)))"
  by (auto simp: x_bind_def split: option.splits sum.splits)

lemma x_bind_Some [simp]: "m s = Some (Inr (x, u)) \<Longrightarrow> x_bind m f s = f x u"
  by (simp add: x_bind_def)

lemma trace_loop_length:
  "trace_loop x env i first inputs tick s = Some (Inr ((traces, tick'), s')) \<Longrightarrow> length traces = length inputs"
  by (induction inputs arbitrary: first tick s traces tick' s')
    (auto simp: x_bind_Inr x_return_def split: prod.splits)

text \<open>
  The files of a run and its trace agree: the trace is the digest of what is read from the tags that are stored for the
  input, so a reported violation can be checked against the stored files.
\<close>

definition trace_of_tags :: "gem5_conf \<Rightarrow> exec_env \<Rightarrow> string \<Rightarrow> nat res" where
  "trace_of_tags c env text =
     res_bind (format_text text) (\<lambda>t.
     res_bind (xe_toml_load env t) (\<lambda>tags.
     res_bind (raw_trace c tags) (\<lambda>trace. Inr (xe_digest env trace mod (push_bit 64 2 - 1)))))"

lemma get_raw_trace_view:
  assumes "store_ok (gc_debug c) fs"
  shows "get_raw_trace c load p fs =
    (case view fs p of
       None \<Rightarrow> Inl FileNotFoundError
     | Some raw \<Rightarrow>
         res_bind (format_text raw) (\<lambda>u.
         res_bind (write_debug_file (gc_debug c) (p @ ''.toml'') u fs) (\<lambda>gs.
         res_bind (load u) (\<lambda>tags.
         res_bind (raw_trace c tags) (\<lambda>trace. Inr (trace, gs))))))"
proof (cases "view fs p")
  case (Some raw)
  show ?thesis
  proof (cases "format_text raw")
    case (Inr u)
    obtain gs where "write_debug_file (gc_debug c) (p @ ''.toml'') u fs = Inr gs" "store_ok (gc_debug c) gs"
        "view gs = (view fs)(p @ ''.toml'' \<mapsto> u)"
      by (rule write_debug_file_view [OF assms])
    with Some Inr show ?thesis
      by (simp add: get_raw_trace_def format_checkpoint_file_def read_debug_file_view [OF assms] read_debug_file_view)
  qed (use Some in \<open>simp add: get_raw_trace_def format_checkpoint_file_def read_debug_file_view [OF assms]\<close>)
qed (simp add: get_raw_trace_def format_checkpoint_file_def read_debug_file_view [OF assms])

lemma collect_trace_stored:
  assumes "collect_trace x env inp i s = Some (Inr (t, s'))" and "store_ok (gc_debug (xs_conf s)) (xs_files s)"
  shows "\<exists>raw. view (xs_files s) (run_file x ''cache_tags'' i inp []) = Some raw \<and>
      view (xs_files s') (run_file x ''cache_tags'' i inp []) = Some raw \<and>
      trace_of_tags (xs_conf s) env raw = Inr t \<and> xs_conf s' = xs_conf s \<and>
      store_ok (gc_debug (xs_conf s)) (xs_files s')"
proof -
  let ?d = "gc_debug (xs_conf s)" and ?p = "run_file x ''cache_tags'' i inp []"
  from assms obtain fs trace raw u tags where raw: "view (xs_files s) ?p = Some raw" and u: "format_text raw = Inr u"
      and w: "write_debug_file ?d (?p @ ''.toml'') u (xs_files s) = Inr fs"
      and l: "xe_toml_load env u = Inr tags" "raw_trace (xs_conf s) tags = Inr trace"
      and t: "t = xe_digest env trace mod (push_bit 64 2 - 1)" and s': "s' = s\<lparr>xs_files := fs\<rparr>"
    by (auto simp: collect_trace_def get_trace_def get_raw_trace_view res_bind_Inr_iff split: sum.splits option.splits)
  obtain gs where "write_debug_file ?d (?p @ ''.toml'') u (xs_files s) = Inr gs" "store_ok ?d gs"
      "view gs = (view (xs_files s))(?p @ ''.toml'' \<mapsto> u)"
    by (rule write_debug_file_view [OF assms(2)])
  with raw u w l t s' show ?thesis by (simp add: trace_of_tags_def)
qed

lemma trace_test_case_per_input:
  assumes "exec_trace_test_case x env inputs i s = Some (Inr (traces, s'))"
  shows "length traces = length inputs \<and> inputs \<noteq> [] \<and> xs_last_input s' = Some (last inputs)"
proof -
  from assms obtain tt u v where l: "trace_loop x env i True inputs ''0'' u = Some (Inr (tt, v))"
    and r: "remember_last inputs tt v = Some (Inr (traces, s'))"
    unfolding exec_trace_test_case_def Let_def by (auto simp: x_bind_Inr split: if_splits)
  from l have "length (fst tt) = length inputs" using trace_loop_length by (cases tt) fastforce
  with r show ?thesis
    by (auto simp: remember_last_def py_index_def Let_def last_conv_nth nat_diff_distrib' split: if_splits sum.splits)
qed

subsection \<open>A responsive gem5\<close>

lemma split_at_length: "d \<in> set s \<Longrightarrow> 1 < length (split_at d s)"
  and split_at_nonempty: "split_at d s \<noteq> []"
  by (induction s) (auto split: list.splits)

lemma format_text_total: "\<exists>u. format_text raw = Inr u"
proof -
  have f: "\<exists>y. format_line l = Inr y" for l
    using split_at_length [of "CHR ''=''" l] split_at_nonempty [of "CHR ''=''" l]
    by (auto simp: format_line_def quoted_line_def Let_def py_nth_def)
  have "\<exists>ys. res_map format_line ls = Inr ys" for ls
  proof (induction ls)
    case (Cons l ls)
    then show ?case using f [of l] by auto
  qed simp
  then obtain ys where "res_map format_line (split_lines raw) = Inr ys" by blast
  then show ?thesis by (simp add: format_text_def)
qed

lemma copy_mem:
  assumes "store_ok False fs"
  obtains gs where "copy_debug_file False a b False fs = Inr gs" and "store_ok False gs" and "\<And>f. f \<noteq> b \<Longrightarrow> view gs f = view fs f"
proof (cases "view fs a")
  case None
  then show ?thesis using assms by (intro that [of fs]) (simp_all add: copy_debug_file_view)
next
  case (Some c)
  obtain gs where "write_debug_file False b c fs = Inr gs" "store_ok False gs" "view gs = (view fs)(b \<mapsto> c)"
    by (rule write_debug_file_view [OF assms])
  with Some show ?thesis using assms by (intro that [of gs]) (simp_all add: copy_debug_file_view)
qed

lemma copies_mem:
  assumes "store_ok False fs" and "f \<notin> snd ` set ps"
  shows "\<exists>gs. res_fold (\<lambda>(a, b). copy_debug_file False (h a) b False) ps fs = Inr gs \<and> store_ok False gs \<and> view gs f = view fs f"
  using assms
proof (induction ps arbitrary: fs)
  case (Cons p ps)
  obtain gs where "copy_debug_file False (h (fst p)) (snd p) False fs = Inr gs" "store_ok False gs" "view gs f = view fs f"
    using copy_mem [OF Cons.prems(1), of "h (fst p)" "snd p"] Cons.prems(2) by (metis image_eqI list.set_intros(1))
  with Cons.IH [of gs] Cons.prems(2) show ?case by (auto simp: split_beta)
qed simp

lemma keep_files_mem:
  assumes "store_ok False fs" and "\<not> gc_debug c"
  obtains gs where "keep_files x c inp i output fs = Inr gs" and "store_ok False gs"
    and "view gs (run_file x ''cache_tags'' i inp []) = view fs (run_file x ''cache_tags'' i inp [])"
proof -
  obtain hs where hs: "write_debug_file False (run_file x ''gem5out'' i inp ''.out'') output fs = Inr hs" "store_ok False hs"
      "view hs = (view fs)(run_file x ''gem5out'' i inp ''.out'' \<mapsto> output)"
    by (rule write_debug_file_view [OF assms(1)])
  let ?ps = "[(''/log.out'', run_file x ''log'' i inp ''.out''), (''/config.ini'', run_file x ''config'' i inp ''.ini'')] @
        (if xc_save_stats x then [(''/stats.txt'', run_file x ''stats'' i inp ''.txt'')] else [])"
  have "run_file x ''cache_tags'' i inp [] \<notin> snd ` set ?ps" by (cases "xc_save_stats x") (simp_all add: run_file_def)
  from copies_mem [OF hs(2) this, of "\<lambda>a. gc_output_location c @ a"] obtain gs
    where gs: "res_fold (\<lambda>(a, b). copy_debug_file False (gc_output_location c @ a) b False) ?ps hs = Inr gs" "store_ok False gs"
      "view gs (run_file x ''cache_tags'' i inp []) = view hs (run_file x ''cache_tags'' i inp [])" by blast
  moreover have "view hs (run_file x ''cache_tags'' i inp []) = view fs (run_file x ''cache_tags'' i inp [])"
    using hs(3) by (simp add: run_file_def)
  ultimately show thesis using assms(2) hs(1) by (intro that [of gs]) (simp_all add: keep_files_def)
qed

lemma output_loop_marker:
  "reset_marker \<notin> set ls \<Longrightarrow> output_loop acc (ls @ reset_marker # rest) = Some (concat acc @ concat ls, rest)"
  by (induction ls arbitrary: acc) auto

text \<open>
  What gem5 does for one input: the conversation on the socket, with the filtered logs, and the
  lines it writes before the reset. It is responsive when these are as the protocol asks and the simulation limit
  is not reached.
\<close>

record gem5_answer =
  ga_run :: gem5_run
  ga_preds :: string
  ga_accs :: string
  ga_lines :: "string list"

definition answer_text :: "string list \<Rightarrow> gem5_answer \<Rightarrow> string" where
  "answer_text sources a = trace_text sources (ga_run a) (ga_preds a) (ga_accs a)"

definition answer_ok :: "string list \<Rightarrow> gem5_answer \<Rightarrow> bool" where
  "answer_ok sources a \<longleftrightarrow> run_ok (ga_run a) \<and>
     filter_log (''branch_predictions_timing'' \<in> set sources) (g_predictions (ga_run a)) = Inr (ga_preds a) \<and>
     filter_log (''access_timing'' \<in> set sources) (g_accesses (ga_run a)) = Inr (ga_accs a) \<and>
     reset_marker \<notin> set (ga_lines a) \<and> \<not> limit_reached (concat (ga_lines a))"

definition fast_mode :: "exec_conf \<Rightarrow> gem5_conf \<Rightarrow> bool" where
  "fast_mode x c \<longleftrightarrow> gc_orchestration c = ''ipc'' \<and> \<not> gc_debug c \<and> \<not> gc_save_checkpoints c \<and> \<not> gc_profile c \<and>
     \<not> ic_show_output (xc_ipc x) \<and> 8 * data_size (xc_layout x) < 2 ^ 64"

lemma talks_x_io:
  assumes "talks m inb r outb" and "live (conn_in (xs_orch s))" and "avail (conn_in (xs_orch s)) = inb @ rest"
  obtains es where "x_io m s = Some (Inr (r, s\<lparr>xs_orch := (xs_orch s)\<lparr>conn_in := es, conn_out := conn_out (xs_orch s) @ outb\<rparr>\<rparr>))"
    and "avail es = rest" and "live es"
proof -
  from assms obtain es where "m (xs_orch s) = (Inr r, (xs_orch s)\<lparr>conn_in := es, conn_out := conn_out (xs_orch s) @ outb\<rparr>)"
    "avail es = rest" "live es" unfolding talks_def by blast
  then show thesis by (intro that [of es]) (simp_all add: x_io_def)
qed

lemma talks_reset_log: "talks reset_log [] () (packed [OP_RESET_LOG] @ [])"
  unfolding reset_log_def by (rule talks_send_q) (simp add: op_codes)

lemma truncate_log_ok: "store_ok d (truncate_log c fs) = store_ok d fs"
  by (simp add: truncate_log_def store_ok_def)

lemma reset_responsive:
  assumes "store_ok False (xs_files s)" and "live (conn_in (xs_orch s))"
  obtains fsr esr outr where
    "x_when (\<not> persist) (x_bind (x_io reset_log) (\<lambda>_. x_files (\<lambda>fs. Inr (truncate_log c fs)))) s =
      Some (Inr ((), s\<lparr>xs_files := fsr, xs_orch := (xs_orch s)\<lparr>conn_in := esr, conn_out := outr\<rparr>\<rparr>))"
    and "avail esr = avail (conn_in (xs_orch s))" and "live esr" and "store_ok False fsr"
proof (cases persist)
  case True
  then show thesis using assms
    by (intro that [where fsr = "xs_files s" and esr = "conn_in (xs_orch s)" and outr = "conn_out (xs_orch s)"])
      (simp_all add: x_when_def x_return_def)
next
  case False
  obtain es where "x_io reset_log s = Some (Inr ((), s\<lparr>xs_orch := (xs_orch s)\<lparr>conn_in := es,
      conn_out := conn_out (xs_orch s) @ packed [OP_RESET_LOG] @ []\<rparr>\<rparr>))" "avail es = avail (conn_in (xs_orch s))" "live es"
    by (rule talks_x_io [OF talks_reset_log assms(2) append_Nil [symmetric]])
  with False show thesis using assms(1)
    by (intro that [where fsr = "truncate_log c (xs_files s)" and esr = es and outr = "conn_out (xs_orch s) @ packed [OP_RESET_LOG]"])
      (simp_all add: x_when_def x_files_def truncate_log_ok)
qed

lemma ipc_trace_responsive:
  assumes "fast_mode x (xs_conf s)" and "answer_ok (gc_sources (xs_conf s)) a" and "store_ok False (xs_files s)"
    and "live (conn_in (xs_orch s))"
    and "avail (conn_in (xs_orch s)) = replies (xc_layout x) inp (gc_sources (xs_conf s)) (ga_run a) @ rest"
  obtains fs es out where "ipc_trace_test_case x inp i s =
      Some (Inr ((), s\<lparr>xs_files := fs, xs_orch := (xs_orch s)\<lparr>conn_in := es, conn_out := out\<rparr>\<rparr>))"
    and "avail es = rest" and "live es" and "store_ok False fs"
    and "view fs (run_file x ''cache_tags'' i inp []) = Some (answer_text (gc_sources (xs_conf s)) a)"
proof -
  let ?src = "gc_sources (xs_conf s)"
  let ?reset = "x_when (\<not> xc_persist_log x) (x_bind (x_io reset_log) (\<lambda>_. x_files (\<lambda>fs. Inr (truncate_log (xs_conf s) fs))))"
  have f: "8 * data_size (xc_layout x) < 2 ^ 64" "\<not> gc_debug (xs_conf s)" using assms(1) by (simp_all add: fast_mode_def)
  have a: "run_ok (ga_run a)" "filter_log (''branch_predictions_timing'' \<in> set ?src) (g_predictions (ga_run a)) = Inr (ga_preds a)"
     "filter_log (''access_timing'' \<in> set ?src) (g_accesses (ga_run a)) = Inr (ga_accs a)"
    using assms(2) by (simp_all add: answer_ok_def)
  obtain fsr esr outr where r: "?reset s = Some (Inr ((), s\<lparr>xs_files := fsr, xs_orch := (xs_orch s)\<lparr>conn_in := esr, conn_out := outr\<rparr>\<rparr>))"
      "avail esr = avail (conn_in (xs_orch s))" "live esr" "store_ok False fsr"
    by (rule reset_responsive [OF assms(3,4)])
  define u where "u = s\<lparr>xs_files := fsr, xs_orch := (xs_orch s)\<lparr>conn_in := esr, conn_out := outr\<rparr>\<rparr>"
  have ue: "live (conn_in (xs_orch u))" "avail (conn_in (xs_orch u)) = replies (xc_layout x) inp ?src (ga_run a) @ rest"
    using r assms(5) by (simp_all add: u_def)
  obtain es out where t: "x_io (trace_test_case (xc_layout x) inp ?src) u =
      Some (Inr (answer_text ?src a, u\<lparr>xs_orch := (xs_orch u)\<lparr>conn_in := es, conn_out := out\<rparr>\<rparr>))" "avail es = rest" "live es"
    unfolding answer_text_def by (rule talks_x_io [OF talks_trace_test_case [OF a(1) f(1) a(2,3)] ue]) blast
  obtain fs where w: "write_debug_file False (run_file x ''cache_tags'' i inp []) (answer_text ?src a) fsr = Inr fs" "store_ok False fs"
      "view fs = (view fsr)(run_file x ''cache_tags'' i inp [] \<mapsto> answer_text ?src a)"
    by (rule write_debug_file_view [OF r(4)])
  have "ipc_trace_test_case x inp i s =
      Some (Inr ((), s\<lparr>xs_files := fs, xs_orch := (xs_orch s)\<lparr>conn_in := es, conn_out := out\<rparr>\<rparr>))"
    using r(1) t(1) w(1) f(2) unfolding u_def by (simp add: ipc_trace_test_case_def x_bind_def x_files_def)
  from that [OF this t(2,3) w(2)] w(3) show thesis by simp
qed

lemma collect_trace_mem:
  assumes "store_ok False (xs_files s)" and "\<not> gc_debug (xs_conf s)"
    and "view (xs_files s) (run_file x ''cache_tags'' i inp []) = Some raw" and "trace_of_tags (xs_conf s) env raw = Inr t"
  obtains fs where "collect_trace x env inp i s = Some (Inr (t, s\<lparr>xs_files := fs\<rparr>))" and "store_ok False fs"
proof -
  obtain u where u: "format_text raw = Inr u" using format_text_total by blast
  obtain fs where "write_debug_file False (run_file x ''cache_tags'' i inp [] @ ''.toml'') u (xs_files s) = Inr fs" "store_ok False fs"
    by (rule write_debug_file_view [OF assms(1)])
  moreover have "store_ok (gc_debug (xs_conf s)) (xs_files s)" using assms(1,2) by (simp add: store_ok_def)
  ultimately show thesis
    using assms(2-4) u
    by (intro that [of fs]) (auto simp: collect_trace_def get_trace_def get_raw_trace_view trace_of_tags_def res_bind_Inr_iff)
qed

lemma x_gem5_output_lines:
  assumes "\<not> ic_show_output (xc_ipc x)" and "reset_marker \<notin> set ls"
    and "xs_stdout s (active_process (xs_orch s)) = ls @ reset_marker # out"
  shows "x_gem5_output x s =
    Some (Inr (concat ls, s\<lparr>xs_stdout := (xs_stdout s)(active_process (xs_orch s) := out)\<rparr>))"
  using assms output_loop_marker [OF assms(2), of "[]" out] by (simp add: x_gem5_output_def get_gem5_output_def Let_def)

lemma cleanup_fast: "fast_mode x c \<Longrightarrow> cleanup c fs = fs"
  by (simp add: fast_mode_def cleanup_def)

text \<open>The state after one answer of gem5.\<close>

definition answered :: "exec_state \<Rightarrow> files \<Rightarrow> poll list \<Rightarrow> byte list \<Rightarrow> string list \<Rightarrow> exec_state" where
  "answered s fs es sent out =
     s\<lparr>xs_files := fs, xs_orch := (xs_orch s)\<lparr>conn_in := es, conn_out := sent\<rparr>,
       xs_stdout := (xs_stdout s)(active_process (xs_orch s) := out)\<rparr>"

lemma trace_input_responsive:
  assumes f: "fast_mode x (xs_conf s)" and a: "answer_ok (gc_sources (xs_conf s)) a" and "store_ok False (xs_files s)"
    and "live (conn_in (xs_orch s))"
    and "avail (conn_in (xs_orch s)) = replies (xc_layout x) inp (gc_sources (xs_conf s)) (ga_run a) @ rest"
    and o: "xs_stdout s (active_process (xs_orch s)) = ga_lines a @ reset_marker # out"
    and t: "trace_of_tags (xs_conf s) env (answer_text (gc_sources (xs_conf s)) a) = Inr t"
  obtains fs es sent where "trace_input x env i first inp tick s = Some (Inr ((t, tick), answered s fs es sent out))"
    and "store_ok False fs" and "live es" and "avail es = rest"
proof -
  let ?p = "active_process (xs_orch s)" and ?c = "xs_conf s"
  have m: "gc_orchestration ?c = ''ipc''" "\<not> gc_debug ?c" "\<not> gc_save_checkpoints ?c" "\<not> gc_profile ?c" "\<not> ic_show_output (xc_ipc x)"
    using f by (simp_all add: fast_mode_def)
  obtain fs1 es sent where r: "ipc_trace_test_case x inp i s =
      Some (Inr ((), s\<lparr>xs_files := fs1, xs_orch := (xs_orch s)\<lparr>conn_in := es, conn_out := sent\<rparr>\<rparr>))"
      "avail es = rest" "live es" "store_ok False fs1"
      "view fs1 (run_file x ''cache_tags'' i inp []) = Some (answer_text (gc_sources ?c) a)"
    by (rule ipc_trace_responsive [OF assms(1-5)])
  let ?s1 = "s\<lparr>xs_files := fs1, xs_orch := (xs_orch s)\<lparr>conn_in := es, conn_out := sent\<rparr>\<rparr>"
  have g: "x_gem5_output x ?s1 = Some (Inr (concat (ga_lines a), ?s1\<lparr>xs_stdout := (xs_stdout s)(?p := out)\<rparr>))"
    using x_gem5_output_lines [OF m(5), of "ga_lines a" ?s1 out] a o by (simp add: answer_ok_def)
  obtain fs2 where k: "keep_files x ?c inp i (concat (ga_lines a)) fs1 = Inr fs2" "store_ok False fs2"
      "view fs2 (run_file x ''cache_tags'' i inp []) = Some (answer_text (gc_sources ?c) a)"
    using keep_files_mem [OF r(4) m(2)] r(5) by metis
  let ?s2 = "?s1\<lparr>xs_stdout := (xs_stdout s)(?p := out), xs_files := fs2\<rparr>"
  obtain fs where c: "collect_trace x env inp i ?s2 = Some (Inr (t, ?s2\<lparr>xs_files := fs\<rparr>))" "store_ok False fs"
    by (rule collect_trace_mem [of ?s2 x i inp "answer_text (gc_sources ?c) a" env t]) (use k m(2) t in simp_all)
  have "\<not> limit_reached (concat (ga_lines a))" using a by (simp add: answer_ok_def)
  then have "trace_input x env i first inp tick s = Some (Inr ((t, tick), answered s fs es sent out))"
    using m r(1) g k(1) c(1) cleanup_fast [OF f]
    by (simp add: trace_input_def Let_def x_bind_def x_return_def x_when_def x_files_def answered_def)
  from that [OF this c(2) r(3,2)] show thesis .
qed

definition answers_ok :: "exec_env \<Rightarrow> gem5_conf \<Rightarrow> (input \<times> gem5_answer \<times> nat) list \<Rightarrow> bool" where
  "answers_ok env c runs \<longleftrightarrow>
     list_all (\<lambda>(inp, a, t). answer_ok (gc_sources c) a \<and> trace_of_tags c env (answer_text (gc_sources c) a) = Inr t) runs"

definition all_replies :: "exec_conf \<Rightarrow> gem5_conf \<Rightarrow> (input \<times> gem5_answer \<times> nat) list \<Rightarrow> byte list" where
  "all_replies x c runs = concat (map (\<lambda>(inp, a, t). replies (xc_layout x) inp (gc_sources c) (ga_run a)) runs)"

definition all_lines :: "(input \<times> gem5_answer \<times> nat) list \<Rightarrow> string list" where
  "all_lines runs = concat (map (\<lambda>(inp, a, t). ga_lines a @ [reset_marker]) runs)"

lemma trace_loop_responsive:
  assumes "fast_mode x (xs_conf s)" and "answers_ok env (xs_conf s) runs" and "store_ok False (xs_files s)"
    and "live (conn_in (xs_orch s))" and "avail (conn_in (xs_orch s)) = all_replies x (xs_conf s) runs @ rest"
    and "xs_stdout s (active_process (xs_orch s)) = all_lines runs @ out"
  shows "\<exists>s'. trace_loop x env i first (map fst runs) tick s = Some (Inr ((map (\<lambda>(inp, a, t). t) runs, tick), s'))"
  using assms
proof (induction runs arbitrary: s first)
  case (Cons run runs)
  obtain inp a t where run: "run = (inp, a, t)" by (rule prod_cases3)
  obtain fs es sent where s: "trace_input x env i first inp tick s = Some (Inr ((t, tick), answered s fs es sent (all_lines runs @ out)))"
      "store_ok False fs" "live es" "avail es = all_replies x (xs_conf s) runs @ rest"
    by (rule trace_input_responsive [OF Cons.prems(1), of a inp "all_replies x (xs_conf s) runs @ rest" "all_lines runs @ out" env t i first tick])
      (use Cons.prems run in \<open>simp_all add: answers_ok_def all_replies_def all_lines_def\<close>)
  have "\<exists>s'. trace_loop x env i False (map fst runs) tick (answered s fs es sent (all_lines runs @ out)) =
      Some (Inr ((map (\<lambda>(inp, a, t). t) runs, tick), s'))"
    by (rule Cons.IH) (use Cons.prems s in \<open>simp_all add: answered_def answers_ok_def\<close>)
  with s(1) show ?case by (auto simp: run x_bind_def x_return_def)
qed (simp add: all_replies_def)

lemma trace_test_case_responsive:
  assumes "gc_orchestration (xs_conf s) = ''ipc''" and "restart x env s = Some (Inr ((), u))" and "fast_mode x (xs_conf u)"
    and "xs_code_segment u \<noteq> []" and "xe_isdir env (case_dir x)"
    and "0 < i \<Longrightarrow> xs_last_input u \<noteq> None \<and> \<not> xc_cross_checkpoints x"
    and "store_ok False (xs_files u)" and "runs \<noteq> []" and "answers_ok env (xs_conf u) runs"
    and "live (conn_in (xs_orch u))" and "avail (conn_in (xs_orch u)) = all_replies x (xs_conf u) runs @ rest"
    and "xs_stdout u (active_process (xs_orch u)) = all_lines runs @ out"
  shows "\<exists>s'. exec_trace_test_case x env (map fst runs) i s = Some (Inr (map (\<lambda>(inp, a, t). t) runs, s'))"
proof -
  have m: "\<not> gc_debug (xs_conf u)" using assms(3) by (simp add: fast_mode_def)
  obtain b where p: "x_when (0 < i) (restore_previous x i) (u\<lparr>xs_ticks := []\<rparr>) =
      Some (Inr ((), u\<lparr>xs_ticks := [], xs_base_input := b\<rparr>))"
  proof (cases "0 < i")
    case True
    then obtain li where "xs_last_input u = Some li" "\<not> xc_cross_checkpoints x" using assms(6) by blast
    with True show thesis
      by (intro that [of "Some li"]) (simp add: x_when_def restore_previous_def x_bind_def x_return_def Let_def)
  next
    case False
    then show thesis by (intro that [of "xs_base_input u"]) (simp add: x_when_def x_return_def)
  qed
  obtain fs where w: "write_debug_file False (case_dir x @ ''/test_case.asm'') (xs_code_segment u) (xs_files u) = Inr fs" "store_ok False fs"
    by (rule write_debug_file_view [OF assms(7)])
  let ?v = "u\<lparr>xs_ticks := [], xs_base_input := b, xs_files := fs\<rparr>"
  have "\<exists>s'. trace_loop x env i True (map fst runs) ''0'' ?v = Some (Inr ((map (\<lambda>(inp, a, t). t) runs, ''0''), s'))"
    by (rule trace_loop_responsive) (use assms w in simp_all)
  then obtain s' where l: "trace_loop x env i True (map fst runs) ''0'' ?v = Some (Inr ((map (\<lambda>(inp, a, t). t) runs, ''0''), s'))" ..
  have z: "py_int ''0'' = Inr 0" by code_simp
  have "\<exists>v. py_index (map fst runs) (-1) = Inr v" using assms(8) by (simp add: py_index_def Suc_le_eq)
  then have "\<exists>s''. remember_last (map fst runs) (map (\<lambda>(inp, a, t). t) runs, ''0'') s' = Some (Inr (map (\<lambda>(inp, a, t). t) runs, s''))"
    by (auto simp: remember_last_def z)
  with l p w(1) m assms(1,2,4,5) show ?thesis
    by (simp add: exec_trace_test_case_def Let_def x_bind_def x_when_def [of True] x_files_def)
qed

text \<open>
  C5. The executor in ipc mode, from end to end: when gem5 has been restarted and answers every input by the protocol (in whatever
  pieces, below the time limit and the simulation limit), \<open>trace_test_case\<close> terminates and returns, input by
  input, the digest of the trace read from the tags gem5 sent for it.
\<close>

theorem executor_responsive:
  assumes "gc_orchestration (xs_conf s) = ''ipc''" and "restart x env s = Some (Inr ((), u))" and "fast_mode x (xs_conf u)"
    and "xs_code_segment u \<noteq> []" and "xe_isdir env (case_dir x)"
    and "0 < i \<Longrightarrow> xs_last_input u \<noteq> None \<and> \<not> xc_cross_checkpoints x"
    and "store_ok False (xs_files u)" and "runs \<noteq> []" and "answers_ok env (xs_conf u) runs"
    and "live (conn_in (xs_orch u))" and "avail (conn_in (xs_orch u)) = all_replies x (xs_conf u) runs @ rest"
    and "xs_stdout u (active_process (xs_orch u)) = all_lines runs @ out"
  shows "\<exists>s'. exec_trace_test_case x env (map fst runs) i s = Some (Inr (map (\<lambda>(inp, a, t). t) runs, s')) \<and>
    xs_last_input s' = Some (fst (last runs))"
proof -
  obtain s' where r: "exec_trace_test_case x env (map fst runs) i s = Some (Inr (map (\<lambda>(inp, a, t). t) runs, s'))"
    using trace_test_case_responsive [OF assms] by blast
  from trace_test_case_per_input [OF r] r assms(8) show ?thesis by (auto simp: last_map)
qed

definition ex_exec_conf :: exec_conf where
  "ex_exec_conf = \<lparr>xc_debug_dir = ''d'', xc_test_case = ''c'', xc_test_case_path = ''tc'', xc_restore = 0, xc_save_stats = True,
     xc_cross_checkpoints = False, xc_persist_log = False, xc_ipc = ex_ipc_conf, xc_layout = ex_ipc_layout\<rparr>"

definition ex_fast_conf :: gem5_conf where
  "ex_fast_conf = ex_dcache_conf\<lparr>gc_debug := False\<rparr>"

definition ex_answer :: gem5_answer where
  "ex_answer = \<lparr>ga_run = ex_run, ga_preds = '',pc:0x402010'', ga_accs = '',pc:0x402020,r'', ga_lines = [''ok'']\<rparr>"

definition ex_exec_env :: exec_env where
  "ex_exec_env = \<lparr>xe_env_flags = [], xe_env_file = None, xe_isdir = (\<lambda>_. True), xe_socket_name = nat_str, xe_binaries = (\<lambda>_. None),
     xe_pids = [6], xe_ready = Some 2,
     xe_accept = (\<lambda>_. [Ready (packed [OP_ACK_INIT, 6]), Idle, Ready (all_replies ex_exec_conf ex_fast_conf [(ex_input, ex_answer, 2)])]),
     xe_assemble = (\<lambda>_. Inr), xe_gem5 = (\<lambda>_ fs. (0, [], fs)), xe_toml_load = (\<lambda>_. Inr (ex_tags ''12352 20544'')), xe_digest = length\<rparr>"

definition ex_exec_state :: exec_state where
  "ex_exec_state = \<lparr>xs_conf = ex_fast_conf, xs_files = ex_files, xs_orch = ex_orch [], xs_stdout = (\<lambda>_. all_lines [(ex_input, ex_answer, 2)]),
     xs_cmd = [''gem5'', [], [], ''-o'', ''se.py'', ''-c'', []], xs_code_segment = ''NOP'', xs_priming = False, xs_bugged = False,
     xs_last_tick = -1, xs_last_input = None, xs_base_input = None, xs_ticks = []\<rparr>"

lemma ex_restart:
  obtains es sent orch where "restart ex_exec_conf ex_exec_env ex_exec_state =
      Some (Inr ((), ex_exec_state\<lparr>xs_orch := orch\<lparr>conn_in := es, conn_out := sent\<rparr>\<rparr>))"
    and "live es" and "avail es = all_replies ex_exec_conf ex_fast_conf [(ex_input, ex_answer, 2)]"
proof -
  let ?r = "all_replies ex_exec_conf ex_fast_conf [(ex_input, ex_answer, 2)]"
  obtain cmd where g: "get_cmd [] None (xs_cmd ex_exec_state) [] False False ex_fast_conf = Inr (cmd, ex_fast_conf)" and sock: "''SOCKET'' \<in> set cmd"
    by (simp add: get_cmd_def ex_exec_state_def ex_fast_conf_def ex_dcache_conf_def ex_gem5_conf_def Let_def)
  obtain s0 where k: "kill_active (ex_orch []) = (Inr (), s0)" "processes s0 = [5]" "last_case s0 = None"
    by (simp add: kill_active_def ex_orch_def Let_def)
  obtain t where p: "start_new_gem5_process ex_ipc_conf nat_str cmd 6 s0 = (Inr (), t)" "processes t = [5, 6]" "last_case t = None"
    using sock k(2,3) by (auto simp: start_new_gem5_process_def socket_command_def ex_ipc_conf_def Let_def)
  have "ic_parallelism ex_ipc_conf = 2" by (simp add: ex_ipc_conf_def)
  then have fl: "fill_pool ex_ipc_conf nat_str cmd [6] s0 = (Inr (), t)" using k(2) p(1,2) by (simp add: io_bind_def)
  have a: "avail (xe_accept ex_exec_env 2) = packed [OP_ACK_INIT, int 6] @ ?r" "live (xe_accept ex_exec_env 2)"
    by (simp_all add: ex_exec_env_def live_def packed_def word_bytes_def)
  obtain es sent where c: "connect (\<lambda>_. None) (t\<lparr>conn_in := xe_accept ex_exec_env 2, conn_out := []\<rparr>) =
      (Inr (), t\<lparr>conn_in := es, conn_out := sent, active_process := 6\<rparr>)" "live es" "avail es = ?r"
  proof (rule connect_announced [of "t\<lparr>conn_in := xe_accept ex_exec_env 2, conn_out := []\<rparr>" 6 ?r "\<lambda>_. None"])
  qed (use a p in auto)
  have "restart_gem5 ex_ipc_conf nat_str (\<lambda>_. None) [6] (Some 2) (xe_accept ex_exec_env) cmd (ex_orch []) =
      (Inr (), t\<lparr>conn_in := es, conn_out := sent, active_process := 6\<rparr>)"
    using k(1) fl c(1) by (simp add: restart_gem5_def io_bind_def)
  then have "restart ex_exec_conf ex_exec_env ex_exec_state =
      Some (Inr ((), ex_exec_state\<lparr>xs_orch := t\<lparr>active_process := 6, conn_in := es, conn_out := sent\<rparr>\<rparr>))"
    using g by (simp add: restart_def x_io_def ex_exec_state_def ex_exec_env_def ex_exec_conf_def)
  from that [OF this c(2,3)] show thesis .
qed

lemma ex_answers_ok: "answers_ok ex_exec_env ex_fast_conf [(ex_input, ex_answer, 2)]"
proof -
  obtain u where "format_text (answer_text [''data_cache''] ex_answer) = Inr u" using format_text_total by blast
  moreover have "raw_trace ex_fast_conf (ex_tags ''12352 20544'') = Inr [TagItem 64, TagItem 4160]" by code_simp
  ultimately have "trace_of_tags ex_fast_conf ex_exec_env (answer_text [''data_cache''] ex_answer) = Inr 2"
    by (simp add: trace_of_tags_def ex_exec_env_def push_bit_eq_mult)
  moreover have "\<not> limit_reached (concat [''ok''])" "reset_marker \<notin> set [''ok'']" by code_simp+
  moreover have "run_ok ex_run" by (simp add: run_ok_def text_ok_def ex_run_def)
  ultimately show ?thesis
    using ex_filter_log by (simp add: answers_ok_def answer_ok_def ex_answer_def ex_fast_conf_def ex_dcache_conf_def)
qed

theorem executor_responsive_witness:
  "\<exists>s'. exec_trace_test_case ex_exec_conf ex_exec_env [ex_input] 0 ex_exec_state = Some (Inr ([2], s')) \<and> xs_last_input s' = Some ex_input"
proof -
  obtain es sent orch where r: "restart ex_exec_conf ex_exec_env ex_exec_state =
      Some (Inr ((), ex_exec_state\<lparr>xs_orch := orch\<lparr>conn_in := es, conn_out := sent\<rparr>\<rparr>))"
    "live es" "avail es = all_replies ex_exec_conf ex_fast_conf [(ex_input, ex_answer, 2)]" by (rule ex_restart)
  have "fast_mode ex_exec_conf ex_fast_conf" "store_ok False ex_files"
    by (simp_all add: fast_mode_def ex_fast_conf_def ex_dcache_conf_def ex_gem5_conf_def ex_exec_conf_def ex_ipc_conf_def
        data_size_def ex_ipc_layout_def store_ok_def ex_files_def)
  moreover have "gc_orchestration ex_fast_conf = ''ipc''" by (simp add: ex_fast_conf_def ex_dcache_conf_def ex_gem5_conf_def)
  ultimately show ?thesis
    using executor_responsive [OF _ r(1), of 0 "[(ex_input, ex_answer, 2)]" "[]" "[]"] r(2,3) ex_answers_ok
    by (simp add: ex_exec_state_def ex_exec_env_def)
qed

end
