(* ===== verification/Xml_Isa.thy ===== *)
theory Xml_Isa
  imports Config Isa_Loader
begin

text \<open>
  The older instruction set of \<^verbatim>\<open>src/src/instruction_set.py\<close>, read from an XML description. Parsing the
  file is I/O; the elements of the document are the records \<open>xml_op\<close> and \<open>xml_instruction\<close>. The
  operand reduction and the removal of copies are the same code as in \<open>Isa_Loader\<close> and are shared with it.
  The lemmas show what the loaded set contains, when loading raises, and what the textual
  attributes lead to: a flag that is written as a string is true even when the string is "0".
\<close>

subsection \<open>The parsed document\<close>

text \<open>
  An element has its attributes and its text. \<^verbatim>\<open>ElementTree\<close> gives \<^verbatim>\<open>None\<close> for an element without
  text and never the empty string, which therefore stands for \<^verbatim>\<open>None\<close>.
\<close>

record xml_op =
  xo_attrib :: "(string, string) dict"
  xo_text :: string

record xml_instruction =
  xi_attrib :: "(string, string) dict"
  xi_ops :: "xml_op list"

text \<open>An instruction with the three attributes that only this loader sets.\<close>

record xml_spec =
  xs_spec :: instruction_spec
  xs_zeroing :: bool
  xs_rnsae :: bool
  xs_sae :: bool

text \<open>
  \<open>src\<close>, \<open>dest\<close> and \<open>control_flow\<close> are assigned the text of an attribute and afterwards only tested:
  the model keeps the outcome of the test. Widths are not negative in the description; \<open>nat\<close> would
  read a negative one as 0.
\<close>

definition truthy :: "string \<Rightarrow> bool" where
  "truthy s \<longleftrightarrow> s \<noteq> []"

definition read_width :: "string res \<Rightarrow> nat res" where
  "read_width r = res_bind r (\<lambda>s. res_bind (py_int s) (\<lambda>n. Inr (nat n)))"

text \<open>\<open>int(op.attrib.get('width'))\<close>: \<open>int(None)\<close> is a type error.\<close>

definition get_width :: "xml_op \<Rightarrow> nat res" where
  "get_width op = read_width (case map_of (xo_attrib op) ''width'' of None \<Rightarrow> Inl TypeError | Some s \<Rightarrow> Inr s)"

subsection \<open>Operands\<close>

definition parse_reg_operand :: "xml_op \<Rightarrow> operand_spec res" where
  "parse_reg_operand op =
     (if xo_text op = [] then Inl AttributeError
      else
        let registers = split_at (CHR '','') (xo_text op);
            spec = new_operand_spec registers OT_REG (truthy (dict_default (xo_attrib op) ''0'' ''r''))
              (truthy (dict_default (xo_attrib op) ''0'' ''w''))
        in res_bind (get_width op) (\<lambda>w. Inr (spec\<lparr>os_width := w\<rparr>)))"

definition parse_mem_operand :: "xml_op \<Rightarrow> operand_spec res" where
  "parse_mem_operand op =
     res_bind (read_width (dict_get (xo_attrib op) ''width'')) (\<lambda>width.
     res_bind (py_assert (dict_default (xo_attrib op) ''0'' ''VSIB'' = ''0'')) (\<lambda>_.
     res_bind (py_assert (dict_default (xo_attrib op) [] ''memory-suffix'' = [])) (\<lambda>_.
     let base = dict_default (xo_attrib op) [] ''base'';
         choices = (if base \<noteq> [] then [base] else []);
         spec = new_operand_spec choices OT_MEM (truthy (dict_default (xo_attrib op) ''0'' ''r''))
           (truthy (dict_default (xo_attrib op) ''0'' ''w''))
     in Inr (spec\<lparr>os_width := width\<rparr>))))"

definition parse_agen_operand :: "xml_op \<Rightarrow> operand_spec res" where
  "parse_agen_operand op =
     res_bind (get_width op) (\<lambda>w. Inr ((new_operand_spec [] OT_AGEN (truthy ''1'') (truthy ''0''))\<lparr>os_width := w\<rparr>))"

definition parse_imm_operand :: "xml_op \<Rightarrow> operand_spec res" where
  "parse_imm_operand op =
     (let v = (if dict_default (xo_attrib op) ''0'' ''implicit'' = ''1'' then [xo_text op] else []);
          spec = new_operand_spec v OT_IMM (truthy ''1'') (truthy ''0'')
      in res_bind (read_width (dict_get (xo_attrib op) ''width'')) (\<lambda>w. Inr (spec\<lparr>os_width := w\<rparr>)))"

definition parse_label_operand :: operand_spec where
  "parse_label_operand = new_operand_spec [] OT_LABEL (truthy ''1'') (truthy ''0'')"

definition parse_flags_operand :: "xml_op \<Rightarrow> operand_spec" where
  "parse_flags_operand op = new_operand_spec
     (map (dict_default (xo_attrib op) [])
       [''flag_CF'', ''flag_PF'', ''flag_AF'', ''flag_ZF'', ''flag_SF'', ''flag_TF'', ''flag_IF'', ''flag_DF'', ''flag_OF''])
     OT_FLAGS (truthy ''0'') (truthy ''0'')"

subsection \<open>Instructions\<close>

text \<open>The branches on the operand type: the operand, and what it sets in the instruction.\<close>

definition parse_op_node :: "xml_instruction \<Rightarrow> xml_op \<Rightarrow> instruction_spec \<Rightarrow> (operand_spec \<times> instruction_spec) res" where
  "parse_op_node node op inst =
     res_bind (dict_get (xo_attrib op) ''type'') (\<lambda>op_type.
     if op_type = ''reg'' then
       res_bind (parse_reg_operand op) (\<lambda>p.
       Inr (p, if xo_text op = ''RIP'' then inst\<lparr>is_control_flow := True\<rparr> else inst))
     else if op_type = ''mem'' then
       res_bind (parse_mem_operand op) (\<lambda>p.
       Inr (p, inst\<lparr>is_has_mem_operand := True, is_has_write := is_has_write inst \<or> os_dest p\<rparr>))
     else if op_type = ''agen'' then
       res_bind (dict_get (xi_attrib node) ''agen'') (\<lambda>txt.
       res_bind (parse_agen_operand (op\<lparr>xo_text := txt\<rparr>)) (\<lambda>p. Inr (p, inst)))
     else if op_type = ''imm'' then res_bind (parse_imm_operand op) (\<lambda>p. Inr (p, inst))
     else if op_type = ''relbr'' then Inr (parse_label_operand, inst\<lparr>is_control_flow := True\<rparr>)
     else if op_type = ''flags'' then Inr (parse_flags_operand op, inst)
     else Inl PyException)"

definition add_xml_operand :: "xml_instruction \<Rightarrow> xml_op \<Rightarrow> instruction_spec \<Rightarrow> instruction_spec res" where
  "add_xml_operand node op inst =
     res_bind (parse_op_node node op inst) (\<lambda>(p, inst).
     let implicit = dict_default (xo_attrib op) ''0'' ''implicit'' = ''1'';
         p = (if implicit then p\<lparr>os_magic_value := True\<rparr> else p);
         inst = (if implicit then inst\<lparr>is_has_magic_value := True\<rparr> else inst)
     in Inr (if dict_default (xo_attrib op) ''0'' ''suppressed'' = ''1''
        then inst\<lparr>is_implicit_operands := is_implicit_operands inst @ [p]\<rparr>
        else inst\<lparr>is_operands := is_operands inst @ [p]\<rparr>))"

definition read_xml_instruction :: "xml_instruction \<Rightarrow> xml_spec res" where
  "read_xml_instruction node =
     res_bind (dict_get (xi_attrib node) ''asm'') (\<lambda>name.
     res_bind (dict_get (xi_attrib node) ''category'') (\<lambda>category.
     res_bind (dict_get (xi_attrib node) ''control_flow'') (\<lambda>control_flow.
     let inst = new_instruction_spec\<lparr>is_name := name, is_category := category, is_control_flow := truthy control_flow\<rparr>
     in res_bind (res_fold (add_xml_operand node) (xi_ops node) inst) (\<lambda>inst.
        Inr \<lparr>xs_spec = inst,
          xs_zeroing = dict_default (xi_attrib node) [] ''zeroing'' = ''1'',
          xs_rnsae = dict_default (xi_attrib node) [] ''roundc'' = ''1'',
          xs_sae = dict_default (xi_attrib node) [] ''sae'' = ''1''\<rparr>))))"

definition init_from_xml :: "xml_instruction list \<Rightarrow> xml_spec list res" where
  "init_from_xml root = res_map read_xml_instruction root"

subsection \<open>Removing what is not supported\<close>

fun xml_implicit_supported :: "loader_conf \<Rightarrow> operand_spec list \<Rightarrow> bool res" where
  "xml_implicit_supported conf [] = Inr True"
| "xml_implicit_supported conf (implicit_operand # rest) =
     res_bind (py_assert (os_type implicit_operand \<noteq> OT_LABEL)) (\<lambda>_.
     if os_type implicit_operand = OT_MEM then
       res_bind (py_nth (os_values implicit_operand) 0) (\<lambda>v.
       if v \<in> set (lc_gpr_blocklist conf) then Inr False else xml_implicit_supported conf rest)
     else if os_type implicit_operand = OT_REG then
       res_bind (py_nth (os_values implicit_operand) 0) (\<lambda>v.
       if v \<in> set (lc_gpr_blocklist conf)
       then res_bind (py_assert (length (os_values implicit_operand) = 1)) (\<lambda>_. Inr False)
       else xml_implicit_supported conf rest)
     else xml_implicit_supported conf rest)"

definition xml_is_supported :: "loader_conf \<Rightarrow> string list \<Rightarrow> xml_spec \<Rightarrow> bool res" where
  "xml_is_supported conf include_categories spec =
     (if lc_no_generation conf then Inr True
      else if include_categories \<noteq> [] \<and> is_category (xs_spec spec) \<notin> set include_categories then Inr False
      else if xs_sae spec \<or> xs_rnsae spec \<or> xs_zeroing spec then Inr False
      else if is_name (xs_spec spec) \<in> set (lc_instruction_blocklist conf) then Inr False
      else if list_ex (blocked_address conf) (is_operands (xs_spec spec)) then Inr False
      else xml_implicit_supported conf (is_implicit_operands (xs_spec spec)))"

text \<open>
  One round of the loop over \<open>self.all\<close>: the specification with its operands reduced, how often it
  goes on the skip list, and whether it goes on \<open>self.control_flow\<close>. When an operand has no
  value left the operands keep the old values in the model; the specification is removed then.
\<close>

record verdict =
  vd_spec :: instruction_spec
  vd_skips :: nat
  vd_control_flow :: bool

definition judge :: "loader_conf \<Rightarrow> string list \<Rightarrow> xml_spec \<Rightarrow> verdict res" where
  "judge conf include_categories s =
     res_bind (xml_is_supported conf include_categories s) (\<lambda>supported.
     if \<not> supported then Inr \<lparr>vd_spec = xs_spec s, vd_skips = 1, vd_control_flow = False\<rparr>
     else
       let cf = is_control_flow (xs_spec s);
           skips = (if cf then 1 else 0)
       in res_bind (reduce_operands conf (is_operands (xs_spec s))) (\<lambda>ops. Inr (case ops of
            None \<Rightarrow> \<lparr>vd_spec = xs_spec s, vd_skips = skips + 1, vd_control_flow = cf\<rparr>
          | Some ops \<Rightarrow> \<lparr>vd_spec = (xs_spec s)\<lparr>is_operands := ops\<rparr>, vd_skips = skips, vd_control_flow = cf\<rparr>)))"

text \<open>
  \<open>self.all.remove(s)\<close> for every entry of the skip list: the specifications are distinct
  objects compared by identity, so that the second removal of one raises.
\<close>

definition remove_skipped :: "verdict list \<Rightarrow> instruction_spec list res" where
  "remove_skipped vs =
     (if list_ex (\<lambda>v. 1 < vd_skips v) vs then Inl ValueError
      else Inr (map vd_spec (filter (\<lambda>v. vd_skips v = 0) vs)))"

record xml_set =
  xt_all :: "instruction_spec list"
  xt_control_flow :: "instruction_spec list"
  xt_has_unconditional_branch :: bool
  xt_has_conditional_branch :: bool
  xt_has_reads :: bool
  xt_has_writes :: bool

definition mark_parameter :: "instruction_spec \<Rightarrow> xml_set \<Rightarrow> xml_set" where
  "mark_parameter inst st =
     (if is_control_flow inst then
        if is_category inst = ''UNCOND_BR'' then st\<lparr>xt_has_unconditional_branch := True\<rparr>
        else st\<lparr>xt_has_conditional_branch := True\<rparr>
      else if is_has_mem_operand inst then
        if is_has_write inst then st\<lparr>xt_has_writes := True\<rparr> else st\<lparr>xt_has_reads := True\<rparr>
      else st)"

definition reduce_xml :: "loader_conf \<Rightarrow> string list \<Rightarrow> xml_spec list \<Rightarrow> xml_set res" where
  "reduce_xml conf include_categories specs =
     res_bind (res_map (judge conf include_categories) specs) (\<lambda>vs.
     let control_flow = map vd_spec (filter vd_control_flow vs)
     in res_bind (remove_skipped vs) (\<lambda>all.
        Inr (fold mark_parameter (all @ control_flow)
          \<lparr>xt_all = all, xt_control_flow = control_flow, xt_has_unconditional_branch = False,
           xt_has_conditional_branch = False, xt_has_reads = False, xt_has_writes = False\<rparr>)))"

subsection \<open>The whole set\<close>

definition dedup_all :: "xml_set \<Rightarrow> xml_set" where
  "dedup_all st = st\<lparr>xt_all := dedup (xt_all st)\<rparr>"

definition load_xml_set :: "loader_conf \<Rightarrow> string list \<Rightarrow> xml_instruction list \<Rightarrow> xml_set res" where
  "load_xml_set conf include_categories root =
     res_bind (init_from_xml root) (\<lambda>specs.
     res_bind (reduce_xml conf include_categories specs) (\<lambda>st.
     Inr (dedup_all st)))"

subsection \<open>What an element becomes\<close>

lemma add_xml_operand_parsed:
  assumes "add_xml_operand node op inst = Inr inst'"
  obtains p i where "parse_op_node node op inst = Inr (p, i)" "is_name inst' = is_name i"
    "is_category inst' = is_category i" "is_control_flow inst' = is_control_flow i"
    "is_has_mem_operand inst' = is_has_mem_operand i" "is_has_write inst' = is_has_write i"
proof -
  from assms obtain q where "parse_op_node node op inst = Inr q"
    by (auto simp: add_xml_operand_def res_bind_Inr_iff)
  moreover obtain p i where "q = (p, i)" by (cases q)
  ultimately have q: "parse_op_node node op inst = Inr (p, i)" by simp
  from assms q show thesis
    by (intro that [OF q]) (auto simp: add_xml_operand_def Let_def split: if_splits)
qed

lemma if_eqE: "(if b then x else y) = z \<Longrightarrow> (x = z \<Longrightarrow> P) \<Longrightarrow> (y = z \<Longrightarrow> P) \<Longrightarrow> P"
  by (cases b) simp_all

lemma parse_op_node_cases:
  assumes "parse_op_node node op inst = Inr (p, i)"
  obtains (same) "i = inst"
  | (jump) "i = inst\<lparr>is_control_flow := True\<rparr>"
  | (mem) "parse_mem_operand op = Inr p"
      "i = inst\<lparr>is_has_mem_operand := True, is_has_write := is_has_write inst \<or> os_dest p\<rparr>"
proof -
  have "i = inst \<or> i = inst\<lparr>is_control_flow := True\<rparr> \<or> (parse_mem_operand op = Inr p \<and>
      i = inst\<lparr>is_has_mem_operand := True, is_has_write := is_has_write inst \<or> os_dest p\<rparr>)"
    using assms unfolding parse_op_node_def res_bind_Inr_iff
    by (elim exE conjE if_eqE) (auto simp: res_bind_Inr_iff split: if_splits)
  with that show thesis by blast
qed

lemma add_xml_operand_keeps:
  assumes "add_xml_operand node op inst = Inr inst'"
  shows "is_name inst' = is_name inst \<and> is_category inst' = is_category inst \<and>
    (is_control_flow inst \<longrightarrow> is_control_flow inst')"
proof -
  obtain p i where "parse_op_node node op inst = Inr (p, i)" "is_name inst' = is_name i"
    "is_category inst' = is_category i" "is_control_flow inst' = is_control_flow i"
    by (rule add_xml_operand_parsed [OF assms])
  then show ?thesis by (elim parse_op_node_cases) simp_all
qed

lemma add_xml_operands_keep:
  "res_fold (add_xml_operand node) ops inst = Inr inst' \<Longrightarrow>
   is_name inst' = is_name inst \<and> is_category inst' = is_category inst \<and>
   (is_control_flow inst \<longrightarrow> is_control_flow inst')"
  by (induction ops arbitrary: inst) (auto simp: res_bind_Inr_iff dest!: add_xml_operand_keeps)

text \<open>A memory operand counts as written unless its attribute \<open>w\<close> is the empty text.\<close>

lemma parse_mem_operand_dest:
  "parse_mem_operand op = Inr p \<Longrightarrow> map_of (xo_attrib op) ''w'' \<noteq> Some [] \<Longrightarrow> os_dest p"
  by (auto simp: parse_mem_operand_def res_bind_Inr_iff Let_def new_operand_spec_def truthy_def dict_default_def
      split: option.splits)

lemma add_xml_operand_write:
  assumes "add_xml_operand node op inst = Inr inst'" and "map_of (xo_attrib op) ''w'' \<noteq> Some []"
    and "is_has_mem_operand inst \<longrightarrow> is_has_write inst"
  shows "is_has_mem_operand inst' \<longrightarrow> is_has_write inst'"
proof -
  obtain p i where p: "parse_op_node node op inst = Inr (p, i)"
    and eq: "is_has_mem_operand inst' = is_has_mem_operand i" "is_has_write inst' = is_has_write i"
    by (rule add_xml_operand_parsed [OF assms(1)])
  from p have "is_has_mem_operand i \<longrightarrow> is_has_write i"
    by (rule parse_op_node_cases) (use assms(3) parse_mem_operand_dest [OF _ assms(2)] in simp_all)
  with eq show ?thesis by simp
qed

lemma add_xml_operands_write:
  "res_fold (add_xml_operand node) ops inst = Inr inst' \<Longrightarrow>
   \<forall>op \<in> set ops. map_of (xo_attrib op) ''w'' \<noteq> Some [] \<Longrightarrow>
   (is_has_mem_operand inst \<longrightarrow> is_has_write inst) \<Longrightarrow> (is_has_mem_operand inst' \<longrightarrow> is_has_write inst')"
proof (induction ops arbitrary: inst)
  case (Cons op ops)
  from Cons.prems(1) obtain i where i: "add_xml_operand node op inst = Inr i"
    "res_fold (add_xml_operand node) ops i = Inr inst'" by (auto simp: res_bind_Inr_iff)
  have "is_has_mem_operand i \<longrightarrow> is_has_write i"
    using add_xml_operand_write [OF i(1)] Cons.prems(2,3) by simp
  with Cons.IH [OF i(2)] Cons.prems(2) show ?case by simp
qed simp

text \<open>
  The attributes as they are read: an instruction keeps its name and category, counts as control
  flow whenever the attribute has any text (also "0"), and every instruction that accesses memory
  counts as a store unless an attribute \<open>w\<close> is the empty text.
\<close>

lemma read_xml_instruction_attributes:
  assumes "read_xml_instruction node = Inr s"
  shows "dict_get (xi_attrib node) ''asm'' = Inr (is_name (xs_spec s))"
    and "dict_get (xi_attrib node) ''category'' = Inr (is_category (xs_spec s))"
    and "map_of (xi_attrib node) ''control_flow'' \<noteq> Some [] \<Longrightarrow> is_control_flow (xs_spec s)"
    and "\<forall>op \<in> set (xi_ops node). map_of (xo_attrib op) ''w'' \<noteq> Some [] \<Longrightarrow>
      is_has_mem_operand (xs_spec s) \<Longrightarrow> is_has_write (xs_spec s)"
proof -
  from assms obtain name category cf where a: "dict_get (xi_attrib node) ''asm'' = Inr name"
    "dict_get (xi_attrib node) ''category'' = Inr category" "dict_get (xi_attrib node) ''control_flow'' = Inr cf"
    and f: "res_fold (add_xml_operand node) (xi_ops node)
      (new_instruction_spec\<lparr>is_name := name, is_category := category, is_control_flow := truthy cf\<rparr>) = Inr (xs_spec s)"
    by (auto simp: read_xml_instruction_def res_bind_Inr_iff Let_def)
  from add_xml_operands_keep [OF f] a
  show "dict_get (xi_attrib node) ''asm'' = Inr (is_name (xs_spec s))"
    and "dict_get (xi_attrib node) ''category'' = Inr (is_category (xs_spec s))"
    and "map_of (xi_attrib node) ''control_flow'' \<noteq> Some [] \<Longrightarrow> is_control_flow (xs_spec s)"
    by (auto simp: truthy_def dict_get_def split: option.splits)
  show "is_has_write (xs_spec s)"
    if "\<forall>op \<in> set (xi_ops node). map_of (xo_attrib op) ''w'' \<noteq> Some []" "is_has_mem_operand (xs_spec s)"
    using add_xml_operands_write [OF f that(1)] that(2) by (simp add: new_instruction_spec_def)
qed

subsection \<open>The parameters of the set\<close>

lemma fold_mark_parameter:
  "xt_all (fold mark_parameter insts st) = xt_all st"
  "xt_control_flow (fold mark_parameter insts st) = xt_control_flow st"
  "xt_has_unconditional_branch (fold mark_parameter insts st) \<longleftrightarrow> xt_has_unconditional_branch st \<or>
    (\<exists>i \<in> set insts. is_control_flow i \<and> is_category i = ''UNCOND_BR'')"
  "xt_has_conditional_branch (fold mark_parameter insts st) \<longleftrightarrow> xt_has_conditional_branch st \<or>
    (\<exists>i \<in> set insts. is_control_flow i \<and> is_category i \<noteq> ''UNCOND_BR'')"
  "xt_has_reads (fold mark_parameter insts st) \<longleftrightarrow> xt_has_reads st \<or>
    (\<exists>i \<in> set insts. \<not> is_control_flow i \<and> is_has_mem_operand i \<and> \<not> is_has_write i)"
  "xt_has_writes (fold mark_parameter insts st) \<longleftrightarrow> xt_has_writes st \<or>
    (\<exists>i \<in> set insts. \<not> is_control_flow i \<and> is_has_mem_operand i \<and> is_has_write i)"
  by (induction insts arbitrary: st) (auto simp: mark_parameter_def)

subsection \<open>The verdicts\<close>

text \<open>
  What a round of the loop decides. A supported specification that is removed twice is
  a control-flow instruction with a register operand that has no value left.
\<close>

lemma judge_cases:
  assumes "judge conf categories s = Inr v"
  obtains
    (unsupported) "xml_is_supported conf categories s = Inr False" "vd_skips v = 1" "\<not> vd_control_flow v"
  | (empty) "xml_is_supported conf categories s = Inr True" "reduce_operands conf (is_operands (xs_spec s)) = Inr None"
      "vd_control_flow v = is_control_flow (xs_spec s)" "vd_skips v = (if vd_control_flow v then 2 else 1)"
  | (reduced) ops where "xml_is_supported conf categories s = Inr True"
      "reduce_operands conf (is_operands (xs_spec s)) = Inr (Some ops)"
      "vd_spec v = (xs_spec s)\<lparr>is_operands := ops\<rparr>" "vd_control_flow v = is_control_flow (xs_spec s)"
      "vd_skips v = (if vd_control_flow v then 1 else 0)"
  using assms
  by (auto simp: judge_def res_bind_Inr_iff Let_def numeral_2_eq_2 split: if_splits option.splits)

definition empty_control_flow :: "loader_conf \<Rightarrow> string list \<Rightarrow> xml_spec \<Rightarrow> bool" where
  "empty_control_flow conf categories s \<longleftrightarrow> xml_is_supported conf categories s = Inr True \<and>
     is_control_flow (xs_spec s) \<and> reduce_operands conf (is_operands (xs_spec s)) = Inr None"

lemma judge_removed_twice:
  "judge conf categories s = Inr v \<Longrightarrow> 1 < vd_skips v \<longleftrightarrow> empty_control_flow conf categories s"
  by (erule judge_cases) (auto simp: empty_control_flow_def)

lemma list_all2_list_ex: "list_all2 (\<lambda>x y. P x \<longleftrightarrow> Q y) xs ys \<Longrightarrow> list_ex P xs \<longleftrightarrow> list_ex Q ys"
  by (induction rule: list_all2_induct) auto

text \<open>
  Once every round has returned, the reduction raises \<^verbatim>\<open>ValueError\<close> exactly when a supported control-flow
  instruction has a register operand with no value left.
\<close>

lemma reduce_xml_raises_iff:
  assumes "res_map (judge conf categories) specs = Inr vs"
  shows "reduce_xml conf categories specs = Inl e \<longleftrightarrow> e = ValueError \<and> list_ex (empty_control_flow conf categories) specs"
proof -
  from assms have "list_all2 (\<lambda>s v. judge conf categories s = Inr v) specs vs" by (simp add: res_map_Inr_iff)
  then have "list_all2 (\<lambda>s v. empty_control_flow conf categories s \<longleftrightarrow> 1 < vd_skips v) specs vs"
    by (rule list_all2_mono) (simp only: judge_removed_twice)
  then have "list_ex (\<lambda>v. 1 < vd_skips v) vs \<longleftrightarrow> list_ex (empty_control_flow conf categories) specs"
    by (simp add: list_all2_list_ex [symmetric])
  with assms show ?thesis by (auto simp: reduce_xml_def remove_skipped_def Let_def)
qed

subsection \<open>The loaded set\<close>

lemma load_xml_set_parts:
  assumes "load_xml_set conf categories root = Inr st"
  obtains specs vs where "list_all2 (\<lambda>node s. read_xml_instruction node = Inr s) root specs"
    "list_all2 (\<lambda>s v. judge conf categories s = Inr v) specs vs" "\<forall>v \<in> set vs. vd_skips v \<le> 1"
    "xt_all st = dedup (map vd_spec (filter (\<lambda>v. vd_skips v = 0) vs))"
    "xt_control_flow st = map vd_spec (filter vd_control_flow vs)"
    "xt_has_reads st \<longleftrightarrow> (\<exists>i \<in> vd_spec ` {v \<in> set vs. vd_skips v = 0 \<or> vd_control_flow v}.
      \<not> is_control_flow i \<and> is_has_mem_operand i \<and> \<not> is_has_write i)"
    "xt_has_writes st \<longleftrightarrow> (\<exists>i \<in> vd_spec ` {v \<in> set vs. vd_skips v = 0 \<or> vd_control_flow v}.
      \<not> is_control_flow i \<and> is_has_mem_operand i \<and> is_has_write i)"
proof -
  from assms obtain specs vs all where i: "init_from_xml root = Inr specs"
    and v: "res_map (judge conf categories) specs = Inr vs" and r: "remove_skipped vs = Inr all"
    and st: "st = dedup_all (fold mark_parameter (all @ map vd_spec (filter vd_control_flow vs))
          \<lparr>xt_all = all, xt_control_flow = map vd_spec (filter vd_control_flow vs), xt_has_unconditional_branch = False,
           xt_has_conditional_branch = False, xt_has_reads = False, xt_has_writes = False\<rparr>)"
    by (auto simp: load_xml_set_def reduce_xml_def res_bind_Inr_iff Let_def)
  from r have all: "all = map vd_spec (filter (\<lambda>v. vd_skips v = 0) vs)" and le: "\<forall>v \<in> set vs. vd_skips v \<le> 1"
    by (auto simp: remove_skipped_def list_ex_iff not_less split: if_splits)
  have "xt_all st = dedup all" "xt_control_flow st = map vd_spec (filter vd_control_flow vs)"
    unfolding st dedup_all_def by (simp_all add: fold_mark_parameter del: fold_append)
  moreover have "xt_has_reads st \<longleftrightarrow> (\<exists>i \<in> vd_spec ` {v \<in> set vs. vd_skips v = 0 \<or> vd_control_flow v}.
      \<not> is_control_flow i \<and> is_has_mem_operand i \<and> \<not> is_has_write i)"
    unfolding st dedup_all_def all by (simp add: fold_mark_parameter del: fold_append) blast
  moreover have "xt_has_writes st \<longleftrightarrow> (\<exists>i \<in> vd_spec ` {v \<in> set vs. vd_skips v = 0 \<or> vd_control_flow v}.
      \<not> is_control_flow i \<and> is_has_mem_operand i \<and> is_has_write i)"
    unfolding st dedup_all_def all by (simp add: fold_mark_parameter del: fold_append) blast
  ultimately show thesis
    using that i v le all by (simp add: init_from_xml_def res_map_Inr_iff)
qed

definition offered :: "xml_set \<Rightarrow> instruction_spec list" where
  "offered st = xt_all st @ xt_control_flow st"

lemma offered_judged:
  assumes "load_xml_set conf categories root = Inr st" and "i \<in> set (offered st)"
  obtains node s ops where "node \<in> set root" "read_xml_instruction node = Inr s"
    "xml_is_supported conf categories s = Inr True" "reduce_operands conf (is_operands (xs_spec s)) = Inr (Some ops)"
    "i = (xs_spec s)\<lparr>is_operands := ops\<rparr>"
    "i \<in> set (xt_all st) \<longrightarrow> \<not> is_control_flow i" "i \<in> set (xt_control_flow st) \<longrightarrow> is_control_flow i"
proof -
  obtain specs vs where p: "list_all2 (\<lambda>node s. read_xml_instruction node = Inr s) root specs"
    "list_all2 (\<lambda>s v. judge conf categories s = Inr v) specs vs" "\<forall>v \<in> set vs. vd_skips v \<le> 1"
    "xt_all st = dedup (map vd_spec (filter (\<lambda>v. vd_skips v = 0) vs))"
    "xt_control_flow st = map vd_spec (filter vd_control_flow vs)"
    by (rule load_xml_set_parts [OF assms(1)])
  have sub: "set (dedup xs) \<subseteq> set xs" for xs
    using subseq_keep_last [of xs] by (auto simp: dedup_keep_last elim: list_emb_set)
  have judged: "\<exists>s \<in> set specs. judge conf categories s = Inr v" if "v \<in> set vs" for v
    using list_all2_preimage [OF p(2) that] .
  have kind: "is_control_flow (vd_spec v) \<longleftrightarrow> vd_control_flow v" "vd_skips v = 0 \<Longrightarrow> \<not> vd_control_flow v"
    if "v \<in> set vs" "vd_skips v = 0 \<or> vd_control_flow v" for v
  proof -
    from judged [OF that(1)] obtain s where "judge conf categories s = Inr v" by blast
    then have "(is_control_flow (vd_spec v) \<longleftrightarrow> vd_control_flow v) \<and> (vd_skips v = 0 \<longrightarrow> \<not> vd_control_flow v)"
      by (rule judge_cases) (use that p(3) in \<open>auto split: if_splits\<close>)
    then show "is_control_flow (vd_spec v) \<longleftrightarrow> vd_control_flow v" "vd_skips v = 0 \<Longrightarrow> \<not> vd_control_flow v"
      by simp_all
  qed
  have al: "i \<in> set (xt_all st) \<longrightarrow> \<not> is_control_flow i" using sub p(4) kind by fastforce
  have cf: "i \<in> set (xt_control_flow st) \<longrightarrow> is_control_flow i" using p(5) kind by fastforce
  from assms(2) sub p(4,5) obtain v where v: "v \<in> set vs" "i = vd_spec v" "vd_skips v = 0 \<or> vd_control_flow v"
    unfolding offered_def by fastforce
  from judged [OF v(1)] obtain s where s: "s \<in> set specs" "judge conf categories s = Inr v" by blast
  from list_all2_preimage [OF p(1) s(1)] obtain node where n: "node \<in> set root" "read_xml_instruction node = Inr s" by blast
  from s(2) show thesis
  proof (cases rule: judge_cases)
    case unsupported
    with v(3) show thesis by simp
  next
    case empty
    with v(1,3) p(3) show thesis by (auto split: if_splits)
  next
    case (reduced ops)
    with that [OF n reduced(1,2) _ al cf] v(2) show thesis by simp
  qed
qed

text \<open>The implicit operands: a blocked address or register makes the instruction unsupported, RIP included.\<close>

lemma xml_implicit_supported_registers:
  assumes "xml_implicit_supported conf ops = Inr True" and "op \<in> set ops" and "os_type op \<in> {OT_MEM, OT_REG}"
  shows "os_values op \<noteq> [] \<and> hd (os_values op) \<notin> set (lc_gpr_blocklist conf)"
  using assms(1,2)
proof (induction ops)
  case (Cons o' ops)
  have "xml_implicit_supported conf ops = Inr True \<and>
      (os_type o' \<in> {OT_MEM, OT_REG} \<longrightarrow> os_values o' \<noteq> [] \<and> hd (os_values o') \<notin> set (lc_gpr_blocklist conf))"
    using Cons.prems(1) by (auto simp: res_bind_Inr_iff py_nth_def hd_conv_nth split: if_splits)
  with Cons assms(3) show ?case by auto
qed simp

text \<open>
  The loaded set respects the configuration when test cases are generated: the instructions
  it offers come from supported elements of the description, none of them has rounding, exception-suppression or
  zeroing, no name, address or implicit register is blocked, the register operands keep values that are not
  blocked (or the low byte of one), and the control-flow instructions are exactly those of the second list.
\<close>

lemma loaded_xml_set_respects_blocklists:
  assumes "load_xml_set conf categories root = Inr st" and "\<not> lc_no_generation conf"
    and "\<And>xs. set (lc_order conf xs) = set xs" and "i \<in> set (offered st)"
  shows "(is_control_flow i \<longleftrightarrow> i \<in> set (xt_control_flow st)) \<and>
    (categories = [] \<or> is_category i \<in> set categories) \<and> is_name i \<notin> set (lc_instruction_blocklist conf) \<and>
    (\<exists>node \<in> set root. \<exists>s. read_xml_instruction node = Inr s \<and> \<not> xs_sae s \<and> \<not> xs_rnsae s \<and> \<not> xs_zeroing s \<and>
      is_name i = is_name (xs_spec s) \<and>
      (\<forall>op \<in> set (is_operands (xs_spec s)). \<not> blocked_address conf op) \<and>
      (\<forall>op \<in> set (is_implicit_operands i). os_type op \<in> {OT_MEM, OT_REG} \<longrightarrow>
         hd (os_values op) \<notin> set (lc_gpr_blocklist conf)) \<and>
      list_all2 (reduced_operand conf) (is_operands (xs_spec s)) (is_operands i))"
proof -
  obtain node s ops where n: "node \<in> set root" "read_xml_instruction node = Inr s"
    and sup: "xml_is_supported conf categories s = Inr True"
    and ops: "reduce_operands conf (is_operands (xs_spec s)) = Inr (Some ops)"
    and i: "i = (xs_spec s)\<lparr>is_operands := ops\<rparr>"
    and cf: "i \<in> set (xt_all st) \<longrightarrow> \<not> is_control_flow i" "i \<in> set (xt_control_flow st) \<longrightarrow> is_control_flow i"
    by (rule offered_judged [OF assms(1,4)])
  from assms(4) cf have "is_control_flow i \<longleftrightarrow> i \<in> set (xt_control_flow st)" by (auto simp: offered_def)
  moreover have red: "list_all2 (reduced_operand conf) (is_operands (xs_spec s)) (is_operands i)"
    using reduce_operands_reduced [OF ops assms(3)] i by simp
  moreover from sup assms(2) i have "categories = [] \<or> is_category i \<in> set categories"
    "is_name i \<notin> set (lc_instruction_blocklist conf)" "\<not> xs_sae s" "\<not> xs_rnsae s" "\<not> xs_zeroing s"
    "\<forall>op \<in> set (is_operands (xs_spec s)). \<not> blocked_address conf op" "is_name i = is_name (xs_spec s)"
    and imp: "xml_implicit_supported conf (is_implicit_operands i) = Inr True"
    by (auto simp: xml_is_supported_def list_ex_iff split: if_splits)
  moreover have "\<forall>op \<in> set (is_implicit_operands i). os_type op \<in> {OT_MEM, OT_REG} \<longrightarrow>
      hd (os_values op) \<notin> set (lc_gpr_blocklist conf)"
    using xml_implicit_supported_registers [OF imp] by blast
  ultimately show ?thesis using n by blast
qed

text \<open>
  The attribute \<open>control_flow\<close> of the description is a text and is never empty, also for instructions that are
  not control flow ("0"). Whenever loading returns, the list of ordinary instructions is then empty and
  the set offers neither loads nor stores: every supported instruction counts as a branch.
\<close>

lemma textual_control_flow_empties_set:
  assumes "load_xml_set conf categories root = Inr st"
    and "\<forall>node \<in> set root. map_of (xi_attrib node) ''control_flow'' \<noteq> Some []"
  shows "xt_all st = [] \<and> \<not> xt_has_reads st \<and> \<not> xt_has_writes st"
proof -
  obtain specs vs where p: "list_all2 (\<lambda>node s. read_xml_instruction node = Inr s) root specs"
    "list_all2 (\<lambda>s v. judge conf categories s = Inr v) specs vs" "\<forall>v \<in> set vs. vd_skips v \<le> 1"
    "xt_all st = dedup (map vd_spec (filter (\<lambda>v. vd_skips v = 0) vs))"
    "xt_has_reads st \<longleftrightarrow> (\<exists>i \<in> vd_spec ` {v \<in> set vs. vd_skips v = 0 \<or> vd_control_flow v}.
      \<not> is_control_flow i \<and> is_has_mem_operand i \<and> \<not> is_has_write i)"
    "xt_has_writes st \<longleftrightarrow> (\<exists>i \<in> vd_spec ` {v \<in> set vs. vd_skips v = 0 \<or> vd_control_flow v}.
      \<not> is_control_flow i \<and> is_has_mem_operand i \<and> is_has_write i)"
    by (rule load_xml_set_parts [OF assms(1)])
  have cf: "vd_skips v = 1 \<and> (vd_control_flow v \<longrightarrow> is_control_flow (vd_spec v))" if "v \<in> set vs" for v
  proof -
    from list_all2_preimage [OF p(2) that] obtain s where s: "s \<in> set specs" "judge conf categories s = Inr v" by blast
    from list_all2_preimage [OF p(1) s(1)] obtain node where "node \<in> set root" "read_xml_instruction node = Inr s" by blast
    with read_xml_instruction_attributes(3) assms(2) have "is_control_flow (xs_spec s)" by blast
    with s(2) that p(3) show ?thesis by (elim judge_cases) (auto split: if_splits)
  qed
  have "filter (\<lambda>v. vd_skips v = 0) vs = []" using cf by (auto simp: filter_empty_conv)
  then have "xt_all st = []" using p(4) by (simp add: dedup_def)
  moreover have "\<forall>i \<in> vd_spec ` {v \<in> set vs. vd_skips v = 0 \<or> vd_control_flow v}. is_control_flow i"
    using cf by auto
  ultimately show ?thesis using p(5,6) by blast
qed

definition ex_xml_inc :: "string \<Rightarrow> string \<Rightarrow> xml_instruction" where
  "ex_xml_inc control_flow regs = \<lparr>xi_attrib = [(''asm'', ''INC''), (''category'', ''BINARY''), (''control_flow'', control_flow)],
     xi_ops = [\<lparr>xo_attrib = [(''type'', ''reg''), (''width'', ''64''), (''r'', ''1''), (''w'', ''1'')], xo_text = regs\<rparr>]\<rparr>"

text \<open>An increment marked "0" lands among the branches, and a blocked register there makes loading raise.\<close>

lemma textual_control_flow_example:
  "map_sum id (\<lambda>st. (length (xt_all st), map is_name (xt_control_flow st), xt_has_conditional_branch st))
     (load_xml_set ex_loader_conf [] [ex_xml_inc ''0'' ''RAX,R14'']) = Inr (0, [''INC''], True)"
  "map_sum id (\<lambda>st. (map is_name (xt_all st), length (xt_control_flow st), xt_has_conditional_branch st))
     (load_xml_set ex_loader_conf [] [ex_xml_inc [] ''RAX,R14'']) = Inr ([''INC''], 0, False)"
  "load_xml_set ex_loader_conf [] [ex_xml_inc ''0'' ''R14''] = Inl ValueError"
  by code_simp+

end
