(* ===== verification/Cleanupspec.thy ===== *)
theory Cleanupspec
  imports Config Taint
begin

text \<open>
  The classification of CleanupSpec violations in \<^verbatim>\<open>src/src/cleanupspec_analysis.py\<close>: from the protocol traces and
  the final cache tags of the two runs of a violation the script prints its cause. Reading the four
  files is I/O; the model takes their texts. SHA-256 is a parameter.
  The lemmas show that the tests for a cause do not depend on which of the two runs is called the
  reference, that every violation with readable tags gets a cause, and what an empty cache does.
\<close>

subsection \<open>Causes\<close>

definition split_not_cleaned :: string where
  "split_not_cleaned = ''Split Requests Not Cleaned''"

definition split_and_store :: string where
  "split_and_store = ''Combination of \"Split Requests Not Cleaned\" and \"Speculative Store Not Cleaned\"''"

definition non_speculative :: string where
  "non_speculative = ''Difference in non-speculative requests?''"

definition manual_decisions :: "(string, string) dict" where
  "manual_decisions =
    [(''06ad825183d60a1f3b6d94a086cf8406f55f7323a3f6672170a194ead0320f15'', split_not_cleaned),
     (''77e729a612e2cdd214126ae5ffdf19192f496664245db9c3e06b14cfbbaf3f1f'', split_not_cleaned),
     (''328041e7945d653439f67f4e438734b47c40005d540bab010b397ab59553fb2a'', split_not_cleaned),
     (''14467da3a922adee06fea40fca66295da5d9a7af6346030bff3267772e5c7d49'', split_not_cleaned),
     (''b582f2b079cb3f69a4e163e7271ef44eb42a2b9cbd10f4fdc9ea9b0b3b6f20fd'', split_not_cleaned),
     (''b2f681036daeaac5c527b73308e6a1fbdacc9e1f0fafee1bff923bb59ffccb6a'', split_not_cleaned),
     (''e8335b1fa2741abf1043a90702ef66e9d71e3420a75e58d2ea0e23d3af49b801'', split_not_cleaned),
     (''174ad38a231d8e2563b05f3a0da09bab2c2ae516e4832eee55d855a8ed13f37a'', split_not_cleaned),
     (''eec66d92a5fb8aeb452c183f689048fdcd2afc7b7b620af1926e9a85a4d5abba'', split_not_cleaned),
     (''352f78c328b3634e211ee89a5ac51cba8dabb80a4c8e7e883772a2e4143cfa5d'', split_not_cleaned),
     (''b3072cde55a2b60cbdaaeda1072d7c5b52fa2a96de0bda820a0c5305a80a0f25'', split_and_store),
     (''d263b79b872c327d1ce0262ff9e5f5d79e2660cd5fd6da29b2c0680de8931de4'', split_and_store),
     (''a1818b85643b77f8366185e23d4b474662f3c1cd5ce650af4dea282ac497bd57'', split_and_store),
     (''8435e7781cc3a01b06cc02606fa0e7cf42e5f73737012a3c08d7c74ee229ed7d'', split_and_store),
     (''ce91b1f3e804abeb1f2227484451b402f97084d9dbc20121d3171b474da365be'', split_and_store),
     (''5bf2cf324d5ebefe612187726608134206b1aef57f5cb7058b345da9c7e96d5f'', non_speculative),
     (''4e9eb0bca1987cfcbd37840ab586f21f814ba04a0b0210e435d91fc908792b0f'', non_speculative),
     (''1bdf929c68409c189e3f408c0d082ea468d92ef6c2288d4542f9517801357668'', non_speculative),
     (''bf4813e51c01900ca262f7e405416326bfb13987eed50e5a7c7ae943820015f0'', non_speculative),
     (''ed468cf794d532fa443a41be63065b7a61adcac6f49e362c7543c1d63ac8bd90'', non_speculative)]"

subsection \<open>Cache tags\<close>

text \<open>The header of a cache in the tags file; \<open>tags.index(header)\<close> raises when it is missing.\<close>

definition cache_header :: "string \<Rightarrow> string" where
  "cache_header which = ''[system.ruby.l1_cntrl0.L1'' @ which @ ''cache]''"

fun py_find :: "'a \<Rightarrow> 'a list \<Rightarrow> nat res" where
  "py_find x [] = Inl ValueError"
| "py_find x (y # ys) = (if x = y then Inr 0 else res_bind (py_find x ys) (\<lambda>i. Inr (Suc i)))"

definition get_cache :: "string list \<Rightarrow> string \<Rightarrow> int set res" where
  "get_cache tags which =
     res_bind (py_find (cache_header which) tags) (\<lambda>i.
     res_bind (py_nth tags (i + 1)) (\<lambda>addresses.
     res_bind (py_assert (starts_with addresses ''addresses='')) (\<lambda>_.
     res_bind (py_nth (split_at (CHR ''='') addresses) 1) (\<lambda>text.
     res_bind (res_map py_int (split_at (CHR '' '') text)) (\<lambda>xs. Inr (set xs))))))"

subsection \<open>The tests\<close>

text \<open>\<open>f'line 0x{tag:x}] {kind}' in line\<close>\<close>

definition format_x :: "int \<Rightarrow> string" where
  "format_x n = (if n < 0 then CHR ''-'' # hex_digits (nat (- n)) else hex_digits (nat n))"

definition mentions :: "string \<Rightarrow> int \<Rightarrow> string \<Rightarrow> bool" where
  "mentions kind tag line = contains line (''line 0x'' @ format_x tag @ ''] '' @ kind)"

text \<open>The state of the script after the tags have been read.\<close>

record evidence =
  ev_reference_trace :: "string list"
  ev_primer_trace :: "string list"
  ev_reference_minus_primer :: "int set"
  ev_primer_minus_reference :: "int set"

definition stores :: "string list \<Rightarrow> int \<Rightarrow> string list" where
  "stores trace tag = filter (mentions ''ST'' tag) trace"

definition is_rwm_bug :: "evidence \<Rightarrow> bool" where
  "is_rwm_bug ev \<longleftrightarrow>
     (\<forall>primer_extra \<in> ev_primer_minus_reference ev.
        \<not> (length (stores (ev_primer_trace ev) primer_extra) = 0 \<or> length (stores (ev_reference_trace ev) primer_extra) \<noteq> 0)) \<and>
     (\<forall>reference_extra \<in> ev_reference_minus_primer ev.
        \<not> (length (stores (ev_reference_trace ev) reference_extra) = 0 \<or> length (stores (ev_primer_trace ev) reference_extra) \<noteq> 0))"

definition split_diff :: "int set \<Rightarrow> bool" where
  "split_diff diff \<longleftrightarrow> card diff mod 2 = 0 \<and>
     (\<forall>tag \<in> diff. list_ex (\<lambda>neighbour. neighbour \<in> diff) [tag - 0x40, tag + 0x40])"

definition is_split_req :: "evidence \<Rightarrow> bool" where
  "is_split_req ev \<longleftrightarrow> list_all split_diff [ev_reference_minus_primer ev, ev_primer_minus_reference ev]"

definition is_too_much_cleaning_with :: "int \<Rightarrow> string list \<Rightarrow> string list \<Rightarrow> bool" where
  "is_too_much_cleaning_with extra_tag trace1 trace2 \<longleftrightarrow>
     list_ex (mentions ''LD'' extra_tag) trace2 \<and> list_ex (mentions ''CLEANUP'' extra_tag) trace2"

text \<open>\<open>list(s)[0]\<close> of a set with one element.\<close>

definition only_element :: "int set \<Rightarrow> int" where
  "only_element s = Min s"

definition is_too_much_cleaning :: "evidence \<Rightarrow> bool" where
  "is_too_much_cleaning ev =
     (if card (ev_reference_minus_primer ev) + card (ev_primer_minus_reference ev) \<noteq> 1 then False
      else if card (ev_reference_minus_primer ev) = 1 then
        is_too_much_cleaning_with (only_element (ev_reference_minus_primer ev)) (ev_reference_trace ev) (ev_primer_trace ev)
      else if card (ev_primer_minus_reference ev) = 1 then
        is_too_much_cleaning_with (only_element (ev_primer_minus_reference ev)) (ev_primer_trace ev) (ev_reference_trace ev)
      else False)"

subsection \<open>The script\<close>

definition find_cause :: "(string \<Rightarrow> string) \<Rightarrow> evidence \<Rightarrow> string \<Rightarrow> string" where
  "find_cause sha256_hex ev reference_tags_raw =
     (if is_rwm_bug ev then ''Speculative Store Not Cleaned''
      else if is_split_req ev then ''Split Requests Not Cleaned''
      else if is_too_much_cleaning ev then ''Too Much Cleaning''
      else dict_default manual_decisions ''Other'' (sha256_hex reference_tags_raw))"

definition nl :: char where
  "nl = CHR 0x0A"

definition analyse_violation ::
    "(string \<Rightarrow> string) \<Rightarrow> string \<Rightarrow> string \<Rightarrow> string \<Rightarrow> string \<Rightarrow> string res" where
  "analyse_violation sha256_hex protocol_reference protocol_primer cache_tags_1 cache_tags_2 =
     (let reference_trace = split_at nl protocol_reference;
          primer_trace = split_at nl protocol_primer;
          reference_tags = split_at nl cache_tags_1;
          primer_tags = split_at nl cache_tags_2
      in
     res_bind (get_cache reference_tags ''I'') (\<lambda>reference_icache.
     res_bind (get_cache reference_tags ''D'') (\<lambda>reference_dcache.
     res_bind (get_cache primer_tags ''I'') (\<lambda>primer_icache.
     res_bind (get_cache primer_tags ''D'') (\<lambda>primer_dcache.
     if reference_dcache = primer_dcache then
       res_bind (py_assert (reference_icache \<noteq> primer_icache)) (\<lambda>_.
       Inr ''difference in ICache caused violation - UnXpec variant?'')
     else if reference_icache \<noteq> primer_icache then
       Inr ''differences in both ICache and DCache - combination of multiple vulnerabilities?''
     else
       Inr (find_cause sha256_hex
         \<lparr>ev_reference_trace = reference_trace, ev_primer_trace = primer_trace,
          ev_reference_minus_primer = reference_dcache - primer_dcache,
          ev_primer_minus_reference = primer_dcache - reference_dcache\<rparr> cache_tags_1))))))"

subsection \<open>The tests do not depend on the roles of the runs\<close>

definition swap_runs :: "evidence \<Rightarrow> evidence" where
  "swap_runs ev = \<lparr>ev_reference_trace = ev_primer_trace ev, ev_primer_trace = ev_reference_trace ev,
     ev_reference_minus_primer = ev_primer_minus_reference ev, ev_primer_minus_reference = ev_reference_minus_primer ev\<rparr>"

lemma is_rwm_bug_swap: "is_rwm_bug (swap_runs ev) = is_rwm_bug ev"
  by (auto simp: is_rwm_bug_def swap_runs_def)

lemma is_split_req_swap: "is_split_req (swap_runs ev) = is_split_req ev"
  by (auto simp: is_split_req_def swap_runs_def)

lemma is_too_much_cleaning_swap: "is_too_much_cleaning (swap_runs ev) = is_too_much_cleaning ev"
  by (simp add: is_too_much_cleaning_def is_too_much_cleaning_with_def swap_runs_def add.commute)

lemmas tests_swap = is_rwm_bug_swap is_split_req_swap is_too_much_cleaning_swap

text \<open>
  Only the manual decisions look at the tags of the reference run alone: when both tag files have the
  same decision, exchanging the two runs gives the same cause.
\<close>

lemma analyse_violation_swap:
  assumes "dict_default manual_decisions ''Other'' (h cache_tags_1) = dict_default manual_decisions ''Other'' (h cache_tags_2)"
    and "analyse_violation h reference primer cache_tags_1 cache_tags_2 = Inr cause"
  shows "analyse_violation h primer reference cache_tags_2 cache_tags_1 = Inr cause"
proof -
  have swap: "find_cause h (swap_runs ev) cache_tags_2 = find_cause h ev cache_tags_1" for ev
    unfolding find_cause_def tests_swap assms(1) ..
  from assms(2) obtain i1 d1 i2 d2 where g: "get_cache (split_at nl cache_tags_1) ''I'' = Inr i1"
    "get_cache (split_at nl cache_tags_1) ''D'' = Inr d1" "get_cache (split_at nl cache_tags_2) ''I'' = Inr i2"
    "get_cache (split_at nl cache_tags_2) ''D'' = Inr d2"
    by (auto simp: analyse_violation_def Let_def res_bind_Inr_iff)
  show ?thesis
  proof (cases "d1 = d2 \<or> i1 \<noteq> i2")
    case True
    with assms(2) g show ?thesis by (auto simp: analyse_violation_def Let_def py_assert_def split: if_splits)
  next
    case False
    with assms(2) g show ?thesis
      using swap [of "\<lparr>ev_reference_trace = split_at nl reference, ev_primer_trace = split_at nl primer,
        ev_reference_minus_primer = d1 - d2, ev_primer_minus_reference = d2 - d1\<rparr>"]
      by (auto simp: analyse_violation_def Let_def swap_runs_def)
  qed
qed

text \<open>With readable tags, a cause is found exactly when the tags differ at all.\<close>

lemma analyse_violation_returns_iff:
  assumes "get_cache (split_at nl t1) ''I'' = Inr i1" "get_cache (split_at nl t1) ''D'' = Inr d1"
    and "get_cache (split_at nl t2) ''I'' = Inr i2" "get_cache (split_at nl t2) ''D'' = Inr d2"
  shows "(\<exists>cause. analyse_violation h reference primer t1 t2 = Inr cause) \<longleftrightarrow> (i1, d1) \<noteq> (i2, d2)"
    and "analyse_violation h reference primer t1 t2 = Inl e \<Longrightarrow> e = AssertionError"
  using assms by (auto simp: analyse_violation_def Let_def py_assert_def split: if_splits)

text \<open>
  A split request shows as pairs of neighbouring lines; one extra line on one side is
  never a split request, so that it can only be a store or too much cleaning.
\<close>

lemma split_req_not_single:
  assumes "is_split_req ev"
  shows "card (ev_reference_minus_primer ev) + card (ev_primer_minus_reference ev) \<noteq> 1"
proof -
  from assms have "even (card (ev_reference_minus_primer ev))" "even (card (ev_primer_minus_reference ev))"
    by (simp_all add: is_split_req_def split_diff_def even_iff_mod_2_eq_zero)
  then have "even (card (ev_reference_minus_primer ev) + card (ev_primer_minus_reference ev))" by simp
  then show ?thesis by (metis odd_one)
qed

lemma split_and_cleaning_exclusive: "is_split_req ev \<Longrightarrow> \<not> is_too_much_cleaning ev"
  using split_req_not_single by (auto simp: is_too_much_cleaning_def)

subsection \<open>Reading the tags\<close>

lemma split_at_join:
  assumes "ws \<noteq> []" and "\<forall>w \<in> set ws. d \<notin> set w"
  shows "split_at d (join [d] ws) = ws"
proof -
  have "split_at d (w @ d # s) = w # split_at d s" if "d \<notin> set w" for w s
    using that by (induction w) auto
  with assms show ?thesis by (induction "[d]" ws rule: join.induct) (auto simp: split_at_absent)
qed

text \<open>A tags file whose cache holds at least one line is read back as the set of its tags.\<close>

lemma get_cache_reads_tags:
  assumes "tags \<noteq> []" and "cache_header which \<notin> set before"
  shows "get_cache (before @ cache_header which # (''addresses='' @ join '' '' (map nat_str tags)) # rest) which =
    Inr (int ` set tags)"
proof -
  let ?a = "join '' '' (map nat_str tags)"
  have find: "py_find (cache_header which) (before @ cache_header which # xs) = Inr (length before)" for xs
    using assms(2) by (induction before) auto
  have chars: "c \<in> set ?a \<Longrightarrow> c = CHR '' '' \<or> (\<exists>n. c \<in> set (nat_str n))" for c
    by (induction tags rule: induct_list012) auto
  have no_eq: "CHR ''='' \<notin> set (nat_str n)" "CHR '' '' \<notin> set (nat_str n)" for n
    using nat_str_digits [of "CHR ''=''" n] nat_str_digits [of "CHR '' ''" n] by auto
  with chars [of "CHR ''=''"] have "CHR ''='' \<notin> set ?a" by auto
  then have eq: "split_at (CHR ''='') (''addresses='' @ ?a) = [''addresses'', ?a]"
    by (simp add: split_at_absent)
  have sp: "split_at (CHR '' '') ?a = map nat_str tags"
    using split_at_join [of "map nat_str tags" "CHR '' ''"] assms(1) no_eq by simp
  have "res_map py_int (map nat_str tags) = Inr (map int tags)"
    by (induction tags) (simp_all add: py_int_nat_str)
  with sp show ?thesis
    unfolding get_cache_def find
    by (simp add: py_nth_def nth_append py_assert_def eq del: split_at.simps append.simps)
       (simp add: py_nth_def py_assert_def)
qed

text \<open>An empty cache is written with no tags, which the script cannot read.\<close>

lemma get_cache_empty:
  assumes "cache_header which \<notin> set before"
  shows "get_cache (before @ cache_header which # ''addresses='' # rest) which = Inl ValueError"
proof -
  have find: "py_find (cache_header which) (before @ cache_header which # xs) = Inr (length before)" for xs
    using assms by (induction before) auto
  show ?thesis unfolding get_cache_def find
    by (simp add: py_nth_def nth_append py_assert_def py_int_def strip_def)
qed

definition ex_evidence :: evidence where
  "ex_evidence = \<lparr>ev_reference_trace = [''[0x3990, line 0x3980] LD''],
     ev_primer_trace = [''[0x3990, line 0x3980] LD'', ''[0x3990, line 0x3980] CLEANUP''],
     ev_reference_minus_primer = {0x3980}, ev_primer_minus_reference = {}\<rparr>"

lemma ex_evidence_tests:
  "\<not> is_rwm_bug ex_evidence" "\<not> is_split_req ex_evidence" "is_too_much_cleaning ex_evidence"
proof -
  show "\<not> is_split_req ex_evidence" by (simp add: is_split_req_def split_diff_def ex_evidence_def)
  have h: "hex_digits 0x3980 = ''3980''" by (simp add: hex_digits.simps hex_digit_def char_of_def bit_0)
  then show "\<not> is_rwm_bug ex_evidence"
    by (simp add: is_rwm_bug_def stores_def ex_evidence_def mentions_def format_x_def)
  from h show "is_too_much_cleaning ex_evidence"
    by (simp add: is_too_much_cleaning_def is_too_much_cleaning_with_def ex_evidence_def only_element_def mentions_def format_x_def)
qed

lemma find_cause_example:
  "find_cause h ex_evidence raw = ''Too Much Cleaning''"
  "find_cause h (swap_runs ex_evidence) raw = ''Too Much Cleaning''"
  by (simp_all add: find_cause_def tests_swap ex_evidence_tests)

end
