(* ===== verification/Event_Log.thy ===== *)
theory Event_Log
  imports Raw_Trace
begin

text \<open>
  The first half of \<^verbatim>\<open>src/src/analyse_ipc_violation.py\<close>: what the script collects from the two runs of a
  violation (cache tags and gem5 logs), the memory accesses, squashes and branch predictions it finds
  in a log, and the accesses it marks as the cause of a difference in the cache tags. Starting the
  two runs, the command line and objdump are outside the model, and so are the warnings that the
  parser prints; reading TOML is a parameter. Regular expressions are matched by a small
  backtracking matcher for the patterns the script uses; their classes \<^verbatim>\<open>\s\<close> and \<^verbatim>\<open>\d\<close> are the ASCII ones.
\<close>

subsection \<open>Regular expressions\<close>

text \<open>
  A pattern is a list of pieces: a literal text, a greedy run of at least \<open>n\<close> characters of a class
  (a captured group or not), one character of a class, a group that is one of several texts, and a group
  that is a literal followed by a run.
\<close>

datatype piece =
    Lit string
  | One "char \<Rightarrow> bool"
  | Run "char \<Rightarrow> bool" nat
  | Group "char \<Rightarrow> bool" nat
  | OneOf "string list"
  | LitGroup string "char \<Rightarrow> bool" nat

fun first_some :: "('a \<Rightarrow> 'b option) \<Rightarrow> 'a list \<Rightarrow> 'b option" where
  "first_some f [] = None"
| "first_some f (x # xs) = (case f x of Some y \<Rightarrow> Some y | None \<Rightarrow> first_some f xs)"

text \<open>The lengths a greedy run tries, the longest first.\<close>

definition run_lengths :: "(char \<Rightarrow> bool) \<Rightarrow> nat \<Rightarrow> string \<Rightarrow> nat list" where
  "run_lengths p n s = rev [n..<Suc (length (takeWhile p s))]"

definition with_group :: "string \<Rightarrow> (string list \<times> string) option \<Rightarrow> (string list \<times> string) option" where
  "with_group g = map_option (apfst ((#) g))"

text \<open>The groups of a match at the beginning of the text, and the text behind it.\<close>

fun match_pieces :: "piece list \<Rightarrow> string \<Rightarrow> (string list \<times> string) option" where
  "match_pieces [] s = Some ([], s)"
| "match_pieces (Lit l # ps) s = (if starts_with s l then match_pieces ps (drop (length l) s) else None)"
| "match_pieces (One p # ps) s = (case s of c # t \<Rightarrow> if p c then match_pieces ps t else None | [] \<Rightarrow> None)"
| "match_pieces (Run p n # ps) s = first_some (\<lambda>k. match_pieces ps (drop k s)) (run_lengths p n s)"
| "match_pieces (Group p n # ps) s =
     first_some (\<lambda>k. with_group (take k s) (match_pieces ps (drop k s))) (run_lengths p n s)"
| "match_pieces (OneOf ls # ps) s =
     first_some (\<lambda>l. if starts_with s l then with_group l (match_pieces ps (drop (length l) s)) else None) ls"
| "match_pieces (LitGroup l p n # ps) s =
     (if starts_with s l then
        (let t = drop (length l) s
         in first_some (\<lambda>k. with_group (l @ take k t) (match_pieces ps (drop k t))) (run_lengths p n t))
      else None)"

text \<open>
  \<open>re.findall(pattern, s, flags=re.MULTILINE)\<close>: the matches from left to right without overlap, each with
  its groups and its text; \<open>anchored\<close> says whether the pattern begins with \<^verbatim>\<open>^\<close>, \<open>bol\<close> whether \<open>s\<close> is at
  the beginning of a line. No pattern of the script matches the empty text.
\<close>

function find_all :: "bool \<Rightarrow> piece list \<Rightarrow> bool \<Rightarrow> string \<Rightarrow> (string list \<times> string) list" where
  "find_all anchored ps bol [] = []"
| "find_all anchored ps bol (c # s) =
     (case (if anchored \<and> \<not> bol then None else match_pieces ps (c # s)) of
        Some (groups, rest) \<Rightarrow>
          (if length rest < length (c # s) then
             (let m = take (length (c # s) - length rest) (c # s)
              in (groups, m) # find_all anchored ps (last m = CHR 0x0A) rest)
           else find_all anchored ps (c = CHR 0x0A) s)
      | None \<Rightarrow> find_all anchored ps (c = CHR 0x0A) s)"
  by pat_completeness auto

termination
  by (relation "measure (\<lambda>(anchored, ps, bol, s). length s)") auto

definition findall :: "bool \<Rightarrow> piece list \<Rightarrow> string \<Rightarrow> string list list" where
  "findall anchored ps s = map fst (find_all anchored ps True s)"

definition not_nl :: "char \<Rightarrow> bool" where
  "not_nl c \<longleftrightarrow> c \<noteq> CHR 0x0A"

text \<open>\<^verbatim>\<open>[0-9a-f]\<close>\<close>

definition lower_hex :: "char \<Rightarrow> bool" where
  "lower_hex c \<longleftrightarrow> is_digit c \<or> (97 \<le> (of_char c :: nat) \<and> (of_char c :: nat) \<le> 102)"

text \<open>The groups \<^verbatim>\<open>([0-9]+)\<close>, \<^verbatim>\<open>(0x[0-9a-f]+)\<close>, and the beginning \<^verbatim>\<open>^([0-9]+):.*\<close> of most patterns.\<close>

definition digits_group :: piece where
  "digits_group = Group is_digit 1"

definition hex_group :: piece where
  "hex_group = LitGroup ''0x'' lower_hex 1"

definition tick_start :: "piece list" where
  "tick_start = [digits_group, Lit '':'', Run not_nl 0]"

definition request_pieces :: "piece list" where
  "request_pieces = [hex_group, Lit '', SQ: [sn:'', digits_group, Lit ''], Paddr '', hex_group, Lit '', Vaddr '', hex_group]"

subsection \<open>Numbers\<close>

text \<open>\<open>int(s, 0)\<close>: hexadecimal with a prefix; otherwise decimal, where a leading zero is an error unless all digits are zero.\<close>

definition int_base0 :: "string \<Rightarrow> nat res" where
  "int_base0 s =
     (if starts_with s ''0x'' then int16 s
      else if s = [] then Inl ValueError
      else if hd s = CHR ''0'' \<and> \<not> list_all ((=) (CHR ''0'')) s then Inl ValueError
      else Inr (read_decimal s))"

subsection \<open>Events\<close>

record access =
  ac_tick :: nat
  ac_pc :: nat
  ac_is_store :: bool
  ac_is_violation :: bool
  ac_data :: string
  ac_squashed_at :: "nat option"
  ac_paddr :: nat
  ac_vaddr :: nat
  ac_seq_num :: nat

datatype event =
    Access access
  | SquashMemoryDependence (sm_tick: nat) (sm_pc: nat) (sm_addr: nat) (sm_pc_other: nat)
  | SquashBranch nat nat
  | BranchPrediction nat nat nat

fun ev_tick :: "event \<Rightarrow> nat" where
  "ev_tick (Access a) = ac_tick a"
| "ev_tick (SquashMemoryDependence t pc addr other) = t"
| "ev_tick (SquashBranch t pc) = t"
| "ev_tick (BranchPrediction t pc target) = t"

fun ev_pc :: "event \<Rightarrow> nat" where
  "ev_pc (Access a) = ac_pc a"
| "ev_pc (SquashMemoryDependence t pc addr other) = pc"
| "ev_pc (SquashBranch t pc) = pc"
| "ev_pc (BranchPrediction t pc target) = pc"

definition code_addr :: nat where
  "code_addr = 0x402000"

definition code_size :: nat where
  "code_size = 512"

definition in_orchestration_code :: "nat \<Rightarrow> bool" where
  "in_orchestration_code pc \<longleftrightarrow> \<not> (code_addr \<le> pc \<and> pc < code_addr + code_size)"

type_synonym accesses = "(nat, access) dict"

text \<open>A new \<open>Access\<close> from the groups of a load (\<open>int(load[2])\<close>) or a store (\<open>int(store[2], 0)\<close>).\<close>

definition new_access :: "bool \<Rightarrow> string list \<Rightarrow> access res" where
  "new_access is_store g =
     res_bind (int_base0 (g ! 1)) (\<lambda>pc.
     res_bind (if is_store then int_base0 (g ! 2) else Inr (read_decimal (g ! 2))) (\<lambda>seq_num.
     res_bind (int_base0 (g ! 3)) (\<lambda>paddr.
     res_bind (int_base0 (g ! 4)) (\<lambda>vaddr.
     Inr \<lparr>ac_tick = read_decimal (g ! 0), ac_pc = pc, ac_is_store = is_store, ac_is_violation = False,
       ac_data = [], ac_squashed_at = None, ac_paddr = paddr, ac_vaddr = vaddr, ac_seq_num = seq_num\<rparr>))))"

definition add_access :: "bool \<Rightarrow> string list \<Rightarrow> accesses \<Rightarrow> accesses res" where
  "add_access is_store g accesses =
     res_bind (new_access is_store g) (\<lambda>access. Inr (AList.update (ac_seq_num access) access accesses))"

text \<open>A squash sets \<open>squashed_at\<close> whether or not its other fields agree with the access; disagreements are only printed.\<close>

definition squash_access :: "string list \<Rightarrow> accesses \<Rightarrow> accesses res" where
  "squash_access g accesses =
     res_bind (int_base0 (g ! 2)) (\<lambda>squash_pc.
     res_bind (int_base0 (g ! 3)) (\<lambda>seq_num.
     res_bind (int_base0 (g ! 4)) (\<lambda>squash_paddr.
     res_bind (int_base0 (g ! 5)) (\<lambda>squash_vaddr.
     Inr (case map_of accesses seq_num of
            None \<Rightarrow> accesses
          | Some access \<Rightarrow> AList.update seq_num (access\<lparr>ac_squashed_at := Some (read_decimal (g ! 0))\<rparr>) accesses)))))"

definition set_data :: "string list \<Rightarrow> accesses \<Rightarrow> accesses" where
  "set_data g accesses =
     (let seq_num = read_decimal (g ! 0)
      in case map_of accesses seq_num of
           None \<Rightarrow> accesses
         | Some access \<Rightarrow> AList.update seq_num (access\<lparr>ac_data := g ! 1\<rparr>) accesses)"

definition dependence_event :: "accesses \<Rightarrow> string list \<Rightarrow> event list res" where
  "dependence_event accesses g =
     (let tick = read_decimal (g ! 0); sn1 = read_decimal (g ! 1); sn2 = read_decimal (g ! 2)
      in res_bind (int_base0 (g ! 3)) (\<lambda>addr.
         Inr (case (map_of accesses sn1, map_of accesses sn2) of
                (Some a1, Some a2) \<Rightarrow> [SquashMemoryDependence tick (ac_pc a2) addr (ac_pc a1)]
              | _ \<Rightarrow> [])))"

definition branch_event :: "string list \<Rightarrow> event res" where
  "branch_event g = res_bind (int_base0 (g ! 1)) (\<lambda>pc. Inr (SquashBranch (read_decimal (g ! 0)) pc))"

definition prediction_event :: "string list \<Rightarrow> event res" where
  "prediction_event g =
     res_bind (int_base0 (g ! 1)) (\<lambda>pc.
     res_bind (int_base0 (g ! 2)) (\<lambda>target.
     Inr (BranchPrediction (read_decimal (g ! 0)) pc target)))"

subsection \<open>Parsing a log\<close>

definition load_pattern :: "piece list" where
  "load_pattern = tick_start @ Lit ''Attempting load request - PC '' # request_pieces"

definition store_pattern :: "piece list" where
  "store_pattern = tick_start @ Lit ''Store request - PC '' # request_pieces"

definition squash_pattern :: "piece list" where
  "squash_pattern = tick_start @ [Lit ''LSQUnit - Squashed '', OneOf [''Load'', ''Store''], Lit '': PC ''] @ request_pieces"

text \<open>The dot of \<^verbatim>\<open>analyse_ipc_violation.py\<close> is not escaped in the pattern: it matches any character but a line end.\<close>

definition data_pattern :: "piece list" where
  "data_pattern = [Lit ''analyse_ipc_violation'', One not_nl, Lit ''py: info for sn='', digits_group, Lit '': data='', Group lower_hex 1]"

definition dependence_pattern :: "piece list" where
  "dependence_pattern = tick_start @ [Lit ''Detected fault with inst [sn:'', digits_group, Lit ''] and [sn:'', digits_group,
     Lit ''] at address '', hex_group]"

definition branch_pattern :: "piece list" where
  "branch_pattern = tick_start @ [Lit ''analyse_ipc_violation: Mispredicted branch at PC '', hex_group]"

definition prediction_pattern :: "piece list" where
  "prediction_pattern = tick_start @ [Lit ''analyse_ipc_violation: predicting branch at '', hex_group, Lit '' to go to '', hex_group]"

definition parse_accesses :: "string \<Rightarrow> accesses res" where
  "parse_accesses log =
     res_bind (res_fold (add_access False) (findall True load_pattern log) []) (\<lambda>accesses.
     res_bind (res_fold (add_access True) (findall True store_pattern log) accesses) (\<lambda>accesses.
     res_bind (res_fold squash_access (findall True squash_pattern log) accesses) (\<lambda>accesses.
     Inr (fold set_data (findall False data_pattern log) accesses))))"

definition parse_events :: "bool \<Rightarrow> string \<Rightarrow> event list res" where
  "parse_events branch_predictions log =
     res_bind (parse_accesses log) (\<lambda>accesses.
     let events = map Access (map snd accesses) in
     res_bind (res_map (dependence_event accesses) (findall True dependence_pattern log)) (\<lambda>dependences.
     res_bind (res_map branch_event (findall True branch_pattern log)) (\<lambda>branches.
     res_bind (if branch_predictions then res_map prediction_event (findall True prediction_pattern log) else Inr [])
       (\<lambda>predictions.
     Inr (sort_key ev_tick (events @ concat dependences @ branches @ predictions))))))"

subsection \<open>Collecting the files of a run\<close>

text \<open>The tags of the data cache of a document, from the Ruby or the classic memory system.\<close>

definition read_tags :: "toml \<Rightarrow> int set res" where
  "read_tags data =
     res_bind (toml_path data [''system'']) (\<lambda>system.
     let ruby = (case system of TStr s \<Rightarrow> contains s ''ruby'' | TTable d \<Rightarrow> map_of d ''ruby'' \<noteq> None)
     in res_bind (addresses data (if ruby then ruby_path ''L1Dcache'' else cpu_path ''dcache'')) (\<lambda>xs. Inr (set xs)))"

record collected_files =
  cl_cache_tags :: "(string, int set) dict"
  cl_logs :: "(string, string) dict"

definition collect_tags :: "(string \<Rightarrow> toml res) \<Rightarrow> string \<Rightarrow> string \<Rightarrow> collected_files \<Rightarrow> collected_files res" where
  "collect_tags toml_load prefix contents st =
     res_bind (toml_load contents) (\<lambda>data.
     res_bind (py_assert (map_of (cl_cache_tags st) prefix = None)) (\<lambda>_.
     res_bind (read_tags data) (\<lambda>tags.
     Inr (st\<lparr>cl_cache_tags := AList.update prefix tags (cl_cache_tags st)\<rparr>))))"

definition collect_log :: "string \<Rightarrow> string \<Rightarrow> collected_files \<Rightarrow> collected_files res" where
  "collect_log prefix contents st =
     res_bind (py_assert (map_of (cl_logs st) prefix = None)) (\<lambda>_.
     Inr (st\<lparr>cl_logs := AList.update prefix contents (cl_logs st)\<rparr>))"

text \<open>
  \<open>copy_debug_files\<close>: the files of the last input are copied with a prefix, and the tags and the log among them
  are read. A directory is the list of its files in the order of \<^verbatim>\<open>os.listdir\<close>.
\<close>

type_synonym directory = "(string \<times> string) list"

definition copy_last_file ::
    "(string \<Rightarrow> toml res) \<Rightarrow> bool \<Rightarrow> nat \<Rightarrow> string \<Rightarrow> string \<times> string \<Rightarrow> directory \<times> collected_files \<Rightarrow> (directory \<times> collected_files) res" where
  "copy_last_file toml_load find_violation last_input prefix = (\<lambda>(filename, contents) (analysis_dir, st).
     let stem = (case before_last (CHR ''.'') filename of Some s \<Rightarrow> s | None \<Rightarrow> filename)
     in if \<not> ends_with stem (''_'' @ nat_str last_input) then Inr (analysis_dir, st)
        else
          res_bind (if find_violation \<and> starts_with filename ''cache_tags_'' \<and> ends_with filename ''.toml''
                    then collect_tags toml_load prefix contents st else Inr st) (\<lambda>st.
          res_bind (if find_violation \<and> starts_with filename ''log_'' \<and> ends_with filename ''.out''
                    then collect_log prefix contents st else Inr st) (\<lambda>st.
          Inr (AList.update (prefix @ ''_'' @ filename) contents analysis_dir, st))))"

definition copy_debug_files ::
    "(string \<Rightarrow> toml res) \<Rightarrow> bool \<Rightarrow> nat \<Rightarrow> string \<Rightarrow> directory \<Rightarrow> directory \<times> collected_files \<Rightarrow> (directory \<times> collected_files) res" where
  "copy_debug_files toml_load find_violation last_input prefix debug_dir =
     res_fold (copy_last_file toml_load find_violation last_input prefix) debug_dir"

definition upload_file :: "(string \<Rightarrow> toml res) \<Rightarrow> string \<Rightarrow> string \<times> string \<Rightarrow> collected_files \<Rightarrow> collected_files res" where
  "upload_file toml_load prefix = (\<lambda>(filename, contents) st.
     res_bind (if starts_with filename (prefix @ ''_cache_tags_'') \<and> ends_with filename ''.toml''
               then collect_tags toml_load prefix contents st else Inr st) (\<lambda>st.
     if starts_with filename (prefix @ ''_log_'') \<and> ends_with filename ''.out''
     then collect_log prefix contents st else Inr st))"

definition upload_existing_analysis ::
    "(string \<Rightarrow> toml res) \<Rightarrow> string \<Rightarrow> directory \<Rightarrow> collected_files \<Rightarrow> collected_files res" where
  "upload_existing_analysis toml_load prefix analysis_dir = res_fold (upload_file toml_load prefix) analysis_dir"

subsection \<open>The accesses behind a difference\<close>

definition cache_line_size :: int where
  "cache_line_size = 64"

definition hits_tag :: "int \<Rightarrow> event \<Rightarrow> bool" where
  "hits_tag tag e = (case e of
     Access a \<Rightarrow> (int (ac_paddr a) AND NOT (cache_line_size - 1)) = tag
   | _ \<Rightarrow> False)"

definition mark_violation :: "event \<Rightarrow> event" where
  "mark_violation e = (case e of Access a \<Rightarrow> Access (a\<lparr>ac_is_violation := True\<rparr>) | _ \<Rightarrow> e)"

text \<open>The messages that are printed for a tag.\<close>

datatype notice =
    InOrchestrationCode int
  | NonSpeculativeAccess int nat
  | NoMatchingAccess int

text \<open>\<open>not event.squashed_at\<close> also holds for a squash at tick 0.\<close>

definition access_notice :: "int \<Rightarrow> access \<Rightarrow> notice list" where
  "access_notice tag a =
     (if in_orchestration_code (ac_pc a) then [InOrchestrationCode tag]
      else if ac_squashed_at a = None \<or> ac_squashed_at a = Some 0 then [NonSpeculativeAccess tag (ac_tick a)]
      else [])"

fun report_tag :: "int \<Rightarrow> event list \<Rightarrow> bool \<Rightarrow> notice list \<times> event list" where
  "report_tag tag [] found_any = (if found_any then [] else [NoMatchingAccess tag], [])"
| "report_tag tag (e # es) found_any =
     (if hits_tag tag e then
        (let (ns, es') = report_tag tag es True
         in ((case e of Access a \<Rightarrow> access_notice tag a | _ \<Rightarrow> []) @ ns, mark_violation e # es'))
      else (let (ns, es') = report_tag tag es found_any in (ns, e # es')))"

text \<open>The tags of one run that the other does not have; \<open>tags\<close> lists the set in its iteration order.\<close>

definition report_tags :: "int list \<Rightarrow> int set \<Rightarrow> event list \<Rightarrow> notice list \<times> event list" where
  "report_tags tags not_found events =
     fold (\<lambda>tag (ns, es). if tag \<notin> not_found then (let (ns', es') = report_tag tag es False in (ns @ ns', es')) else (ns, es))
       tags ([], events)"

definition report_differences ::
    "int list \<Rightarrow> int list \<Rightarrow> event list \<Rightarrow> event list \<Rightarrow> notice list \<times> event list \<times> event list" where
  "report_differences tags_ref tags_primer events_ref events_primer =
     (let (ns1, es_ref) = report_tags tags_ref (set tags_primer) events_ref;
          (ns2, es_primer) = report_tags tags_primer (set tags_ref) events_primer
      in (ns1 @ ns2, filter (\<lambda>e. \<not> in_orchestration_code (ev_pc e)) es_ref,
          filter (\<lambda>e. \<not> in_orchestration_code (ev_pc e)) es_primer))"

subsection \<open>Accesses are kept under their sequence number\<close>

definition keyed :: "accesses \<Rightarrow> bool" where
  "keyed accesses \<longleftrightarrow> distinct (map fst accesses) \<and> (\<forall>n a. map_of accesses n = Some a \<longrightarrow> ac_seq_num a = n)"

lemma keyed_update: "keyed d \<Longrightarrow> ac_seq_num a = n \<Longrightarrow> keyed (AList.update n a d)"
  by (auto simp: keyed_def)

lemma keyed_steps:
  "keyed d \<Longrightarrow> add_access st g d = Inr d' \<Longrightarrow> keyed d'"
  "keyed d \<Longrightarrow> squash_access g d = Inr d' \<Longrightarrow> keyed d'"
  "keyed d \<Longrightarrow> keyed (set_data g d)"
proof -
  show "keyed d \<Longrightarrow> add_access st g d = Inr d' \<Longrightarrow> keyed d'"
    by (auto simp: add_access_def res_bind_Inr_iff intro: keyed_update)
  show "keyed d'" if d: "keyed d" and "squash_access g d = Inr d'"
  proof -
    from that(2) obtain n where "d' = (case map_of d n of None \<Rightarrow> d
        | Some a \<Rightarrow> AList.update n (a\<lparr>ac_squashed_at := Some (read_decimal (g ! 0))\<rparr>) d)"
      by (auto simp: squash_access_def res_bind_Inr_iff)
    with d show ?thesis by (cases "map_of d n") (auto simp: keyed_def simp del: map_of_eq_Some_iff)
  qed
  show "keyed d \<Longrightarrow> keyed (set_data g d)"
    by (cases "map_of d (read_decimal (g ! 0))") (auto simp: set_data_def keyed_def simp del: map_of_eq_Some_iff)
qed

lemma parse_accesses_keyed:
  assumes "parse_accesses log = Inr accesses"
  shows "keyed accesses"
proof -
  from assms obtain a b c where a: "res_fold (add_access False) (findall True load_pattern log) [] = Inr a"
    and b: "res_fold (add_access True) (findall True store_pattern log) a = Inr b"
    and c: "res_fold squash_access (findall True squash_pattern log) b = Inr c"
    and d: "accesses = fold set_data (findall False data_pattern log) c"
    by (auto simp: parse_accesses_def res_bind_Inr_iff)
  have "keyed a" by (rule res_fold_invariant [OF a]) (simp add: keyed_def, rule keyed_steps(1))
  then have "keyed b" by (rule res_fold_invariant [OF b]) (rule keyed_steps(1))
  then have "keyed c" by (rule res_fold_invariant [OF c]) (rule keyed_steps(2))
  moreover have "keyed x \<Longrightarrow> keyed (fold set_data gs x)" for gs x
    by (induction gs arbitrary: x) (auto intro: keyed_steps(3))
  ultimately show ?thesis using d by blast
qed

lemma dependence_event_kind:
  "dependence_event d g = Inr es \<Longrightarrow> e \<in> set es \<Longrightarrow> \<exists>t pc addr other. e = SquashMemoryDependence t pc addr other"
  by (cases "map_of d (read_decimal (g ! 1))"; cases "map_of d (read_decimal (g ! 2))")
     (auto simp: dependence_event_def res_bind_Inr_iff)

text \<open>
  The events of a log are in the order of their ticks, with at most one access per sequence number.
\<close>

lemma parse_events_sorted:
  assumes "parse_events branch_predictions log = Inr events"
  shows "sorted (map ev_tick events) \<and>
    distinct (map ac_seq_num (List.map_filter (\<lambda>e. case e of Access a \<Rightarrow> Some a | _ \<Rightarrow> None) events))"
proof -
  let ?f = "\<lambda>e. case e of Access a \<Rightarrow> Some a | _ \<Rightarrow> None"
  from assms obtain accesses ds bs ps where a: "parse_accesses log = Inr accesses"
    and d: "res_map (dependence_event accesses) (findall True dependence_pattern log) = Inr ds"
    and b: "res_map branch_event (findall True branch_pattern log) = Inr bs"
    and p: "(if branch_predictions then res_map prediction_event (findall True prediction_pattern log) else Inr []) = Inr ps"
    and ev: "events = sort_key ev_tick (map Access (map snd accesses) @ concat ds @ bs @ ps)"
    by (auto simp: parse_events_def Let_def res_bind_Inr_iff simp del: map_map)
  have ds: "?f e = None" if "e \<in> set es" "es \<in> set ds" for e es
  proof -
    from list_all2_preimage [OF d [unfolded res_map_Inr_iff] that(2)] obtain g where "dependence_event accesses g = Inr es"
      by blast
    from dependence_event_kind [OF this that(1)] show ?thesis by auto
  qed
  have bs: "?f e = None" if "e \<in> set bs" for e
    using list_all2_preimage [OF b [unfolded res_map_Inr_iff] that] by (auto simp: branch_event_def res_bind_Inr_iff)
  have ps: "?f e = None" if "e \<in> set ps" for e
  proof -
    from p that have "res_map prediction_event (findall True prediction_pattern log) = Inr ps" by (auto split: if_splits)
    from list_all2_preimage [OF this [unfolded res_map_Inr_iff] that] show ?thesis
      by (auto simp: prediction_event_def res_bind_Inr_iff)
  qed
  have "?f e = None" if "e \<in> set (concat ds @ bs @ ps)" for e
    using that ds bs ps by auto
  then have others: "List.map_filter ?f (concat ds @ bs @ ps) = []"
    by (auto simp: List.map_filter_def filter_empty_conv)
  have app: "List.map_filter ?f (xs @ ys) = List.map_filter ?f xs @ List.map_filter ?f ys" for xs ys
    by (simp add: List.map_filter_def)
  have acc: "List.map_filter ?f (map Access xs) = xs" for xs by (simp add: List.map_filter_def comp_def)
  have "mset (List.map_filter ?f events) = mset (List.map_filter ?f (map Access (map snd accesses) @ concat ds @ bs @ ps))"
    unfolding ev List.map_filter_def by (simp only: mset_map mset_filter mset_sort)
  also have "\<dots> = mset (map snd accesses)"
    by (subst app) (simp only: others acc append_Nil2)
  finally have "mset (map ac_seq_num (List.map_filter ?f events)) = mset (map ac_seq_num (map snd accesses))"
    by (simp only: mset_map)
  moreover have "map ac_seq_num (map snd accesses) = map fst accesses"
    using parse_accesses_keyed [OF a] by (auto simp: keyed_def)
  ultimately have "distinct (map ac_seq_num (List.map_filter ?f events))"
    using parse_accesses_keyed [OF a] by (metis keyed_def mset_eq_imp_distinct_iff)
  then show ?thesis by (simp add: ev)
qed

subsection \<open>What is marked and what is reported\<close>

lemma hits_mark [simp]: "hits_tag tag (mark_violation e) = hits_tag tag e"
  by (cases e) (simp_all add: hits_tag_def mark_violation_def)

lemma mark_violation_simps [simp]:
  "mark_violation (mark_violation e) = mark_violation e" "ev_pc (mark_violation e) = ev_pc e"
  "ev_tick (mark_violation e) = ev_tick e"
  by (cases e; simp add: mark_violation_def)+

definition mark_if :: "(event \<Rightarrow> bool) \<Rightarrow> event \<Rightarrow> event" where
  "mark_if p e = (if p e then mark_violation e else e)"

lemma report_tag_marks: "snd (report_tag tag es b) = map (mark_if (hits_tag tag)) es"
  by (induction tag es b rule: report_tag.induct) (auto simp: mark_if_def split: prod.splits)

lemma report_tag_notices:
  "set (fst (report_tag tag es b)) =
     {n. \<exists>a. Access a \<in> set es \<and> hits_tag tag (Access a) \<and> n \<in> set (access_notice tag a)} \<union>
     (if b \<or> list_ex (hits_tag tag) es then {} else {NoMatchingAccess tag})"
proof (induction tag es b rule: report_tag.induct)
  case (2 tag e es b)
  show ?case
  proof (cases e)
    case (Access a)
    with 2 show ?thesis by (cases "hits_tag tag e") (auto split: prod.splits)
  qed (use 2 in \<open>auto simp: hits_tag_def split: prod.splits\<close>)
qed simp

text \<open>
  All tags of one run against the other: an access is marked exactly when the line it touches is a tag
  that only this run has, whatever the order of the tags.
\<close>

lemma report_tags_marks:
  "snd (report_tags tags not_found events) = map (mark_if (\<lambda>e. \<exists>tag \<in> set tags - not_found. hits_tag tag e)) events"
proof -
  let ?step = "\<lambda>tag (ns, es). if tag \<notin> not_found then (let (ns', es') = report_tag tag es False in (ns @ ns', es')) else (ns, es)"
  have "snd (fold ?step tags (ns, es)) = map (mark_if (\<lambda>e. \<exists>tag \<in> set tags - not_found. hits_tag tag e)) es" for ns es
  proof (induction tags arbitrary: ns es)
    case Nil
    then show ?case by (simp add: mark_if_def)
  next
    case (Cons t tags)
    have "snd (fold ?step (t # tags) (ns, es)) =
        map (mark_if (\<lambda>e. \<exists>tag \<in> set tags - not_found. hits_tag tag e))
          (if t \<in> not_found then es else map (mark_if (hits_tag t)) es)"
      using report_tag_marks [of t es False] by (auto simp: Cons.IH split: prod.splits)
    also have "\<dots> = map (mark_if (\<lambda>e. \<exists>tag \<in> set (t # tags) - not_found. hits_tag tag e)) es"
      by (auto simp: mark_if_def)
    finally show ?case .
  qed
  then show ?thesis by (simp add: report_tags_def)
qed

lemma access_notice_marked [simp]: "access_notice tag (a\<lparr>ac_is_violation := v\<rparr>) = access_notice tag a"
  by (simp add: access_notice_def)

definition notices_of :: "int \<Rightarrow> event list \<Rightarrow> notice set" where
  "notices_of tag es = set (fst (report_tag tag es False))"

lemma notices_of_mark: "notices_of tag (map (mark_if p) es) = notices_of tag es"
proof -
  have "list_ex (hits_tag tag) (map (mark_if p) es) = list_ex (hits_tag tag) es"
    by (induction es) (simp_all add: mark_if_def)
  moreover have "(\<exists>a. Access a \<in> set (map (mark_if p) es) \<and> hits_tag tag (Access a) \<and> n \<in> set (access_notice tag a)) \<longleftrightarrow>
      (\<exists>a. Access a \<in> set es \<and> hits_tag tag (Access a) \<and> n \<in> set (access_notice tag a))" for n
  proof
    assume "\<exists>a. Access a \<in> set (map (mark_if p) es) \<and> hits_tag tag (Access a) \<and> n \<in> set (access_notice tag a)"
    then obtain a e where e: "e \<in> set es" "Access a = mark_if p e" "hits_tag tag (Access a)" "n \<in> set (access_notice tag a)"
      by auto
    from e(2) obtain b where "e = Access b" "a = b \<or> a = b\<lparr>ac_is_violation := True\<rparr>"
      by (cases e) (auto simp: mark_if_def mark_violation_def split: if_splits)
    moreover from this(2) e(3,4) have "hits_tag tag (Access b)" "n \<in> set (access_notice tag b)"
      by (auto simp: hits_tag_def)
    ultimately show "\<exists>a. Access a \<in> set es \<and> hits_tag tag (Access a) \<and> n \<in> set (access_notice tag a)"
      using e(1) by blast
  next
    assume "\<exists>a. Access a \<in> set es \<and> hits_tag tag (Access a) \<and> n \<in> set (access_notice tag a)"
    then obtain a where a: "Access a \<in> set es" "hits_tag tag (Access a)" "n \<in> set (access_notice tag a)" by blast
    show "\<exists>a. Access a \<in> set (map (mark_if p) es) \<and> hits_tag tag (Access a) \<and> n \<in> set (access_notice tag a)"
    proof (cases "p (Access a)")
      case True
      with a(1) have "Access (a\<lparr>ac_is_violation := True\<rparr>) \<in> set (map (mark_if p) es)"
        by (force simp: mark_if_def mark_violation_def)
      with a(2,3) show ?thesis by (intro exI [of _ "a\<lparr>ac_is_violation := True\<rparr>"]) (simp add: hits_tag_def)
    next
      case False
      with a(1) have "Access a \<in> set (map (mark_if p) es)" by (force simp: mark_if_def)
      with a(2,3) show ?thesis by blast
    qed
  qed
  ultimately show ?thesis by (simp add: notices_of_def report_tag_notices)
qed

lemma report_tags_notices:
  "set (fst (report_tags tags not_found events)) = (\<Union>tag \<in> set tags - not_found. notices_of tag events)"
proof -
  let ?step = "\<lambda>tag (ns, es). if tag \<notin> not_found then (let (ns', es') = report_tag tag es False in (ns @ ns', es')) else (ns, es)"
  have "set (fst (fold ?step tags (ns, es))) = set ns \<union> (\<Union>tag \<in> set tags - not_found. notices_of tag es)" for ns es
  proof (induction tags arbitrary: ns es)
    case (Cons t tags)
    obtain ns' where r: "report_tag t es False = (ns', map (mark_if (hits_tag t)) es)"
      using report_tag_marks [of t es False] by (cases "report_tag t es False") simp
    then have "set ns' = notices_of t es" by (simp add: notices_of_def)
    with r show ?case by (cases "t \<in> not_found") (auto simp: Cons.IH notices_of_mark)
  qed simp
  then show ?thesis by (simp add: report_tags_def)
qed

text \<open>
  A violation is called non-speculative exactly when a tag that only one run has was touched by an
  access of the test case that was not squashed (or squashed at tick 0).
\<close>

lemma non_speculative_notice:
  "NonSpeculativeAccess tag tick \<in> set (fst (report_tags tags not_found events)) \<longleftrightarrow>
   tag \<in> set tags - not_found \<and> (\<exists>a. Access a \<in> set events \<and> hits_tag tag (Access a) \<and>
     \<not> in_orchestration_code (ac_pc a) \<and> ac_squashed_at a \<in> {None, Some 0} \<and> ac_tick a = tick)"
  by (auto simp: report_tags_notices notices_of_def report_tag_notices access_notice_def)

text \<open>The address of a line: the tag is the largest multiple of the line size that is not above the address.\<close>

lemma hits_tag_line: "hits_tag tag (Access a) \<longleftrightarrow> tag = 64 * (int (ac_paddr a) div 64)"
proof -
  have "(x :: int) AND NOT 63 = 64 * (x div 64)" for x
  proof -
    have "x AND NOT (mask 6) = push_bit 6 (drop_bit 6 x)" by (rule bit_eqI) (auto simp: bit_simps)
    then show ?thesis by (simp add: push_bit_eq_mult drop_bit_eq_div mask_eq_exp_minus_1 mult.commute)
  qed
  then show ?thesis by (auto simp: hits_tag_def cache_line_size_def)
qed

subsection \<open>Reading a printed log\<close>

text \<open>A greedy run that ends where its class ends takes all of it, if the rest of the pattern matches there.\<close>

lemma run_lengths_all:
  assumes "\<forall>c \<in> set w. p c" and "s = [] \<or> \<not> p (hd s)" and "n \<le> length w"
  shows "\<exists>ks. run_lengths p n (w @ s) = length w # ks"
proof -
  have "takeWhile p (w @ s) = w" using assms(1,2) by (cases s) (auto simp: takeWhile_append)
  with assms(3) show ?thesis by (simp add: run_lengths_def)
qed

lemma match_group:
  assumes "\<forall>c \<in> set w. p c" and "s = [] \<or> \<not> p (hd s)" and "n \<le> length w" and "match_pieces ps s = Some (g, r)"
  shows "match_pieces (Group p n # ps) (w @ s) = Some (w # g, r)"
    and "match_pieces (LitGroup l p n # ps) (l @ w @ s) = Some ((l @ w) # g, r)"
proof -
  from run_lengths_all [OF assms(1-3)] obtain ks where k: "run_lengths p n (w @ s) = length w # ks" by blast
  have l: "starts_with (l @ t) l" for t by (induction l) auto
  from k assms(4) l show "match_pieces (Group p n # ps) (w @ s) = Some (w # g, r)"
    "match_pieces (LitGroup l p n # ps) (l @ w @ s) = Some ((l @ w) # g, r)"
    by (simp_all add: with_group_def)
qed

lemma first_some_skip:
  "\<forall>x \<in> set xs. f x = None \<Longrightarrow> f y = Some z \<Longrightarrow> first_some f (xs @ y # ys) = Some z"
  by (induction xs) auto

text \<open>\<^verbatim>\<open>.*\<close> before a literal finds the last occurrence in the line; here the first character of the literal does not occur later.\<close>

lemma match_dot_literal:
  assumes "\<forall>c \<in> set (m @ d # l @ t). not_nl c" and "d \<notin> set (l @ t)" and "u = [] \<or> hd u = CHR 0x0A" and "d \<noteq> CHR 0x0A"
    and "match_pieces ps (t @ u) = Some r"
  shows "match_pieces (Run not_nl 0 # Lit (d # l) # ps) (m @ (d # l) @ t @ u) = Some r"
proof -
  let ?s = "m @ (d # l) @ t @ u" and ?f = "\<lambda>k. match_pieces (Lit (d # l) # ps) (drop k (m @ (d # l) @ t @ u))"
  have tw: "takeWhile not_nl ?s = m @ (d # l) @ t"
    using assms(1,3) by (cases u) (auto simp: takeWhile_append not_nl_def)
  let ?n = "length m" and ?N = "Suc (length (m @ (d # l) @ t))"
  have sw: "starts_with ((d # l) @ x) (d # l)" for x
  proof -
    have "starts_with (l @ x) l" by (induction l) auto
    then show ?thesis by simp
  qed
  have later: "?f k = None" if "k \<in> set (rev [Suc ?n..<?N])" for k
  proof -
    from that obtain j where j: "k = Suc (?n + j)" "j \<le> length (l @ t)" by (auto simp: less_eq_Suc_le le_iff_add)
    then have dr: "drop k ?s = drop j ((l @ t) @ u)" by simp
    have "\<not> starts_with (drop j ((l @ t) @ u)) (d # l)"
    proof (cases "j < length (l @ t)")
      case True
      then have "drop j ((l @ t) @ u) = (l @ t) ! j # drop (Suc j) ((l @ t) @ u)"
        using Cons_nth_drop_Suc [of j "(l @ t) @ u"] by (simp only: length_append nth_append trans_less_add1 if_True)
      moreover have "(l @ t) ! j \<noteq> d" using True assms(2) nth_mem by metis
      ultimately show ?thesis by simp
    next
      case False
      with j(2) have "drop j ((l @ t) @ u) = u" by simp
      with assms(3,4) show ?thesis by (cases u) auto
    qed
    with dr show ?thesis by simp
  qed
  have "[0..<?N] = [0..<?n] @ ?n # [Suc ?n..<?N]"
    by (metis add_Suc_right le_add1 length_append less_Suc_eq_le upt_add_eq_append upt_conv_Cons zero_le le_add_diff_inverse)
  then have "rev [0..<?N] = rev [Suc ?n..<?N] @ ?n # rev [0..<?n]" by simp
  moreover have "?f ?n = Some r" using sw [of "t @ u"] assms(5) by simp
  ultimately have "first_some ?f (rev [0..<?N]) = Some r"
    using first_some_skip [of "rev [Suc ?n..<?N]" ?f ?n r] later by metis
  then show ?thesis by (simp only: match_pieces.simps run_lengths_def tw)
qed

text \<open>A load as gem5 prints it, with any text (without a capital A) between the tick and the message.\<close>

record load_line =
  ll_tick :: nat
  ll_object :: string
  ll_pc :: nat
  ll_sn :: nat
  ll_paddr :: nat
  ll_vaddr :: nat

definition request_text :: "load_line \<Rightarrow> string" where
  "request_text l = hex (ll_pc l) @ '', SQ: [sn:'' @ nat_str (ll_sn l) @ ''], Paddr '' @ hex (ll_paddr l) @
     '', Vaddr '' @ hex (ll_vaddr l)"

definition print_load :: "load_line \<Rightarrow> string" where
  "print_load l = nat_str (ll_tick l) @ '':'' @ ll_object l @ ''Attempting load request - PC '' @ request_text l @ [CHR 0x0A]"

definition load_groups :: "load_line \<Rightarrow> string list" where
  "load_groups l = [nat_str (ll_tick l), hex (ll_pc l), nat_str (ll_sn l), hex (ll_paddr l), hex (ll_vaddr l)]"

lemma nat_str_is_digit: "\<forall>c \<in> set (nat_str n). is_digit c"
  using nat_str_digits [of _ n] by (auto simp: is_digit_def)

lemma hex_digits_lower: "\<forall>c \<in> set (hex_digits n). lower_hex c"
proof (induction n rule: hex_digits.induct)
  case (1 n)
  have "lower_hex (hex_digit d)" if "d < 16" for d
  proof -
    have "(of_char (char_of (k :: nat) :: char) :: nat) = k" if "k < 256" for k using that by simp
    with that show ?thesis by (auto simp: lower_hex_def hex_digit_def is_digit_def)
  qed
  with 1 show ?case by (subst hex_digits.simps) auto
qed

lemma match_digits:
  assumes "s = [] \<or> \<not> is_digit (hd s)" and "match_pieces ps s = Some (g, r)"
  shows "match_pieces (digits_group # ps) (nat_str n @ s) = Some (nat_str n # g, r)"
  unfolding digits_group_def
  by (rule match_group(1)) (use assms nat_str_is_digit in \<open>auto simp: Suc_le_eq\<close>)

lemma match_hex:
  assumes "s = [] \<or> \<not> lower_hex (hd s)" and "match_pieces ps s = Some (g, r)"
  shows "match_pieces (hex_group # ps) (hex n @ s) = Some (hex n # g, r)"
  unfolding hex_group_def hex_def append_assoc
  by (rule match_group(2)) (use assms hex_digits_lower in \<open>auto simp: Suc_le_eq\<close>)

lemma starts_with_self: "starts_with (l @ t) l"
  by (induction l) auto

lemma match_lit: "match_pieces ps s = Some x \<Longrightarrow> match_pieces (Lit l # ps) (l @ s) = Some x"
  by (simp add: starts_with_self)

lemma not_lower_hex [simp]:
  "\<not> lower_hex (CHR '','')" "\<not> lower_hex (CHR '']'')" "\<not> lower_hex (CHR 0x0A)" "\<not> is_digit (CHR '']'')"
  "\<not> is_digit (CHR '':'')"
  by (simp_all add: lower_hex_def is_digit_def)

lemma match_request:
  assumes "u = [] \<or> hd u = CHR 0x0A"
  shows "match_pieces request_pieces (request_text l @ u) =
    Some ([hex (ll_pc l), nat_str (ll_sn l), hex (ll_paddr l), hex (ll_vaddr l)], u)"
proof -
  have u: "u = [] \<or> \<not> lower_hex (hd u)" using assms by auto
  show ?thesis unfolding request_pieces_def request_text_def append_assoc
    by (intro match_hex match_lit match_digits u; simp)
qed

lemma lower_hex_plain: "lower_hex c \<Longrightarrow> not_nl c \<and> c \<noteq> CHR ''A''"
  by (auto simp: lower_hex_def is_digit_def not_nl_def)

lemma request_text_plain: "c \<in> set (request_text l) \<Longrightarrow> not_nl c \<and> c \<noteq> CHR ''A''"
  using lower_hex_plain [of c] hex_digits_lower nat_str_is_digit [of "ll_sn l"]
  unfolding request_text_def hex_def by (auto simp: not_nl_def lower_hex_def)

lemma match_load:
  assumes "\<forall>c \<in> set (ll_object l). not_nl c"
  shows "match_pieces load_pattern (print_load l @ s) = Some (load_groups l, CHR 0x0A # s)"
proof -
  have "match_pieces (Run not_nl 0 # Lit ''Attempting load request - PC '' # request_pieces)
      (ll_object l @ ''Attempting load request - PC '' @ request_text l @ CHR 0x0A # s) =
    Some ([hex (ll_pc l), nat_str (ll_sn l), hex (ll_paddr l), hex (ll_vaddr l)], CHR 0x0A # s)"
    by (rule match_dot_literal) (use assms request_text_plain match_request [of "CHR 0x0A # s"] in \<open>auto simp: not_nl_def\<close>)
  then have "match_pieces (digits_group # Lit '':'' # Run not_nl 0 # Lit ''Attempting load request - PC '' # request_pieces)
      (nat_str (ll_tick l) @ '':'' @ ll_object l @ ''Attempting load request - PC '' @ request_text l @ CHR 0x0A # s) =
    Some (load_groups l, CHR 0x0A # s)"
    unfolding load_groups_def by (intro match_digits match_lit) simp_all
  then show ?thesis by (simp add: load_pattern_def tick_start_def print_load_def)
qed

text \<open>
  The loads of a log come back as they were printed: \<^verbatim>\<open>findall\<close> returns the groups of every line in order, and the
  access made from them has the printed numbers.
\<close>

lemma findall_loads:
  assumes "\<forall>l \<in> set ls. \<forall>c \<in> set (ll_object l). not_nl c"
  shows "findall True load_pattern (concat (map print_load ls)) = map load_groups ls"
proof -
  have "map fst (find_all True load_pattern True (concat (map print_load ls))) = map load_groups ls"
    using assms
  proof (induction ls)
    case (Cons l ls)
    let ?rest = "concat (map print_load ls)"
    obtain c t where ct: "print_load l @ ?rest = c # t"
      by (cases "print_load l @ ?rest") (simp_all add: print_load_def)
    have m: "match_pieces load_pattern (c # t) = Some (load_groups l, CHR 0x0A # ?rest)"
      using match_load [of l ?rest] Cons.prems ct by simp
    have len: "length (CHR 0x0A # ?rest) < length (c # t)"
    proof -
      have "length (c # t) = length (print_load l) + length ?rest" using ct by (metis length_append)
      then show ?thesis by (simp add: print_load_def)
    qed
    have "last (take (length (c # t) - length (CHR 0x0A # ?rest)) (c # t)) \<noteq> CHR 0x0A"
    proof -
      have "take (length (c # t) - length (CHR 0x0A # ?rest)) (c # t) = butlast (print_load l)"
        unfolding ct [symmetric] by (simp add: butlast_conv_take)
      also have "\<dots> = nat_str (ll_tick l) @ '':'' @ ll_object l @ ''Attempting load request - PC '' @ request_text l"
        by (simp add: print_load_def butlast_append)
      finally have "last (take (length (c # t) - length (CHR 0x0A # ?rest)) (c # t)) = last (request_text l)"
        by (simp add: request_text_def hex_def)
      moreover have "last (request_text l) \<in> set (request_text l)" by (simp add: request_text_def hex_def)
      ultimately show ?thesis using request_text_plain by (fastforce simp: not_nl_def)
    qed
    with m len have "map fst (find_all True load_pattern True (c # t)) =
        load_groups l # map fst (find_all True load_pattern False (CHR 0x0A # ?rest))"
      by (simp add: Let_def)
    moreover have "find_all True load_pattern False (CHR 0x0A # ?rest) = find_all True load_pattern True ?rest" by simp
    ultimately show ?case using Cons ct by simp
  qed simp
  then show ?thesis by (simp add: findall_def)
qed

lemma int_base0_hex [simp]: "int_base0 (hex n) = Inr n"
  by (simp add: int_base0_def)

lemma new_access_load:
  "new_access False (load_groups l) = Inr \<lparr>ac_tick = ll_tick l, ac_pc = ll_pc l, ac_is_store = False,
     ac_is_violation = False, ac_data = [], ac_squashed_at = None, ac_paddr = ll_paddr l, ac_vaddr = ll_vaddr l,
     ac_seq_num = ll_sn l\<rparr>"
  by (simp add: new_access_def load_groups_def)

end
