(* ===== verification/Violation_Report.thy ===== *)
theory Violation_Report
  imports Event_Log
begin

text \<open>
  The second half of \<^verbatim>\<open>src/src/analyse_ipc_violation.py\<close>: the descriptions of events, the two-column printer and
  the loop that walks over the events of the reference run and of the primer run side by side.
  The lemmas show that the report is complete and in order, that the loop pairs events of the same
  instruction only, what the printer writes, and when the script crashes on a pair.
\<close>

subsection \<open>Text\<close>

definition nl_str :: string where
  "nl_str = [CHR 0x0A]"

definition esc :: char where
  "esc = CHR 0x1B"

definition ansi :: "bool \<Rightarrow> nat \<Rightarrow> string" where
  "ansi no_color x = (if no_color then [] else esc # ''['' @ nat_str x @ ''m'')"

text \<open>\<open>f'{n:9}'\<close>, \<open>f'{s:16}'\<close> and \<open>f'{n:#x}'\<close> (which is \<open>hex\<close>)\<close>

definition right_align :: "nat \<Rightarrow> string \<Rightarrow> string" where
  "right_align w s = replicate (w - length s) (CHR '' '') @ s"

definition left_align :: "nat \<Rightarrow> string \<Rightarrow> string" where
  "left_align w s = s @ replicate (w - length s) (CHR '' '')"

text \<open>\<open>re.sub('\x1b\\[[^m]*m', '', text)\<close>\<close>

function strip_ansi :: "string \<Rightarrow> string" where
  "strip_ansi [] = []"
| "strip_ansi (c # s) =
     (if c = esc \<and> s \<noteq> [] \<and> hd s = CHR ''['' \<and> CHR ''m'' \<in> set (tl s)
      then strip_ansi (tl (dropWhile (\<lambda>d. d \<noteq> CHR ''m'') (tl s)))
      else c # strip_ansi s)"
  by pat_completeness auto

termination
proof (relation "measure length")
  have "length (tl (dropWhile p (tl s))) \<le> length s" for p and s :: string
    by (metis diff_le_self dual_order.trans length_dropWhile_le length_tl)
  then show "(tl (dropWhile (\<lambda>d. d \<noteq> CHR ''m'') (tl s)), c # s) \<in> measure length" for c s
    by (simp add: le_imp_less_Suc)
qed auto

subsection \<open>Descriptions\<close>

definition squash_description :: "bool \<Rightarrow> nat \<Rightarrow> string \<Rightarrow> string" where
  "squash_description nc tick detail =
     ansi nc 96 @ ansi nc 1 @ ''SQUASH @'' @ right_align 9 (nat_str tick) @ ansi nc 0 @ '' '' @ detail"

definition highlight :: "bool \<Rightarrow> string" where
  "highlight nc = ansi nc 1 @ ansi nc 93"

text \<open>
  The attributes \<open>vaddr\<close>, \<open>data\<close> and \<open>target\<close> exist on some events only; reading one from another
  event raises. \<open>compare_vs\<close> is the event of the other run, if there is one.
\<close>

fun get_vaddr :: "event \<Rightarrow> nat res" where
  "get_vaddr (Access a) = Inr (ac_vaddr a)"
| "get_vaddr _ = Inl AttributeError"

fun get_data :: "event \<Rightarrow> string res" where
  "get_data (Access a) = Inr (ac_data a)"
| "get_data _ = Inl AttributeError"

fun get_target :: "event \<Rightarrow> nat res" where
  "get_target (BranchPrediction t pc target) = Inr target"
| "get_target _ = Inl AttributeError"

definition access_description :: "bool \<Rightarrow> access \<Rightarrow> event option \<Rightarrow> string res" where
  "access_description nc a compare_vs =
     (let kind = (if ac_is_store a then ''Store'' else ''Load '') in
     res_bind
       (if ac_is_violation a then Inr (ansi nc 91 @ ansi nc 1, ''*'' @ ansi nc 0)
        else case compare_vs of
               None \<Rightarrow> Inr ([], [])
             | Some e \<Rightarrow> res_bind (get_vaddr e) (\<lambda>v. Inr (if ac_vaddr a \<noteq> v then highlight nc else [], [])))
       (\<lambda>(addr_start, addr_end).
     let tick_start = (case compare_vs of Some e \<Rightarrow> if ac_tick a \<noteq> ev_tick e then highlight nc else [] | None \<Rightarrow> []);
         s = left_align 6 kind @ '' @'' @ tick_start @ right_align 9 (nat_str (ac_tick a)) @ ansi nc 0 @ '' '' @
           addr_start @ ''addr = '' @ hex (ac_vaddr a) @ addr_end @ ansi nc 0
     in
     res_bind
       (if ac_data a = [] then Inr []
        else res_bind (case compare_vs of
               None \<Rightarrow> Inr []
             | Some e \<Rightarrow> res_bind (get_data e) (\<lambda>d. Inr (if d \<noteq> [] \<and> ac_data a \<noteq> d then highlight nc else [])))
          (\<lambda>data_start. Inr (nl_str @ data_start @ ''data = '' @ left_align 16 (ac_data a) @ ansi nc 0)))
       (\<lambda>data_text.
     Inr (s @ data_text @
       (case ac_squashed_at a of
          None \<Rightarrow> []
        | Some t \<Rightarrow> (if ac_data a = [] then nl_str else []) @ ''  '' @ ansi nc 96 @ ''SQUASHED @'' @ nat_str t @ ansi nc 0)))))"

fun description :: "bool \<Rightarrow> event \<Rightarrow> event option \<Rightarrow> string res" where
  "description nc (Access a) compare_vs = access_description nc a compare_vs"
| "description nc (SquashMemoryDependence tick pc addr pc_other) compare_vs =
     Inr (squash_description nc tick (''Memory dependence mispredicted'' @ nl_str @ ''                   with '' @ hex pc_other @
       '' at addr '' @ hex addr))"
| "description nc (SquashBranch tick pc) compare_vs = Inr (squash_description nc tick ''Branch mispredicted!'')"
| "description nc (BranchPrediction tick pc target) compare_vs =
     res_bind (case compare_vs of
         None \<Rightarrow> Inr ([], [])
       | Some e \<Rightarrow> res_bind (get_target e) (\<lambda>t. Inr (if target \<noteq> t then (highlight nc, ansi nc 0) else ([], []))))
       (\<lambda>(target_start, target_end).
     Inr (''Predicting branch to have target '' @ target_start @ hex target @ target_end))"

subsection \<open>The two-column printer\<close>

text \<open>All files receive the same lines; \<open>tc_printed\<close> holds them.\<close>

record two_column =
  tc_column_size :: nat
  tc_lines :: "string list"
  tc_right_side :: bool
  tc_printed :: "string list"

definition new_two_column :: "nat \<Rightarrow> two_column" where
  "new_two_column column_size = \<lparr>tc_column_size = column_size, tc_lines = [], tc_right_side = False, tc_printed = []\<rparr>"

definition tc_print :: "string \<Rightarrow> two_column \<Rightarrow> two_column" where
  "tc_print txt out = out\<lparr>tc_printed := tc_printed out @ [txt]\<rparr>"

definition pad_column :: "nat \<Rightarrow> string \<Rightarrow> string" where
  "pad_column column_size txt = txt @ replicate (column_size - length (strip_ansi txt)) (CHR '' '')"

definition put_left :: "string \<Rightarrow> two_column \<Rightarrow> two_column" where
  "put_left txt out =
     (let left = pad_column (tc_column_size out) txt
      in if tc_lines out \<noteq> [] \<and> tc_right_side out
         then tc_print (left @ ''| '' @ hd (tc_lines out)) (out\<lparr>tc_lines := tl (tc_lines out)\<rparr>)
         else out\<lparr>tc_right_side := False, tc_lines := tc_lines out @ [left]\<rparr>)"

definition print_left :: "string \<Rightarrow> two_column \<Rightarrow> two_column" where
  "print_left txt = fold put_left (split_at (CHR 0x0A) txt)"

definition put_right :: "string \<Rightarrow> two_column \<Rightarrow> two_column" where
  "put_right txt out =
     (let right = pad_column (tc_column_size out) txt
      in if tc_lines out \<noteq> [] \<and> \<not> tc_right_side out
         then tc_print (hd (tc_lines out) @ ''| '' @ right) (out\<lparr>tc_lines := tl (tc_lines out)\<rparr>)
         else out\<lparr>tc_right_side := True, tc_lines := tc_lines out @ [right]\<rparr>)"

definition print_right :: "string \<Rightarrow> two_column \<Rightarrow> two_column" where
  "print_right txt = fold put_right (split_at (CHR 0x0A) txt)"

definition flush_line :: "string \<Rightarrow> two_column \<Rightarrow> two_column" where
  "flush_line line out =
     (if tc_right_side out then tc_print (pad_column (tc_column_size out) [] @ ''| '' @ line) out
      else tc_print (pad_column (tc_column_size out) line @ ''|'') out)"

definition tc_flush :: "two_column \<Rightarrow> two_column" where
  "tc_flush out = (fold flush_line (tc_lines out) out)\<lparr>tc_lines := []\<rparr>"

definition hline :: "two_column \<Rightarrow> two_column" where
  "hline out = (let out = tc_flush out in tc_print (replicate (tc_column_size out * 2 + 2) (CHR ''-'')) out)"

subsection \<open>The disassembly\<close>

definition ORCHESTRATION_CODE :: string where
  "ORCHESTRATION_CODE = ''<in orchestration code>''"

definition MID_INSTRUCTION :: string where
  "MID_INSTRUCTION = ''<mid-instruction byte>''"

text \<open>
  The line of an address: the warning about several matches uses a name that is not defined anywhere.
\<close>

definition pc_to_line :: "string \<Rightarrow> nat \<Rightarrow> string res" where
  "pc_to_line disassembly pc =
     (if in_orchestration_code pc then Inr ORCHESTRATION_CODE
      else
        let matches = map snd (find_all True [Run is_space 0, Run is_digit 0, Run is_space 0, Lit (hex_digits pc @ '':''), Run not_nl 0]
          True disassembly)
        in case matches of
             [] \<Rightarrow> Inr MID_INSTRUCTION
           | [m] \<Rightarrow> Inr m
           | _ \<Rightarrow> Inl NameError)"

subsection \<open>The event log\<close>

text \<open>One round of the loop: which of the two next events it prints.\<close>

fun next_events :: "event list \<Rightarrow> event list \<Rightarrow> event option \<times> event option" where
  "next_events [] [] = (None, None)"
| "next_events [] (p # ps) = (None, Some p)"
| "next_events (r # rs) [] = (Some r, None)"
| "next_events (r # rs) (p # ps) =
     (if ev_pc r < ev_pc p then (Some r, None)
      else if ev_pc r > ev_pc p then (None, Some p)
      else (Some r, Some p))"

definition print_side ::
    "bool \<Rightarrow> (string \<Rightarrow> two_column \<Rightarrow> two_column) \<Rightarrow> event option \<Rightarrow> event option \<Rightarrow> two_column \<Rightarrow> two_column res" where
  "print_side nc put e compare_vs out = (case e of
     None \<Rightarrow> Inr out
   | Some e \<Rightarrow> res_bind (description nc e compare_vs) (\<lambda>d. Inr (put d out)))"

definition print_round ::
    "bool \<Rightarrow> string \<Rightarrow> event option \<times> event option \<Rightarrow> two_column \<Rightarrow> two_column res" where
  "print_round nc disassembly = (\<lambda>(ref, primer) out.
     let pc = (case primer of Some e \<Rightarrow> ev_pc e | None \<Rightarrow> (case ref of Some e \<Rightarrow> ev_pc e | None \<Rightarrow> 0))
     in res_bind (pc_to_line disassembly pc) (\<lambda>line.
        res_bind (print_side nc print_left ref primer (tc_print line out)) (\<lambda>out.
        res_bind (print_side nc print_right primer ref out) (\<lambda>out.
        Inr (hline (tc_flush out))))))"

definition skip_event :: "event option \<Rightarrow> event list \<Rightarrow> event list" where
  "skip_event e es = (case e of None \<Rightarrow> es | Some _ \<Rightarrow> tl es)"

lemma next_events_progress:
  "\<not> (rs = [] \<and> ps = []) \<Longrightarrow>
   length (skip_event (fst (next_events rs ps)) rs) + length (skip_event (snd (next_events rs ps)) ps) < length rs + length ps"
  by (induction rs ps rule: next_events.induct) (auto simp: skip_event_def)

text \<open>The indices \<open>i_ref\<close> and \<open>i_primer\<close> only advance: the lists are the events that are left.\<close>

function report_loop ::
    "bool \<Rightarrow> string \<Rightarrow> event list \<Rightarrow> event list \<Rightarrow> two_column \<Rightarrow> two_column res" where
  "report_loop nc disassembly events_ref events_primer out =
     (if events_ref = [] \<and> events_primer = [] then Inr out
      else
        let w = next_events events_ref events_primer
        in res_bind (print_round nc disassembly w out)
             (report_loop nc disassembly (skip_event (fst w) events_ref) (skip_event (snd w) events_primer)))"
  by pat_completeness auto

termination
  by (relation "measure (\<lambda>(nc, d, rs, ps, out). length rs + length ps)") (use next_events_progress in auto)

declare report_loop.simps [simp del]

definition event_log :: "bool \<Rightarrow> string \<Rightarrow> event list \<Rightarrow> event list \<Rightarrow> two_column res" where
  "event_log nc disassembly events_ref events_primer =
     (let out = hline (print_right ''Primer'' (print_left ''Reference'' (hline (new_two_column 50))))
      in res_bind (report_loop nc disassembly events_ref events_primer out) (\<lambda>out.
         Inr (tc_print (ansi nc 91 @ ansi nc 1 @ ''address'' @ ''*'' @ ansi nc 0 @ '' = tag present in one run but not the other'')
           (tc_print [] out))))"

subsection \<open>What the printer writes\<close>

lemma strip_ansi_append_plain:
  assumes "esc \<notin> set t" and "CHR ''m'' \<notin> set t" and "CHR ''['' \<notin> set t"
  shows "strip_ansi (s @ t) = strip_ansi s @ t"
proof (induction s rule: strip_ansi.induct)
  case 1
  have "strip_ansi u = u" if "esc \<notin> set u" for u using that by (induction u) auto
  with assms(1) show ?case by simp
next
  case (2 c s)
  show ?case
  proof (cases "c = esc \<and> s \<noteq> [] \<and> hd s = CHR ''['' \<and> CHR ''m'' \<in> set (tl s)")
    case True
    then have "tl (dropWhile (\<lambda>d. d \<noteq> CHR ''m'') (tl (s @ t))) = tl (dropWhile (\<lambda>d. d \<noteq> CHR ''m'') (tl s)) @ t"
      by (auto simp: dropWhile_append dropWhile_eq_Nil_conv)
    with True 2(1) show ?thesis by simp
  next
    case False
    have "\<not> (c = esc \<and> s @ t \<noteq> [] \<and> hd (s @ t) = CHR ''['' \<and> CHR ''m'' \<in> set (tl (s @ t)))"
    proof (cases "s = []")
      case True
      then show ?thesis using assms(3) by (cases t) auto
    next
      case False
      then show ?thesis using \<open>\<not> (c = esc \<and> s \<noteq> [] \<and> hd s = CHR ''['' \<and> CHR ''m'' \<in> set (tl s))\<close> assms(2) by auto
    qed
    with False 2(2) show ?thesis by (simp only: append_Cons strip_ansi.simps if_False not_False_eq_True)
  qed
qed

text \<open>A padded text fills the column whatever colours it has, and padding it again changes nothing.\<close>

lemma strip_ansi_pad: "strip_ansi (pad_column n s) = strip_ansi s @ replicate (n - length (strip_ansi s)) (CHR '' '')"
  unfolding pad_column_def by (rule strip_ansi_append_plain) (auto simp: esc_def)

lemma pad_fills: "length (strip_ansi (pad_column n s)) = max n (length (strip_ansi s))"
  by (simp add: strip_ansi_pad)

lemma pad_pad [simp]: "pad_column n (pad_column n s) = pad_column n s"
proof -
  have "n - length (strip_ansi (pad_column n s)) = 0" by (simp add: pad_fills)
  then show ?thesis by (simp add: pad_column_def [of n "pad_column n s"])
qed

fun rows :: "nat \<Rightarrow> string list \<Rightarrow> string list \<Rightarrow> string list" where
  "rows n (l # ls) (r # rs) = (pad_column n l @ ''| '' @ pad_column n r) # rows n ls rs"
| "rows n (l # ls) [] = (pad_column n l @ ''|'') # rows n ls []"
| "rows n [] (r # rs) = (pad_column n [] @ ''| '' @ pad_column n r) # rows n [] rs"
| "rows n [] [] = []"

abbreviation tc :: "nat \<Rightarrow> string list \<Rightarrow> bool \<Rightarrow> string list \<Rightarrow> two_column" where
  "tc n L b P \<equiv> \<lparr>tc_column_size = n, tc_lines = L, tc_right_side = b, tc_printed = P\<rparr>"

lemma rows_left: "rows n ls [] = map (\<lambda>l. pad_column n l @ ''|'') ls"
  by (induction ls) auto

lemma rows_right: "rows n [] rs = map (\<lambda>r. pad_column n [] @ ''| '' @ pad_column n r) rs"
  by (induction rs) auto

lemma fold_put_left: "fold put_left ls (tc n L False P) = tc n (L @ map (pad_column n) ls) False P"
  by (induction ls arbitrary: L) (simp_all add: put_left_def)

lemma fold_put_left_empty:
  "fold put_left ls (tc n [] b P) = tc n (map (pad_column n) ls) (b \<and> ls = []) P"
  using fold_put_left [of "tl ls" n "[pad_column n (hd ls)]" P] by (cases ls) (simp_all add: put_left_def)

lemma put_right_first: "put_right r (tc n [] b P) = tc n [pad_column n r] True P"
  by (simp add: put_right_def)

lemma fold_put_right_tail: "fold put_right rs (tc n L True P) = tc n (L @ map (pad_column n) rs) True P"
  by (induction rs arbitrary: L) (simp_all add: put_right_def)

lemma fold_flush_left: "fold flush_line L (tc n M False P) = tc n M False (P @ map (\<lambda>l. pad_column n l @ ''|'') L)"
  by (induction L arbitrary: P) (simp_all add: flush_line_def tc_print_def)

lemma fold_flush_right: "fold flush_line L (tc n M True P) = tc n M True (P @ map (\<lambda>l. pad_column n [] @ ''| '' @ l) L)"
  by (induction L arbitrary: P) (simp_all add: flush_line_def tc_print_def)

lemma tc_flush_pending:
  "tc_flush (tc n L False P) = tc n [] False (P @ map (\<lambda>l. pad_column n l @ ''|'') L)"
  "tc_flush (tc n L True P) = tc n [] True (P @ map (\<lambda>l. pad_column n [] @ ''| '' @ l) L)"
  unfolding tc_flush_def using fold_flush_left [of L n L P] fold_flush_right [of L n L P] by simp_all

lemma flush_pairs:
  "\<exists>b. tc_flush (fold put_right rs (tc n (map (pad_column n) ls) False P)) = tc n [] b (P @ rows n ls rs)"
proof (induction n ls rs arbitrary: P rule: rows.induct)
  case (1 n l ls r rs)
  from 1 [of "P @ [pad_column n l @ ''| '' @ pad_column n r]"] show ?case by (simp add: put_right_def tc_print_def)
next
  case (2 n l ls)
  then show ?case by (simp add: tc_flush_pending rows_left comp_def)
next
  case (3 n r rs)
  then show ?case
    by (intro exI [of _ True]) (simp add: put_right_first fold_put_right_tail tc_flush_pending rows_right comp_def)
next
  case (4 n)
  then show ?case by (intro exI [of _ False]) (simp add: tc_flush_def)
qed

lemma flush_right_only:
  "\<exists>b'. tc_flush (fold put_right rs (tc n [] b P)) = tc n [] b' (P @ rows n [] rs)"
proof (cases rs)
  case (Cons r rs')
  then show ?thesis
    by (intro exI [of _ True]) (simp add: put_right_first fold_put_right_tail tc_flush_pending rows_right comp_def)
qed (simp add: tc_flush_def)

text \<open>
  Both columns together: starting with no pending line, the two texts are printed line by line
  side by side, and no line is left pending.
\<close>

lemma print_columns:
  "\<exists>b'. tc_flush (print_right r (print_left l (tc n [] b P))) =
     tc n [] b' (P @ rows n (split_at (CHR 0x0A) l) (split_at (CHR 0x0A) r))"
proof -
  have "split_at (CHR 0x0A) l \<noteq> []" by (induction l) (auto split: list.splits)
  then show ?thesis unfolding print_right_def print_left_def fold_put_left_empty using flush_pairs by simp
qed

lemma print_left_only: "\<exists>b'. tc_flush (print_left l (tc n [] b P)) = tc n [] b' (P @ rows n (split_at (CHR 0x0A) l) [])"
proof -
  have "split_at (CHR 0x0A) l \<noteq> []" by (induction l) (auto split: list.splits)
  then show ?thesis unfolding print_left_def fold_put_left_empty
    using flush_pairs [of "[]" n "split_at (CHR 0x0A) l" P] by simp
qed

lemma print_right_only: "\<exists>b'. tc_flush (print_right r (tc n [] b P)) = tc n [] b' (P @ rows n [] (split_at (CHR 0x0A) r))"
  unfolding print_right_def by (rule flush_right_only)

subsection \<open>The rounds of the loop\<close>

text \<open>The reference: the pairs of events in the order in which the loop prints them.\<close>

fun rounds :: "event list \<Rightarrow> event list \<Rightarrow> (event option \<times> event option) list" where
  "rounds [] [] = []"
| "rounds [] (p # ps) = (None, Some p) # rounds [] ps"
| "rounds (r # rs) [] = (Some r, None) # rounds rs []"
| "rounds (r # rs) (p # ps) =
     (if ev_pc r < ev_pc p then (Some r, None) # rounds rs (p # ps)
      else if ev_pc r > ev_pc p then (None, Some p) # rounds (r # rs) ps
      else (Some r, Some p) # rounds rs ps)"

lemma report_loop_rounds:
  "report_loop nc disassembly rs ps out = res_fold (print_round nc disassembly) (rounds rs ps) out"
proof (induction rs ps arbitrary: out rule: rounds.induct)
  case 1
  show ?case by (simp add: report_loop.simps)
next
  case (2 p ps)
  have "report_loop nc disassembly [] ps = res_fold (print_round nc disassembly) (rounds [] ps)" using 2 by (rule ext)
  then show ?case by (subst report_loop.simps) (simp add: skip_event_def)
next
  case (3 r rs)
  have "report_loop nc disassembly rs [] = res_fold (print_round nc disassembly) (rounds rs [])" using 3 by (rule ext)
  then show ?case by (subst report_loop.simps) (simp add: skip_event_def)
next
  case (4 r rs p ps)
  consider "ev_pc r < ev_pc p" | "ev_pc p < ev_pc r" | "ev_pc r = ev_pc p" by linarith
  then show ?case
  proof cases
    case 1
    then have "report_loop nc disassembly rs (p # ps) = res_fold (print_round nc disassembly) (rounds rs (p # ps))"
      using 4(1) by (intro ext) simp
    with 1 show ?thesis by (subst report_loop.simps) (simp add: skip_event_def)
  next
    case 2
    then have "report_loop nc disassembly (r # rs) ps = res_fold (print_round nc disassembly) (rounds (r # rs) ps)"
      using 4(2) by (intro ext) simp
    with 2 show ?thesis by (subst report_loop.simps) (simp add: skip_event_def)
  next
    case 3
    then have "report_loop nc disassembly rs ps = res_fold (print_round nc disassembly) (rounds rs ps)"
      using 4(3) by (intro ext) simp
    with 3 show ?thesis by (subst report_loop.simps) (simp add: skip_event_def)
  qed
qed

lemma rounds_complete:
  "List.map_filter fst (rounds rs ps) = rs" "List.map_filter snd (rounds rs ps) = ps"
  by (induction rs ps rule: rounds.induct) (auto simp: List.map_filter_simps)

lemma rounds_aligned: "(Some r, Some p) \<in> set (rounds rs ps) \<Longrightarrow> ev_pc r = ev_pc p"
  by (induction rs ps rule: rounds.induct) (auto split: if_splits)

lemma rounds_nonempty: "w \<in> set (rounds rs ps) \<Longrightarrow> w \<noteq> (None, None)"
  by (induction rs ps rule: rounds.induct) (auto split: if_splits)

subsection \<open>The text of a round\<close>

definition side_lines :: "bool \<Rightarrow> event option \<Rightarrow> event option \<Rightarrow> string list res" where
  "side_lines nc e compare_vs = (case e of
     None \<Rightarrow> Inr []
   | Some e \<Rightarrow> res_bind (description nc e compare_vs) (\<lambda>d. Inr (split_at (CHR 0x0A) d)))"

definition round_lines :: "bool \<Rightarrow> string \<Rightarrow> nat \<Rightarrow> event option \<times> event option \<Rightarrow> string list res" where
  "round_lines nc disassembly n = (\<lambda>(ref, primer).
     res_bind (pc_to_line disassembly (case primer of Some e \<Rightarrow> ev_pc e | None \<Rightarrow> (case ref of Some e \<Rightarrow> ev_pc e | None \<Rightarrow> 0)))
       (\<lambda>line.
     res_bind (side_lines nc ref primer) (\<lambda>ls.
     res_bind (side_lines nc primer ref) (\<lambda>rs.
     Inr (line # rows n ls rs @ [replicate (n * 2 + 2) (CHR ''-'')])))))"

lemma hline_flushed: "hline (tc n [] b P) = tc n [] b (P @ [replicate (n * 2 + 2) (CHR ''-'')])"
  by (simp add: hline_def tc_flush_def tc_print_def)

lemma flush_nothing: "tc_flush (tc n [] b P) = tc n [] b P"
  by (simp add: tc_flush_def)

text \<open>A round prints its lines, or raises what one of its parts raises.\<close>

lemma print_round_lines:
  "(\<exists>ls b'. round_lines nc d n w = Inr ls \<and> print_round nc d w (tc n [] b P) = Inr (tc n [] b' (P @ ls))) \<or>
   (\<exists>e. round_lines nc d n w = Inl e \<and> print_round nc d w (tc n [] b P) = Inl e)"
proof -
  obtain ref primer where w: "w = (ref, primer)" by (cases w)
  let ?pc = "case primer of Some e \<Rightarrow> ev_pc e | None \<Rightarrow> (case ref of Some e \<Rightarrow> ev_pc e | None \<Rightarrow> 0)"
  have tp: "tc_print line (tc n [] b P) = tc n [] b (P @ [line])" for line by (simp add: tc_print_def)
  show ?thesis
  proof (cases "pc_to_line d ?pc")
    case (Inl e)
    then show ?thesis by (simp add: w round_lines_def print_round_def)
  next
    case (Inr line)
    note both = w round_lines_def print_round_def side_lines_def print_side_def
    show ?thesis
    proof (cases "(case ref of None \<Rightarrow> Inr [] | Some e \<Rightarrow> description nc e primer, case primer of None \<Rightarrow> Inr [] | Some e \<Rightarrow> description nc e ref)")
      case (Pair dl dr)
      show ?thesis
      proof (cases dl; cases dr)
        fix l r assume lr: "dl = Inr l" "dr = Inr r"
        obtain b1 where b1: "tc_flush (print_right r (print_left l (tc n [] b (P @ [line])))) =
            tc n [] b1 ((P @ [line]) @ rows n (split_at (CHR 0x0A) l) (split_at (CHR 0x0A) r))" using print_columns by blast
        obtain b2 where b2: "tc_flush (print_left l (tc n [] b (P @ [line]))) =
            tc n [] b2 ((P @ [line]) @ rows n (split_at (CHR 0x0A) l) [])" using print_left_only by blast
        obtain b3 where b3: "tc_flush (print_right r (tc n [] b (P @ [line]))) =
            tc n [] b3 ((P @ [line]) @ rows n [] (split_at (CHR 0x0A) r))" using print_right_only by blast
        from Inr Pair lr b1 b2 b3 show ?thesis
          by (auto simp: both tp hline_flushed flush_nothing split: option.splits)
      qed (use Inr Pair in \<open>auto simp: both split: option.splits\<close>)
    qed
  qed
qed

text \<open>The whole loop prints the lines of its rounds one after the other.\<close>

lemma fold_print_rounds:
  "map_sum id tc_printed (res_fold (print_round nc d) ws (tc n [] b P)) =
   map_sum id (\<lambda>ls. P @ concat ls) (res_map (round_lines nc d n) ws)"
proof (induction ws arbitrary: b P)
  case (Cons w ws)
  from print_round_lines [of nc d n w b P] show ?case
  proof (elim disjE exE conjE)
    fix ls b' assume "round_lines nc d n w = Inr ls" "print_round nc d w (tc n [] b P) = Inr (tc n [] b' (P @ ls))"
    with Cons.IH [of b' "P @ ls"] show ?thesis
      by (cases "res_map (round_lines nc d n) ws") auto
  qed simp
qed simp

lemma event_log_start:
  "\<exists>b. hline (print_right ''Primer'' (print_left ''Reference'' (hline (new_two_column n)))) =
     tc n [] b [replicate (n * 2 + 2) (CHR ''-''), pad_column n ''Reference'' @ ''| '' @ pad_column n ''Primer'', replicate (n * 2 + 2) (CHR ''-'')]"
proof -
  let ?dash = "replicate (n * 2 + 2) (CHR ''-'')"
  have start: "hline (new_two_column n) = tc n [] False [?dash]"
    by (simp add: new_two_column_def hline_def tc_flush_def tc_print_def)
  have hl: "hline out = hline (tc_flush out)" for out by (simp add: hline_def tc_flush_def)
  obtain b where "tc_flush (print_right ''Primer'' (print_left ''Reference'' (tc n [] False [?dash]))) =
      tc n [] b ([?dash] @ rows n (split_at (CHR 0x0A) ''Reference'') (split_at (CHR 0x0A) ''Primer''))"
    using print_columns by blast
  then have "hline (print_right ''Primer'' (print_left ''Reference'' (tc n [] False [?dash]))) =
      hline (tc n [] b ([?dash] @ rows n (split_at (CHR 0x0A) ''Reference'') (split_at (CHR 0x0A) ''Primer'')))"
    by (subst hl) simp
  then show ?thesis unfolding start by (simp add: hline_flushed)
qed

subsection \<open>When a description raises\<close>

definition is_access :: "event \<Rightarrow> bool" where
  "is_access e = (case e of Access a \<Rightarrow> True | _ \<Rightarrow> False)"

definition is_prediction :: "event \<Rightarrow> bool" where
  "is_prediction e = (case e of BranchPrediction t pc target \<Rightarrow> True | _ \<Rightarrow> False)"

text \<open>An access can be compared with an access, a prediction with a prediction, a squash with everything.\<close>

definition comparable :: "event \<Rightarrow> event \<Rightarrow> bool" where
  "comparable e e' = (case e of
     Access a \<Rightarrow> is_access e' \<or> (ac_is_violation a \<and> ac_data a = [])
   | BranchPrediction t pc target \<Rightarrow> is_prediction e'
   | _ \<Rightarrow> True)"

lemma get_vaddr_raises: "get_vaddr e = (case e of Access a \<Rightarrow> Inr (ac_vaddr a) | _ \<Rightarrow> Inl AttributeError)"
  and get_data_raises: "get_data e = (case e of Access a \<Rightarrow> Inr (ac_data a) | _ \<Rightarrow> Inl AttributeError)"
  and get_target_raises: "get_target e = (case e of BranchPrediction t pc target \<Rightarrow> Inr target | _ \<Rightarrow> Inl AttributeError)"
  by (cases e; simp)+

lemma access_description_Inl_iff:
  "access_description nc a c = Inl x \<longleftrightarrow> x = AttributeError \<and> (\<exists>e. c = Some e \<and> \<not> comparable (Access a) e)"
proof (cases c)
  case None
  then show ?thesis by (simp add: access_description_def Let_def)
next
  case (Some e)
  then show ?thesis
    by (cases e) (auto simp: access_description_def Let_def comparable_def is_access_def)
qed

lemma description_Inl_iff:
  "description nc e c = Inl x \<longleftrightarrow> x = AttributeError \<and> (\<exists>e'. c = Some e' \<and> \<not> comparable e e')"
proof (cases e)
  case (Access a)
  then show ?thesis by (simp add: access_description_Inl_iff)
next
  case (BranchPrediction t pc target)
  then show ?thesis
    by (cases c) (auto simp: get_target_raises comparable_def is_prediction_def split: event.splits)
qed (simp_all add: comparable_def)

subsection \<open>The report\<close>

definition round_pc :: "event option \<times> event option \<Rightarrow> nat" where
  "round_pc w = (case snd w of Some e \<Rightarrow> ev_pc e | None \<Rightarrow> (case fst w of Some e \<Rightarrow> ev_pc e | None \<Rightarrow> 0))"

text \<open>A round that does not raise: its address is found at most once in the disassembly, and its events are comparable.\<close>

definition comparable_round :: "string \<Rightarrow> event option \<times> event option \<Rightarrow> bool" where
  "comparable_round disassembly w \<longleftrightarrow> (case pc_to_line disassembly (round_pc w) of Inl e \<Rightarrow> False | Inr line \<Rightarrow> True) \<and>
     (case w of (Some r, Some p) \<Rightarrow> comparable r p \<and> comparable p r | _ \<Rightarrow> True)"

lemma side_lines_Inr_iff:
  "(\<exists>ls. side_lines nc e c = Inr ls) \<longleftrightarrow> (\<forall>x y. e = Some x \<longrightarrow> c = Some y \<longrightarrow> comparable x y)"
proof (cases e)
  case None
  then show ?thesis by (simp add: side_lines_def)
next
  case (Some x)
  then show ?thesis
    using description_Inl_iff [of nc x c] by (cases "description nc x c") (auto simp: side_lines_def)
qed

lemma round_lines_Inr_iff: "(\<exists>ls. round_lines nc d n w = Inr ls) \<longleftrightarrow> comparable_round d w"
proof -
  obtain r p where w: "w = (r, p)" by (cases w)
  show ?thesis
    using side_lines_Inr_iff [of nc r p] side_lines_Inr_iff [of nc p r]
    by (cases r; cases p)
       (auto simp: w round_lines_def comparable_round_def round_pc_def res_bind_Inr_iff split: sum.splits)
qed

lemma res_map_Inr_ex: "(\<exists>ys. res_map f xs = Inr ys) \<longleftrightarrow> (\<forall>x \<in> set xs. \<exists>y. f x = Inr y)"
  by (induction xs) (auto simp: res_bind_Inr_iff)

definition report_header :: "string list" where
  "report_header = [replicate 102 (CHR ''-''), pad_column 50 ''Reference'' @ ''| '' @ pad_column 50 ''Primer'', replicate 102 (CHR ''-'')]"

definition report_legend :: "bool \<Rightarrow> string" where
  "report_legend nc = ansi nc 91 @ ansi nc 1 @ ''address'' @ ''*'' @ ansi nc 0 @ '' = tag present in one run but not the other''"

lemma event_log_printed:
  "map_sum id tc_printed (event_log nc d rs ps) =
   map_sum id (\<lambda>ls. report_header @ concat ls @ [[], report_legend nc]) (res_map (round_lines nc d 50) (rounds rs ps))"
proof -
  obtain b where b: "hline (print_right ''Primer'' (print_left ''Reference'' (hline (new_two_column 50)))) = tc 50 [] b report_header"
    using event_log_start [of 50] by (auto simp: report_header_def)
  show ?thesis
    using fold_print_rounds [of nc d "rounds rs ps" 50 b report_header]
    unfolding event_log_def Let_def b report_loop_rounds
    by (cases "res_fold (print_round nc d) (rounds rs ps) (tc 50 [] b report_header)";
        cases "res_map (round_lines nc d 50) (rounds rs ps)")
       (auto simp: tc_print_def report_legend_def)
qed

text \<open>
  C40. The report of a violation is complete and in order. When no round raises, the script finishes and prints,
  below the header, the lines of one round after the other; the left sides of the rounds are exactly the reference
  events in their order, the right sides exactly the primer events, and two events share a round
  only if they belong to the same instruction.
\<close>

theorem event_log_complete:
  assumes "list_all (comparable_round disassembly) (rounds events_ref events_primer)"
  shows "\<exists>out lines. event_log no_color disassembly events_ref events_primer = Inr out \<and>
    res_map (round_lines no_color disassembly 50) (rounds events_ref events_primer) = Inr lines \<and>
    tc_printed out = report_header @ concat lines @ [[], report_legend no_color] \<and>
    List.map_filter fst (rounds events_ref events_primer) = events_ref \<and>
    List.map_filter snd (rounds events_ref events_primer) = events_primer \<and>
    (\<forall>r p. (Some r, Some p) \<in> set (rounds events_ref events_primer) \<longrightarrow> ev_pc r = ev_pc p)"
proof -
  from assms round_lines_Inr_iff obtain lines
    where l: "res_map (round_lines no_color disassembly 50) (rounds events_ref events_primer) = Inr lines"
    using res_map_Inr_ex by (metis list_all_iff)
  with event_log_printed [of no_color disassembly events_ref events_primer] obtain out
    where "event_log no_color disassembly events_ref events_primer = Inr out"
      "tc_printed out = report_header @ concat lines @ [[], report_legend no_color]"
    by (cases "event_log no_color disassembly events_ref events_primer") auto
  with l rounds_complete rounds_aligned show ?thesis by blast
qed

definition ex_ref_events :: "event list" where
  "ex_ref_events = [SquashBranch 5 0x402010, SquashBranch 9 0x402020]"

definition ex_primer_events :: "event list" where
  "ex_primer_events = [SquashBranch 7 0x402020]"

lemma ex_rounds:
  "rounds ex_ref_events ex_primer_events =
     [(Some (SquashBranch 5 0x402010), None), (Some (SquashBranch 9 0x402020), Some (SquashBranch 7 0x402020))]"
  by (simp add: ex_ref_events_def ex_primer_events_def)

theorem event_log_complete_witness:
  "list_all (comparable_round []) (rounds ex_ref_events ex_primer_events) \<and>
   (\<exists>out. event_log True [] ex_ref_events ex_primer_events = Inr out \<and> length (rounds ex_ref_events ex_primer_events) = 2)"
proof -
  have ok: "list_all (comparable_round []) (rounds ex_ref_events ex_primer_events)"
    by (simp add: ex_rounds comparable_round_def round_pc_def pc_to_line_def comparable_def)
  from event_log_complete [OF this] obtain out where "event_log True [] ex_ref_events ex_primer_events = Inr out" by blast
  with ok show ?thesis by (simp add: ex_rounds)
qed

text \<open>
  The other direction: a round that pairs events that cannot be compared ends the script without a report, for
  example an access of one run and a squash of the same instruction in the other.
\<close>

lemma event_log_raises:
  assumes "(Some r, Some p) \<in> set (rounds events_ref events_primer)" and "\<not> comparable r p \<or> \<not> comparable p r"
  shows "\<exists>e. event_log no_color disassembly events_ref events_primer = Inl e"
proof -
  from assms(2) have "\<not> comparable_round disassembly (Some r, Some p)" by (auto simp: comparable_round_def)
  with assms(1) have "\<nexists>lines. res_map (round_lines no_color disassembly 50) (rounds events_ref events_primer) = Inr lines"
    unfolding res_map_Inr_ex round_lines_Inr_iff by blast
  with event_log_printed [of no_color disassembly events_ref events_primer] show ?thesis
    by (cases "event_log no_color disassembly events_ref events_primer";
        cases "res_map (round_lines no_color disassembly 50) (rounds events_ref events_primer)") auto
qed

definition ex_squashed_load :: access where
  "ex_squashed_load = \<lparr>ac_tick = 9, ac_pc = 0x402010, ac_is_store = False, ac_is_violation = False, ac_data = [],
     ac_squashed_at = Some 12, ac_paddr = 0x1048, ac_vaddr = 0x48, ac_seq_num = 7\<rparr>"

lemma mixed_round_raises: "\<exists>e. event_log no_color disassembly [Access ex_squashed_load] [SquashBranch 5 0x402010] = Inl e"
  by (rule event_log_raises [of "Access ex_squashed_load" "SquashBranch 5 0x402010"])
     (simp_all add: ex_squashed_load_def comparable_def is_access_def)

subsection \<open>Scripts that read the output\<close>

text \<open>
  \<open>check_violation\<close> of \<^verbatim>\<open>non_spec_vio_checker.py\<close> with the contents of \<^verbatim>\<open>analysis.txt\<close>, if it exists: whether the directory is
  reported. Directories of bugs are skipped.
\<close>

definition check_violation :: "string \<Rightarrow> string option \<Rightarrow> bool res" where
  "check_violation basename analysis_file =
     (if ends_with basename ''_bugs'' then Inr False
      else case analysis_file of
        None \<Rightarrow> Inl AssertionError
      | Some contents \<Rightarrow> res_bind (py_assert (contents \<noteq> [])) (\<lambda>_.
          Inr (list_ex (\<lambda>line. contains line ''Non-speculative violation found!'') (split_lines contents))))"

text \<open>\<open>get_violation_count\<close> and \<open>get_case_count\<close> of \<^verbatim>\<open>benchmark.py\<close>: the last number in the last line that has one.\<close>

definition last_count :: "piece list \<Rightarrow> string list \<Rightarrow> nat option" where
  "last_count pattern stdout =
     first_some (\<lambda>line. case findall False pattern line of [] \<Rightarrow> None | ms \<Rightarrow> Some (read_decimal (last ms ! 0))) (rev stdout)"

definition get_violation_count :: "string list \<Rightarrow> nat option" where
  "get_violation_count = last_count [Lit ''Viol:'', digits_group]"

definition get_case_count :: "string list \<Rightarrow> nat option" where
  "get_case_count = last_count [Lit ''Progress:'', Run is_space 0, digits_group]"

text \<open>A line without the literal of the pattern has no match, so that only the last status line counts.\<close>

lemma find_all_absent:
  assumes "\<not> contains s l" and "l \<noteq> []"
  shows "find_all False (Lit l # ps) bol s = []"
  using assms(1)
proof (induction s arbitrary: bol)
  case (Cons c s)
  then have "\<not> starts_with (c # s) l" "\<not> contains s l" by auto
  with Cons.IH show ?case by simp
qed simp

lemma last_count_skips:
  assumes "\<forall>line \<in> set later. \<not> contains line l" and "l \<noteq> []"
  shows "last_count (Lit l # ps) (stdout @ later) = last_count (Lit l # ps) stdout"
proof -
  have none: "findall False (Lit l # ps) line = []" if "line \<in> set later" for line
    using that assms find_all_absent by (simp add: findall_def)
  have "first_some f (xs @ ys) = first_some f ys" if "\<forall>x \<in> set xs. f x = None" for f :: "string \<Rightarrow> nat option" and xs ys
    using that by (induction xs) auto
  then show ?thesis unfolding last_count_def rev_append using none by simp
qed

text \<open>The count of a status line \<open>Viol:n, \<close> is read back, whatever lines without a status follow.\<close>

lemma get_violation_count_status:
  assumes "CHR ''V'' \<notin> set before" and "\<forall>line \<in> set later. \<not> contains line ''Viol:''"
  shows "get_violation_count (stdout @ [before @ ''Viol:'' @ nat_str n @ '', ''] @ later) = Some n"
proof -
  let ?ps = "[Lit ''Viol:'', digits_group]"
  have tail: "find_all False ?ps b '', '' = []" for b by (simp add: find_all.simps)
  have m: "match_pieces ?ps (''Viol:'' @ nat_str n @ '', '') = Some ([nat_str n], '', '')"
    by (intro match_lit match_digits) (simp_all add: is_digit_def)
  have hit: "map fst (find_all False ?ps b (''Viol:'' @ nat_str n @ '', '')) = [[nat_str n]]" for b
    using m tail by (simp add: Let_def)
  have "map fst (find_all False ?ps b (before @ ''Viol:'' @ nat_str n @ '', '')) = [[nat_str n]]" for b
    using assms(1)
  proof (induction before arbitrary: b)
    case Nil
    with hit [of b] show ?case by (simp only: append_Nil)
  next
    case (Cons c before)
    then have "c \<noteq> CHR ''V''" by auto
    then have "match_pieces ?ps (c # t) = None" for t by simp
    with Cons show ?case by simp
  qed
  then have "last_count ?ps (stdout @ [before @ ''Viol:'' @ nat_str n @ '', '']) = Some n"
    by (simp add: last_count_def findall_def)
  then show ?thesis
    using last_count_skips [OF assms(2), of "[digits_group]" "stdout @ [before @ ''Viol:'' @ nat_str n @ '', '']"]
    by (simp add: get_violation_count_def)
qed

end
